(* ===== verification/YapPrelude.thy ===== *)
theory YapPrelude
  imports Complex_Main "HOL-Library.Word" "HOL-Library.Signed_Division"
begin

text \<open>
  Shared notions of the development: the machine types of the 64-bit build (\<open>CELL\<close>,
  \<open>UInt\<close> and \<open>Int\<close> are all 64-bit words, \<open>Int\<close> being read with \<open>sint\<close>), C's
  truncating division on \<open>Int\<close>, and the generic facts on two's complement words and on
  C division that every arithmetic component uses.
\<close>

unbundle bit_operations_syntax

named_theorems c_int \<open>reading a wrapped C integer back when it did not overflow\<close>
named_theorems gmp_defs \<open>unfolding equations of the bignum operations\<close>
named_theorems arith_defs \<open>unfolding equations of the arithmetic evaluator\<close>

section \<open>Machine words\<close>

type_synonym cell = "64 word"

text \<open>The C type \<open>Int\<close>: a cell whose bits are read as two's complement.\<close>

type_synonym cint = "64 word"

abbreviation Int_MIN :: cint where
  "Int_MIN \<equiv> 0x8000000000000000"

abbreviation Int_MAX :: cint where
  "Int_MAX \<equiv> 0x7FFFFFFFFFFFFFFF"

definition fits_Int :: "int \<Rightarrow> bool" where
  "fits_Int x \<longleftrightarrow> - (2 ^ 63) \<le> x \<and> x < 2 ^ 63"

lemma fits_sint [simp]: "fits_Int (sint (w :: cint))"
  using sint_greater_eq [of w] sint_less [of w] by (simp add: fits_Int_def)

lemma sint_of_int_fits [c_int]: "fits_Int x \<Longrightarrow> sint (word_of_int x :: cint) = x"
  by (simp add: sint_sbintrunc' signed_take_bit_int_eq_self fits_Int_def)

lemma sint_add_fits [c_int]:
  "fits_Int (sint a + sint b) \<Longrightarrow> sint (a + b :: cint) = sint a + sint b"
  by (simp add: sint_word_ariths signed_take_bit_int_eq_self fits_Int_def)

lemma sint_diff_fits [c_int]:
  "fits_Int (sint a - sint b) \<Longrightarrow> sint (a - b :: cint) = sint a - sint b"
  by (simp add: sint_word_ariths signed_take_bit_int_eq_self fits_Int_def)

lemma sint_mult_fits [c_int]:
  "fits_Int (sint a * sint b) \<Longrightarrow> sint (a * b :: cint) = sint a * sint b"
  by (simp add: sint_word_ariths signed_take_bit_int_eq_self fits_Int_def)

lemma sint_uminus_fits [c_int]:
  "fits_Int (- sint a) \<Longrightarrow> sint (- a :: cint) = - sint a"
  by (simp add: sint_word_ariths signed_take_bit_int_eq_self fits_Int_def)

lemma sint_Int_MIN [simp]: "sint Int_MIN = - (2 ^ 63)"
  by (simp add: sint_uint signed_take_bit_eq_if_negative)

lemma sint_Int_MAX [simp]: "sint Int_MAX = 2 ^ 63 - 1"
  by (simp add: sint_uint signed_take_bit_eq_if_positive)

lemma sint_inj [simp]: "sint (a :: cint) = sint b \<longleftrightarrow> a = b"
  by (metis of_int_sint scast_id)

lemma word_of_int_sint: "word_of_int (sint (a :: cint)) = a"
  by simp

lemma eq_Int_MIN_iff: "a = Int_MIN \<longleftrightarrow> sint a = - (2 ^ 63)"
  by (metis sint_Int_MIN sint_inj)

lemma eq_minus_one_iff: "(a :: cint) = - 1 \<longleftrightarrow> sint a = - 1"
  by (metis sint_inj sint_n1)

lemma eq_zero_iff_sint: "(a :: cint) = 0 \<longleftrightarrow> sint a = 0"
  by (metis sint_inj sint_0)

text \<open>The conversion to \<open>unsigned long\<close> that a call with an \<open>unsigned\<close> parameter makes.\<close>

lemma uint_eq_sint:
  assumes "0 \<le> sint (a :: cint)"
  shows "uint a = sint a"
  using assms sint_less [of a] by (simp add: uint_sint take_bit_int_eq_self)

lemma uint_uminus_sint:
  assumes "sint (a :: cint) < 0"
  shows "uint (- a) = - sint a"
proof -
  have "uint (- a) = take_bit 64 (- sint a)"
    by (simp add: uint_sint sint_word_minus take_bit_signed_take_bit)
  then show ?thesis
    using assms sint_greater_eq [of a] by (simp add: take_bit_int_eq_self)
qed

section \<open>C operators on Int\<close>

text \<open>
  The operators of C on signed 64-bit operands. Division truncates towards zero and the
  remainder has the sign of the dividend; the right shift is arithmetic; comparisons read
  both sides as two's complement. Additions, subtractions, multiplications and negations
  wrap, as the word operations do.
\<close>

definition c_div :: "cint \<Rightarrow> cint \<Rightarrow> cint" where
  "c_div a b = word_of_int (sint a sdiv sint b)"

definition c_mod :: "cint \<Rightarrow> cint \<Rightarrow> cint" where
  "c_mod a b = word_of_int (sint a smod sint b)"

definition c_less :: "cint \<Rightarrow> cint \<Rightarrow> bool" where
  "c_less a b \<longleftrightarrow> sint a < sint b"

definition c_le :: "cint \<Rightarrow> cint \<Rightarrow> bool" where
  "c_le a b \<longleftrightarrow> sint a \<le> sint b"

definition c_shr :: "cint \<Rightarrow> nat \<Rightarrow> cint" where
  "c_shr a n = signed_drop_bit n a"

lemma sint_c_mod: "sint (c_mod a b) = sint a smod sint b"
proof -
  have "fits_Int (sint a smod sint b)"
  proof (cases "sint b = 0")
    case False
    have "\<bar>sint b\<bar> \<le> 2 ^ 63"
      using sint_greater_eq [of b] sint_less [of b] by simp
    with smod_int_range [OF False, of "sint a"] show ?thesis by (auto simp: fits_Int_def)
  qed simp
  then show ?thesis by (simp add: c_mod_def c_int)
qed

lemma sint_c_div:
  assumes "\<not> (a = Int_MIN \<and> b = - 1)"
  shows "sint (c_div a b) = sint a sdiv sint b"
proof -
  have a: "\<bar>sint a\<bar> \<le> 2 ^ 63" "sint a < 2 ^ 63" "- (2 ^ 63) \<le> sint a"
    using sint_greater_eq [of a] sint_less [of a] by simp_all
  have "sint a sdiv sint b \<noteq> 2 ^ 63"
  proof
    assume eq: "sint a sdiv sint b = 2 ^ 63"
    with sdiv_int_range [of "sint a" "sint b"] a have "sint a = - (2 ^ 63)" by auto
    with eq int_sdiv_negated_is_minus1 [of "sint a" "sint b"] have "sint b = - 1" by simp
    with assms \<open>sint a = - (2 ^ 63)\<close> show False
      unfolding eq_Int_MIN_iff eq_minus_one_iff by blast
  qed
  with sdiv_int_range [of "sint a" "sint b"] a have "fits_Int (sint a sdiv sint b)"
    by (auto simp: fits_Int_def)
  then show ?thesis by (simp add: c_div_def c_int)
qed

lemma sint_c_shr: "sint (c_shr a n) = drop_bit n (sint a)"
  by (simp add: c_shr_def sint_signed_drop_bit_eq)

text \<open>Floored division and modulus from the truncating ones, as C code corrects them.\<close>

lemma div_from_sdiv:
  fixes a b :: int
  shows "a div b = (a - a mod b) sdiv b"
  by (cases "b = 0")
    (auto simp: signed_divide_int_eq_divide_int minus_mod_eq_div_mult dvd_minus_mod)

lemma mod_from_smod:
  fixes a b :: int
  assumes "b \<noteq> 0"
  shows "a mod b = (if a smod b \<noteq> 0 \<and> (a smod b < 0) \<noteq> (b < 0) then a smod b + b else a smod b)"
proof -
  have zero: "a smod b = 0 \<longleftrightarrow> b dvd a"
    by (simp add: smod_int_alt_def sgn_eq_0_iff dvd_eq_mod_eq_0 [symmetric]) auto
  show ?thesis
  proof (cases "b dvd a")
    case True
    then show ?thesis by (simp add: zero dvd_imp_mod_0 zero [THEN iffD2])
  next
    case False
    then have "a \<noteq> 0" and "\<bar>a\<bar> mod \<bar>b\<bar> > 0"
      using assms by (auto simp: dvd_eq_mod_eq_0 [symmetric] order_less_le)
    then have "a smod b < 0 \<longleftrightarrow> a < 0"
      by (simp add: smod_int_alt_def sgn_if mult_less_0_iff)
    with False \<open>a \<noteq> 0\<close> assms zero show ?thesis
      by (auto simp: modulo_int_eq_signed_modulo_int sgn_if)
  qed
qed

section \<open>Computations that may throw\<close>

text \<open>
  A C function that may call \<open>Yap_ArithError\<close> (which never returns: it unwinds the C stack
  to the enclosing catch) is a function into a sum type, the error being the left summand.
\<close>

definition bindE :: "'e + 'a \<Rightarrow> ('a \<Rightarrow> 'e + 'b) \<Rightarrow> 'e + 'b" where
  "bindE m f = (case m of Inl e \<Rightarrow> Inl e | Inr a \<Rightarrow> f a)"

lemma bindE_simps [simp]: "bindE (Inl e) f = Inl e" "bindE (Inr a) f = f a"
  by (simp_all add: bindE_def)

lemma bindE_cong [fundef_cong]:
  "m = m' \<Longrightarrow> (\<And>a. m' = Inr a \<Longrightarrow> f a = g a) \<Longrightarrow> bindE m f = bindE m' g"
  by (cases m') simp_all

lemma bindE_eq_Inr_iff: "bindE m f = Inr b \<longleftrightarrow> (\<exists>a. m = Inr a \<and> f a = Inr b)"
  by (cases m) simp_all

end
