(* ===== verification/YapTags.thy ===== *)
theory YapTags
  imports YapPrelude
begin

text \<open>
  The 64-bit tagging scheme of terms (H/Tags_64bits.h and the scheme-independent part of
  H/YapTags.h). A term is one machine word: three low tag bits, three high tag bits, and a
  payload between them. The definitions keep the names of the macros and inline functions;
  a C \<open>int\<close> used as a truth value is a \<open>bool\<close>.
\<close>

section \<open>Tag constants\<close>

definition SHIFT_HIGH_TAG :: nat where
  "SHIFT_HIGH_TAG = 61"

definition MKTAG :: "cell \<Rightarrow> cell \<Rightarrow> cell" where
  "MKTAG hi lo = push_bit SHIFT_HIGH_TAG hi OR lo"

definition TagBits :: cell where
  "TagBits = MKTAG 7 7"

definition LowTagBits :: cell where
  "LowTagBits = MKTAG 0 7"

definition MaskPrim :: cell where
  "MaskPrim = push_bit 3 (push_bit (SHIFT_HIGH_TAG - 3) 1 - 1)"

definition NumberTag :: cell where
  "NumberTag = MKTAG 1 1"

definition AtomTag :: cell where
  "AtomTag = MKTAG 0 1"

definition MAX_ABS_INT :: cint where
  "MAX_ABS_INT = push_bit 3 (push_bit (62 - (3 + 3)) 1)"

definition PairBits :: cell where
  "PairBits = 2"

definition ApplBits :: cell where
  "ApplBits = 4"

section \<open>Tag operations\<close>

definition TagOf :: "cell \<Rightarrow> cell" where
  "TagOf t = t AND TagBits"

definition LowTagOf :: "cell \<Rightarrow> cell" where
  "LowTagOf t = t AND LowTagBits"

definition NonTagPart :: "cell \<Rightarrow> cell" where
  "NonTagPart x = x AND MaskPrim"

definition TAGGEDA :: "cell \<Rightarrow> cell \<Rightarrow> cell" where
  "TAGGEDA tag v = tag OR v"

definition TAGGED :: "cell \<Rightarrow> cell \<Rightarrow> cell" where
  "TAGGED tag v = tag OR NonTagPart (push_bit 3 v)"

definition CHKTAG :: "cell \<Rightarrow> cell \<Rightarrow> bool" where
  "CHKTAG t tag \<longleftrightarrow> (t AND TagBits) = tag"

definition IsVarTerm :: "cell \<Rightarrow> bool" where
  "IsVarTerm t \<longleftrightarrow> t AND 7 = 0"

definition IsNonVarTerm :: "cell \<Rightarrow> bool" where
  "IsNonVarTerm t \<longleftrightarrow> t AND 7 \<noteq> 0"

definition RepPair :: "cell \<Rightarrow> cell" where
  "RepPair t = t - PairBits"

definition AbsPair :: "cell \<Rightarrow> cell" where
  "AbsPair p = p + PairBits"

definition IsPairTerm :: "cell \<Rightarrow> bool" where
  "IsPairTerm t \<longleftrightarrow> t AND 2 \<noteq> 0"

definition RepAppl :: "cell \<Rightarrow> cell" where
  "RepAppl t = t - ApplBits"

definition AbsAppl :: "cell \<Rightarrow> cell" where
  "AbsAppl p = p + ApplBits"

definition IsApplTerm :: "cell \<Rightarrow> bool" where
  "IsApplTerm t \<longleftrightarrow> t AND 4 \<noteq> 0"

definition IsAtomOrIntTerm :: "cell \<Rightarrow> bool" where
  "IsAtomOrIntTerm t \<longleftrightarrow> (t AND LowTagBits) = 1"

text \<open>The right shift of a signed \<open>Int\<close> is arithmetic.\<close>

definition IntOfTerm :: "cell \<Rightarrow> cint" where
  "IntOfTerm t = signed_drop_bit 6 (push_bit 3 t)"

definition MkAtomTerm :: "cell \<Rightarrow> cell" where
  "MkAtomTerm a = TAGGEDA AtomTag a"

definition AtomOfTerm :: "cell \<Rightarrow> cell" where
  "AtomOfTerm t = NonTagPart t"

definition IsAtomTerm :: "cell \<Rightarrow> bool" where
  "IsAtomTerm t \<longleftrightarrow> CHKTAG t AtomTag"

definition MkIntTerm :: "cint \<Rightarrow> cell" where
  "MkIntTerm n = TAGGED NumberTag n"

definition IsIntTerm :: "cell \<Rightarrow> bool" where
  "IsIntTerm t \<longleftrightarrow> CHKTAG t NumberTag"

text \<open>The test that selects the tagged representation of an integer.\<close>

definition IntInBnd :: "cint \<Rightarrow> bool" where
  "IntInBnd x \<longleftrightarrow> sint x < sint MAX_ABS_INT \<and> sint x > sint (- MAX_ABS_INT - 1)"

section \<open>Bits of the constants\<close>

lemmas tag_consts = MKTAG_def SHIFT_HIGH_TAG_def TagBits_def LowTagBits_def MaskPrim_def
  NumberTag_def AtomTag_def PairBits_def ApplBits_def

lemma bit_two: "bit (2 :: cell) i \<longleftrightarrow> i = 1"
proof -
  have "(2 :: cell) = push_bit 1 1" by simp
  then show ?thesis by (simp only: bit_push_bit_iff bit_1_iff) auto
qed

lemma bit_four: "bit (4 :: cell) i \<longleftrightarrow> i = 2"
proof -
  have "(4 :: cell) = push_bit 2 1" by simp
  then show ?thesis by (simp only: bit_push_bit_iff bit_1_iff) auto
qed

lemma TagBits_masks: "TagBits = push_bit 61 (mask 3) OR mask 3"
  by (simp add: tag_consts mask_eq_exp_minus_1)

lemma MaskPrim_mask: "MaskPrim = push_bit 3 (mask 58)"
  by (simp add: tag_consts mask_eq_exp_minus_1)

lemma NumberTag_bits: "NumberTag = push_bit 61 1 OR push_bit 0 1"
  by (simp add: tag_consts)

lemma AtomTag_bits: "AtomTag = push_bit 0 1"
  by (simp add: tag_consts)

lemma seven_mask: "(7 :: cell) = mask 3"
  by (simp add: mask_eq_exp_minus_1)

lemma bit_seven: "bit (7 :: cell) i \<longleftrightarrow> i < 3"
  by (simp only: seven_mask bit_mask_iff) auto

lemma bit_TagBits: "bit TagBits i \<longleftrightarrow> i < 3 \<or> (61 \<le> i \<and> i < 64)"
  by (simp only: TagBits_masks bit_or_iff bit_push_bit_iff bit_mask_iff) auto

lemma bit_MaskPrim: "bit MaskPrim i \<longleftrightarrow> 3 \<le> i \<and> i < 61"
  by (simp only: MaskPrim_mask bit_push_bit_iff bit_mask_iff) auto

lemma bit_NumberTag: "bit NumberTag i \<longleftrightarrow> i = 0 \<or> i = 61"
  by (simp only: NumberTag_bits bit_or_iff bit_push_bit_iff bit_1_iff) auto

lemma bit_AtomTag: "bit AtomTag i \<longleftrightarrow> i = 0"
  by (simp only: AtomTag_bits bit_push_bit_iff bit_1_iff) auto

lemmas tag_bits = bit_seven bit_two bit_four bit_TagBits bit_MaskPrim bit_NumberTag bit_AtomTag

lemma bit_IntOfTerm_MkIntTerm:
  "i < 64 \<Longrightarrow> bit (IntOfTerm (MkIntTerm n)) i \<longleftrightarrow> bit n (min i 57)"
  by (auto simp: IntOfTerm_def MkIntTerm_def TAGGED_def NonTagPart_def bit_signed_drop_bit_iff
      bit_push_bit_iff bit_or_iff bit_and_iff bit_MaskPrim bit_NumberTag min_def)

lemma sint_IntOfTerm_MkIntTerm:
  "sint (IntOfTerm (MkIntTerm n)) = signed_take_bit 57 (sint n)"
proof (rule bit_eqI)
  fix i
  show "bit (sint (IntOfTerm (MkIntTerm n))) i \<longleftrightarrow> bit (signed_take_bit 57 (sint n)) i"
  proof (cases "i < 64")
    case True
    then show ?thesis
      by (auto simp: bit_sint_iff bit_signed_take_bit_iff bit_IntOfTerm_MkIntTerm min_def)
  next
    case False
    then have "\<not> bit (IntOfTerm (MkIntTerm n)) i" by (auto dest: bit_imp_le_length)
    with False show ?thesis
      by (auto simp: bit_sint_iff bit_signed_take_bit_iff bit_IntOfTerm_MkIntTerm min_def
          dest: bit_imp_le_length)
  qed
qed

lemma IntOfTerm_MkIntTerm:
  assumes "- (2 ^ 57) \<le> sint n" and "sint n < 2 ^ 57"
  shows "IntOfTerm (MkIntTerm n) = n"
proof -
  have "sint (IntOfTerm (MkIntTerm n)) = sint n"
    using assms by (simp add: sint_IntOfTerm_MkIntTerm signed_take_bit_int_eq_self)
  then show ?thesis by simp
qed

lemma IsIntTerm_MkIntTerm: "IsIntTerm (MkIntTerm n)"
  unfolding IsIntTerm_def CHKTAG_def MkIntTerm_def TAGGED_def NonTagPart_def
  by (rule bit_word_eqI) (auto simp: bit_and_iff bit_or_iff tag_bits)

lemma aligned_bits:
  assumes "p AND 7 = (0 :: cell)" and "i < 3"
  shows "\<not> bit p i"
proof -
  have "\<not> bit (p AND 7) i" by (simp add: assms(1))
  then show ?thesis using assms(2) unfolding bit_and_iff bit_seven by simp
qed

lemma aligned_and:
  assumes "p AND 7 = (0 :: cell)"
  shows "p AND 2 = 0" and "p AND 4 = 0"
proof -
  have "p AND 2 = (p AND 7) AND 2" and "p AND 4 = (p AND 7) AND 4"
    by (simp_all add: and.assoc)
  then show "p AND 2 = 0" and "p AND 4 = 0" by (simp_all add: assms)
qed

lemma AbsPair_or: "p AND 7 = 0 \<Longrightarrow> AbsPair p = p OR 2"
  unfolding AbsPair_def PairBits_def by (rule disjunctive_add_eq_or) (rule aligned_and)

lemma AbsAppl_or: "p AND 7 = 0 \<Longrightarrow> AbsAppl p = p OR 4"
  unfolding AbsAppl_def ApplBits_def by (rule disjunctive_add_eq_or) (rule aligned_and)

lemma sint_MAX_ABS_INT: "sint MAX_ABS_INT = 2 ^ 59"
  by (simp add: MAX_ABS_INT_def sint_uint)

lemma IntInBnd_iff: "IntInBnd x \<longleftrightarrow> - (2 ^ 59) \<le> sint x \<and> sint x < 2 ^ 59"
proof -
  have "sint (- MAX_ABS_INT - 1) = - (2 ^ 59) - 1"
    by (simp add: MAX_ABS_INT_def sint_uint)
  then show ?thesis by (auto simp: IntInBnd_def sint_MAX_ABS_INT)
qed

text \<open>
  The integers that \<open>IntInBnd\<close> sends to the tagged representation but whose 58-bit
  payload cannot hold them. \<open>MAX_ABS_INT\<close> is \<open>2 ^ 59\<close>, the payload (the bits of
  \<open>MaskPrim\<close>) holds two's complement values below \<open>2 ^ 57\<close> only.
\<close>

definition tag_gap :: "int \<Rightarrow> bool" where
  "tag_gap x \<longleftrightarrow> - (2 ^ 59) \<le> x \<and> x < 2 ^ 59 \<and> \<not> (- (2 ^ 57) \<le> x \<and> x < 2 ^ 57)"

lemma IsPairTerm_bit: "IsPairTerm t \<longleftrightarrow> bit t 1"
  by (simp add: IsPairTerm_def bit_iff_and_push_bit_not_eq_0)

lemma IsApplTerm_bit: "IsApplTerm t \<longleftrightarrow> bit t 2"
  by (simp add: IsApplTerm_def bit_iff_and_push_bit_not_eq_0)

lemma IsVarTerm_bits: "IsVarTerm t \<longleftrightarrow> \<not> bit t 0 \<and> \<not> bit t 1 \<and> \<not> bit t 2"
proof -
  have "IsVarTerm t \<longleftrightarrow> take_bit 3 t = 0"
    unfolding IsVarTerm_def seven_mask by (simp add: take_bit_eq_mask)
  also have "\<dots> \<longleftrightarrow> (\<forall>i < 3. \<not> bit t i)"
    by (auto simp: bit_eq_iff bit_take_bit_iff)
  also have "\<dots> \<longleftrightarrow> \<not> bit t 0 \<and> \<not> bit t 1 \<and> \<not> bit t 2"
    by (auto simp: less_Suc_eq numeral_3_eq_3 numeral_2_eq_2)
  finally show ?thesis .
qed

lemma IsAtomOrIntTerm_bits:
  "IsAtomOrIntTerm t \<longleftrightarrow> bit t 0 \<and> \<not> bit t 1 \<and> \<not> bit t 2"
proof -
  have "LowTagBits = mask 3" by (simp add: tag_consts mask_eq_exp_minus_1)
  then have "IsAtomOrIntTerm t \<longleftrightarrow> take_bit 3 t = 1"
    by (simp add: IsAtomOrIntTerm_def take_bit_eq_mask)
  also have "\<dots> \<longleftrightarrow> (\<forall>i < 3. bit t i \<longleftrightarrow> i = 0)"
    unfolding bit_eq_iff [of "take_bit 3 t" 1] bit_take_bit_iff bit_1_iff
    by (auto simp: less_Suc_eq numeral_3_eq_3 numeral_2_eq_2
        dest: spec [where x = 0] spec [where x = "Suc 0"] spec [where x = 2])
  also have "\<dots> \<longleftrightarrow> bit t 0 \<and> \<not> bit t 1 \<and> \<not> bit t 2"
    by (auto simp: less_Suc_eq numeral_3_eq_3 numeral_2_eq_2)
  finally show ?thesis .
qed

lemmas class_bits = IsPairTerm_bit IsApplTerm_bit IsVarTerm_bits IsAtomOrIntTerm_bits

lemma MkIntTerm_low_bits:
  "bit (MkIntTerm n) 0" "\<not> bit (MkIntTerm n) (Suc 0)" "\<not> bit (MkIntTerm n) 2"
  unfolding MkIntTerm_def TAGGED_def NonTagPart_def bit_or_iff bit_and_iff tag_bits by auto

section \<open>Properties of the tagging scheme\<close>

text \<open>
  C20: a cell address (a multiple of 8) tagged as a variable, a pair or a compound term is
  recognised by exactly the test of that class, and untagging gives the address back.
\<close>

theorem pointer_tags_roundtrip:
  assumes "p AND 7 = 0"
  shows "(IsVarTerm p \<and> \<not> IsPairTerm p \<and> \<not> IsApplTerm p \<and> \<not> IsAtomOrIntTerm p)
    \<and> (IsPairTerm (AbsPair p) \<and> \<not> IsVarTerm (AbsPair p) \<and> \<not> IsApplTerm (AbsPair p)
      \<and> \<not> IsAtomOrIntTerm (AbsPair p) \<and> RepPair (AbsPair p) = p)
    \<and> (IsApplTerm (AbsAppl p) \<and> \<not> IsVarTerm (AbsAppl p) \<and> \<not> IsPairTerm (AbsAppl p)
      \<and> \<not> IsAtomOrIntTerm (AbsAppl p) \<and> RepAppl (AbsAppl p) = p)"
    (is "?var \<and> ?pair \<and> ?appl")
proof -
  have low: "\<not> bit p 0" "\<not> bit p 1" "\<not> bit p 2"
    using aligned_bits [OF assms] by simp_all
  have bits: "bit (p OR 2) i \<longleftrightarrow> bit p i \<or> i = 1" "bit (p OR 4) i \<longleftrightarrow> bit p i \<or> i = 2" for i
    unfolding bit_or_iff bit_two bit_four by auto
  have ?var
    using low by (simp add: class_bits)
  moreover have ?pair
    using low unfolding class_bits AbsPair_or [OF assms] bits
    by (simp add: RepPair_def AbsPair_or [OF assms, symmetric]) (simp add: AbsPair_def)
  moreover have ?appl
    using low unfolding class_bits AbsAppl_or [OF assms] bits
    by (simp add: RepAppl_def AbsAppl_or [OF assms, symmetric]) (simp add: AbsAppl_def)
  ultimately show ?thesis by blast
qed

theorem pointer_tags_roundtrip_witness:
  "IsPairTerm (AbsPair 0x1000) \<and> RepPair (AbsPair 0x1000) = 0x1000"
  using pointer_tags_roundtrip [of "0x1000"] by simp

text \<open>
  An integer in the payload range of a tagged cell keeps its value through tagging, is
  recognised as an integer, and is none of atom, variable, pair or compound term.
\<close>

lemma int_tag_roundtrip:
  assumes "- (2 ^ 57) \<le> sint n" and "sint n < 2 ^ 57"
  shows "IntOfTerm (MkIntTerm n) = n \<and> IsIntTerm (MkIntTerm n) \<and> IsAtomOrIntTerm (MkIntTerm n)
    \<and> \<not> IsAtomTerm (MkIntTerm n) \<and> \<not> IsVarTerm (MkIntTerm n) \<and> \<not> IsPairTerm (MkIntTerm n)
    \<and> \<not> IsApplTerm (MkIntTerm n)"
proof -
  have "NumberTag \<noteq> AtomTag" by (simp add: tag_consts)
  then have "\<not> IsAtomTerm (MkIntTerm n)"
    using IsIntTerm_MkIntTerm [of n] by (simp add: IsAtomTerm_def IsIntTerm_def CHKTAG_def)
  with assms show ?thesis
    by (simp add: IntOfTerm_MkIntTerm IsIntTerm_MkIntTerm class_bits MkIntTerm_low_bits)
qed

lemma int_tag_roundtrip_witness: "IntOfTerm (MkIntTerm (- 5)) = - 5"
proof -
  have "sint (- 5 :: cint) = - 5" by (simp add: sint_uint)
  then show ?thesis using int_tag_roundtrip [of "- 5"] by simp
qed

text \<open>
  C21: the bound \<open>IntInBnd\<close> that chooses the tagged representation is wider than the tagged
  payload: the integers it accepts and whose tagged cell reads back as another integer are
  exactly those of magnitude between \<open>2 ^ 57\<close> and \<open>2 ^ 59\<close>.
\<close>

theorem tagged_int_loses_bits:
  "IntInBnd n \<and> IntOfTerm (MkIntTerm n) \<noteq> n \<longleftrightarrow> tag_gap (sint n)"
proof -
  have "IntOfTerm (MkIntTerm n) = n \<longleftrightarrow> signed_take_bit 57 (sint n) = sint n"
    by (simp add: sint_IntOfTerm_MkIntTerm flip: sint_inj)
  also have "\<dots> \<longleftrightarrow> - (2 ^ 57) \<le> sint n \<and> sint n < 2 ^ 57"
    using signed_take_bit_int_less_exp [of 57 "sint n"]
      signed_take_bit_int_greater_eq_minus_exp [of 57 "sint n"]
    by (auto intro: signed_take_bit_int_eq_self)
  finally show ?thesis by (auto simp: IntInBnd_iff tag_gap_def)
qed

text \<open>
  An atom's address (a multiple of 8 below \<open>2 ^ 61\<close>) survives tagging, and the tagged cell
  is recognised as an atom, and as no integer, variable, pair or compound term.
\<close>

lemma atom_tag_roundtrip:
  assumes "a AND MaskPrim = a"
  shows "AtomOfTerm (MkAtomTerm a) = a \<and> IsAtomTerm (MkAtomTerm a) \<and> IsAtomOrIntTerm (MkAtomTerm a)
    \<and> \<not> IsIntTerm (MkAtomTerm a) \<and> \<not> IsVarTerm (MkAtomTerm a) \<and> \<not> IsPairTerm (MkAtomTerm a)
    \<and> \<not> IsApplTerm (MkAtomTerm a)"
proof -
  have at: "bit a i \<Longrightarrow> 3 \<le> i \<and> i < 61" for i
    using assms bit_and_iff [of a MaskPrim i] bit_MaskPrim [of i] by simp
  have "AtomOfTerm (MkAtomTerm a) = a"
    unfolding AtomOfTerm_def MkAtomTerm_def TAGGEDA_def NonTagPart_def
    by (rule bit_word_eqI) (auto simp: bit_and_iff bit_or_iff tag_bits dest: at)
  moreover have tag: "MkAtomTerm a AND TagBits = AtomTag"
    unfolding MkAtomTerm_def TAGGEDA_def
    by (rule bit_word_eqI) (auto simp: bit_and_iff bit_or_iff tag_bits dest: at)
  moreover have "AtomTag \<noteq> NumberTag" by (simp add: tag_consts)
  moreover have "bit (MkAtomTerm a) 0" "\<not> bit (MkAtomTerm a) 1" "\<not> bit (MkAtomTerm a) 2"
    unfolding MkAtomTerm_def TAGGEDA_def bit_or_iff tag_bits by (auto dest: at)
  ultimately show ?thesis by (simp add: IsAtomTerm_def IsIntTerm_def CHKTAG_def class_bits)
qed

lemma atom_tag_roundtrip_witness: "AtomOfTerm (MkAtomTerm 0x7000) = 0x7000"
proof -
  have "(0x7000 :: cell) AND MaskPrim = 0x7000" by (simp add: tag_consts)
  then show ?thesis using atom_tag_roundtrip [of "0x7000"] by simp
qed

text \<open>
  C19: constants survive tagging. An integer in the payload range of a tagged cell and the address of an atom
  (a multiple of 8 below \<open>2 ^ 61\<close>) come back unchanged; the tagged integer is recognised as an integer and
  the tagged atom as an atom, and neither as the other, as a variable, as a pair or as a compound term.
\<close>

theorem constant_tags_roundtrip:
  assumes "- (2 ^ 57) \<le> sint n" and "sint n < 2 ^ 57" and "a AND MaskPrim = a"
  shows "IntOfTerm (MkIntTerm n) = n \<and> IsIntTerm (MkIntTerm n) \<and> IsAtomOrIntTerm (MkIntTerm n)
    \<and> \<not> IsAtomTerm (MkIntTerm n) \<and> \<not> IsVarTerm (MkIntTerm n) \<and> \<not> IsPairTerm (MkIntTerm n)
    \<and> \<not> IsApplTerm (MkIntTerm n)
    \<and> AtomOfTerm (MkAtomTerm a) = a \<and> IsAtomTerm (MkAtomTerm a) \<and> IsAtomOrIntTerm (MkAtomTerm a)
    \<and> \<not> IsIntTerm (MkAtomTerm a) \<and> \<not> IsVarTerm (MkAtomTerm a) \<and> \<not> IsPairTerm (MkAtomTerm a)
    \<and> \<not> IsApplTerm (MkAtomTerm a)"
  using int_tag_roundtrip [OF assms(1,2)] atom_tag_roundtrip [OF assms(3)] by blast

theorem constant_tags_roundtrip_witness:
  "IntOfTerm (MkIntTerm (- 5)) = - 5 \<and> AtomOfTerm (MkAtomTerm 0x7000) = 0x7000"
proof -
  have "sint (- 5 :: cint) = - 5" by (simp add: sint_uint)
  moreover have "(0x7000 :: cell) AND MaskPrim = 0x7000" by (simp add: tag_consts)
  ultimately show ?thesis using constant_tags_roundtrip [of "- 5" "0x7000"] by simp
qed

end
