(* ===== verification/YapTerm.thy ===== *)
theory YapTerm
  imports YapTags
begin

text \<open>
  Terms as the arithmetic, comparison and sorting code sees them: the value a dereferenced
  tagged cell stands for (H/YapTags.h, H/TermExt.h, H/Yatom.h), the classification of numeric
  terms (\<open>ETypeOfTerm\<close>, H/YapEval.h), the errors the evaluator throws, and the record of
  operations the code takes from outside the repository: GMP, the C double type and libm, the
  random number source, and the amount of free stack.
\<close>

section \<open>Terms\<close>

text \<open>
  One constructor per representation that the code tells apart. \<open>VarT\<close> carries the address
  of an unbound cell (the null term \<open>0L\<close> is \<open>VarT 0\<close>), \<open>IntT\<close> the payload of a tagged
  integer, \<open>LongT\<close> the cell of a \<open>FunctorLongInt\<close> box, \<open>BigT\<close> and \<open>RatT\<close> the numbers
  in a \<open>FunctorBigInt\<close> box whose second cell is \<open>BIG_INT\<close> or \<open>BIG_RATIONAL\<close>, and
  \<open>BlobT tag p\<close> any other \<open>FunctorBigInt\<close> box, at address \<open>p\<close>. Atoms are hash-consed in
  YAP, so an atom is its name, and a functor is its name and the number of arguments.
  The type of C doubles is the parameter \<open>'f\<close>.
\<close>

datatype 'f trm =
    VarT cell
  | AtmT string
  | IntT cint
  | FltT 'f
  | LongT cint
  | BigT int
  | RatT rat
  | BlobT cell cell
  | StrT string
  | DBRefT cell
  | PairT "'f trm" "'f trm"
  | ApplT string "'f trm list"

abbreviation null_trm :: "'f trm" where
  "null_trm \<equiv> VarT 0"

definition TermNil :: "'f trm" where
  "TermNil = AtmT ''[]''"

text \<open>The extension functors, in the order of the enumeration.\<close>

datatype blob_type = db_ref_e | attvar_e | double_e | long_int_e | big_int_e | string_e

text \<open>The second cell of a \<open>FunctorBigInt\<close> box.\<close>

definition BIG_INT :: cell where
  "BIG_INT = 1"

definition BIG_RATIONAL :: cell where
  "BIG_RATIONAL = 2"

fun big_tag :: "'f trm \<Rightarrow> cell option" where
  "big_tag (BigT _) = Some BIG_INT"
| "big_tag (RatT _) = Some BIG_RATIONAL"
| "big_tag (BlobT tag _) = Some tag"
| "big_tag _ = None"

section \<open>Classification\<close>

fun IsVar_trm :: "'f trm \<Rightarrow> bool" where
  "IsVar_trm (VarT _) = True"
| "IsVar_trm _ = False"

fun IsAtom_trm :: "'f trm \<Rightarrow> bool" where
  "IsAtom_trm (AtmT _) = True"
| "IsAtom_trm _ = False"

fun IsInt_trm :: "'f trm \<Rightarrow> bool" where
  "IsInt_trm (IntT _) = True"
| "IsInt_trm _ = False"

fun IsPair_trm :: "'f trm \<Rightarrow> bool" where
  "IsPair_trm (PairT _ _) = True"
| "IsPair_trm _ = False"

fun IsFloatTerm :: "'f trm \<Rightarrow> bool" where
  "IsFloatTerm (FltT _) = True"
| "IsFloatTerm _ = False"

fun IsLongIntTerm :: "'f trm \<Rightarrow> bool" where
  "IsLongIntTerm (LongT _) = True"
| "IsLongIntTerm _ = False"

fun IsStringTerm :: "'f trm \<Rightarrow> bool" where
  "IsStringTerm (StrT _) = True"
| "IsStringTerm _ = False"

fun IsBigIntTerm :: "'f trm \<Rightarrow> bool" where
  "IsBigIntTerm (BigT _) = True"
| "IsBigIntTerm (RatT _) = True"
| "IsBigIntTerm (BlobT _ _) = True"
| "IsBigIntTerm _ = False"

text \<open>The low tag of a compound term, boxed or not.\<close>

fun IsAppl_trm :: "'f trm \<Rightarrow> bool" where
  "IsAppl_trm (VarT _) = False"
| "IsAppl_trm (AtmT _) = False"
| "IsAppl_trm (IntT _) = False"
| "IsAppl_trm (PairT _ _) = False"
| "IsAppl_trm _ = True"

definition IsLargeIntTerm :: "'f trm \<Rightarrow> bool" where
  "IsLargeIntTerm t \<longleftrightarrow> IsLongIntTerm t \<or> IsBigIntTerm t"

definition IsLargeNumTerm :: "'f trm \<Rightarrow> bool" where
  "IsLargeNumTerm t \<longleftrightarrow> IsFloatTerm t \<or> IsLongIntTerm t \<or> IsBigIntTerm t"

definition IsNumTerm :: "'f trm \<Rightarrow> bool" where
  "IsNumTerm t \<longleftrightarrow> IsInt_trm t \<or> IsLargeNumTerm t"

definition IsAtomicTerm :: "'f trm \<Rightarrow> bool" where
  "IsAtomicTerm t \<longleftrightarrow> IsAtom_trm t \<or> IsInt_trm t \<or> IsLargeNumTerm t \<or> IsStringTerm t"

fun IsDBRef_trm :: "'f trm \<Rightarrow> bool" where
  "IsDBRef_trm (DBRefT _) = True"
| "IsDBRef_trm _ = False"

definition IsPrimitiveTerm :: "'f trm \<Rightarrow> bool" where
  "IsPrimitiveTerm t \<longleftrightarrow> IsAtomicTerm t \<or> IsDBRef_trm t"

lemmas term_class = IsLargeIntTerm_def IsLargeNumTerm_def IsNumTerm_def IsAtomicTerm_def
  IsPrimitiveTerm_def

definition IsIntegerTerm :: "'f trm \<Rightarrow> bool" where
  "IsIntegerTerm t \<longleftrightarrow> IsInt_trm t \<or> IsLongIntTerm t"

text \<open>The numeric type of a term, on which the evaluator dispatches.\<close>

fun ETypeOfTerm :: "'f trm \<Rightarrow> blob_type" where
  "ETypeOfTerm (IntT _) = long_int_e"
| "ETypeOfTerm (FltT _) = double_e"
| "ETypeOfTerm (LongT _) = long_int_e"
| "ETypeOfTerm (BigT _) = big_int_e"
| "ETypeOfTerm (RatT _) = big_int_e"
| "ETypeOfTerm (BlobT _ _) = big_int_e"
| "ETypeOfTerm _ = db_ref_e"

section \<open>Building and reading numbers\<close>

text \<open>
  A tagged integer read back: storing an \<open>Int\<close> in a tagged cell keeps the payload bits only.
\<close>

definition mkInt :: "cint \<Rightarrow> 'f trm" where
  "mkInt n = IntT (IntOfTerm (MkIntTerm n))"

definition MkIntegerTerm :: "cint \<Rightarrow> 'f trm" where
  "MkIntegerTerm n = (if IntInBnd n then mkInt n else LongT n)"

text \<open>
  The integer of a small or boxed \<open>Int\<close>. Callers test the type first; on the other boxes the
  code reads whatever the second cell holds.
\<close>

fun IntegerOfTerm :: "'f trm \<Rightarrow> cint" where
  "IntegerOfTerm (IntT i) = i"
| "IntegerOfTerm (LongT i) = i"
| "IntegerOfTerm (BigT _) = BIG_INT"
| "IntegerOfTerm (RatT _) = BIG_RATIONAL"
| "IntegerOfTerm (BlobT tag _) = tag"
| "IntegerOfTerm _ = undefined"

fun FloatOfTerm :: "'f trm \<Rightarrow> 'f" where
  "FloatOfTerm (FltT d) = d"
| "FloatOfTerm _ = undefined"

section \<open>Errors\<close>

datatype yap_error =
    INSTANTIATION_ERROR
  | TYPE_ERROR_INTEGER
  | TYPE_ERROR_FLOAT
  | TYPE_ERROR_EVALUABLE
  | DOMAIN_ERROR_NOT_LESS_THAN_ZERO
  | DOMAIN_ERROR_OUT_OF_RANGE
  | EVALUATION_ERROR_ZERO_DIVISOR
  | EVALUATION_ERROR_UNDEFINED
  | EVALUATION_ERROR_INT_OVERFLOW
  | RESOURCE_ERROR_STACK
  | RESOURCE_ERROR_HUGE_INT
  | DOMAIN_ERROR_ORDER
  | TYPE_ERROR_ATOM
  | UNDEFINED_BEHAVIOUR
  | NO_RETURN

text \<open>
  The last two are not errors of YAP: \<open>UNDEFINED_BEHAVIOUR\<close> stands for a branch in which the C
  code reads memory outside the object at hand or that was never written, \<open>NO_RETURN\<close> for a
  loop that does not end. An error carries its culprit term.
\<close>

type_synonym 'f res = "(yap_error \<times> 'f trm) + 'f trm"

definition ArithError :: "yap_error \<Rightarrow> 'f trm \<Rightarrow> (yap_error \<times> 'f trm) + 'a" where
  "ArithError e t = Inl (e, t)"

text \<open>\<open>RERROR()\<close>: the null term, returned for an operand that is no number.\<close>

definition RERROR :: "'f res" where
  "RERROR = Inr null_trm"

definition RINT :: "cint \<Rightarrow> 'f res" where
  "RINT v = Inr (MkIntegerTerm v)"

definition RFLOAT :: "'f \<Rightarrow> 'f res" where
  "RFLOAT v = Inr (FltT v)"

section \<open>What the code takes from outside\<close>

text \<open>The functions of libm the evaluator calls on one double.\<close>

datatype libm = L_exp | L_log | L_log10 | L_sqrt | L_sin | L_cos | L_tan | L_sinh | L_cosh
  | L_tanh | L_asin | L_acos | L_atan | L_asinh | L_acosh | L_atanh | L_lgamma | L_erf | L_erfc
  | L_floor | L_ceil | L_rint | L_fabs

text \<open>
  The fields named \<open>mpz_...\<close> and \<open>mpq_...\<close> are the GMP functions of those names, as
  functions on the integers and rationals that \<open>MP_INT\<close> and \<open>MP_RAT\<close> objects hold
  (\<open>mpq_set_zz\<close> is the assignment of numerator and denominator in turn); a parameter of C
  type \<open>unsigned long\<close> or \<open>mp_bitcnt_t\<close> is a cell, a bit or digit count returned is a \<open>nat\<close>. \<open>limbs_fit z\<close> and \<open>rat_fits q\<close> say that
  the stack has room for the limbs of a number; \<open>raw_mpz\<close> and \<open>raw_mpq\<close> are what reading a
  box of another kind as a bignum or as a rational gives, \<open>raw_cell2\<close> the third cell of a
  box and \<open>raw_addr\<close> its address; \<open>mpq_cmp_cleared\<close> is a comparison of rationals some of
  which \<open>mpq_clear\<close> has already released. \<open>HAVE__BUILTIN_FFSLL\<close> and \<open>HAVE_FFSLL\<close> are the macros of the build
  that select the branches of \<open>msb\<close> (C/arith1.c).
\<close>

record 'f env =
  mpz_set_si :: "cint \<Rightarrow> int"
  mpz_add_ui :: "int \<Rightarrow> cell \<Rightarrow> int"
  mpz_sub_ui :: "int \<Rightarrow> cell \<Rightarrow> int"
  mpz_mul_si :: "int \<Rightarrow> cint \<Rightarrow> int"
  mpz_mul_2exp :: "int \<Rightarrow> cell \<Rightarrow> int"
  mpz_add :: "int \<Rightarrow> int \<Rightarrow> int"
  mpz_sub :: "int \<Rightarrow> int \<Rightarrow> int"
  mpz_mul :: "int \<Rightarrow> int \<Rightarrow> int"
  mpz_neg :: "int \<Rightarrow> int"
  mpz_abs :: "int \<Rightarrow> int"
  mpz_com :: "int \<Rightarrow> int"
  mpz_tdiv_q :: "int \<Rightarrow> int \<Rightarrow> int"
  mpz_fdiv_q :: "int \<Rightarrow> int \<Rightarrow> int"
  mpz_tdiv_r :: "int \<Rightarrow> int \<Rightarrow> int"
  mpz_fdiv_r :: "int \<Rightarrow> int \<Rightarrow> int"
  mpz_tdiv_q_ui :: "int \<Rightarrow> cell \<Rightarrow> int"
  mpz_fdiv_q_ui :: "int \<Rightarrow> cell \<Rightarrow> int"
  mpz_fdiv_q_2exp :: "int \<Rightarrow> cell \<Rightarrow> int"
  mpz_and :: "int \<Rightarrow> int \<Rightarrow> int"
  mpz_ior :: "int \<Rightarrow> int \<Rightarrow> int"
  mpz_xor :: "int \<Rightarrow> int \<Rightarrow> int"
  mpz_gcd :: "int \<Rightarrow> int \<Rightarrow> int"
  mpz_gcd_ui :: "int \<Rightarrow> cell \<Rightarrow> cell"
  mpz_pow_ui :: "int \<Rightarrow> cell \<Rightarrow> int"
  mpz_setbit :: "int \<Rightarrow> cell \<Rightarrow> int"
  mpz_cmp :: "int \<Rightarrow> int \<Rightarrow> int"
  mpz_cmp_si :: "int \<Rightarrow> cint \<Rightarrow> int"
  mpz_cmp_d :: "int \<Rightarrow> 'f \<Rightarrow> int"
  mpz_sgn :: "int \<Rightarrow> int"
  mpz_scan1 :: "int \<Rightarrow> nat \<Rightarrow> nat"
  mpz_sizeinbase :: "int \<Rightarrow> nat \<Rightarrow> nat"
  mpz_popcount :: "int \<Rightarrow> nat"
  mpz_fits_slong_p :: "int \<Rightarrow> bool"
  mpz_get_si :: "int \<Rightarrow> cint"
  mpz_get_d :: "int \<Rightarrow> 'f"
  mpz_set_d :: "'f \<Rightarrow> int"
  mpz_set_q :: "rat \<Rightarrow> int"
  mpz_set_str :: "string \<Rightarrow> nat \<Rightarrow> int"
  mpz_get_str :: "nat \<Rightarrow> int \<Rightarrow> string"
  mpq_set_si :: "cint \<Rightarrow> cell \<Rightarrow> rat"
  mpq_set_zz :: "int \<Rightarrow> int \<Rightarrow> rat"
  mpq_set_z :: "int \<Rightarrow> rat"
  mpq_set_d :: "'f \<Rightarrow> rat"
  mpq_canonicalize :: "rat \<Rightarrow> rat"
  mpq_numref :: "rat \<Rightarrow> int"
  mpq_denref :: "rat \<Rightarrow> int"
  mpq_add :: "rat \<Rightarrow> rat \<Rightarrow> rat"
  mpq_sub :: "rat \<Rightarrow> rat \<Rightarrow> rat"
  mpq_mul :: "rat \<Rightarrow> rat \<Rightarrow> rat"
  mpq_div :: "rat \<Rightarrow> rat \<Rightarrow> rat"
  mpq_neg :: "rat \<Rightarrow> rat"
  mpq_abs :: "rat \<Rightarrow> rat"
  mpq_mul_2exp :: "rat \<Rightarrow> cell \<Rightarrow> rat"
  mpq_div_2exp :: "rat \<Rightarrow> cell \<Rightarrow> rat"
  mpq_cmp :: "rat \<Rightarrow> rat \<Rightarrow> int"
  mpq_cmp_si :: "rat \<Rightarrow> cint \<Rightarrow> cell \<Rightarrow> int"
  mpq_cmp_cleared :: "bool \<Rightarrow> bool \<Rightarrow> rat \<Rightarrow> rat \<Rightarrow> int"
  mpq_sgn :: "rat \<Rightarrow> int"
  mpq_get_d :: "rat \<Rightarrow> 'f"
  raw_mpz :: "'f trm \<Rightarrow> int"
  raw_mpq :: "'f trm \<Rightarrow> rat"
  raw_cell2 :: "'f trm \<Rightarrow> cell"
  raw_addr :: "'f trm \<Rightarrow> cell"
  limbs_fit :: "int \<Rightarrow> bool"
  rat_fits :: "rat \<Rightarrow> bool"
  f_of_Int :: "cint \<Rightarrow> 'f"
  f_to_Int :: "'f \<Rightarrow> cint"
  f_add :: "'f \<Rightarrow> 'f \<Rightarrow> 'f"
  f_sub :: "'f \<Rightarrow> 'f \<Rightarrow> 'f"
  f_mul :: "'f \<Rightarrow> 'f \<Rightarrow> 'f"
  f_div :: "'f \<Rightarrow> 'f \<Rightarrow> 'f"
  f_neg :: "'f \<Rightarrow> 'f"
  f_less :: "'f \<Rightarrow> 'f \<Rightarrow> bool"
  f_le :: "'f \<Rightarrow> 'f \<Rightarrow> bool"
  f_eq :: "'f \<Rightarrow> 'f \<Rightarrow> bool"
  f_isnan :: "'f \<Rightarrow> bool"
  f_isinf :: "'f \<Rightarrow> bool"
  f_libm :: "libm \<Rightarrow> 'f \<Rightarrow> 'f"
  f_pow :: "'f \<Rightarrow> 'f \<Rightarrow> 'f"
  f_atan2 :: "'f \<Rightarrow> 'f \<Rightarrow> 'f"
  f_epsilon :: "'f"
  f_pi :: "'f"
  f_e :: "'f"
  f_inf :: "'f"
  f_nan :: "'f"
  Yap_random :: "'f"
  Yap_stat :: "string \<Rightarrow> cint"
  isoLanguageFlag :: bool
  HAVE__BUILTIN_FFSLL :: bool
  HAVE_FFSLL :: bool

end
