(* ===== verification/YapGmp.thy ===== *)
theory YapGmp
  imports YapTerm
begin

text \<open>
  The bignum operations of C/gmp_support.c and the boxing of bignums of C/bignum.c, over the
  GMP functions of an environment. The locale \<open>gmp\<close> states what the GMP manual promises of
  those functions; inside it each operation is shown to compute the mathematical function it
  is named after, with the result in canonical form.
\<close>

section \<open>Boxing\<close>

definition Yap_MkBigIntTerm :: "'f env \<Rightarrow> int \<Rightarrow> 'f trm" where
  "Yap_MkBigIntTerm E big =
    (if mpz_fits_slong_p E big then MkIntegerTerm (mpz_get_si E big)
     else if \<not> limbs_fit E big then TermNil
     else BigT big)"

fun Yap_BigIntOfTerm :: "'f env \<Rightarrow> 'f trm \<Rightarrow> int" where
  "Yap_BigIntOfTerm E (BigT z) = z"
| "Yap_BigIntOfTerm E t = raw_mpz E t"

definition Yap_MkBigRatTerm :: "'f env \<Rightarrow> rat \<Rightarrow> 'f trm" where
  "Yap_MkBigRatTerm E big =
    (if mpz_cmp_si E (mpq_denref E big) 1 = 0 then Yap_MkBigIntTerm E (mpq_numref E big)
     else if \<not> rat_fits E big then TermNil
     else RatT big)"

fun Yap_BigRatOfTerm :: "'f env \<Rightarrow> 'f trm \<Rightarrow> rat" where
  "Yap_BigRatOfTerm E (RatT q) = q"
| "Yap_BigRatOfTerm E t = raw_mpq E t"

definition Yap_RatTermToApplTerm :: "'f env \<Rightarrow> 'f trm \<Rightarrow> 'f trm" where
  "Yap_RatTermToApplTerm E t = (let rat = Yap_BigRatOfTerm E t in
    ApplT ''rdiv'' [Yap_MkBigIntTerm E (mpq_numref E rat), Yap_MkBigIntTerm E (mpq_denref E rat)])"

definition is_big_int :: "'f trm \<Rightarrow> bool" where
  "is_big_int t \<longleftrightarrow> big_tag t = Some BIG_INT"

definition MkBigAndClose :: "'f env \<Rightarrow> int \<Rightarrow> 'f res" where
  "MkBigAndClose E new = (let t = Yap_MkBigIntTerm E new in
    if t = TermNil then ArithError RESOURCE_ERROR_STACK t else Inr t)"

definition MkRatAndClose :: "'f env \<Rightarrow> rat \<Rightarrow> 'f res" where
  "MkRatAndClose E new = (let t = Yap_MkBigRatTerm E new in
    if t = TermNil then ArithError RESOURCE_ERROR_STACK t else Inr t)"

section \<open>Addition, subtraction, multiplication\<close>

text \<open>
  \<open>j - 1 > 0\<close> tests for the most negative \<open>Int\<close> among the non-positive ones, the
  subtraction wrapping around.
\<close>

definition Yap_gmp_add_ints :: "'f env \<Rightarrow> cint \<Rightarrow> cint \<Rightarrow> 'f res" where [gmp_defs]:
  "Yap_gmp_add_ints E i j = (let new = mpz_set_si E i in
    if c_less 0 j then MkBigAndClose E (mpz_add_ui E new j)
    else if c_less 0 (j - 1)
      then MkBigAndClose E (mpz_sub_ui E (mpz_sub_ui E new (- (j + 1))) 1)
    else MkBigAndClose E (mpz_sub_ui E new (- j)))"

definition Yap_gmp_sub_ints :: "'f env \<Rightarrow> cint \<Rightarrow> cint \<Rightarrow> 'f res" where [gmp_defs]:
  "Yap_gmp_sub_ints E i j = (let new = mpz_set_si E i in
    if c_less 0 j then MkBigAndClose E (mpz_sub_ui E new j)
    else if c_less 0 (j - 1)
      then MkBigAndClose E (mpz_add_ui E (mpz_add_ui E new (- (j + 1))) 1)
    else MkBigAndClose E (mpz_add_ui E new (- j)))"

definition Yap_gmp_mul_ints :: "'f env \<Rightarrow> cint \<Rightarrow> cint \<Rightarrow> 'f res" where [gmp_defs]:
  "Yap_gmp_mul_ints E i j = MkBigAndClose E (mpz_mul_si E (mpz_set_si E i) j)"

definition Yap_gmp_sll_ints :: "'f env \<Rightarrow> cint \<Rightarrow> cint \<Rightarrow> 'f res" where [gmp_defs]:
  "Yap_gmp_sll_ints E i j = MkBigAndClose E (mpz_mul_2exp E (mpz_set_si E i) j)"

definition Yap_gmp_add_int_big :: "'f env \<Rightarrow> cint \<Rightarrow> 'f trm \<Rightarrow> 'f res" where [gmp_defs]:
  "Yap_gmp_add_int_big E i t =
    (if is_big_int t
     then MkBigAndClose E (mpz_add E (mpz_set_si E i) (Yap_BigIntOfTerm E t))
     else MkRatAndClose E (mpq_add E (mpq_set_si E i 1) (Yap_BigRatOfTerm E t)))"

text \<open>The destructive operation: the box of the result replaces the box of the argument.\<close>

definition Yap_gmp_set_bit :: "'f env \<Rightarrow> cint \<Rightarrow> 'f trm \<Rightarrow> 'f trm" where [gmp_defs]:
  "Yap_gmp_set_bit E i t = BigT (mpz_setbit E (Yap_BigIntOfTerm E t) i)"

definition Yap_gmp_sub_int_big :: "'f env \<Rightarrow> cint \<Rightarrow> 'f trm \<Rightarrow> 'f res" where [gmp_defs]:
  "Yap_gmp_sub_int_big E i t =
    (if is_big_int t
     then MkBigAndClose E (mpz_sub E (mpz_set_si E i) (Yap_BigIntOfTerm E t))
     else MkRatAndClose E (mpq_sub E (mpq_set_si E i 1) (Yap_BigRatOfTerm E t)))"

definition Yap_gmp_mul_int_big :: "'f env \<Rightarrow> cint \<Rightarrow> 'f trm \<Rightarrow> 'f res" where [gmp_defs]:
  "Yap_gmp_mul_int_big E i t =
    (if is_big_int t
     then MkBigAndClose E (mpz_mul E (mpz_set_si E i) (Yap_BigIntOfTerm E t))
     else MkRatAndClose E (mpq_mul E (mpq_set_si E i 1) (Yap_BigRatOfTerm E t)))"

definition Yap_gmp_sub_big_int :: "'f env \<Rightarrow> 'f trm \<Rightarrow> cint \<Rightarrow> 'f res" where [gmp_defs]:
  "Yap_gmp_sub_big_int E t i =
    (if is_big_int t
     then MkBigAndClose E (mpz_add E (mpz_neg E (mpz_set_si E i)) (Yap_BigIntOfTerm E t))
     else MkRatAndClose E (mpq_sub E (Yap_BigRatOfTerm E t) (mpq_set_si E i 1)))"

text \<open>The conversion of one operand to a rational, repeated in the operations on two boxes.\<close>

definition big_as_rat :: "'f env \<Rightarrow> 'f trm \<Rightarrow> rat" where [gmp_defs]:
  "big_as_rat E t =
    (if is_big_int t then mpq_set_z E (Yap_BigIntOfTerm E t) else Yap_BigRatOfTerm E t)"

definition Yap_gmp_add_big_big :: "'f env \<Rightarrow> 'f trm \<Rightarrow> 'f trm \<Rightarrow> 'f res" where [gmp_defs]:
  "Yap_gmp_add_big_big E t1 t2 =
    (if is_big_int t1 \<and> is_big_int t2
     then MkBigAndClose E (mpz_add E (Yap_BigIntOfTerm E t1) (Yap_BigIntOfTerm E t2))
     else MkRatAndClose E (mpq_add E (big_as_rat E t1) (big_as_rat E t2)))"

definition Yap_gmp_sub_big_big :: "'f env \<Rightarrow> 'f trm \<Rightarrow> 'f trm \<Rightarrow> 'f res" where [gmp_defs]:
  "Yap_gmp_sub_big_big E t1 t2 =
    (if is_big_int t1 \<and> is_big_int t2
     then MkBigAndClose E (mpz_sub E (Yap_BigIntOfTerm E t1) (Yap_BigIntOfTerm E t2))
     else MkRatAndClose E (mpq_sub E (big_as_rat E t1) (big_as_rat E t2)))"

definition Yap_gmp_mul_big_big :: "'f env \<Rightarrow> 'f trm \<Rightarrow> 'f trm \<Rightarrow> 'f res" where [gmp_defs]:
  "Yap_gmp_mul_big_big E t1 t2 =
    (if is_big_int t1 \<and> is_big_int t2
     then MkBigAndClose E (mpz_mul E (Yap_BigIntOfTerm E t1) (Yap_BigIntOfTerm E t2))
     else MkRatAndClose E (mpq_mul E (big_as_rat E t1) (big_as_rat E t2)))"

section \<open>Division\<close>

definition Yap_gmp_div_int_big :: "'f env \<Rightarrow> cint \<Rightarrow> 'f trm \<Rightarrow> 'f res" where [gmp_defs]:
  "Yap_gmp_div_int_big E i t =
    (if is_big_int t then Inr (mkInt 0)
     else MkRatAndClose E (mpq_div E (mpq_set_si E i 1) (Yap_BigRatOfTerm E t)))"

text \<open>
  The branch for C compilers whose division rounds down, \<open>(-3 / 2) == -2\<close>, is tested on the
  operator of the language itself.
\<close>

definition Yap_gmp_div_big_int :: "'f env \<Rightarrow> 'f trm \<Rightarrow> cint \<Rightarrow> 'f res" where [gmp_defs]:
  "Yap_gmp_div_big_int E t i =
    (if is_big_int t then
       let new = Yap_BigIntOfTerm E t in
       (if c_div (- 3) 2 = - 2 then
          (if c_less 0 i then MkBigAndClose E (mpz_tdiv_q_ui E new i)
           else if i = 0 then ArithError EVALUATION_ERROR_ZERO_DIVISOR (mkInt 0)
           else MkBigAndClose E (mpz_neg E (mpz_tdiv_q_ui E new (- i))))
        else
          (if c_less 0 i then MkBigAndClose E (mpz_fdiv_q_ui E new i)
           else if i = 0 then ArithError EVALUATION_ERROR_ZERO_DIVISOR (mkInt 0)
           else MkBigAndClose E (mpz_neg E (mpz_fdiv_q_ui E new (- i)))))
     else MkRatAndClose E (mpq_div E (Yap_BigRatOfTerm E t) (mpq_set_si E i 1)))"

definition Yap_gmp_div2_big_int :: "'f env \<Rightarrow> 'f trm \<Rightarrow> cint \<Rightarrow> 'f res" where [gmp_defs]:
  "Yap_gmp_div2_big_int E t i =
    (if is_big_int t then
       let new = Yap_BigIntOfTerm E t in
       (if c_less 0 i then MkBigAndClose E (mpz_fdiv_q_ui E new i)
        else if i = 0 then ArithError EVALUATION_ERROR_ZERO_DIVISOR (mkInt 0)
        else MkBigAndClose E (mpz_neg E (mpz_fdiv_q_ui E new (- i))))
     else MkRatAndClose E (mpq_div E (Yap_BigRatOfTerm E t) (mpq_set_si E i 1)))"

definition Yap_gmp_div_big_big :: "'f env \<Rightarrow> 'f trm \<Rightarrow> 'f trm \<Rightarrow> 'f res" where [gmp_defs]:
  "Yap_gmp_div_big_big E t1 t2 =
    (if is_big_int t1 \<and> is_big_int t2
     then (if c_div (- 3) 2 = - 2
       then MkBigAndClose E (mpz_tdiv_q E (Yap_BigIntOfTerm E t1) (Yap_BigIntOfTerm E t2))
       else MkBigAndClose E (mpz_fdiv_q E (Yap_BigIntOfTerm E t1) (Yap_BigIntOfTerm E t2)))
     else MkRatAndClose E (mpq_div E (big_as_rat E t1) (big_as_rat E t2)))"

definition Yap_gmp_div2_big_big :: "'f env \<Rightarrow> 'f trm \<Rightarrow> 'f trm \<Rightarrow> 'f res" where [gmp_defs]:
  "Yap_gmp_div2_big_big E t1 t2 =
    (if is_big_int t1 \<and> is_big_int t2
     then MkBigAndClose E (mpz_fdiv_q E (Yap_BigIntOfTerm E t1) (Yap_BigIntOfTerm E t2))
     else MkRatAndClose E (mpq_div E (big_as_rat E t1) (big_as_rat E t2)))"

section \<open>Bitwise operations and shifts\<close>

definition Yap_gmp_and_int_big :: "'f env \<Rightarrow> cint \<Rightarrow> 'f trm \<Rightarrow> 'f res" where [gmp_defs]:
  "Yap_gmp_and_int_big E i t =
    (if \<not> is_big_int t then ArithError TYPE_ERROR_INTEGER t
     else MkBigAndClose E (mpz_and E (mpz_set_si E i) (Yap_BigIntOfTerm E t)))"

definition Yap_gmp_ior_int_big :: "'f env \<Rightarrow> cint \<Rightarrow> 'f trm \<Rightarrow> 'f res" where [gmp_defs]:
  "Yap_gmp_ior_int_big E i t =
    (if \<not> is_big_int t then ArithError TYPE_ERROR_INTEGER t
     else MkBigAndClose E (mpz_ior E (mpz_set_si E i) (Yap_BigIntOfTerm E t)))"

definition Yap_gmp_xor_int_big :: "'f env \<Rightarrow> cint \<Rightarrow> 'f trm \<Rightarrow> 'f res" where [gmp_defs]:
  "Yap_gmp_xor_int_big E i t =
    (if \<not> is_big_int t then ArithError TYPE_ERROR_INTEGER t
     else MkBigAndClose E (mpz_xor E (mpz_set_si E i) (Yap_BigIntOfTerm E t)))"

text \<open>The operations on two boxes that require both to hold integers share their checks.\<close>

definition both_big_ints ::
  "'f trm \<Rightarrow> 'f trm \<Rightarrow> 'f res \<Rightarrow> 'f res" where [gmp_defs]:
  "both_big_ints t1 t2 r =
    (if is_big_int t1 \<and> is_big_int t2 then r
     else if \<not> is_big_int t1 then ArithError TYPE_ERROR_INTEGER t1
     else ArithError TYPE_ERROR_INTEGER t2)"

definition Yap_gmp_and_big_big :: "'f env \<Rightarrow> 'f trm \<Rightarrow> 'f trm \<Rightarrow> 'f res" where [gmp_defs]:
  "Yap_gmp_and_big_big E t1 t2 = both_big_ints t1 t2
    (MkBigAndClose E (mpz_and E (Yap_BigIntOfTerm E t1) (Yap_BigIntOfTerm E t2)))"

definition Yap_gmp_ior_big_big :: "'f env \<Rightarrow> 'f trm \<Rightarrow> 'f trm \<Rightarrow> 'f res" where [gmp_defs]:
  "Yap_gmp_ior_big_big E t1 t2 = both_big_ints t1 t2
    (MkBigAndClose E (mpz_ior E (Yap_BigIntOfTerm E t1) (Yap_BigIntOfTerm E t2)))"

definition Yap_gmp_xor_big_big :: "'f env \<Rightarrow> 'f trm \<Rightarrow> 'f trm \<Rightarrow> 'f res" where [gmp_defs]:
  "Yap_gmp_xor_big_big E t1 t2 = both_big_ints t1 t2
    (MkBigAndClose E (mpz_xor E (Yap_BigIntOfTerm E t1) (Yap_BigIntOfTerm E t2)))"

definition Yap_gmp_sll_big_int :: "'f env \<Rightarrow> 'f trm \<Rightarrow> cint \<Rightarrow> 'f res" where [gmp_defs]:
  "Yap_gmp_sll_big_int E t i =
    (if is_big_int t then
       let b = Yap_BigIntOfTerm E t in
       (if c_less 0 i then MkBigAndClose E (mpz_mul_2exp E b i)
        else if i = 0 then Inr t
        else if i = Int_MIN then ArithError RESOURCE_ERROR_HUGE_INT (MkIntegerTerm i)
        else MkBigAndClose E (mpz_fdiv_q_2exp E b (- i)))
     else
       let b = Yap_BigRatOfTerm E t in
       (if c_less 0 i then MkRatAndClose E (mpq_mul_2exp E b i)
        else if i = 0 then Inr t
        else MkRatAndClose E (mpq_div_2exp E b i)))"

section \<open>Modulus, remainder, greatest common divisor\<close>

definition Yap_gmp_mod_big_big :: "'f env \<Rightarrow> 'f trm \<Rightarrow> 'f trm \<Rightarrow> 'f res" where [gmp_defs]:
  "Yap_gmp_mod_big_big E t1 t2 = both_big_ints t1 t2
    (MkBigAndClose E (mpz_fdiv_r E (Yap_BigIntOfTerm E t1) (Yap_BigIntOfTerm E t2)))"

definition Yap_gmp_mod_big_int :: "'f env \<Rightarrow> 'f trm \<Rightarrow> cint \<Rightarrow> 'f res" where [gmp_defs]:
  "Yap_gmp_mod_big_int E t i2 =
    (if \<not> is_big_int t then ArithError TYPE_ERROR_INTEGER t
     else MkBigAndClose E (mpz_fdiv_r E (Yap_BigIntOfTerm E t) (mpz_set_si E i2)))"

definition Yap_gmp_mod_int_big :: "'f env \<Rightarrow> cint \<Rightarrow> 'f trm \<Rightarrow> 'f res" where [gmp_defs]:
  "Yap_gmp_mod_int_big E i1 t =
    (if \<not> is_big_int t then ArithError TYPE_ERROR_INTEGER t
     else let b = Yap_BigIntOfTerm E t in
       if mpz_sgn E b > 0 then
         (if c_less 0 i1 then Inr (MkIntegerTerm i1)
          else MkBigAndClose E (mpz_add E (mpz_set_si E i1) b))
       else
         (if c_less 0 i1 then MkBigAndClose E (mpz_add E b (mpz_set_si E i1))
          else Inr (MkIntegerTerm i1)))"

definition Yap_gmp_rem_big_big :: "'f env \<Rightarrow> 'f trm \<Rightarrow> 'f trm \<Rightarrow> 'f res" where [gmp_defs]:
  "Yap_gmp_rem_big_big E t1 t2 = both_big_ints t1 t2
    (MkBigAndClose E (mpz_tdiv_r E (Yap_BigIntOfTerm E t1) (Yap_BigIntOfTerm E t2)))"

definition Yap_gmp_rem_big_int :: "'f env \<Rightarrow> 'f trm \<Rightarrow> cint \<Rightarrow> 'f res" where [gmp_defs]:
  "Yap_gmp_rem_big_int E t i2 =
    (if \<not> is_big_int t then ArithError TYPE_ERROR_INTEGER t
     else MkBigAndClose E (mpz_tdiv_r E (Yap_BigIntOfTerm E t) (mpz_set_si E i2)))"

definition Yap_gmp_rem_int_big :: "'f env \<Rightarrow> cint \<Rightarrow> 'f trm \<Rightarrow> 'f res" where [gmp_defs]:
  "Yap_gmp_rem_int_big E i1 t =
    (if \<not> is_big_int t then ArithError TYPE_ERROR_INTEGER t else Inr (MkIntegerTerm i1))"

definition Yap_gmp_gcd_big_big :: "'f env \<Rightarrow> 'f trm \<Rightarrow> 'f trm \<Rightarrow> 'f res" where [gmp_defs]:
  "Yap_gmp_gcd_big_big E t1 t2 = both_big_ints t1 t2
    (MkBigAndClose E (mpz_gcd E (Yap_BigIntOfTerm E t1) (Yap_BigIntOfTerm E t2)))"

definition Yap_gmp_gcd_int_big :: "'f env \<Rightarrow> cint \<Rightarrow> 'f trm \<Rightarrow> 'f res" where [gmp_defs]:
  "Yap_gmp_gcd_int_big E i t =
    (if \<not> is_big_int t then ArithError TYPE_ERROR_INTEGER t
     else if c_less 0 i then Inr (MkIntegerTerm (mpz_gcd_ui E (Yap_BigIntOfTerm E t) i))
     else if i = 0 then Inr (mkInt 0)
     else Inr (MkIntegerTerm (mpz_gcd_ui E (Yap_BigIntOfTerm E t) (- i))))"

section \<open>Mixed operations with doubles\<close>

definition Yap_gmp_float_to_big :: "'f env \<Rightarrow> 'f \<Rightarrow> 'f res" where [gmp_defs]:
  "Yap_gmp_float_to_big E v = MkBigAndClose E (mpz_set_d E v)"

definition Yap_gmp_to_float :: "'f env \<Rightarrow> 'f trm \<Rightarrow> 'f" where [gmp_defs]:
  "Yap_gmp_to_float E t =
    (if is_big_int t then mpz_get_d E (Yap_BigIntOfTerm E t)
     else mpq_get_d E (Yap_BigRatOfTerm E t))"

definition Yap_gmp_add_float_big :: "'f env \<Rightarrow> 'f \<Rightarrow> 'f trm \<Rightarrow> 'f res" where [gmp_defs]:
  "Yap_gmp_add_float_big E d t =
    (if is_big_int t then RFLOAT (f_add E d (mpz_get_d E (Yap_BigIntOfTerm E t)))
     else RFLOAT (f_add E d (mpq_get_d E (Yap_BigRatOfTerm E t))))"

definition Yap_gmp_sub_float_big :: "'f env \<Rightarrow> 'f \<Rightarrow> 'f trm \<Rightarrow> 'f res" where [gmp_defs]:
  "Yap_gmp_sub_float_big E d t =
    (if is_big_int t then RFLOAT (f_sub E d (mpz_get_d E (Yap_BigIntOfTerm E t)))
     else RFLOAT (f_sub E d (mpq_get_d E (Yap_BigRatOfTerm E t))))"

definition Yap_gmp_sub_big_float :: "'f env \<Rightarrow> 'f trm \<Rightarrow> 'f \<Rightarrow> 'f res" where [gmp_defs]:
  "Yap_gmp_sub_big_float E t d =
    (if is_big_int t then RFLOAT (f_sub E (mpz_get_d E (Yap_BigIntOfTerm E t)) d)
     else RFLOAT (f_sub E (mpq_get_d E (Yap_BigRatOfTerm E t)) d))"

definition Yap_gmp_mul_float_big :: "'f env \<Rightarrow> 'f \<Rightarrow> 'f trm \<Rightarrow> 'f res" where [gmp_defs]:
  "Yap_gmp_mul_float_big E d t =
    (if is_big_int t then RFLOAT (f_mul E d (mpz_get_d E (Yap_BigIntOfTerm E t)))
     else RFLOAT (f_mul E d (mpq_get_d E (Yap_BigRatOfTerm E t))))"

definition Yap_gmp_fdiv_float_big :: "'f env \<Rightarrow> 'f \<Rightarrow> 'f trm \<Rightarrow> 'f res" where [gmp_defs]:
  "Yap_gmp_fdiv_float_big E d t =
    (if is_big_int t then RFLOAT (f_div E d (mpz_get_d E (Yap_BigIntOfTerm E t)))
     else RFLOAT (f_div E d (mpq_get_d E (Yap_BigRatOfTerm E t))))"

definition Yap_gmp_fdiv_big_float :: "'f env \<Rightarrow> 'f trm \<Rightarrow> 'f \<Rightarrow> 'f res" where [gmp_defs]:
  "Yap_gmp_fdiv_big_float E t d =
    (if is_big_int t then RFLOAT (f_div E (mpz_get_d E (Yap_BigIntOfTerm E t)) d)
     else RFLOAT (f_div E (mpq_get_d E (Yap_BigRatOfTerm E t)) d))"

definition Yap_gmp_fdiv_int_big :: "'f env \<Rightarrow> cint \<Rightarrow> 'f trm \<Rightarrow> 'f res" where [gmp_defs]:
  "Yap_gmp_fdiv_int_big E i1 t2 =
    RFLOAT (mpq_get_d E (mpq_div E (mpq_set_si E i1 1) (big_as_rat E t2)))"

definition Yap_gmp_fdiv_big_int :: "'f env \<Rightarrow> 'f trm \<Rightarrow> cint \<Rightarrow> 'f res" where [gmp_defs]:
  "Yap_gmp_fdiv_big_int E t2 i1 =
    RFLOAT (mpq_get_d E (mpq_div E (big_as_rat E t2) (mpq_set_si E i1 1)))"

definition Yap_gmp_fdiv_big_big :: "'f env \<Rightarrow> 'f trm \<Rightarrow> 'f trm \<Rightarrow> 'f res" where [gmp_defs]:
  "Yap_gmp_fdiv_big_big E t1 t2 =
    RFLOAT (mpq_get_d E (mpq_div E (big_as_rat E t1) (big_as_rat E t2)))"

section \<open>Exponentiation\<close>

definition Yap_gmp_exp_int_int :: "'f env \<Rightarrow> cint \<Rightarrow> cint \<Rightarrow> 'f res" where [gmp_defs]:
  "Yap_gmp_exp_int_int E i1 i2 = MkBigAndClose E (mpz_pow_ui E (mpz_set_si E i1) i2)"

text \<open>
  For a negative exponent the code computes into a variable that shadows \<open>new\<close> and then boxes
  the outer one, which was never initialised.
\<close>

definition Yap_gmp_exp_big_int :: "'f env \<Rightarrow> 'f trm \<Rightarrow> cint \<Rightarrow> 'f res" where [gmp_defs]:
  "Yap_gmp_exp_big_int E t i =
    (if is_big_int t then
       (if c_less 0 i then MkBigAndClose E (mpz_pow_ui E (Yap_BigIntOfTerm E t) i)
        else if i = 0 then Inr (mkInt 1)
        else ArithError UNDEFINED_BEHAVIOUR t)
     else RFLOAT (f_pow E (mpq_get_d E (Yap_BigRatOfTerm E t)) (f_of_Int E i)))"

definition Yap_gmp_exp_int_big :: "'f env \<Rightarrow> cint \<Rightarrow> 'f trm \<Rightarrow> 'f res" where [gmp_defs]:
  "Yap_gmp_exp_int_big E i t =
    (if is_big_int t then ArithError RESOURCE_ERROR_HUGE_INT t
     else RFLOAT (f_pow E (f_of_Int E i) (mpz_get_d E (Yap_BigIntOfTerm E t))))"

definition Yap_gmp_exp_big_big :: "'f env \<Rightarrow> 'f trm \<Rightarrow> 'f trm \<Rightarrow> 'f res" where [gmp_defs]:
  "Yap_gmp_exp_big_big E t1 t2 =
    (if is_big_int t1 \<and> is_big_int t2 then ArithError RESOURCE_ERROR_HUGE_INT t2
     else
       let dbl1 = (if \<not> is_big_int t1 then mpz_get_d E (Yap_BigIntOfTerm E t1)
                   else mpq_get_d E (Yap_BigRatOfTerm E t1));
           dbl2 = (if raw_cell2 E t2 \<noteq> BIG_INT then mpz_get_d E (Yap_BigIntOfTerm E t2)
                   else mpq_get_d E (Yap_BigRatOfTerm E t2))
       in RFLOAT (f_pow E dbl1 dbl2))"

section \<open>Rational division\<close>

definition Yap_gmq_rdiv_int_int :: "'f env \<Rightarrow> cint \<Rightarrow> cint \<Rightarrow> 'f res" where [gmp_defs]:
  "Yap_gmq_rdiv_int_int E i1 i2 =
    (let (i1, i2) = (if c_less i2 0 then (- i1, - i2) else (i1, i2))
     in MkRatAndClose E (mpq_canonicalize E (mpq_set_si E i1 i2)))"

definition Yap_gmq_rdiv_int_big :: "'f env \<Rightarrow> cint \<Rightarrow> 'f trm \<Rightarrow> 'f res" where [gmp_defs]:
  "Yap_gmq_rdiv_int_big E i1 t2 =
    MkRatAndClose E (mpq_div E (mpq_set_si E i1 1) (big_as_rat E t2))"

definition Yap_gmq_rdiv_big_int :: "'f env \<Rightarrow> 'f trm \<Rightarrow> cint \<Rightarrow> 'f res" where [gmp_defs]:
  "Yap_gmq_rdiv_big_int E t1 i2 =
    MkRatAndClose E (mpq_div E (big_as_rat E t1) (mpq_set_si E i2 1))"

definition Yap_gmq_rdiv_big_big :: "'f env \<Rightarrow> 'f trm \<Rightarrow> 'f trm \<Rightarrow> 'f res" where [gmp_defs]:
  "Yap_gmq_rdiv_big_big E t1 t2 =
    MkRatAndClose E (mpq_div E (big_as_rat E t1) (big_as_rat E t2))"

section \<open>Comparison\<close>

text \<open>The results are C \<open>int\<close>s; callers look at their sign.\<close>

definition Yap_gmp_cmp_big_int :: "'f env \<Rightarrow> 'f trm \<Rightarrow> cint \<Rightarrow> int" where [gmp_defs]:
  "Yap_gmp_cmp_big_int E t i =
    (if is_big_int t then mpz_cmp_si E (Yap_BigIntOfTerm E t) i
     else mpq_cmp_si E (Yap_BigRatOfTerm E t) i 1)"

definition Yap_gmp_cmp_int_big :: "'f env \<Rightarrow> cint \<Rightarrow> 'f trm \<Rightarrow> int" where [gmp_defs]:
  "Yap_gmp_cmp_int_big E i t =
    (if is_big_int t then - mpz_cmp_si E (Yap_BigIntOfTerm E t) i
     else - mpq_cmp_si E (Yap_BigRatOfTerm E t) i 1)"

definition Yap_gmp_cmp_big_float :: "'f env \<Rightarrow> 'f trm \<Rightarrow> 'f \<Rightarrow> int" where [gmp_defs]:
  "Yap_gmp_cmp_big_float E t d =
    (if is_big_int t then mpz_cmp_d E (Yap_BigIntOfTerm E t) d
     else let d1 = mpq_get_d E (Yap_BigRatOfTerm E t) in
       if f_less E d1 d then - 1 else if f_eq E d1 d then 0 else 1)"

definition Yap_gmp_cmp_float_big :: "'f env \<Rightarrow> 'f \<Rightarrow> 'f trm \<Rightarrow> int" where [gmp_defs]:
  "Yap_gmp_cmp_float_big E d t = - Yap_gmp_cmp_big_float E t d"

text \<open>The rationals made from integer boxes are cleared before they are compared.\<close>

definition Yap_gmp_cmp_big_big :: "'f env \<Rightarrow> 'f trm \<Rightarrow> 'f trm \<Rightarrow> int" where [gmp_defs]:
  "Yap_gmp_cmp_big_big E t1 t2 =
    (if is_big_int t1 \<and> is_big_int t2
     then mpz_cmp E (Yap_BigIntOfTerm E t1) (Yap_BigIntOfTerm E t2)
     else let b1 = big_as_rat E t1; b2 = big_as_rat E t2;
              f1 = is_big_int t1; f2 = is_big_int t2
          in if f1 \<or> f2 then mpq_cmp_cleared E f1 f2 b1 b2 else mpq_cmp E b1 b2)"

definition Yap_gmp_tcmp_big_int :: "'f env \<Rightarrow> 'f trm \<Rightarrow> cint \<Rightarrow> int" where [gmp_defs]:
  "Yap_gmp_tcmp_big_int E t i =
    (if is_big_int t then mpz_cmp_si E (Yap_BigIntOfTerm E t) i else - 1)"

definition Yap_gmp_tcmp_int_big :: "'f env \<Rightarrow> cint \<Rightarrow> 'f trm \<Rightarrow> int" where [gmp_defs]:
  "Yap_gmp_tcmp_int_big E i t =
    (if is_big_int t then - mpz_cmp_si E (Yap_BigIntOfTerm E t) i else 1)"

definition Yap_gmp_tcmp_big_float :: "'f env \<Rightarrow> 'f trm \<Rightarrow> 'f \<Rightarrow> int" where [gmp_defs]:
  "Yap_gmp_tcmp_big_float E t d = 1"

definition Yap_gmp_tcmp_float_big :: "'f env \<Rightarrow> 'f \<Rightarrow> 'f trm \<Rightarrow> int" where [gmp_defs]:
  "Yap_gmp_tcmp_float_big E d t = - Yap_gmp_tcmp_big_float E t d"

text \<open>The difference of two cell pointers, returned through a C \<open>int\<close>.\<close>

definition cell_diff :: "cell \<Rightarrow> cell \<Rightarrow> int" where
  "cell_diff p q = sint (ucast (signed_drop_bit 3 (p - q)) :: 32 word)"

definition Yap_gmp_tcmp_big_big :: "'f env \<Rightarrow> 'f trm \<Rightarrow> 'f trm \<Rightarrow> int" where [gmp_defs]:
  "Yap_gmp_tcmp_big_big E t1 t2 =
    (if is_big_int t1 \<and> is_big_int t2
     then mpz_cmp E (Yap_BigIntOfTerm E t1) (Yap_BigIntOfTerm E t2)
     else if is_big_int t1 then 1
     else if big_tag t1 \<noteq> Some BIG_RATIONAL then cell_diff (raw_addr E t1) (raw_addr E t2)
     else if is_big_int t2 then - 1
     else if big_tag t2 \<noteq> Some BIG_RATIONAL then cell_diff (raw_addr E t1) (raw_addr E t2)
     else mpq_cmp E (Yap_BigRatOfTerm E t1) (Yap_BigRatOfTerm E t2))"

section \<open>Operations on one box\<close>

text \<open>The argument is not used: the only caller passes the most negative \<open>Int\<close>.\<close>

definition Yap_gmp_neg_int :: "'f env \<Rightarrow> cint \<Rightarrow> 'f res" where [gmp_defs]:
  "Yap_gmp_neg_int E i = MkBigAndClose E (mpz_neg E (mpz_set_si E Int_MIN))"

definition Yap_gmp_neg_big :: "'f env \<Rightarrow> 'f trm \<Rightarrow> 'f res" where [gmp_defs]:
  "Yap_gmp_neg_big E t =
    (if is_big_int t then MkBigAndClose E (mpz_neg E (Yap_BigIntOfTerm E t))
     else MkRatAndClose E (mpq_neg E (Yap_BigRatOfTerm E t)))"

definition Yap_gmp_float_to_rational :: "'f env \<Rightarrow> 'f \<Rightarrow> 'f res" where [gmp_defs]:
  "Yap_gmp_float_to_rational E dbl = MkRatAndClose E (mpq_set_d E dbl)"

text \<open>
  The loop of the rationalisation of a double. It has no bound of its own, so not returning is
  the value \<open>None\<close>.
\<close>

partial_function (option) rationalize_loop ::
  "'f env \<Rightarrow> 'f \<Rightarrow> 'f \<Rightarrow> 'f \<Rightarrow> 'f \<Rightarrow> 'f \<Rightarrow> 'f \<Rightarrow> 'f \<Rightarrow> ('f \<times> 'f) option" where
  "rationalize_loop E dbl e0 p0 q0 e1 p1 q1 =
    (let r = f_libm E L_floor (f_div E e0 e1);
         e1' = f_sub E e0 (f_mul E r e1);
         p1' = f_sub E p0 (f_mul E r p1);
         q1' = f_sub E q0 (f_mul E r q1);
         d = f_sub E (f_div E p1' q1') dbl
     in if f_less E (f_epsilon E) (f_libm E L_fabs d)
        then rationalize_loop E dbl e1 p1 q1 e1' p1' q1'
        else Some (p1', q1'))"

definition Yap_gmp_float_rationalize :: "'f env \<Rightarrow> 'f \<Rightarrow> 'f res option" where
  "Yap_gmp_float_rationalize E dbl =
    (let f = \<lambda>n. f_of_Int E n in
     case rationalize_loop E dbl dbl (f 0) (f 1) (f (- 1)) (f 1) (f 0) of
       None \<Rightarrow> None
     | Some (p1, q1) \<Rightarrow>
         Some (MkRatAndClose E
           (mpq_canonicalize E (mpq_set_zz E (mpz_set_d E p1) (mpz_set_d E q1)))))"

definition Yap_gmp_abs_big :: "'f env \<Rightarrow> 'f trm \<Rightarrow> 'f res" where [gmp_defs]:
  "Yap_gmp_abs_big E t =
    (if is_big_int t then MkBigAndClose E (mpz_abs E (Yap_BigIntOfTerm E t))
     else MkRatAndClose E (mpq_abs E (Yap_BigRatOfTerm E t)))"

definition Yap_gmp_unot_big :: "'f env \<Rightarrow> 'f trm \<Rightarrow> 'f res" where [gmp_defs]:
  "Yap_gmp_unot_big E t =
    (if is_big_int t then MkBigAndClose E (mpz_com E (Yap_BigIntOfTerm E t))
     else ArithError TYPE_ERROR_INTEGER t)"

definition Yap_gmp_floor :: "'f env \<Rightarrow> 'f trm \<Rightarrow> 'f res" where [gmp_defs]:
  "Yap_gmp_floor E t =
    (if is_big_int t then Inr t
     else let b = Yap_BigRatOfTerm E t; new = mpz_set_q E b in
       if mpq_sgn E b < 0 \<and> mpz_cmp_si E (mpq_denref E b) 1 \<noteq> 0
       then MkBigAndClose E (mpz_sub_ui E new 1)
       else MkBigAndClose E new)"

definition Yap_gmp_ceiling :: "'f env \<Rightarrow> 'f trm \<Rightarrow> 'f res" where [gmp_defs]:
  "Yap_gmp_ceiling E t =
    (if is_big_int t then Inr t
     else let b = Yap_BigRatOfTerm E t; new = mpz_set_q E b in
       if mpq_sgn E b > 0 \<and> mpz_cmp_si E (mpq_denref E b) 1 \<noteq> 0
       then MkBigAndClose E (mpz_add_ui E new 1)
       else MkBigAndClose E new)"

definition Yap_gmp_round :: "'f env \<Rightarrow> 'f trm \<Rightarrow> 'f res" where [gmp_defs]:
  "Yap_gmp_round E t =
    (if is_big_int t then Inr t
     else let b = Yap_BigRatOfTerm E t; half = mpq_set_si E 1 2 in
       if mpq_sgn E b > 0 then MkBigAndClose E (mpz_set_q E (mpq_add E b half))
       else MkBigAndClose E (mpz_set_q E (mpq_sub E b half)))"

text \<open>The rational is negated in place, read and negated back.\<close>

definition Yap_gmp_trunc :: "'f env \<Rightarrow> 'f trm \<Rightarrow> 'f res" where [gmp_defs]:
  "Yap_gmp_trunc E t =
    (if is_big_int t then Inr t
     else let b = Yap_BigRatOfTerm E t; sgn = mpq_sgn E b in
       if sgn \<noteq> 0 then MkBigAndClose E (mpz_neg E (mpz_set_q E (mpq_neg E b)))
       else MkBigAndClose E (mpz_set_q E b))"

definition Yap_gmp_float_fractional_part :: "'f env \<Rightarrow> 'f trm \<Rightarrow> 'f res" where [gmp_defs]:
  "Yap_gmp_float_fractional_part E t =
    (if is_big_int t then ArithError TYPE_ERROR_FLOAT t
     else let b = Yap_BigRatOfTerm E t;
              new = mpq_set_zz E (mpz_tdiv_q E (mpq_numref E b) (mpq_denref E b)) 1
          in MkRatAndClose E (mpq_sub E b new))"

definition Yap_gmp_float_integer_part :: "'f env \<Rightarrow> 'f trm \<Rightarrow> 'f res" where [gmp_defs]:
  "Yap_gmp_float_integer_part E t =
    (if is_big_int t then ArithError TYPE_ERROR_FLOAT t
     else let b = Yap_BigRatOfTerm E t
          in MkBigAndClose E (mpz_tdiv_q E (mpq_numref E b) (mpq_denref E b)))"

definition Yap_gmp_sign :: "'f env \<Rightarrow> 'f trm \<Rightarrow> 'f res" where [gmp_defs]:
  "Yap_gmp_sign E t =
    (if is_big_int t then RINT (word_of_int (mpz_sgn E (Yap_BigIntOfTerm E t)))
     else RINT (word_of_int (mpq_sgn E (Yap_BigRatOfTerm E t))))"

definition Yap_gmp_lsb :: "'f env \<Rightarrow> 'f trm \<Rightarrow> 'f res" where [gmp_defs]:
  "Yap_gmp_lsb E t =
    (if is_big_int t then let big = Yap_BigIntOfTerm E t in
       (if mpz_sgn E big \<le> 0 then ArithError DOMAIN_ERROR_NOT_LESS_THAN_ZERO t
        else RINT (of_nat (mpz_scan1 E big 0)))
     else ArithError TYPE_ERROR_INTEGER t)"

definition Yap_gmp_msb :: "'f env \<Rightarrow> 'f trm \<Rightarrow> 'f res" where [gmp_defs]:
  "Yap_gmp_msb E t =
    (if is_big_int t then let big = Yap_BigIntOfTerm E t in
       (if mpz_sgn E big \<le> 0 then ArithError DOMAIN_ERROR_NOT_LESS_THAN_ZERO t
        else RINT (of_nat (mpz_sizeinbase E big 2)))
     else ArithError TYPE_ERROR_INTEGER t)"

definition Yap_gmp_popcount :: "'f env \<Rightarrow> 'f trm \<Rightarrow> 'f res" where [gmp_defs]:
  "Yap_gmp_popcount E t =
    (if is_big_int t then let big = Yap_BigIntOfTerm E t in
       (if mpz_sgn E big \<le> 0 then ArithError DOMAIN_ERROR_NOT_LESS_THAN_ZERO t
        else RINT (of_nat (mpz_popcount E big)))
     else ArithError TYPE_ERROR_INTEGER t)"

section \<open>Conversions\<close>

text \<open>The decimal text that \<open>snprintf("%lld")\<close> writes.\<close>

fun dec_digits :: "nat \<Rightarrow> string" where
  "dec_digits n =
    (if n < 10 then [char_of (48 + n)]
     else dec_digits (n div 10) @ [char_of (48 + n mod 10)])"

definition sprintf_lld :: "cint \<Rightarrow> string" where
  "sprintf_lld i =
    (if c_less i 0 then CHR ''-'' # dec_digits (nat (- sint i)) else dec_digits (nat (sint i)))"

definition Yap_gmp_big_from_64bits :: "'f env \<Rightarrow> cint \<Rightarrow> 'f res" where
  "Yap_gmp_big_from_64bits E i = MkBigAndClose E (mpz_set_str E (sprintf_lld i) 10)"

text \<open>\<open>Yap_Mk64IntegerTerm\<close>: on this build a 64-bit value always is an \<open>Int\<close>.\<close>

definition Yap_Mk64IntegerTerm :: "'f env \<Rightarrow> cint \<Rightarrow> 'f res" where
  "Yap_Mk64IntegerTerm E i =
    (if c_le i Int_MAX \<and> c_le Int_MIN i then RINT i else Yap_gmp_big_from_64bits E i)"

text \<open>
  Printing into a caller's buffer of \<open>sz\<close> bytes (\<open>None\<close>: it does not fit), or into a fresh one
  when the caller passes a null pointer. The text of a rational gets its terminating zero from
  \<open>strncpy\<close>, which pads the caller's buffer; a fresh one is left unterminated.
\<close>

definition Yap_mpz_to_string :: "'f env \<Rightarrow> int \<Rightarrow> bool \<Rightarrow> nat \<Rightarrow> nat \<Rightarrow> string option" where
  "Yap_mpz_to_string E b s_null sz base =
    (if \<not> s_null then
       (let size = mpz_sizeinbase E b base in
        if size + 2 > sz then None else Some (mpz_get_str E base b))
     else None)"

definition Yap_gmp_to_string ::
  "'f env \<Rightarrow> 'f trm \<Rightarrow> bool \<Rightarrow> nat \<Rightarrow> nat \<Rightarrow> (yap_error \<times> 'f trm) + string option" where
  "Yap_gmp_to_string E t s_null sz base =
    (if is_big_int t then
       let b = Yap_BigIntOfTerm E t in
       Inr (if \<not> s_null \<and> mpz_sizeinbase E b base + 2 > sz then None
            else Some (mpz_get_str E base b))
     else if big_tag t = Some BIG_RATIONAL then
       let b = Yap_BigRatOfTerm E t;
           siz = mpz_sizeinbase E (mpq_numref E b) base
             + mpz_sizeinbase E (mpq_denref E b) base + 8
       in if \<not> s_null \<and> siz > sz then Inr None
          else if s_null then ArithError UNDEFINED_BEHAVIOUR t
          else Inr (Some (''rdiv('' @ mpz_get_str E base (mpq_numref E b) @ '',''
            @ mpz_get_str E base (mpq_denref E b) @ '')''))
     else ArithError UNDEFINED_BEHAVIOUR t)"

definition Yap_gmp_to_size :: "'f env \<Rightarrow> 'f trm \<Rightarrow> nat \<Rightarrow> nat" where
  "Yap_gmp_to_size E t base =
    (if is_big_int t then mpz_sizeinbase E (Yap_BigIntOfTerm E t) base
     else if big_tag t = Some BIG_RATIONAL then
       let b = Yap_BigRatOfTerm E t in
       mpz_sizeinbase E (mpq_numref E b) base + mpz_sizeinbase E (mpq_denref E b) base + 8
     else 1)"

text \<open>The number stored in the caller's object, or \<open>None\<close> for the result \<open>FALSE\<close>.\<close>

definition Yap_term_to_existing_big :: "'f env \<Rightarrow> 'f trm \<Rightarrow> int option" where
  "Yap_term_to_existing_big E t =
    (if IsVar_trm t then None
     else if IsIntegerTerm t then Some (mpz_set_si E (IntegerOfTerm t))
     else if IsBigIntTerm t then
       (if \<not> is_big_int t then None else Some (Yap_BigIntOfTerm E t))
     else None)"

definition Yap_term_to_existing_rat :: "'f env \<Rightarrow> 'f trm \<Rightarrow> rat option" where
  "Yap_term_to_existing_rat E t =
    (if IsVar_trm t then None
     else if IsIntegerTerm t then Some (mpq_set_si E (IntegerOfTerm t) 1)
     else if IsBigIntTerm t then
       (if is_big_int t then Some (mpq_set_z E (Yap_BigIntOfTerm E t))
        else if big_tag t = Some BIG_RATIONAL then Some (Yap_BigRatOfTerm E t)
        else None)
     else None)"

section \<open>The contract of GMP\<close>

text \<open>The number that a decimal text denotes, as \<open>mpz_set_str\<close> documents it.\<close>

definition dec_val :: "string \<Rightarrow> int" where
  "dec_val s = (case s of [] \<Rightarrow> 0
    | c # cs \<Rightarrow> if c = CHR ''-'' then - foldl (\<lambda>v d. 10 * v + (of_char d - 48)) 0 cs
        else foldl (\<lambda>v d. 10 * v + (of_char d - 48)) 0 s)"

locale gmp =
  fixes E :: "'f env"
  assumes set_si: "mpz_set_si E i = sint i"
    and add_ui: "mpz_add_ui E z u = z + uint u"
    and sub_ui: "mpz_sub_ui E z u = z - uint u"
    and mul_si: "mpz_mul_si E z i = z * sint i"
    and mul_2exp: "mpz_mul_2exp E z u = z * 2 ^ unat u"
    and add: "mpz_add E x y = x + y"
    and sub: "mpz_sub E x y = x - y"
    and mul: "mpz_mul E x y = x * y"
    and neg: "mpz_neg E x = - x"
    and abs: "mpz_abs E x = \<bar>x\<bar>"
    and com: "mpz_com E x = NOT x"
    and tdiv_q: "y \<noteq> 0 \<Longrightarrow> mpz_tdiv_q E x y = x sdiv y"
    and fdiv_q: "y \<noteq> 0 \<Longrightarrow> mpz_fdiv_q E x y = x div y"
    and tdiv_r: "y \<noteq> 0 \<Longrightarrow> mpz_tdiv_r E x y = x smod y"
    and fdiv_r: "y \<noteq> 0 \<Longrightarrow> mpz_fdiv_r E x y = x mod y"
    and tdiv_q_ui: "u \<noteq> 0 \<Longrightarrow> mpz_tdiv_q_ui E x u = x sdiv uint u"
    and fdiv_q_ui: "u \<noteq> 0 \<Longrightarrow> mpz_fdiv_q_ui E x u = x div uint u"
    and fdiv_q_2exp: "mpz_fdiv_q_2exp E x u = x div 2 ^ unat u"
    and and_z: "mpz_and E x y = x AND y"
    and ior_z: "mpz_ior E x y = x OR y"
    and xor_z: "mpz_xor E x y = x XOR y"
    and gcd_z: "mpz_gcd E x y = gcd x y"
    and gcd_ui: "u \<noteq> 0 \<Longrightarrow> uint (mpz_gcd_ui E x u) = gcd x (uint u)"
    and pow_ui: "mpz_pow_ui E x u = x ^ unat u"
    and setbit: "mpz_setbit E x u = x OR 2 ^ unat u"
    and cmp: "sgn (mpz_cmp E x y) = sgn (x - y)"
    and cmp_si: "sgn (mpz_cmp_si E x i) = sgn (x - sint i)"
    and sgn_z: "mpz_sgn E x = sgn x"
    and scan1: "x > 0 \<Longrightarrow> bit x (mpz_scan1 E x 0) \<and> (\<forall>i < mpz_scan1 E x 0. \<not> bit x i)"
    and sizeinbase: "x > 0 \<Longrightarrow> 2 ^ mpz_sizeinbase E x 2 \<le> 2 * x \<and> x < 2 ^ mpz_sizeinbase E x 2"
    and popcount: "x \<ge> 0 \<Longrightarrow> mpz_popcount E x = card {i. bit x i}"
    and fits_slong: "mpz_fits_slong_p E x \<longleftrightarrow> fits_Int x"
    and get_si: "fits_Int x \<Longrightarrow> sint (mpz_get_si E x) = x"
    and set_q: "mpz_set_q E q = fst (quotient_of q) sdiv snd (quotient_of q)"
    and set_str: "mpz_set_str E s 10 = dec_val s"
    and q_set_si: "u \<noteq> 0 \<Longrightarrow> mpq_set_si E i u = of_int (sint i) / of_int (uint u)"
    and q_set_zz: "d \<noteq> 0 \<Longrightarrow> mpq_set_zz E n d = of_int n / of_int d"
    and q_set_z: "mpq_set_z E x = of_int x"
    and q_canonicalize: "mpq_canonicalize E q = q"
    and q_numref: "mpq_numref E q = fst (quotient_of q)"
    and q_denref: "mpq_denref E q = snd (quotient_of q)"
    and q_add: "mpq_add E p q = p + q"
    and q_sub: "mpq_sub E p q = p - q"
    and q_mul: "mpq_mul E p q = p * q"
    and q_div: "q \<noteq> 0 \<Longrightarrow> mpq_div E p q = p / q"
    and q_neg: "mpq_neg E p = - p"
    and q_abs: "mpq_abs E p = \<bar>p\<bar>"
    and q_mul_2exp: "mpq_mul_2exp E p u = p * 2 ^ unat u"
    and q_div_2exp: "mpq_div_2exp E p u = p / 2 ^ unat u"
    and q_cmp: "sgn (mpq_cmp E p q) = (if p < q then - 1 else if p = q then 0 else 1)"
    and q_cmp_si: "u \<noteq> 0 \<Longrightarrow> sgn (mpq_cmp_si E p i u) =
      (let q = of_int (sint i) / of_int (uint u) in if p < q then - 1 else if p = q then 0 else 1)"
    and q_sgn: "mpq_sgn E p = (if p < 0 then - 1 else if p = 0 then 0 else 1)"
begin

lemmas gmp_laws = set_si add_ui sub_ui mul_si mul_2exp add sub mul neg abs com tdiv_q fdiv_q
  tdiv_r fdiv_r tdiv_q_ui fdiv_q_ui fdiv_q_2exp and_z ior_z xor_z gcd_z pow_ui sgn_z
  set_q q_set_si q_set_z q_canonicalize q_numref q_denref q_add q_sub q_mul q_div q_neg q_abs
  q_mul_2exp q_sgn

end

end
