(* ===== verification/YapGmpCorrect.thy ===== *)
theory YapGmpCorrect
  imports YapGmp
begin

text \<open>
  What the bignum operations compute. A number of the program is read as a mathematical one by
  \<open>int_val\<close> and \<open>rat_val\<close>; \<open>int_term\<close> and \<open>rat_term\<close> give the canonical term of a number,
  and \<open>box_int\<close> and \<open>box_rat\<close> the result of returning it when the stack may be full. Inside
  the locale \<open>gmp\<close> every operation is shown to return the box of the mathematical result; the
  locale is interpreted on the environment whose fields are the mathematical functions.
\<close>

text \<open>Integers read from words are compared as rationals here, not folded into \<open>signed\<close>.\<close>

declare of_int_sint [simp del] of_int_uint [simp del]

section \<open>Numbers and their canonical terms\<close>

fun int_val :: "'f trm \<Rightarrow> int option" where
  "int_val (IntT i) = Some (sint i)"
| "int_val (LongT i) = Some (sint i)"
| "int_val (BigT z) = Some z"
| "int_val _ = None"

fun rat_val :: "'f trm \<Rightarrow> rat option" where
  "rat_val (IntT i) = Some (of_int (sint i))"
| "rat_val (LongT i) = Some (of_int (sint i))"
| "rat_val (BigT z) = Some (of_int z)"
| "rat_val (RatT q) = Some q"
| "rat_val _ = None"

lemma rat_val_of_int_val: "int_val t = Some z \<Longrightarrow> rat_val t = Some (of_int z)"
  by (cases t) auto

text \<open>
  The canonical representation: a tagged cell for the integers its payload holds, a boxed
  \<open>Int\<close> for the others of 64 bits, a bignum beyond, a rational when the denominator is not one.
\<close>

fun canonical :: "'f trm \<Rightarrow> bool" where
  "canonical (IntT i) \<longleftrightarrow> - (2 ^ 57) \<le> sint i \<and> sint i < 2 ^ 57"
| "canonical (LongT i) \<longleftrightarrow> \<not> IntInBnd i"
| "canonical (BigT z) \<longleftrightarrow> \<not> fits_Int z"
| "canonical (RatT q) \<longleftrightarrow> snd (quotient_of q) \<noteq> 1"
| "canonical _ \<longleftrightarrow> False"

definition int_term :: "int \<Rightarrow> 'f trm" where
  "int_term z = (if fits_Int z then MkIntegerTerm (word_of_int z) else BigT z)"

definition rat_term :: "rat \<Rightarrow> 'f trm" where
  "rat_term q = (if snd (quotient_of q) = 1 then int_term (fst (quotient_of q)) else RatT q)"

definition box_int :: "'f env \<Rightarrow> int \<Rightarrow> 'f res" where
  "box_int E z = (if fits_Int z \<or> limbs_fit E z then Inr (int_term z)
    else Inl (RESOURCE_ERROR_STACK, TermNil))"

definition box_rat :: "'f env \<Rightarrow> rat \<Rightarrow> 'f res" where
  "box_rat E q = (if snd (quotient_of q) = 1 then box_int E (fst (quotient_of q))
    else if rat_fits E q then Inr (RatT q)
    else Inl (RESOURCE_ERROR_STACK, TermNil))"

lemma quotient_of_int [simp]: "quotient_of (of_int z) = (z, 1)"
  using Rat.quotient_of_int [of z] by (simp add: Rat.of_int_def)

lemma rat_term_of_int [simp]: "rat_term (of_int z) = int_term z"
  by (simp add: rat_term_def)

lemma box_rat_of_int: "box_rat E (of_int z) = box_int E z"
  by (simp add: box_rat_def)

lemma quotient_of_one:
  assumes "snd (quotient_of q) = 1"
  shows "q = of_int (fst (quotient_of q))"
  using quotient_of_div [of q "fst (quotient_of q)" "snd (quotient_of q)"]
  by (simp add: prod_eq_iff assms)

lemma MkIntegerTerm_neq_Nil [simp]: "MkIntegerTerm n \<noteq> TermNil"
  by (simp add: MkIntegerTerm_def mkInt_def TermNil_def)

lemma int_val_MkIntegerTerm:
  "\<not> tag_gap (sint n) \<Longrightarrow> int_val (MkIntegerTerm n) = Some (sint n)"
  by (auto simp: MkIntegerTerm_def mkInt_def IntInBnd_iff tag_gap_def IntOfTerm_MkIntTerm)

lemma canonical_MkIntegerTerm: "canonical (MkIntegerTerm n)"
proof (cases "IntInBnd n")
  case True
  have "- (2 ^ 57) \<le> sint (IntOfTerm (MkIntTerm n)) \<and> sint (IntOfTerm (MkIntTerm n)) < 2 ^ 57"
    using signed_take_bit_int_less_exp [of 57 "sint n"]
      signed_take_bit_int_greater_eq_minus_exp [of 57 "sint n"]
    by (simp add: sint_IntOfTerm_MkIntTerm)
  with True show ?thesis by (simp add: MkIntegerTerm_def mkInt_def)
qed (simp add: MkIntegerTerm_def)

lemma canonical_int_term: "canonical (int_term z)"
  by (simp add: int_term_def canonical_MkIntegerTerm)

lemma int_val_int_term: "\<not> tag_gap z \<Longrightarrow> int_val (int_term z) = Some z"
  by (auto simp: int_term_def int_val_MkIntegerTerm c_int)

lemma rat_val_rat_term: "\<not> (snd (quotient_of q) = 1 \<and> tag_gap (fst (quotient_of q)))
    \<Longrightarrow> rat_val (rat_term q) = Some q"
  by (auto simp: rat_term_def quotient_of_one [symmetric] dest!: int_val_int_term
      dest: rat_val_of_int_val)

text \<open>A number has one canonical term: equal values, equal terms.\<close>

lemma canonical_unique:
  assumes "canonical s" and "canonical t" and "rat_val s = Some q" and "rat_val t = Some q"
  shows "s = t"
  using assms
  by (cases s; cases t) (auto simp: IntInBnd_iff)

lemma small_canonical: "canonical (mkInt n)"
  using canonical_MkIntegerTerm [of n]
    signed_take_bit_int_less_exp [of 57 "sint n"]
    signed_take_bit_int_greater_eq_minus_exp [of 57 "sint n"]
  by (simp add: mkInt_def sint_IntOfTerm_MkIntTerm)

section \<open>The operations compute the mathematical results\<close>

context gmp
begin

lemma MkBigIntTerm: "Yap_MkBigIntTerm E z =
    (if fits_Int z \<or> limbs_fit E z then int_term z else TermNil)"
proof (cases "fits_Int z")
  case True
  then have "mpz_get_si E z = word_of_int z"
    by (metis get_si sint_inj sint_of_int_fits)
  with True show ?thesis by (simp add: Yap_MkBigIntTerm_def fits_slong int_term_def)
qed (simp add: Yap_MkBigIntTerm_def fits_slong int_term_def)

lemma BigT_neq_Nil: "BigT z \<noteq> TermNil" "RatT q \<noteq> TermNil" "int_term z \<noteq> TermNil"
  by (simp_all add: TermNil_def int_term_def MkIntegerTerm_def mkInt_def)

lemma MkBigAndClose: "MkBigAndClose E z = box_int E z"
  by (simp add: MkBigAndClose_def MkBigIntTerm box_int_def ArithError_def BigT_neq_Nil)

lemma sgn_eq_0: "sgn (x :: int) = sgn y \<Longrightarrow> x = 0 \<longleftrightarrow> y = 0"
  by (metis sgn_eq_0_iff)

lemma MkRatAndClose: "MkRatAndClose E q = box_rat E q"
proof -
  have "mpz_cmp_si E (mpq_denref E q) 1 = 0 \<longleftrightarrow> snd (quotient_of q) = 1"
    using sgn_eq_0 [OF cmp_si [of "mpq_denref E q" 1]] by (simp add: q_denref)
  then show ?thesis
    by (auto simp: MkRatAndClose_def Yap_MkBigRatTerm_def MkBigIntTerm box_rat_def box_int_def
        ArithError_def BigT_neq_Nil q_numref)
qed

end

text \<open>A boxed number: a bignum or a rational, with its value.\<close>

definition big_num :: "'f trm \<Rightarrow> rat \<Rightarrow> bool" where
  "big_num t q \<longleftrightarrow> IsBigIntTerm t \<and> rat_val t = Some q"

lemma big_num_cases [consumes 1]:
  assumes "big_num t q"
  obtains (BigT) z where "t = BigT z" "q = of_int z" | (RatT) "t = RatT q"
  using assms by (cases t) (auto simp: big_num_def)

lemma big_num_BigT [simp]: "big_num (BigT z) (of_int z)"
  by (simp add: big_num_def)

lemma is_big_int_simps [simp]: "is_big_int (BigT z)" "\<not> is_big_int (RatT q)"
  by (simp_all add: is_big_int_def BIG_INT_def BIG_RATIONAL_def)

lemma uint_c_less: "c_less 0 j \<Longrightarrow> uint j = sint j"
  by (simp add: c_less_def uint_eq_sint)

lemma uint_minus_c_less: "\<not> c_less 0 j \<Longrightarrow> uint (- j) = - sint j"
  using uint_uminus_sint [of j]
  by (cases "j = 0") (auto simp: c_less_def not_less order_le_less dest: eq_zero_iff_sint [THEN iffD2])

lemma most_negative:
  assumes "\<not> c_less 0 j" and "c_less 0 (j - 1)"
  shows "j = Int_MIN"
proof (rule ccontr)
  assume "j \<noteq> Int_MIN"
  then have "fits_Int (sint j - sint (1 :: cint))"
    using assms(1) sint_greater_eq [of j] unfolding eq_Int_MIN_iff
    by (simp add: fits_Int_def c_less_def)
  then have "sint (j - 1) = sint j - 1"
    by (simp add: sint_diff_fits)
  with assms show False by (simp add: c_less_def)
qed

lemma uint_minus_most_negative:
  "\<not> c_less 0 j \<Longrightarrow> c_less 0 (j - 1) \<Longrightarrow> uint (- j - 1) = - sint j - 1"
  by (drule (1) most_negative) simp

lemma c_div_rounds: "c_div (- 3) 2 \<noteq> - 2"
proof -
  have "sint (c_div (- 3) 2) = - 1"
    by (subst sint_c_div) (simp_all add: sint_uint signed_divide_int_def)
  moreover have "sint (- 2 :: cint) = - 2" by (simp add: sint_uint)
  ultimately show ?thesis by fastforce
qed

lemmas boxes = box_rat_of_int [symmetric]

context gmp
begin

lemmas gmp_simps = gmp_defs gmp_laws MkBigAndClose MkRatAndClose boxes

lemma add_ints: "Yap_gmp_add_ints E i j = box_int E (sint i + sint j)"
  by (auto simp: Let_def uint_minus_most_negative Yap_gmp_add_ints_def gmp_laws MkBigAndClose uint_c_less uint_minus_c_less)

lemma sub_ints: "Yap_gmp_sub_ints E i j = box_int E (sint i - sint j)"
  by (auto simp: Let_def uint_minus_most_negative Yap_gmp_sub_ints_def gmp_laws MkBigAndClose uint_c_less uint_minus_c_less)

lemma mul_ints: "Yap_gmp_mul_ints E i j = box_int E (sint i * sint j)"
  by (simp add: Yap_gmp_mul_ints_def gmp_laws MkBigAndClose)

lemma sll_ints: "Yap_gmp_sll_ints E i j = box_int E (sint i * 2 ^ unat j)"
  by (simp add: Yap_gmp_sll_ints_def gmp_laws MkBigAndClose)

lemma exp_int_int: "Yap_gmp_exp_int_int E i j = box_int E (sint i ^ unat j)"
  by (simp add: Yap_gmp_exp_int_int_def gmp_laws MkBigAndClose)

lemma neg_int: "Yap_gmp_neg_int E i = box_int E (2 ^ 63)"
  by (simp add: Yap_gmp_neg_int_def gmp_laws MkBigAndClose)

lemma add_int_big: "big_num t q \<Longrightarrow> Yap_gmp_add_int_big E i t = box_rat E (of_int (sint i) + q)"
  by (auto elim!: big_num_cases simp: gmp_simps)

lemma sub_int_big: "big_num t q \<Longrightarrow> Yap_gmp_sub_int_big E i t = box_rat E (of_int (sint i) - q)"
  by (auto elim!: big_num_cases simp: gmp_simps)

lemma mul_int_big: "big_num t q \<Longrightarrow> Yap_gmp_mul_int_big E i t = box_rat E (of_int (sint i) * q)"
  by (auto elim!: big_num_cases simp: gmp_simps)

lemma sub_big_int: "big_num t q \<Longrightarrow> Yap_gmp_sub_big_int E t i = box_rat E (q - of_int (sint i))"
  by (auto elim!: big_num_cases simp: gmp_simps)

lemma big_as_rat_val: "big_num t q \<Longrightarrow> big_as_rat E t = q"
  by (auto elim!: big_num_cases simp: gmp_simps)

lemma add_big_big: "big_num s p \<Longrightarrow> big_num t q \<Longrightarrow> Yap_gmp_add_big_big E s t = box_rat E (p + q)"
  by (auto elim!: big_num_cases simp: gmp_simps)

lemma sub_big_big: "big_num s p \<Longrightarrow> big_num t q \<Longrightarrow> Yap_gmp_sub_big_big E s t = box_rat E (p - q)"
  by (auto elim!: big_num_cases simp: gmp_simps)

lemma mul_big_big: "big_num s p \<Longrightarrow> big_num t q \<Longrightarrow> Yap_gmp_mul_big_big E s t = box_rat E (p * q)"
  by (auto elim!: big_num_cases simp: gmp_simps)

lemma div_big_int:
  "Yap_gmp_div_big_int E (BigT z) i =
    (if i = 0 then ArithError EVALUATION_ERROR_ZERO_DIVISOR (mkInt 0)
     else box_int E (if c_less 0 i then z div sint i else - (z div (- sint i))))"
  using uint_c_less [of i] uint_minus_c_less [of i]
  by (auto simp: gmp_defs gmp_laws MkBigAndClose c_div_rounds c_less_def)

lemma div2_big_int:
  "Yap_gmp_div2_big_int E (BigT z) i =
    (if i = 0 then ArithError EVALUATION_ERROR_ZERO_DIVISOR (mkInt 0)
     else box_int E (if c_less 0 i then z div sint i else - (z div (- sint i))))"
  using uint_c_less [of i] uint_minus_c_less [of i]
  by (auto simp: gmp_defs gmp_laws MkBigAndClose c_less_def)

lemma div_big_big: "y \<noteq> 0 \<Longrightarrow> Yap_gmp_div_big_big E (BigT x) (BigT y) = box_int E (x div y)"
  by (simp add: gmp_defs gmp_laws MkBigAndClose c_div_rounds)

lemma div2_big_big: "y \<noteq> 0 \<Longrightarrow> Yap_gmp_div2_big_big E (BigT x) (BigT y) = box_int E (x div y)"
  by (simp add: gmp_defs gmp_laws MkBigAndClose)

lemma bit_ops:
  "Yap_gmp_and_int_big E i (BigT z) = box_int E (sint i AND z)"
  "Yap_gmp_ior_int_big E i (BigT z) = box_int E (sint i OR z)"
  "Yap_gmp_xor_int_big E i (BigT z) = box_int E (sint i XOR z)"
  "Yap_gmp_and_big_big E (BigT y) (BigT z) = box_int E (y AND z)"
  "Yap_gmp_ior_big_big E (BigT y) (BigT z) = box_int E (y OR z)"
  "Yap_gmp_xor_big_big E (BigT y) (BigT z) = box_int E (y XOR z)"
  by (simp_all add: gmp_defs gmp_laws MkBigAndClose)

lemma sll_big_int:
  "Yap_gmp_sll_big_int E (BigT z) i =
    (if i = Int_MIN then ArithError RESOURCE_ERROR_HUGE_INT (MkIntegerTerm i)
     else if i = 0 then Inr (BigT z)
     else box_int E (if c_less 0 i then z * 2 ^ nat (sint i) else z div 2 ^ nat (- sint i)))"
  using uint_c_less [of i] uint_minus_c_less [of i]
  by (auto simp: gmp_defs gmp_laws MkBigAndClose unat_eq_nat_uint c_less_def)

lemma mod_rem_ops:
  "y \<noteq> 0 \<Longrightarrow> Yap_gmp_mod_big_big E (BigT x) (BigT y) = box_int E (x mod y)"
  "sint i \<noteq> 0 \<Longrightarrow> Yap_gmp_mod_big_int E (BigT x) i = box_int E (x mod sint i)"
  "y \<noteq> 0 \<Longrightarrow> Yap_gmp_rem_big_big E (BigT x) (BigT y) = box_int E (x smod y)"
  "sint i \<noteq> 0 \<Longrightarrow> Yap_gmp_rem_big_int E (BigT x) i = box_int E (x smod sint i)"
  by (simp_all add: gmp_defs gmp_laws MkBigAndClose)

text \<open>
  An \<open>Int\<close> modulo a bignum: right for every bignum that is out of the range of \<open>Int\<close> except
  that zero modulo a positive bignum gives the bignum.
\<close>

lemma box_int_MkIntegerTerm: "Inr (MkIntegerTerm i) = box_int E (sint i)"
  by (simp add: box_int_def int_term_def word_of_int_sint)

lemma mod_int_big:
  assumes "\<not> fits_Int z" and "sint i \<noteq> 0 \<or> z < 0"
  shows "Yap_gmp_mod_int_big E i (BigT z) = box_int E (sint i mod z)"
proof -
  have i: "- (2 ^ 63) \<le> sint i" "sint i < 2 ^ 63"
    using fits_sint [of i] by (simp_all add: fits_Int_def)
  show ?thesis
  proof (cases "z > 0")
    case True
    with assms(1) have z: "2 ^ 63 \<le> z" by (simp add: fits_Int_def)
    have "sint i mod z = (if sint i > 0 then sint i else sint i + z)"
    proof (cases "sint i > 0")
      case False
      with i z True assms(2) have "sint i + z \<ge> 0" "sint i + z < z" by auto
      then have "(sint i + z) mod z = sint i + z" by (simp only: mod_pos_pos_trivial)
      with False show ?thesis by simp
    qed (use i z in simp)
    with True show ?thesis
      by (auto simp: gmp_defs gmp_laws MkBigAndClose c_less_def box_int_MkIntegerTerm Let_def)
  next
    case False
    with assms(1) have z: "z < - (2 ^ 63)" by (auto simp: fits_Int_def)
    have "sint i mod z = (if sint i > 0 then z + sint i else sint i)"
    proof (cases "sint i > 0")
      case True
      with i z have "z + sint i \<le> 0" "z < z + sint i" by auto
      then have "(z + sint i) mod z = z + sint i" by (simp only: mod_neg_neg_trivial)
      with True show ?thesis by simp
    qed (use i z in \<open>simp add: mod_neg_neg_trivial\<close>)
    with False show ?thesis
      by (auto simp: gmp_defs gmp_laws MkBigAndClose c_less_def box_int_MkIntegerTerm Let_def
          sgn_if split: if_splits)
  qed
qed

lemma rem_int_big:
  assumes "\<not> fits_Int z" and "sint i \<noteq> - z"
  shows "Yap_gmp_rem_int_big E i (BigT z) = box_int E (sint i smod z)"
proof -
  have "\<bar>sint i\<bar> < \<bar>z\<bar>"
    using fits_sint [of i] assms by (auto simp: fits_Int_def)
  then have "sint i smod z = sint i"
    by (simp add: smod_int_alt_def sgn_if)
  then show ?thesis by (simp add: gmp_defs box_int_MkIntegerTerm)
qed

lemma gcd_big_big: "Yap_gmp_gcd_big_big E (BigT x) (BigT y) = box_int E (gcd x y)"
  by (simp add: gmp_defs gmp_laws MkBigAndClose)

lemma gcd_int_big:
  assumes "sint i \<noteq> 0" and "i \<noteq> Int_MIN"
  shows "Yap_gmp_gcd_int_big E i (BigT z) = box_int E (gcd (sint i) z)"
proof -
  have gcd: "Inr (MkIntegerTerm (mpz_gcd_ui E z u)) = box_int E (gcd z (uint u))"
    if "uint u < 2 ^ 63" "u \<noteq> 0" for u
  proof -
    from that have pos: "uint u > 0" by (metis uint_0_iff uint_ge_0 order_le_less)
    then have "gcd z (uint u) \<le> uint u" by (simp add: gcd_le2_int)
    with that(1) have "signed_take_bit 63 (gcd z (uint u)) = gcd z (uint u)"
      using gcd_ge_0_int [of z "uint u"] by (intro signed_take_bit_int_eq_self) linarith+
    with that gcd_ui [of u z] have "sint (mpz_gcd_ui E z u) = gcd z (uint u)"
      by (simp add: sint_uint)
    then show ?thesis by (simp add: box_int_MkIntegerTerm)
  qed
  have i: "- (2 ^ 63) < sint i" "sint i < 2 ^ 63"
    using fits_sint [of i] assms(2) unfolding eq_Int_MIN_iff by (auto simp: fits_Int_def)
  show ?thesis
  proof (cases "c_less 0 i")
    case True
    with i assms gcd [of i] show ?thesis
      by (auto simp: gmp_defs uint_c_less gcd.commute eq_zero_iff_sint)
  next
    case False
    have "- i \<noteq> 0" using assms(1) by auto
    with False i assms gcd [of "- i"] show ?thesis
      by (auto simp: gmp_defs uint_minus_c_less gcd.commute eq_zero_iff_sint)
  qed
qed

text \<open>Unary operations.\<close>

lemma neg_big: "big_num t q \<Longrightarrow> Yap_gmp_neg_big E t = box_rat E (- q)"
  by (auto elim!: big_num_cases simp: gmp_simps)

lemma abs_big: "big_num t q \<Longrightarrow> Yap_gmp_abs_big E t = box_rat E \<bar>q\<bar>"
  by (auto elim!: big_num_cases simp: gmp_simps)

lemma unot_big: "Yap_gmp_unot_big E (BigT z) = box_int E (NOT z)"
  by (simp add: gmp_defs gmp_laws MkBigAndClose)

lemma sign_big: "big_num t q \<Longrightarrow> Yap_gmp_sign E t =
    Inr (MkIntegerTerm (if q < 0 then - 1 else if q = 0 then 0 else 1))"
  by (auto elim!: big_num_cases simp: gmp_simps RINT_def sgn_if)

lemma set_q_trunc: "mpz_set_q E q = (if q < 0 then \<lceil>q\<rceil> else \<lfloor>q\<rfloor>)"
proof -
  obtain n d where nd: "quotient_of q = (n, d)" by (cases "quotient_of q")
  then have d: "d > 0" and q: "q = of_int n / of_int d"
    by (auto intro: quotient_of_denom_pos quotient_of_div)
  have floor: "\<lfloor>p\<rfloor> = k div d" if "p = of_int k / of_int d" for k :: int and p :: rat
    by (simp add: that floor_divide_of_int_eq)
  have neg: "q < 0 \<longleftrightarrow> n < 0" using d by (simp add: q divide_less_0_iff)
  have "\<lceil>q\<rceil> = - ((- n) div d)"
    unfolding ceiling_def using floor [of "- q" "- n"] by (simp add: q)
  moreover have "n sdiv d = (if n < 0 then - ((- n) div d) else n div d)"
    using d by (simp add: signed_divide_int_def sgn_if)
  ultimately show ?thesis
    using neg floor [OF q] by (simp add: set_q nd)
qed

lemma denominator_one:
  "mpz_cmp_si E (mpq_denref E q) 1 \<noteq> 0 \<longleftrightarrow> snd (quotient_of q) \<noteq> 1"
  using sgn_eq_0 [OF cmp_si [of "mpq_denref E q" 1]] by (simp add: q_denref)

lemma not_integer:
  assumes "snd (quotient_of q) \<noteq> 1"
  shows "\<lceil>q\<rceil> = \<lfloor>q\<rfloor> + 1"
proof -
  have "q \<notin> \<int>"
  proof
    assume "q \<in> \<int>"
    then obtain z where "q = of_int z" by (auto simp: Ints_def)
    with assms show False by simp
  qed
  then show ?thesis by (auto simp: ceiling_altdef Ints_def)
qed

lemma floor_big:
  assumes "snd (quotient_of q) \<noteq> 1"
  shows "Yap_gmp_floor E (RatT q) = box_int E \<lfloor>q\<rfloor>"
  using not_integer [OF assms] assms
  by (simp add: gmp_defs MkBigAndClose sub_ui q_sgn set_q_trunc denominator_one Let_def)

lemma ceiling_big:
  assumes "snd (quotient_of q) \<noteq> 1"
  shows "Yap_gmp_ceiling E (RatT q) = box_int E \<lceil>q\<rceil>"
  using not_integer [OF assms] assms quotient_of_int [of 0]
  by (auto simp: gmp_defs MkBigAndClose add_ui q_sgn set_q_trunc denominator_one Let_def)

text \<open>Rounding goes to the nearest integer, halves away from zero.\<close>

lemma round_big: "Yap_gmp_round E (RatT q) =
    box_int E (if q > 0 then \<lfloor>q + 1 / 2\<rfloor> else \<lceil>q - 1 / 2\<rceil>)"
proof -
  have half: "mpq_set_si E 1 2 = 1 / 2" by (simp add: q_set_si)
  show ?thesis
    by (simp add: gmp_defs MkBigAndClose half q_sgn q_add q_sub set_q_trunc Let_def)
qed

lemma trunc_big: "Yap_gmp_trunc E (RatT q) = box_int E (if q < 0 then \<lceil>q\<rceil> else \<lfloor>q\<rfloor>)"
  by (simp add: gmp_defs MkBigAndClose q_sgn q_neg neg set_q_trunc Let_def ceiling_def)

lemma box_big_int [simp]:
  "Yap_gmp_floor E (BigT z) = Inr (BigT z)" "Yap_gmp_ceiling E (BigT z) = Inr (BigT z)"
  "Yap_gmp_round E (BigT z) = Inr (BigT z)" "Yap_gmp_trunc E (BigT z) = Inr (BigT z)"
  by (simp_all add: gmp_defs)

lemma integer_part_big: "Yap_gmp_float_integer_part E (RatT q) =
    box_int E (if q < 0 then \<lceil>q\<rceil> else \<lfloor>q\<rfloor>)"
proof -
  have "snd (quotient_of q) \<noteq> 0" using quotient_of_denom_pos' [of q] by simp
  then have "mpz_tdiv_q E (mpq_numref E q) (mpq_denref E q) = mpz_set_q E q"
    by (simp add: q_numref q_denref tdiv_q set_q)
  then show ?thesis by (simp add: gmp_defs MkBigAndClose set_q_trunc Let_def)
qed

lemma fractional_part_big: "Yap_gmp_float_fractional_part E (RatT q) =
    box_rat E (q - of_int (if q < 0 then \<lceil>q\<rceil> else \<lfloor>q\<rfloor>))"
proof -
  have "snd (quotient_of q) \<noteq> 0" using quotient_of_denom_pos' [of q] by simp
  then have "mpz_tdiv_q E (mpq_numref E q) (mpq_denref E q) = mpz_set_q E q"
    by (simp add: q_numref q_denref tdiv_q set_q)
  then show ?thesis
    by (simp add: gmp_defs MkRatAndClose set_q_trunc Let_def q_set_zz q_sub)
qed

text \<open>Rational division and comparison.\<close>

lemma rdiv_int_int:
  assumes "sint j \<noteq> 0" and "\<not> (c_less j 0 \<and> (i = Int_MIN \<or> j = Int_MIN))"
  shows "Yap_gmq_rdiv_int_int E i j = box_rat E (of_int (sint i) / of_int (sint j))"
proof (cases "c_less j 0")
  case True
  with assms(2) have "i \<noteq> Int_MIN" and "sint j < 0" by (simp_all add: c_less_def)
  then have "fits_Int (- sint i)"
    using fits_sint [of i] unfolding eq_Int_MIN_iff by (auto simp: fits_Int_def)
  then have "sint (- i) = - sint i" by (rule sint_uminus_fits)
  moreover have "uint (- j) = - sint j" using \<open>sint j < 0\<close> by (rule uint_uminus_sint)
  moreover have "- j \<noteq> 0" using assms(1) by auto
  ultimately show ?thesis using True
    by (simp add: gmp_defs MkRatAndClose q_set_si q_canonicalize)
next
  case False
  then have "0 \<le> sint j" by (simp add: c_less_def)
  then have "uint j = sint j" by (rule uint_eq_sint)
  moreover have "j \<noteq> 0" using assms(1) by auto
  ultimately show ?thesis using False
    by (simp add: gmp_defs MkRatAndClose q_set_si q_canonicalize)
qed

lemma rdiv_int_big: "big_num t q \<Longrightarrow> q \<noteq> 0
    \<Longrightarrow> Yap_gmq_rdiv_int_big E i t = box_rat E (of_int (sint i) / q)"
  by (auto elim!: big_num_cases simp: gmp_simps)

lemma rdiv_big_int: "big_num t q \<Longrightarrow> sint i \<noteq> 0
    \<Longrightarrow> Yap_gmq_rdiv_big_int E t i = box_rat E (q / of_int (sint i))"
  by (auto elim!: big_num_cases simp: gmp_simps)

lemma rdiv_big_big: "big_num s p \<Longrightarrow> big_num t q \<Longrightarrow> q \<noteq> 0
    \<Longrightarrow> Yap_gmq_rdiv_big_big E s t = box_rat E (p / q)"
  by (auto elim!: big_num_cases simp: gmp_simps)

lemma exp_big_int:
  "c_less 0 i \<Longrightarrow> Yap_gmp_exp_big_int E (BigT z) i = box_int E (z ^ nat (sint i))"
  by (simp add: gmp_defs pow_ui MkBigAndClose unat_eq_nat_uint uint_c_less)

text \<open>Comparisons: the sign is that of the difference.\<close>

lemma sgn_diff: "sgn (x - y :: int) = (if x < y then - 1 else if x = y then 0 else 1)"
  by (simp add: sgn_if)

lemma cmp_big_int: "big_num t q \<Longrightarrow> sgn (Yap_gmp_cmp_big_int E t i) =
    (if q < of_int (sint i) then - 1 else if q = of_int (sint i) then 0 else 1)"
  by (auto elim!: big_num_cases simp: gmp_defs cmp_si q_cmp_si Let_def sgn_diff)

lemma cmp_int_big: "big_num t q \<Longrightarrow> sgn (Yap_gmp_cmp_int_big E i t) =
    (if of_int (sint i) < q then - 1 else if of_int (sint i) = q then 0 else 1)"
  by (auto elim!: big_num_cases
      simp: gmp_defs sgn_minus cmp_si q_cmp_si Let_def sgn_diff)

lemma cmp_big_big: "sgn (Yap_gmp_cmp_big_big E (BigT x) (BigT y)) = sgn (x - y)"
  by (simp add: gmp_defs cmp)

lemma cmp_rat_rat: "sgn (Yap_gmp_cmp_big_big E (RatT p) (RatT q)) =
    (if p < q then - 1 else if p = q then 0 else 1)"
  by (simp add: gmp_defs q_cmp)

lemma tcmp_big_int: "sgn (Yap_gmp_tcmp_big_int E (BigT z) i) = sgn (z - sint i)"
  "sgn (Yap_gmp_tcmp_int_big E i (BigT z)) = sgn (sint i - z)"
  by (simp_all add: gmp_defs cmp_si sgn_diff sgn_minus)

lemma tcmp_big_big:
  "sgn (Yap_gmp_tcmp_big_big E (BigT x) (BigT y)) = sgn (x - y)"
  "sgn (Yap_gmp_tcmp_big_big E (RatT p) (RatT q)) =
    (if p < q then - 1 else if p = q then 0 else 1)"
  "Yap_gmp_tcmp_big_big E (BigT x) (RatT q) = 1"
  "Yap_gmp_tcmp_big_big E (RatT q) (BigT x) = - 1"
  by (simp_all add: gmp_defs cmp q_cmp BIG_RATIONAL_def)

end

text \<open>Decimal text and back.\<close>

definition dec_step :: "int \<Rightarrow> char \<Rightarrow> int" where
  "dec_step v d = 10 * v + (of_char d - 48)"

lemma digit_val: "n < 10 \<Longrightarrow> of_char (char_of (48 + n :: nat)) = 48 + int n"
proof -
  assume "n < 10"
  then have "(of_char (char_of (48 + n :: nat)) :: nat) = 48 + n"
    by (simp add: of_char_of take_bit_nat_eq_self)
  then have "int (of_char (char_of (48 + n :: nat))) = 48 + int n" by simp
  then show ?thesis by (simp only: of_nat_of_char)
qed

declare dec_digits.simps [simp del]

lemma dec_digits_val: "foldl dec_step v (dec_digits n) = v * 10 ^ length (dec_digits n) + int n"
proof (induction n arbitrary: v rule: dec_digits.induct)
  case (1 n)
  show ?case
  proof (cases "n < 10")
    case True
    then show ?thesis by (simp add: dec_digits.simps [of n] dec_step_def digit_val)
  next
    case False
    have "int n = 10 * int (n div 10) + int (n mod 10)" by presburger
    with False 1 show ?thesis
      by (simp add: dec_digits.simps [of n] dec_step_def digit_val algebra_simps)
  qed
qed

lemma dec_digits_head: "\<exists>c cs. dec_digits n = c # cs \<and> c \<noteq> CHR ''-''"
proof (induction n rule: dec_digits.induct)
  case (1 n)
  have "char_of (48 + n) \<noteq> CHR ''-''" if "n < 10"
  proof
    assume "char_of (48 + n) = CHR ''-''"
    then have "(of_char (char_of (48 + n :: nat)) :: nat) = of_char (CHR ''-'')" by simp
    with that show False by (simp add: of_char_of take_bit_nat_eq_self)
  qed
  with 1 show ?case by (cases "n < 10") (auto simp: dec_digits.simps [of n])
qed

lemma dec_val_digits: "dec_val (dec_digits n) = int n"
  using dec_digits_head [of n] dec_digits_val [of 0 n]
  by (auto simp: dec_val_def dec_step_def [abs_def])

lemma dec_val_sprintf: "dec_val (sprintf_lld i) = sint i"
proof (cases "c_less i 0")
  case True
  then show ?thesis using dec_digits_val [of 0 "nat (- sint i)"]
    by (simp add: sprintf_lld_def dec_val_def dec_step_def [abs_def] c_less_def)
next
  case False
  then show ?thesis by (simp add: sprintf_lld_def dec_val_digits c_less_def)
qed

context gmp
begin

lemma big_from_64bits: "Yap_gmp_big_from_64bits E i = Inr (MkIntegerTerm i)"
  by (simp add: Yap_gmp_big_from_64bits_def set_str dec_val_sprintf MkBigAndClose
      box_int_MkIntegerTerm)

end

end
