(* ===== verification/YapGmpRef.thy ===== *)
theory YapGmpRef
  imports YapGmpCorrect
begin

text \<open>
  A reference environment: GMP as the mathematical functions themselves, with rationals in the
  place of doubles (exact arithmetic) and a stack that never fills up. It interprets the locale
  \<open>gmp\<close>, so the laws of that locale can hold, and it is the environment at which the
  properties are applied to concrete numbers.
\<close>

section \<open>Bit counts\<close>

fun low_bit :: "nat \<Rightarrow> nat" where
  "low_bit n = (if n = 0 \<or> odd n then 0 else Suc (low_bit (n div 2)))"

fun bit_len :: "nat \<Rightarrow> nat" where
  "bit_len n = (if n = 0 then 0 else Suc (bit_len (n div 2)))"

fun bit_count :: "nat \<Rightarrow> nat" where
  "bit_count n = (if n = 0 then 0 else n mod 2 + bit_count (n div 2))"

declare low_bit.simps [simp del] bit_len.simps [simp del] bit_count.simps [simp del]

lemma low_bit_spec:
  "n \<noteq> 0 \<Longrightarrow> bit n (low_bit n) \<and> (\<forall>i < low_bit n. \<not> bit n i)"
proof (induction n rule: low_bit.induct)
  case (1 n)
  show ?case
  proof (cases "odd n")
    case True
    then show ?thesis by (simp add: low_bit.simps [of n] bit_0)
  next
    case False
    with 1 have IH: "bit (n div 2) (low_bit (n div 2))" "\<forall>i < low_bit (n div 2). \<not> bit (n div 2) i"
      by auto
    have "\<not> bit n i" if "i < Suc (low_bit (n div 2))" for i
      using that IH(2) False by (cases i) (auto simp: bit_0 bit_Suc)
    with IH(1) False 1 show ?thesis
      by (simp add: low_bit.simps [of n] bit_Suc)
  qed
qed

lemma bit_len_spec: "n \<noteq> 0 \<Longrightarrow> 2 ^ bit_len n \<le> 2 * n \<and> n < 2 ^ bit_len n"
proof (induction n rule: bit_len.induct)
  case (1 n)
  show ?case
  proof (cases "n div 2 = 0")
    case True
    with 1 have "n = 1" by auto
    then show ?thesis by (simp add: bit_len.simps)
  next
    case False
    with 1 have "2 ^ bit_len (n div 2) \<le> 2 * (n div 2)" "n div 2 < 2 ^ bit_len (n div 2)" by auto
    moreover have "2 * (n div 2) \<le> n" and "n < 2 * (n div 2) + 2" by simp_all
    ultimately have "2 ^ bit_len (n div 2) \<le> n" and "n < 2 * 2 ^ bit_len (n div 2)" by linarith+
    with 1 show ?thesis by (simp add: bit_len.simps [of n])
  qed
qed

lemma finite_bits: "finite {i. bit (m :: nat) i}"
proof (rule finite_subset)
  show "{i. bit m i} \<subseteq> {..<m}"
  proof
    fix i assume "i \<in> {i. bit m i}"
    then have "odd (m div 2 ^ i)" by (simp add: bit_iff_odd)
    then have "m div 2 ^ i \<noteq> 0" by (metis even_zero)
    then have "2 ^ i \<le> m" by (simp add: div_eq_0_iff not_less)
    then have "i < m" by (rule order_less_le_trans [OF less_exp])
    then show "i \<in> {..<m}" by simp
  qed
qed simp

lemma bit_count_spec: "bit_count n = card {i. bit n i}"
proof (induction n rule: bit_count.induct)
  case (1 n)
  show ?case
  proof (cases "n = 0")
    case False
    have "{i. bit n i} = (if odd n then {0} else {}) \<union> Suc ` {i. bit (n div 2) i}"
    proof (rule set_eqI)
      fix i show "i \<in> {i. bit n i} \<longleftrightarrow>
          i \<in> (if odd n then {0} else {}) \<union> Suc ` {i. bit (n div 2) i}"
        by (cases i) (auto simp: bit_0 bit_Suc)
    qed
    then have "card {i. bit n i}
        = card (if odd n then {0 :: nat} else {}) + card (Suc ` {i. bit (n div 2) i})"
      by (simp only:) (rule card_Un_disjoint, auto simp: finite_bits)
    then have "card {i. bit n i} = n mod 2 + card {i. bit (n div 2) i}"
      by (simp add: card_image odd_iff_mod_2_eq_one even_iff_mod_2_eq_zero)
    with False 1 show ?thesis by (simp add: bit_count.simps [of n])
  qed (simp add: bit_count.simps)
qed

section \<open>The environment\<close>

definition ref_env :: "rat env" where
  "ref_env = \<lparr>
    mpz_set_si = sint,
    mpz_add_ui = (\<lambda>z u. z + uint u),
    mpz_sub_ui = (\<lambda>z u. z - uint u),
    mpz_mul_si = (\<lambda>z i. z * sint i),
    mpz_mul_2exp = (\<lambda>z u. z * 2 ^ unat u),
    mpz_add = (+),
    mpz_sub = (-),
    mpz_mul = (*),
    mpz_neg = uminus,
    mpz_abs = abs,
    mpz_com = (\<lambda>z. - z - 1),
    mpz_tdiv_q = (sdiv),
    mpz_fdiv_q = (div),
    mpz_tdiv_r = (smod),
    mpz_fdiv_r = (mod),
    mpz_tdiv_q_ui = (\<lambda>z u. z sdiv uint u),
    mpz_fdiv_q_ui = (\<lambda>z u. z div uint u),
    mpz_fdiv_q_2exp = (\<lambda>z u. z div 2 ^ unat u),
    mpz_and = (AND),
    mpz_ior = (OR),
    mpz_xor = (XOR),
    mpz_gcd = gcd,
    mpz_gcd_ui = (\<lambda>z u. word_of_int (gcd z (uint u))),
    mpz_pow_ui = (\<lambda>z u. z ^ unat u),
    mpz_setbit = (\<lambda>z u. z OR 2 ^ unat u),
    mpz_cmp = (\<lambda>x y. sgn (x - y)),
    mpz_cmp_si = (\<lambda>x i. sgn (x - sint i)),
    mpz_cmp_d = (\<lambda>x d. if of_int x < d then - 1 else if of_int x = d then 0 else 1),
    mpz_sgn = sgn,
    mpz_scan1 = (\<lambda>z k. k + low_bit (nat (z div 2 ^ k))),
    mpz_sizeinbase = (\<lambda>z b. bit_len (nat \<bar>z\<bar>)),
    mpz_popcount = (\<lambda>z. bit_count (nat z)),
    mpz_fits_slong_p = fits_Int,
    mpz_get_si = word_of_int,
    mpz_get_d = of_int,
    mpz_set_d = (\<lambda>d. if d < 0 then \<lceil>d\<rceil> else \<lfloor>d\<rfloor>),
    mpz_set_q = (\<lambda>q. fst (quotient_of q) sdiv snd (quotient_of q)),
    mpz_set_str = (\<lambda>s b. dec_val s),
    mpz_get_str = (\<lambda>b z. if z < 0 then CHR ''-'' # dec_digits (nat (- z)) else dec_digits (nat z)),
    mpq_set_si = (\<lambda>i u. of_int (sint i) / of_int (uint u)),
    mpq_set_zz = (\<lambda>n d. of_int n / of_int d),
    mpq_set_z = of_int,
    mpq_set_d = id,
    mpq_canonicalize = id,
    mpq_numref = (\<lambda>q. fst (quotient_of q)),
    mpq_denref = (\<lambda>q. snd (quotient_of q)),
    mpq_add = (+),
    mpq_sub = (-),
    mpq_mul = (*),
    mpq_div = (/),
    mpq_neg = uminus,
    mpq_abs = abs,
    mpq_mul_2exp = (\<lambda>q u. q * 2 ^ unat u),
    mpq_div_2exp = (\<lambda>q u. q / 2 ^ unat u),
    mpq_cmp = (\<lambda>p q. if p < q then - 1 else if p = q then 0 else 1),
    mpq_cmp_si = (\<lambda>p i u. let q = of_int (sint i) / of_int (uint u)
      in if p < q then - 1 else if p = q then 0 else 1),
    mpq_cmp_cleared = (\<lambda>f1 f2 p q. 0),
    mpq_sgn = (\<lambda>p. if p < 0 then - 1 else if p = 0 then 0 else 1),
    mpq_get_d = id,
    raw_mpz = (\<lambda>t. 0),
    raw_mpq = (\<lambda>t. 0),
    raw_cell2 = (\<lambda>t. 0),
    raw_addr = (\<lambda>t. case t of BlobT tag p \<Rightarrow> p | _ \<Rightarrow> 0),
    limbs_fit = (\<lambda>z. True),
    rat_fits = (\<lambda>q. True),
    f_of_Int = (\<lambda>i. of_int (sint i)),
    f_to_Int = (\<lambda>d. word_of_int (if d < 0 then \<lceil>d\<rceil> else \<lfloor>d\<rfloor>)),
    f_add = (+),
    f_sub = (-),
    f_mul = (*),
    f_div = (/),
    f_neg = uminus,
    f_less = (<),
    f_le = (\<le>),
    f_eq = (=),
    f_isnan = (\<lambda>d. False),
    f_isinf = (\<lambda>d. False),
    f_libm = (\<lambda>g d. case g of L_floor \<Rightarrow> of_int \<lfloor>d\<rfloor> | L_ceil \<Rightarrow> of_int \<lceil>d\<rceil>
      | L_rint \<Rightarrow> of_int \<lfloor>d + 1 / 2\<rfloor> | L_fabs \<Rightarrow> \<bar>d\<bar> | _ \<Rightarrow> d),
    f_pow = (\<lambda>x y. x),
    f_atan2 = (\<lambda>x y. x),
    f_epsilon = 1 / 2 ^ 52,
    f_pi = 3,
    f_e = 2,
    f_inf = 0,
    f_nan = 0,
    Yap_random = 1 / 2,
    Yap_stat = (\<lambda>s. 0),
    isoLanguageFlag = False,
    HAVE__BUILTIN_FFSLL = False,
    HAVE_FFSLL = False \<rparr>"

interpretation ref: gmp ref_env
proof unfold_locales
  show "x > 0 \<Longrightarrow> bit x (mpz_scan1 ref_env x 0) \<and> (\<forall>i < mpz_scan1 ref_env x 0. \<not> bit x i)" for x
    using low_bit_spec [of "nat x"] by (auto simp: ref_env_def bit_nat_iff)
  show "x > 0 \<Longrightarrow> 2 ^ mpz_sizeinbase ref_env x 2 \<le> 2 * x \<and> x < 2 ^ mpz_sizeinbase ref_env x 2" for x
  proof -
    assume "x > 0"
    then obtain n where "x = int n" "n \<noteq> 0" by (metis gr0_implies_Suc nat.simps(3) zero_less_imp_eq_int)
    moreover have "int (2 ^ bit_len n) \<le> int (2 * n)" "int n < int (2 ^ bit_len n)"
      using bit_len_spec [OF \<open>n \<noteq> 0\<close>] by (simp_all only: of_nat_le_iff of_nat_less_iff)
    ultimately show ?thesis by (simp add: ref_env_def)
  qed
  show "x \<ge> 0 \<Longrightarrow> mpz_popcount ref_env x = card {i. bit x i}" for x
    using bit_count_spec [of "nat x"] by (simp add: ref_env_def bit_nat_iff)
  show "u \<noteq> 0 \<Longrightarrow> uint (mpz_gcd_ui ref_env x u) = gcd x (uint u)" for x u
  proof -
    assume "u \<noteq> 0"
    then have "uint u > 0" by (metis uint_0_iff uint_ge_0 order_le_less)
    then have "gcd x (uint u) \<le> uint u" by (simp add: gcd_le2_int)
    also have "\<dots> < 2 ^ 64" by (rule order_less_le_trans [OF uint_lt2p]) simp
    finally show ?thesis by (simp add: ref_env_def uint_word_of_int take_bit_int_eq_self)
  qed
qed (simp_all add: ref_env_def c_int not_int_def Let_def)

end
