(* ===== verification/YapBits.thy ===== *)
theory YapBits
  imports YapGmpRef
begin

text \<open>
  The bit counting routines of C/arith1.c: most significant bit, least significant bit and
  population count of an \<open>Int\<close>, the first two by binary search over halves of the word. They
  throw for negative arguments and return 0 for 0.
\<close>

section \<open>The routines\<close>

text \<open>
  One step of the binary search: the state is the shifted input and the count so far; the mask
  selects \<open>n\<close> bits.
\<close>

definition msb_step :: "nat \<Rightarrow> cint \<times> cint \<Rightarrow> cint \<times> cint" where
  "msb_step n s = (case s of (inp, out) \<Rightarrow>
    if inp AND push_bit n (mask n) \<noteq> 0 then (c_shr inp n, out + of_nat n) else (inp, out))"

text \<open>
  \<open>ffsll\<close> of the C library, and the compiler builtin: one plus the position of the least significant bit
  set, 0 for 0.
\<close>

definition ffsll :: "cint \<Rightarrow> cint" where
  "ffsll inp = (if inp = 0 then 0 else of_nat (low_bit (unat inp) + 1))"

text \<open>A build that has \<open>ffsll\<close> returns its result; the others do the binary search.\<close>

definition Yap_msb :: "'f env \<Rightarrow> cint \<Rightarrow> (yap_error \<times> 'f trm) + cint" where
  "Yap_msb E inp =
    (if c_less inp 0 then ArithError DOMAIN_ERROR_NOT_LESS_THAN_ZERO (MkIntegerTerm inp)
     else if HAVE__BUILTIN_FFSLL E then Inr (ffsll inp)
     else if HAVE_FFSLL E then Inr (ffsll inp)
     else if inp = 0 then Inr 0
     else case msb_step 2 (msb_step 4 (msb_step 8 (msb_step 16 (msb_step 32 (inp, 0))))) of
       (inp, out) \<Rightarrow> Inr (if inp AND push_bit 1 1 \<noteq> 0 then out + 1 else out))"

definition lsb_step :: "nat \<Rightarrow> cint \<times> cint \<Rightarrow> cint \<times> cint" where
  "lsb_step n s = (case s of (inp, out) \<Rightarrow>
    if inp AND mask n = 0 then (c_shr inp n, out + of_nat n) else (inp, out))"

definition lsb :: "cint \<Rightarrow> (yap_error \<times> 'f trm) + cint" where
  "lsb inp =
    (if c_less inp 0 then ArithError DOMAIN_ERROR_NOT_LESS_THAN_ZERO (MkIntegerTerm inp)
     else if inp = 0 then Inr 0
     else case lsb_step 2 (lsb_step 4 (lsb_step 8 (lsb_step 16 (lsb_step 32 (inp, 0))))) of
       (inp, out) \<Rightarrow> Inr (if inp AND 1 = 0 then out + 1 else out))"

text \<open>The loop of the population count, with the number of iterations left.\<close>

primrec popcount_loop :: "nat \<Rightarrow> cint \<Rightarrow> cint \<Rightarrow> cint \<Rightarrow> cint" where
  "popcount_loop 0 inp m c = c"
| "popcount_loop (Suc j) inp m c =
    popcount_loop j inp (push_bit 1 m) (if inp AND m \<noteq> 0 then c + 1 else c)"

definition popcount :: "cint \<Rightarrow> (yap_error \<times> 'f trm) + cint" where
  "popcount inp =
    (if c_less inp 0 then ArithError DOMAIN_ERROR_NOT_LESS_THAN_ZERO (MkIntegerTerm inp)
     else if inp = 0 then Inr 0
     else Inr (popcount_loop 64 inp 1 0))"

section \<open>The binary searches\<close>

text \<open>
  The searches are followed on the natural numbers the words stand for. What holds between the
  steps of the search for the most significant bit: the current word is the input shifted by
  the count, is not zero and has at most \<open>k\<close> bits.
\<close>

definition msb_inv :: "nat \<Rightarrow> nat \<Rightarrow> cint \<times> cint \<Rightarrow> bool" where
  "msb_inv k v s \<longleftrightarrow> 0 < unat (fst s) \<and> unat (fst s) < 2 ^ k \<and> unat (snd s) + k \<le> 64
    \<and> 0 \<le> sint (fst s) \<and> unat (fst s) = v div 2 ^ unat (snd s)"

lemma half_word: "(v :: nat) < 2 ^ (2 * n) \<Longrightarrow> v div 2 ^ n < 2 ^ n"
  by (simp add: div_less_iff_less_mult flip: power_add mult_2)

lemma high_mask_zero:
  assumes "unat w < 2 ^ (2 * n)"
  shows "w AND push_bit n (mask n) = 0 \<longleftrightarrow> unat (w :: cint) < 2 ^ n"
proof -
  have "drop_bit n (w AND push_bit n (mask n)) = take_bit n (drop_bit n w)"
    by (rule bit_word_eqI)
      (auto simp: bit_drop_bit_eq bit_and_iff bit_push_bit_iff bit_mask_iff bit_take_bit_iff
        dest: bit_imp_le_length)
  moreover have "w AND push_bit n (mask n) = 0 \<longleftrightarrow> drop_bit n (w AND push_bit n (mask n)) = 0"
    by (auto simp: bit_eq_iff bit_drop_bit_eq bit_and_iff bit_push_bit_iff bit_mask_iff)
  moreover have "take_bit n (drop_bit n w) = drop_bit n w"
  proof -
    have "unat (drop_bit n w) < 2 ^ n"
      using half_word [OF assms] unfolding unat_drop_bit_eq by (simp add: drop_bit_eq_div)
    then have "unat (take_bit n (drop_bit n w)) = unat (drop_bit n w)"
      by (simp add: unsigned_take_bit_eq take_bit_nat_eq_self)
    then show ?thesis by (simp only: word_unat_eq_iff)
  qed
  moreover have "drop_bit n w = 0 \<longleftrightarrow> unat w div 2 ^ n = 0"
    by (metis drop_bit_eq_div unat_drop_bit_eq unat_0 word_unat_eq_iff)
  ultimately show ?thesis by (simp add: div_eq_0_iff)
qed

lemma unat_sint: "0 \<le> sint (w :: cint) \<Longrightarrow> int (unat w) = sint w"
  by (simp add: uint_eq_sint flip: uint_nat)

lemma unat_c_shr:
  assumes "0 \<le> sint (w :: cint)"
  shows "unat (c_shr w n) = unat w div 2 ^ n" and "0 \<le> sint (c_shr w n)"
proof -
  have eq: "sint (c_shr w n) = int (unat w) div 2 ^ n"
    using assms by (simp add: sint_c_shr drop_bit_eq_div uint_eq_sint)
  then show nonneg: "0 \<le> sint (c_shr w n)" by (simp add: pos_imp_zdiv_nonneg_iff)
  from eq have "int (unat (c_shr w n)) = int (unat w div 2 ^ n)"
    by (simp add: uint_eq_sint [OF nonneg] zdiv_int)
  then show "unat (c_shr w n) = unat w div 2 ^ n" by (simp only: of_nat_eq_iff)
qed

lemma unat_add_count:
  assumes "unat (out :: cint) + n < 2 ^ 64"
  shows "unat (out + of_nat n) = unat out + n"
proof -
  have "unat (of_nat n :: cint) = n"
    using assms by (simp add: unat_of_nat)
  with assms show ?thesis by (simp add: unat_word_ariths)
qed

lemma msb_inv_step:
  assumes inv: "msb_inv (2 * n) v s" and n: "0 < n"
  shows "msb_inv n v (msb_step n s)"
proof (cases s)
  case (Pair inp out)
  with inv have i: "0 < unat inp" "unat inp < 2 ^ (2 * n)" "0 \<le> sint inp"
    "unat out + 2 * n \<le> 64" "unat inp = v div 2 ^ unat out"
    by (simp_all add: msb_inv_def)
  show ?thesis
  proof (cases "unat inp < 2 ^ n")
    case True
    then have "msb_step n s = s" by (simp add: msb_step_def Pair high_mask_zero [OF i(2)])
    with i True n show ?thesis by (simp add: msb_inv_def Pair)
  next
    case False
    then have step: "msb_step n s = (c_shr inp n, out + of_nat n)"
      by (simp add: msb_step_def Pair high_mask_zero [OF i(2)])
    have out: "unat (out + of_nat n) = unat out + n"
      by (rule unat_add_count) (use i(4) in simp)
    have "unat inp div 2 ^ n > 0" using False by (simp add: div_greater_zero_iff)
    moreover have "v div 2 ^ unat out div 2 ^ n = v div 2 ^ (unat out + n)"
      by (simp add: div_mult2_eq power_add)
    ultimately show ?thesis
      using i out half_word [OF i(2)] unat_c_shr [OF i(3), of n] by (simp add: step msb_inv_def)
  qed
qed

lemma msb_last: "(case s of (inp, out) \<Rightarrow> Inr (if inp AND push_bit 1 1 \<noteq> 0 then out + 1 else out))
    = Inr (snd (msb_step 1 s))"
  by (cases s) (simp add: msb_step_def mask_eq_exp_minus_1)

text \<open>The builds with the binary search.\<close>

definition no_ffsll :: "'f env \<Rightarrow> bool" where
  "no_ffsll E \<longleftrightarrow> \<not> HAVE__BUILTIN_FFSLL E \<and> \<not> HAVE_FFSLL E"

lemma ref_no_ffsll [simp]: "no_ffsll ref_env"
  by (simp add: no_ffsll_def ref_env_def)

text \<open>In the other builds the result is that of the least significant bit, plus one.\<close>

lemma msb_ffsll:
  assumes "\<not> no_ffsll E" and "0 < sint i"
  shows "Yap_msb E i = Inr (of_nat (low_bit (unat i) + 1))"
  using assms by (auto simp: Yap_msb_def no_ffsll_def ffsll_def c_less_def)

lemma msb_correct:
  assumes "no_ffsll E" and "0 < sint i"
  obtains out where "Yap_msb E i = Inr out" "unat out < 63"
    "2 ^ unat out \<le> unat i" "unat i < 2 ^ (unat out + 1)"
proof -
  have i: "int (unat i) = sint i" "i \<noteq> 0" "\<not> c_less i 0"
    using assms(2) by (auto simp: uint_eq_sint c_less_def)
  have "int (unat i) < int (2 ^ 63)" unfolding i(1) using sint_less [of i] by simp
  then have lt: "unat i < 2 ^ 63" by (simp only: of_nat_less_iff)
  define s where "s = msb_step 2 (msb_step 4 (msb_step 8 (msb_step 16 (msb_step 32 (i, 0)))))"
  have "msb_inv (2 * 32) (unat i) (i, 0)"
    using assms(2) i lt by (simp add: msb_inv_def unat_gt_0)
  from msb_inv_step [OF this]
  have "msb_inv (2 * 16) (unat i) (msb_step 32 (i, 0))" by simp
  from msb_inv_step [OF this]
  have "msb_inv (2 * 8) (unat i) (msb_step 16 (msb_step 32 (i, 0)))" by simp
  from msb_inv_step [OF this]
  have "msb_inv (2 * 4) (unat i) (msb_step 8 (msb_step 16 (msb_step 32 (i, 0))))" by simp
  from msb_inv_step [OF this]
  have "msb_inv (2 * 2) (unat i) (msb_step 4 (msb_step 8 (msb_step 16 (msb_step 32 (i, 0)))))"
    by simp
  from msb_inv_step [OF this] have inv: "msb_inv (2 * 1) (unat i) s" by (simp add: s_def)
  from msb_inv_step [OF this] have inv1: "msb_inv 1 (unat i) (msb_step 1 s)" by simp
  define out where "out = snd (msb_step 1 s)"
  have "Yap_msb E i = Inr out"
    using i(2,3) assms(1) unfolding no_ffsll_def Yap_msb_def s_def [symmetric] out_def msb_last by simp
  moreover have div: "unat i div 2 ^ unat out = 1" and "unat out \<le> 63"
    using inv1 by (simp_all add: msb_inv_def out_def)
  moreover have rest: "unat i mod 2 ^ unat out < 2 ^ unat out" by simp
  moreover have "2 ^ unat out \<le> unat i" "unat i < 2 ^ (unat out + 1)"
    using div div_mult_mod_eq [of "unat i" "2 ^ unat out"] rest
    by (simp_all del: mod_less_divisor unsigned_take_bit_eq)
  moreover from this have "unat out \<noteq> 63" using lt by auto
  ultimately show ?thesis using that [of out] by simp
qed

text \<open>
  Between the steps of the search for the least significant bit the lowest set bit of the
  current word is below \<open>k\<close>, and adding the count gives that of the input.
\<close>

definition lowest :: "cint \<Rightarrow> nat \<Rightarrow> bool" where
  "lowest w b \<longleftrightarrow> bit w b \<and> (\<forall>i < b. \<not> bit w i)"

definition lsb_inv :: "nat \<Rightarrow> cint \<Rightarrow> cint \<times> cint \<Rightarrow> bool" where
  "lsb_inv k v s \<longleftrightarrow> 0 \<le> sint (fst s) \<and> unat (snd s) + k \<le> 64
    \<and> (\<exists>b < k. lowest (fst s) b \<and> lowest v (b + unat (snd s)))"

lemma bit_lt64: "bit (w :: cint) i \<Longrightarrow> i < 64"
  using bit_imp_le_length [of w i] by simp

lemma mask_zero_iff: "w AND mask n = 0 \<longleftrightarrow> (\<forall>i < n. \<not> bit (w :: cint) i)"
  by (auto simp: bit_eq_iff bit_and_iff bit_mask_iff) (metis bit_lt64)

lemma bit_c_shr:
  assumes "0 \<le> sint w"
  shows "bit (c_shr w n) i \<longleftrightarrow> bit w (i + n)"
proof -
  have "c_shr w n = drop_bit n w"
  proof (rule word_unat_eq_iff [THEN iffD2])
    show "unat (c_shr w n) = unat (drop_bit n w)"
      unfolding unat_drop_bit_eq by (simp add: unat_c_shr [OF assms] drop_bit_eq_div)
  qed
  then show ?thesis by (simp add: bit_drop_bit_eq add.commute)
qed

lemma lsb_inv_step:
  assumes inv: "lsb_inv (2 * n) v s"
  shows "lsb_inv n v (lsb_step n s)"
proof (cases s)
  case (Pair inp out)
  with inv obtain b where b: "0 \<le> sint inp" "unat out + 2 * n \<le> 64" "b < 2 * n"
    "lowest inp b" "lowest v (b + unat out)"
    by (auto simp: lsb_inv_def)
  show ?thesis
  proof (cases "b < n")
    case True
    then have "inp AND mask n \<noteq> 0" using b(4) by (auto simp: mask_zero_iff lowest_def)
    with b True show ?thesis by (auto simp: lsb_inv_def lsb_step_def Pair)
  next
    case False
    then have "inp AND mask n = 0" using b(4) by (auto simp: mask_zero_iff lowest_def)
    then have step: "lsb_step n s = (c_shr inp n, out + of_nat n)"
      by (simp add: lsb_step_def Pair)
    have out: "unat (out + of_nat n) = unat out + n"
      by (cases "n = 0") (use b(2,3) in \<open>auto intro: unat_add_count\<close>)
    have "lowest (c_shr inp n) (b - n)"
      using b(4) False by (auto simp: lowest_def bit_c_shr [OF b(1)])
    moreover have "b - n + unat (out + of_nat n) = b + unat out" using False out by simp
    ultimately show ?thesis
      using b False out unat_c_shr(2) [OF b(1), of n]
      by (auto simp: lsb_inv_def step intro!: exI [of _ "b - n"])
  qed
qed

lemma lsb_last: "(case s of (inp, out) \<Rightarrow> Inr (if inp AND 1 = 0 then out + 1 else out))
    = Inr (snd (lsb_step 1 s))"
  by (cases s) (simp add: lsb_step_def mask_eq_exp_minus_1)

lemma lsb_correct:
  assumes "0 < sint i"
  obtains out where "lsb i = Inr out" "lowest i (unat out)"
proof -
  have i: "i \<noteq> 0" "\<not> c_less i 0"
    using assms by (auto simp: c_less_def)
  then obtain b where low: "lowest i b"
    using low_bit_spec [of "unat i"] by (auto simp: lowest_def unat_eq_0 bit_unsigned_iff)
  then have b: "b < 64" by (auto simp: lowest_def dest: bit_imp_le_length)
  define s where "s = lsb_step 2 (lsb_step 4 (lsb_step 8 (lsb_step 16 (lsb_step 32 (i, 0)))))"
  have "lsb_inv (2 * 32) i (i, 0)"
    using assms low b by (auto simp: lsb_inv_def)
  from lsb_inv_step [OF this] have "lsb_inv (2 * 16) i (lsb_step 32 (i, 0))" by simp
  from lsb_inv_step [OF this] have "lsb_inv (2 * 8) i (lsb_step 16 (lsb_step 32 (i, 0)))" by simp
  from lsb_inv_step [OF this]
  have "lsb_inv (2 * 4) i (lsb_step 8 (lsb_step 16 (lsb_step 32 (i, 0))))" by simp
  from lsb_inv_step [OF this]
  have "lsb_inv (2 * 2) i (lsb_step 4 (lsb_step 8 (lsb_step 16 (lsb_step 32 (i, 0)))))" by simp
  from lsb_inv_step [OF this] have "lsb_inv (2 * 1) i s" by (simp add: s_def)
  from lsb_inv_step [OF this] have inv: "lsb_inv 1 i (lsb_step 1 s)" by simp
  have "lsb i = Inr (snd (lsb_step 1 s))"
    using i unfolding lsb_def s_def [symmetric] lsb_last by simp
  with inv that show ?thesis by (auto simp: lsb_inv_def)
qed

section \<open>The population count\<close>

lemma popcount_loop_card:
  "n \<le> 64 \<Longrightarrow> popcount_loop n inp (push_bit (64 - n) 1) c
    = c + of_nat (card {i. 64 - n \<le> i \<and> i < 64 \<and> bit inp i})"
proof (induction n arbitrary: c)
  case 0
  have "{i. 64 - 0 \<le> i \<and> i < 64 \<and> bit inp i} = {}" by auto
  then show ?case by (simp only: popcount_loop.simps card.empty)  simp
next
  case (Suc n)
  let ?j = "64 - Suc n"
  have j: "64 - n = Suc ?j" using Suc.prems by simp
  have "inp AND push_bit ?j 1 \<noteq> 0 \<longleftrightarrow> bit inp ?j"
    by (simp add: bit_iff_and_push_bit_not_eq_0)
  moreover have "{i. ?j \<le> i \<and> i < 64 \<and> bit inp i}
      = (if bit inp ?j then {?j} else {}) \<union> {i. 64 - n \<le> i \<and> i < 64 \<and> bit inp i}"
    using Suc.prems by (auto simp: le_Suc_eq j order_le_less)
  moreover have "card ((if bit inp ?j then {?j} else {}) \<union> {i. 64 - n \<le> i \<and> i < 64 \<and> bit inp i})
      = (if bit inp ?j then 1 else 0) + card {i. 64 - n \<le> i \<and> i < 64 \<and> bit inp i}"
    by (subst card_Un_disjoint) (auto simp: j)
  moreover have "push_bit 1 (push_bit ?j 1) = (push_bit (64 - n) 1 :: cint)"
    by (simp add: j push_bit_push_bit)
  ultimately show ?case
    using Suc.IH [of "if bit inp ?j then c + 1 else c"] Suc.prems by simp
qed

lemma popcount_correct:
  assumes "0 \<le> sint i"
  shows "popcount i = Inr (of_nat (card {b. bit i b}))"
proof -
  have "{b. 64 - 64 \<le> b \<and> b < 64 \<and> bit i b} = {b. bit i b}"
    by (auto dest: bit_imp_le_length)
  then show ?thesis
    using assms popcount_loop_card [of 64 i 0] by (auto simp: popcount_def c_less_def)
qed

end
