(* ===== verification/YapArith2.thy ===== *)
theory YapArith2
  imports YapBits
begin

text \<open>
  Binary arithmetic: the fast integer operations of H/arith2.h and H/YapEval.h, the operators of
  C/arith2.c that dispatch on the numeric types of their operands, the dispatch \<open>eval2\<close> on the
  operator and the table of operator names.
\<close>

section \<open>Machine integers with an overflow check\<close>

text \<open>
  \<open>__builtin_add_overflow\<close> and its relatives store the wrapped result and return whether the
  exact one is out of the range of \<open>Int\<close>.
\<close>

definition add_int :: "'f env \<Rightarrow> cint \<Rightarrow> cint \<Rightarrow> 'f res" where [arith_defs]:
  "add_int E i j =
    (if fits_Int (sint i + sint j) then RINT (i + j) else Yap_gmp_add_ints E i j)"

definition sub_int :: "'f env \<Rightarrow> cint \<Rightarrow> cint \<Rightarrow> 'f res" where [arith_defs]:
  "sub_int E i j =
    (if \<not> fits_Int (sint i - sint j) then Yap_gmp_sub_ints E i j else RINT (i - j))"

definition times_int :: "'f env \<Rightarrow> cint \<Rightarrow> cint \<Rightarrow> 'f res" where [arith_defs]:
  "times_int E i1 i2 =
    (if \<not> fits_Int (sint i1 * sint i2) then Yap_gmp_mul_ints E i1 i2 else RINT (i1 * i2))"

text \<open>The portable overflow tests of the header, for compilers without the builtins.\<close>

definition sub_overflow :: "cint \<Rightarrow> cint \<Rightarrow> cint \<Rightarrow> bool" where
  "sub_overflow x i j \<longleftrightarrow> c_less ((i AND NOT j AND NOT x) OR (NOT i AND j AND x)) 0"

definition mul_overflow :: "cint \<Rightarrow> cint \<Rightarrow> cint \<Rightarrow> bool" where
  "mul_overflow z i1 i2 \<longleftrightarrow> (i1 = Int_MIN \<and> i2 = - 1) \<or> (i2 \<noteq> 0 \<and> c_div z i2 \<noteq> i1)"

text \<open>The right shift; the shift count is compared with the \<open>size_t\<close> bound as unsigned.\<close>

definition SLR :: "cint \<Rightarrow> cint \<Rightarrow> cint" where [arith_defs]:
  "SLR i shift = (if unat shift < 8 * 8 - 1 then c_shr i (unat shift)
    else if c_le 0 i then 0 else - 1)"

text \<open>
  \<open>clrsb\<close>: the number of leading zeros of the magnitude, by binary search. The state is the
  shifted magnitude and the count.
\<close>

definition clrsb_step :: "nat \<Rightarrow> cint \<times> int \<Rightarrow> cint \<times> int" where
  "clrsb_step n s = (case s of (i, j) \<Rightarrow>
    if c_less i (push_bit n 1) then (i, j + int n) else (c_shr i n, j))"

definition clrsb :: "cint \<Rightarrow> int" where
  "clrsb i =
    (if i = Int_MIN then 1
     else let i = (if c_less i 0 then - i else i) in
       case clrsb_step 2 (clrsb_step 4 (clrsb_step 8 (clrsb_step 16 (clrsb_step 32 (i, 0))))) of
         (i, j) \<Rightarrow> if c_less i 2 then j + 1 else j)"

text \<open>The left shift, for a positive count.\<close>

definition do_sll :: "'f env \<Rightarrow> cint \<Rightarrow> cint \<Rightarrow> 'f res" where [arith_defs]:
  "do_sll E i j =
    (if clrsb i > sint j then RINT (push_bit (unat j) i) else Yap_gmp_sll_ints E i j)"

text \<open>The remainder with the sign of the divisor, as \<open>p_mod\<close> and \<open>p_div2\<close> compute it.\<close>

definition floored_mod :: "cint \<Rightarrow> cint \<Rightarrow> cint" where [arith_defs]:
  "floored_mod i1 i2 = (let m = c_mod i1 i2 in
    if m \<noteq> 0 \<and> c_less (m XOR i2) 0 then m + i2 else m)"

section \<open>The operators\<close>

definition p_plus :: "'f env \<Rightarrow> 'f trm \<Rightarrow> 'f trm \<Rightarrow> 'f res" where [arith_defs]:
  "p_plus E t1 t2 = (case ETypeOfTerm t1 of
      long_int_e \<Rightarrow> (case ETypeOfTerm t2 of
          long_int_e \<Rightarrow> add_int E (IntegerOfTerm t1) (IntegerOfTerm t2)
        | double_e \<Rightarrow> RFLOAT (f_add E (f_of_Int E (IntegerOfTerm t1)) (FloatOfTerm t2))
        | big_int_e \<Rightarrow> Yap_gmp_add_int_big E (IntegerOfTerm t1) t2
        | _ \<Rightarrow> RERROR)
    | double_e \<Rightarrow> (case ETypeOfTerm t2 of
          long_int_e \<Rightarrow> RFLOAT (f_add E (FloatOfTerm t1) (f_of_Int E (IntegerOfTerm t2)))
        | double_e \<Rightarrow> RFLOAT (f_add E (FloatOfTerm t1) (FloatOfTerm t2))
        | big_int_e \<Rightarrow> Yap_gmp_add_float_big E (FloatOfTerm t1) t2
        | _ \<Rightarrow> RERROR)
    | big_int_e \<Rightarrow> (case ETypeOfTerm t2 of
          long_int_e \<Rightarrow> Yap_gmp_add_int_big E (IntegerOfTerm t2) t1
        | big_int_e \<Rightarrow> Yap_gmp_add_big_big E t1 t2
        | double_e \<Rightarrow> Yap_gmp_add_float_big E (FloatOfTerm t2) t1
        | _ \<Rightarrow> RERROR)
    | _ \<Rightarrow> RERROR)"

definition p_minus :: "'f env \<Rightarrow> 'f trm \<Rightarrow> 'f trm \<Rightarrow> 'f res" where [arith_defs]:
  "p_minus E t1 t2 = (case ETypeOfTerm t1 of
      long_int_e \<Rightarrow> (case ETypeOfTerm t2 of
          long_int_e \<Rightarrow> sub_int E (IntegerOfTerm t1) (IntegerOfTerm t2)
        | double_e \<Rightarrow> RFLOAT (f_sub E (f_of_Int E (IntegerOfTerm t1)) (FloatOfTerm t2))
        | big_int_e \<Rightarrow> Yap_gmp_sub_int_big E (IntegerOfTerm t1) t2
        | _ \<Rightarrow> RERROR)
    | double_e \<Rightarrow> (case ETypeOfTerm t2 of
          long_int_e \<Rightarrow> RFLOAT (f_sub E (FloatOfTerm t1) (f_of_Int E (IntegerOfTerm t2)))
        | double_e \<Rightarrow> RFLOAT (f_sub E (FloatOfTerm t1) (FloatOfTerm t2))
        | big_int_e \<Rightarrow> Yap_gmp_sub_float_big E (FloatOfTerm t1) t2
        | _ \<Rightarrow> RERROR)
    | big_int_e \<Rightarrow> (case ETypeOfTerm t2 of
          long_int_e \<Rightarrow> Yap_gmp_sub_big_int E t1 (IntegerOfTerm t2)
        | big_int_e \<Rightarrow> Yap_gmp_sub_big_big E t1 t2
        | double_e \<Rightarrow> Yap_gmp_sub_big_float E t1 (FloatOfTerm t2)
        | _ \<Rightarrow> RERROR)
    | _ \<Rightarrow> RERROR)"

definition p_times :: "'f env \<Rightarrow> 'f trm \<Rightarrow> 'f trm \<Rightarrow> 'f res" where [arith_defs]:
  "p_times E t1 t2 = (case ETypeOfTerm t1 of
      long_int_e \<Rightarrow> (case ETypeOfTerm t2 of
          long_int_e \<Rightarrow> times_int E (IntegerOfTerm t1) (IntegerOfTerm t2)
        | double_e \<Rightarrow> RFLOAT (f_mul E (f_of_Int E (IntegerOfTerm t1)) (FloatOfTerm t2))
        | big_int_e \<Rightarrow> Yap_gmp_mul_int_big E (IntegerOfTerm t1) t2
        | _ \<Rightarrow> RERROR)
    | double_e \<Rightarrow> (case ETypeOfTerm t2 of
          long_int_e \<Rightarrow> RFLOAT (f_mul E (FloatOfTerm t1) (f_of_Int E (IntegerOfTerm t2)))
        | double_e \<Rightarrow> RFLOAT (f_mul E (FloatOfTerm t1) (FloatOfTerm t2))
        | big_int_e \<Rightarrow> Yap_gmp_mul_float_big E (FloatOfTerm t1) t2
        | _ \<Rightarrow> RERROR)
    | big_int_e \<Rightarrow> (case ETypeOfTerm t2 of
          long_int_e \<Rightarrow> Yap_gmp_mul_int_big E (IntegerOfTerm t2) t1
        | big_int_e \<Rightarrow> Yap_gmp_mul_big_big E t1 t2
        | double_e \<Rightarrow> Yap_gmp_mul_float_big E (FloatOfTerm t2) t1
        | _ \<Rightarrow> RERROR)
    | _ \<Rightarrow> RERROR)"

text \<open>Integer division \<open>//\<close>.\<close>

definition p_div :: "'f env \<Rightarrow> 'f trm \<Rightarrow> 'f trm \<Rightarrow> 'f res" where [arith_defs]:
  "p_div E t1 t2 = (case ETypeOfTerm t1 of
      long_int_e \<Rightarrow> (case ETypeOfTerm t2 of
          long_int_e \<Rightarrow> (let i1 = IntegerOfTerm t1; i2 = IntegerOfTerm t2 in
              if i2 = 0 then ArithError EVALUATION_ERROR_ZERO_DIVISOR t2
              else if i1 = Int_MIN \<and> i2 = - 1 then Yap_gmp_add_ints E Int_MAX 1
              else RINT (c_div i1 i2))
        | double_e \<Rightarrow> ArithError TYPE_ERROR_INTEGER t2
        | big_int_e \<Rightarrow> Yap_gmp_div_int_big E (IntegerOfTerm t1) t2
        | _ \<Rightarrow> RERROR)
    | double_e \<Rightarrow> ArithError TYPE_ERROR_INTEGER t1
    | big_int_e \<Rightarrow> (case ETypeOfTerm t2 of
          long_int_e \<Rightarrow> Yap_gmp_div_big_int E t1 (IntegerOfTerm t2)
        | big_int_e \<Rightarrow> Yap_gmp_div_big_big E t1 t2
        | double_e \<Rightarrow> ArithError TYPE_ERROR_INTEGER t2
        | _ \<Rightarrow> RERROR)
    | _ \<Rightarrow> RERROR)"

definition p_and :: "'f env \<Rightarrow> 'f trm \<Rightarrow> 'f trm \<Rightarrow> 'f res" where [arith_defs]:
  "p_and E t1 t2 = (case ETypeOfTerm t1 of
      long_int_e \<Rightarrow> (case ETypeOfTerm t2 of
          long_int_e \<Rightarrow> RINT (IntegerOfTerm t1 AND IntegerOfTerm t2)
        | double_e \<Rightarrow> ArithError TYPE_ERROR_INTEGER t2
        | big_int_e \<Rightarrow> Yap_gmp_and_int_big E (IntegerOfTerm t1) t2
        | _ \<Rightarrow> RERROR)
    | double_e \<Rightarrow> ArithError TYPE_ERROR_INTEGER t1
    | big_int_e \<Rightarrow> (case ETypeOfTerm t2 of
          long_int_e \<Rightarrow> Yap_gmp_and_int_big E (IntegerOfTerm t2) t1
        | big_int_e \<Rightarrow> Yap_gmp_and_big_big E t1 t2
        | double_e \<Rightarrow> ArithError TYPE_ERROR_INTEGER t2
        | _ \<Rightarrow> RERROR)
    | _ \<Rightarrow> RERROR)"

definition p_or :: "'f env \<Rightarrow> 'f trm \<Rightarrow> 'f trm \<Rightarrow> 'f res" where [arith_defs]:
  "p_or E t1 t2 = (case ETypeOfTerm t1 of
      long_int_e \<Rightarrow> (case ETypeOfTerm t2 of
          long_int_e \<Rightarrow> RINT (IntegerOfTerm t1 OR IntegerOfTerm t2)
        | double_e \<Rightarrow> ArithError TYPE_ERROR_INTEGER t2
        | big_int_e \<Rightarrow> Yap_gmp_ior_int_big E (IntegerOfTerm t1) t2
        | _ \<Rightarrow> RERROR)
    | double_e \<Rightarrow> ArithError TYPE_ERROR_INTEGER t1
    | big_int_e \<Rightarrow> (case ETypeOfTerm t2 of
          long_int_e \<Rightarrow> Yap_gmp_ior_int_big E (IntegerOfTerm t2) t1
        | big_int_e \<Rightarrow> Yap_gmp_ior_big_big E t1 t2
        | double_e \<Rightarrow> ArithError TYPE_ERROR_INTEGER t2
        | _ \<Rightarrow> RERROR)
    | _ \<Rightarrow> RERROR)"

definition p_xor :: "'f env \<Rightarrow> 'f trm \<Rightarrow> 'f trm \<Rightarrow> 'f res" where [arith_defs]:
  "p_xor E t1 t2 = (case ETypeOfTerm t1 of
      long_int_e \<Rightarrow> (case ETypeOfTerm t2 of
          long_int_e \<Rightarrow> RINT (IntegerOfTerm t1 XOR IntegerOfTerm t2)
        | double_e \<Rightarrow> ArithError TYPE_ERROR_INTEGER t2
        | big_int_e \<Rightarrow> Yap_gmp_xor_int_big E (IntegerOfTerm t1) t2
        | _ \<Rightarrow> RERROR)
    | double_e \<Rightarrow> ArithError TYPE_ERROR_INTEGER t1
    | big_int_e \<Rightarrow> (case ETypeOfTerm t2 of
          long_int_e \<Rightarrow> Yap_gmp_xor_int_big E (IntegerOfTerm t2) t1
        | big_int_e \<Rightarrow> Yap_gmp_xor_big_big E t1 t2
        | double_e \<Rightarrow> ArithError TYPE_ERROR_INTEGER t2
        | _ \<Rightarrow> RERROR)
    | _ \<Rightarrow> RERROR)"

text \<open>Shifts.\<close>

definition p_sll :: "'f env \<Rightarrow> 'f trm \<Rightarrow> 'f trm \<Rightarrow> 'f res" where [arith_defs]:
  "p_sll E t1 t2 = (case ETypeOfTerm t1 of
      long_int_e \<Rightarrow> (case ETypeOfTerm t2 of
          long_int_e \<Rightarrow> (let i2 = IntegerOfTerm t2 in
              if c_le i2 0 then
                (if i2 = Int_MIN then ArithError RESOURCE_ERROR_HUGE_INT t2
                 else RINT (SLR (IntegerOfTerm t1) (- i2)))
              else do_sll E (IntegerOfTerm t1) i2)
        | double_e \<Rightarrow> ArithError TYPE_ERROR_INTEGER t2
        | big_int_e \<Rightarrow> ArithError RESOURCE_ERROR_HUGE_INT t2
        | _ \<Rightarrow> RERROR)
    | double_e \<Rightarrow> ArithError TYPE_ERROR_INTEGER t1
    | big_int_e \<Rightarrow> (case ETypeOfTerm t2 of
          long_int_e \<Rightarrow> Yap_gmp_sll_big_int E t1 (IntegerOfTerm t2)
        | big_int_e \<Rightarrow> ArithError RESOURCE_ERROR_HUGE_INT t2
        | double_e \<Rightarrow> ArithError TYPE_ERROR_INTEGER t2
        | _ \<Rightarrow> RERROR)
    | _ \<Rightarrow> RERROR)"

definition p_slr :: "'f env \<Rightarrow> 'f trm \<Rightarrow> 'f trm \<Rightarrow> 'f res" where [arith_defs]:
  "p_slr E t1 t2 = (case ETypeOfTerm t1 of
      long_int_e \<Rightarrow> (case ETypeOfTerm t2 of
          long_int_e \<Rightarrow> (let i2 = IntegerOfTerm t2 in
              if c_less i2 0 then
                (if i2 = Int_MIN then ArithError RESOURCE_ERROR_HUGE_INT t2
                 else do_sll E (IntegerOfTerm t1) (- i2))
              else RINT (SLR (IntegerOfTerm t1) i2))
        | double_e \<Rightarrow> ArithError TYPE_ERROR_INTEGER t2
        | big_int_e \<Rightarrow> ArithError RESOURCE_ERROR_HUGE_INT t2
        | _ \<Rightarrow> RERROR)
    | double_e \<Rightarrow> ArithError TYPE_ERROR_INTEGER t1
    | big_int_e \<Rightarrow> (case ETypeOfTerm t2 of
          long_int_e \<Rightarrow> Yap_gmp_sll_big_int E t1 (- IntegerOfTerm t2)
        | big_int_e \<Rightarrow> ArithError RESOURCE_ERROR_HUGE_INT t2
        | double_e \<Rightarrow> ArithError TYPE_ERROR_INTEGER t2
        | _ \<Rightarrow> RERROR)
    | _ \<Rightarrow> RERROR)"

definition p_mod :: "'f env \<Rightarrow> 'f trm \<Rightarrow> 'f trm \<Rightarrow> 'f res" where [arith_defs]:
  "p_mod E t1 t2 = (case ETypeOfTerm t1 of
      long_int_e \<Rightarrow> (case ETypeOfTerm t2 of
          long_int_e \<Rightarrow> (let i1 = IntegerOfTerm t1; i2 = IntegerOfTerm t2 in
              if i2 = 0 then ArithError EVALUATION_ERROR_ZERO_DIVISOR t2
              else if i1 = Int_MIN \<and> i2 = - 1 then Inr (mkInt 0)
              else RINT (floored_mod i1 i2))
        | double_e \<Rightarrow> ArithError TYPE_ERROR_INTEGER t2
        | big_int_e \<Rightarrow> Yap_gmp_mod_int_big E (IntegerOfTerm t1) t2
        | _ \<Rightarrow> RERROR)
    | double_e \<Rightarrow> ArithError TYPE_ERROR_INTEGER t1
    | big_int_e \<Rightarrow> (case ETypeOfTerm t2 of
          long_int_e \<Rightarrow> (let i2 = IntegerOfTerm t2 in
              if i2 = 0 then ArithError EVALUATION_ERROR_ZERO_DIVISOR t2 else Yap_gmp_mod_big_int E t1 i2)
        | big_int_e \<Rightarrow> Yap_gmp_mod_big_big E t1 t2
        | double_e \<Rightarrow> ArithError TYPE_ERROR_INTEGER t2
        | _ \<Rightarrow> RERROR)
    | _ \<Rightarrow> RERROR)"

text \<open>Floored division \<open>div\<close>.\<close>

definition p_div2 :: "'f env \<Rightarrow> 'f trm \<Rightarrow> 'f trm \<Rightarrow> 'f res" where [arith_defs]:
  "p_div2 E t1 t2 = (case ETypeOfTerm t1 of
      long_int_e \<Rightarrow> (case ETypeOfTerm t2 of
          long_int_e \<Rightarrow> (let i1 = IntegerOfTerm t1; i2 = IntegerOfTerm t2 in
              if i2 = 0 then ArithError EVALUATION_ERROR_ZERO_DIVISOR t2
              else if i1 = Int_MIN \<and> i2 = - 1 then Yap_gmp_add_ints E Int_MAX 1
              else RINT (c_div (i1 - floored_mod i1 i2) i2))
        | double_e \<Rightarrow> ArithError TYPE_ERROR_INTEGER t2
        | big_int_e \<Rightarrow> Yap_gmp_div_int_big E (IntegerOfTerm t1) t2
        | _ \<Rightarrow> RERROR)
    | double_e \<Rightarrow> ArithError TYPE_ERROR_INTEGER t2
    | big_int_e \<Rightarrow> (case ETypeOfTerm t2 of
          long_int_e \<Rightarrow> (let i2 = IntegerOfTerm t2 in
              if i2 = 0 then ArithError EVALUATION_ERROR_ZERO_DIVISOR t2 else Yap_gmp_div2_big_int E t1 i2)
        | big_int_e \<Rightarrow> Yap_gmp_div2_big_big E t1 t2
        | double_e \<Rightarrow> ArithError TYPE_ERROR_INTEGER t2
        | _ \<Rightarrow> RERROR)
    | _ \<Rightarrow> RERROR)"

definition p_rem :: "'f env \<Rightarrow> 'f trm \<Rightarrow> 'f trm \<Rightarrow> 'f res" where [arith_defs]:
  "p_rem E t1 t2 = (case ETypeOfTerm t1 of
      long_int_e \<Rightarrow> (case ETypeOfTerm t2 of
          long_int_e \<Rightarrow> (let i1 = IntegerOfTerm t1; i2 = IntegerOfTerm t2 in
              if i2 = 0 then ArithError EVALUATION_ERROR_ZERO_DIVISOR t2
              else if i1 = Int_MIN \<and> i2 = - 1 then Inr (mkInt 0)
              else RINT (c_mod i1 i2))
        | double_e \<Rightarrow> ArithError TYPE_ERROR_INTEGER t2
        | big_int_e \<Rightarrow> Yap_gmp_rem_int_big E (IntegerOfTerm t1) t2
        | _ \<Rightarrow> RERROR)
    | double_e \<Rightarrow> ArithError TYPE_ERROR_INTEGER t1
    | big_int_e \<Rightarrow> (case ETypeOfTerm t2 of
          long_int_e \<Rightarrow> (if IntegerOfTerm t2 = 0 then ArithError EVALUATION_ERROR_ZERO_DIVISOR t2
              else Yap_gmp_rem_big_int E t1 (IntegerOfTerm t2))
        | big_int_e \<Rightarrow> Yap_gmp_rem_big_big E t1 t2
        | double_e \<Rightarrow> ArithError TYPE_ERROR_INTEGER t2
        | _ \<Rightarrow> RERROR)
    | _ \<Rightarrow> RERROR)"

definition p_rdiv :: "'f env \<Rightarrow> 'f trm \<Rightarrow> 'f trm \<Rightarrow> 'f res" where [arith_defs]:
  "p_rdiv E t1 t2 = (case ETypeOfTerm t1 of
      double_e \<Rightarrow> ArithError TYPE_ERROR_INTEGER t2
    | long_int_e \<Rightarrow> (case ETypeOfTerm t2 of
          long_int_e \<Rightarrow> (let i1 = IntegerOfTerm t1; i2 = IntegerOfTerm t2 in
              if i2 = 0 then ArithError EVALUATION_ERROR_ZERO_DIVISOR t2 else Yap_gmq_rdiv_int_int E i1 i2)
        | big_int_e \<Rightarrow> Yap_gmq_rdiv_int_big E (IntegerOfTerm t1) t2
        | _ \<Rightarrow> RERROR)
    | big_int_e \<Rightarrow> (case ETypeOfTerm t2 of
          long_int_e \<Rightarrow> (if IntegerOfTerm t2 = 0 then ArithError EVALUATION_ERROR_ZERO_DIVISOR t2
              else Yap_gmq_rdiv_big_int E t1 (IntegerOfTerm t2))
        | big_int_e \<Rightarrow> Yap_gmq_rdiv_big_big E t1 t2
        | double_e \<Rightarrow> ArithError TYPE_ERROR_INTEGER t2
        | _ \<Rightarrow> RERROR)
    | _ \<Rightarrow> RERROR)"

text \<open>Floating point division \<open>/\<close>.\<close>

definition p_fdiv :: "'f env \<Rightarrow> 'f trm \<Rightarrow> 'f trm \<Rightarrow> 'f res" where [arith_defs]:
  "p_fdiv E t1 t2 = (case ETypeOfTerm t1 of
      long_int_e \<Rightarrow> (case ETypeOfTerm t2 of
          long_int_e \<Rightarrow> RFLOAT (f_div E (f_of_Int E (IntegerOfTerm t1)) (f_of_Int E (IntegerOfTerm t2)))
        | double_e \<Rightarrow> RFLOAT (f_div E (f_of_Int E (IntegerOfTerm t1)) (FloatOfTerm t2))
        | big_int_e \<Rightarrow> Yap_gmp_fdiv_int_big E (IntegerOfTerm t1) t2
        | _ \<Rightarrow> RERROR)
    | double_e \<Rightarrow> (case ETypeOfTerm t2 of
          long_int_e \<Rightarrow> RFLOAT (f_div E (FloatOfTerm t1) (f_of_Int E (IntegerOfTerm t2)))
        | double_e \<Rightarrow> RFLOAT (f_div E (FloatOfTerm t1) (FloatOfTerm t2))
        | big_int_e \<Rightarrow> Yap_gmp_fdiv_float_big E (FloatOfTerm t1) t2
        | _ \<Rightarrow> RERROR)
    | big_int_e \<Rightarrow> (case ETypeOfTerm t2 of
          long_int_e \<Rightarrow> Yap_gmp_fdiv_big_int E t1 (IntegerOfTerm t2)
        | big_int_e \<Rightarrow> Yap_gmp_fdiv_big_big E t1 t2
        | double_e \<Rightarrow> Yap_gmp_fdiv_big_float E t1 (FloatOfTerm t2)
        | _ \<Rightarrow> RERROR)
    | _ \<Rightarrow> RERROR)"

definition p_atan2 :: "'f env \<Rightarrow> 'f trm \<Rightarrow> 'f trm \<Rightarrow> 'f res" where [arith_defs]:
  "p_atan2 E t1 t2 = (case ETypeOfTerm t1 of
      long_int_e \<Rightarrow> (case ETypeOfTerm t2 of
          long_int_e \<Rightarrow> RFLOAT (f_atan2 E (f_of_Int E (IntegerOfTerm t1)) (f_of_Int E (IntegerOfTerm t2)))
        | double_e \<Rightarrow> RFLOAT (f_atan2 E (f_of_Int E (IntegerOfTerm t1)) (FloatOfTerm t2))
        | big_int_e \<Rightarrow> RFLOAT (f_atan2 E (f_of_Int E (IntegerOfTerm t1)) (Yap_gmp_to_float E t2))
        | _ \<Rightarrow> RERROR)
    | double_e \<Rightarrow> (case ETypeOfTerm t2 of
          long_int_e \<Rightarrow> RFLOAT (f_atan2 E (FloatOfTerm t1) (f_of_Int E (IntegerOfTerm t2)))
        | double_e \<Rightarrow> RFLOAT (f_atan2 E (FloatOfTerm t1) (FloatOfTerm t2))
        | big_int_e \<Rightarrow> RFLOAT (f_atan2 E (FloatOfTerm t1) (Yap_gmp_to_float E t2))
        | _ \<Rightarrow> RERROR)
    | big_int_e \<Rightarrow> (case ETypeOfTerm t2 of
          long_int_e \<Rightarrow> RFLOAT (f_atan2 E (Yap_gmp_to_float E t1) (f_of_Int E (IntegerOfTerm t2)))
        | big_int_e \<Rightarrow> RFLOAT (f_atan2 E (Yap_gmp_to_float E t1) (Yap_gmp_to_float E t2))
        | double_e \<Rightarrow> RFLOAT (f_atan2 E (Yap_gmp_to_float E t1) (FloatOfTerm t2))
        | _ \<Rightarrow> RERROR)
    | _ \<Rightarrow> RERROR)"

text \<open>The power \<open>**\<close>, always through doubles.\<close>

definition p_power :: "'f env \<Rightarrow> 'f trm \<Rightarrow> 'f trm \<Rightarrow> 'f res" where [arith_defs]:
  "p_power E t1 t2 = (case ETypeOfTerm t1 of
      long_int_e \<Rightarrow> (case ETypeOfTerm t2 of
          long_int_e \<Rightarrow> RFLOAT (f_pow E (f_of_Int E (IntegerOfTerm t1)) (f_of_Int E (IntegerOfTerm t2)))
        | double_e \<Rightarrow> RFLOAT (f_pow E (f_of_Int E (IntegerOfTerm t1)) (FloatOfTerm t2))
        | big_int_e \<Rightarrow> RFLOAT (f_pow E (f_of_Int E (IntegerOfTerm t1)) (Yap_gmp_to_float E t2))
        | _ \<Rightarrow> RERROR)
    | double_e \<Rightarrow> (case ETypeOfTerm t2 of
          long_int_e \<Rightarrow> RFLOAT (f_pow E (FloatOfTerm t1) (f_of_Int E (IntegerOfTerm t2)))
        | double_e \<Rightarrow> RFLOAT (f_pow E (FloatOfTerm t1) (FloatOfTerm t2))
        | big_int_e \<Rightarrow> RFLOAT (f_pow E (FloatOfTerm t1) (Yap_gmp_to_float E t2))
        | _ \<Rightarrow> RERROR)
    | big_int_e \<Rightarrow> (case ETypeOfTerm t2 of
          long_int_e \<Rightarrow> RFLOAT (f_pow E (Yap_gmp_to_float E t1) (f_of_Int E (IntegerOfTerm t2)))
        | big_int_e \<Rightarrow> RFLOAT (f_pow E (Yap_gmp_to_float E t1) (Yap_gmp_to_float E t2))
        | double_e \<Rightarrow> RFLOAT (f_pow E (Yap_gmp_to_float E t1) (FloatOfTerm t2))
        | _ \<Rightarrow> RERROR)
    | _ \<Rightarrow> RERROR)"

text \<open>
  Exponentiation by squaring, on wrapping \<open>Int\<close>s. The loop is entered with a positive
  exponent, on which the arithmetic shift is the logical one.
\<close>

function ipow_loop :: "cint \<Rightarrow> cint \<Rightarrow> cint \<Rightarrow> cint" where
  "ipow_loop r x p =
    (let r = (if p AND 1 \<noteq> 0 then r * x else r); p = drop_bit 1 p in
     if p = 0 then r else ipow_loop r (x * x) p)"
  by pat_completeness auto

termination
proof (relation "measure (\<lambda>(r, x, p). unat p)")
  fix r x p r' p' :: cint
  assume p': "p' = drop_bit 1 p" and "p' \<noteq> 0"
  from p' have "unat p' = unat p div 2"
    by (simp only: unat_drop_bit_eq drop_bit_eq_div [where 'a = nat] power_one_right)
  moreover from \<open>p' \<noteq> 0\<close> have "unat p' \<noteq> 0" by (simp only: unat_eq_0 not_False_eq_True)
  ultimately have "unat p' < unat p" by linarith
  then show "((r', x * x, p'), (r, x, p)) \<in> measure (\<lambda>(r, x, p). unat p)" by simp
qed simp

text \<open>A result of 0 for a nonzero base means that the power may not fit.\<close>

definition ipow :: "'f env \<Rightarrow> cint \<Rightarrow> cint \<Rightarrow> (yap_error \<times> 'f trm) + cint" where
  "ipow E x p =
    (if p = 0 then Inr 1
     else if x = 0 \<and> c_less 0 p then Inr 0
     else if c_less p 0 then Inr (if c_mod (- p) 2 \<noteq> 0 then x else 1)
     else let px = (if c_less x 0 then - x else x) in
       bindE (Yap_msb E px) (\<lambda>msb.
         let nbits = msb * p in
         if unat nbits > 8 * 8 - 3 then Inr 0 else Inr (ipow_loop 1 x p)))"

text \<open>The power \<open>^\<close>.\<close>

definition p_exp :: "'f env \<Rightarrow> 'f trm \<Rightarrow> 'f trm \<Rightarrow> 'f res" where [arith_defs]:
  "p_exp E t1 t2 = (case ETypeOfTerm t1 of
      long_int_e \<Rightarrow> (case ETypeOfTerm t2 of
          long_int_e \<Rightarrow> (let i1 = IntegerOfTerm t1; i2 = IntegerOfTerm t2 in
              if c_less i2 0 then ArithError DOMAIN_ERROR_NOT_LESS_THAN_ZERO t2
              else bindE (ipow E i1 i2) (\<lambda>pow.
                if i1 \<noteq> 0 \<and> pow = 0 then Yap_gmp_exp_int_int E i1 i2 else RINT pow))
        | double_e \<Rightarrow> RFLOAT (f_pow E (f_of_Int E (IntegerOfTerm t1)) (FloatOfTerm t2))
        | big_int_e \<Rightarrow> Yap_gmp_exp_int_big E (IntegerOfTerm t1) t2
        | _ \<Rightarrow> RERROR)
    | double_e \<Rightarrow> (case ETypeOfTerm t2 of
          long_int_e \<Rightarrow> RFLOAT (f_pow E (FloatOfTerm t1) (f_of_Int E (IntegerOfTerm t2)))
        | double_e \<Rightarrow> RFLOAT (f_pow E (FloatOfTerm t1) (FloatOfTerm t2))
        | big_int_e \<Rightarrow> RFLOAT (f_pow E (FloatOfTerm t1) (Yap_gmp_to_float E t2))
        | _ \<Rightarrow> RERROR)
    | big_int_e \<Rightarrow> (case ETypeOfTerm t2 of
          long_int_e \<Rightarrow> Yap_gmp_exp_big_int E t1 (IntegerOfTerm t2)
        | big_int_e \<Rightarrow> Yap_gmp_exp_big_big E t1 t2
        | double_e \<Rightarrow> RFLOAT (f_pow E (Yap_gmp_to_float E t1) (FloatOfTerm t2))
        | _ \<Rightarrow> RERROR)
    | _ \<Rightarrow> RERROR)"

text \<open>
  Euclid's algorithm with the cofactors the code carries along. The state is the two numbers and
  their cofactors.
\<close>

lemma sint_sub_div_mult:
  assumes "0 < sint (a :: cint)" and "0 < sint b"
  shows "sint (b - c_div b a * a) = sint b mod sint a"
proof -
  have "a \<noteq> - 1" using assms(1) by auto
  then have q: "sint (c_div b a) = sint b div sint a"
    using assms by (simp add: sint_c_div signed_divide_int_def)
  have "0 \<le> sint b div sint a * sint a"
    using assms by (simp add: pos_imp_zdiv_nonneg_iff)
  moreover have "0 \<le> sint b mod sint a" using assms(1) by simp
  then have "sint b div sint a * sint a \<le> sint b"
    using div_mult_mod_eq [of "sint b" "sint a"] by linarith
  ultimately have m: "sint (c_div b a * a) = sint b div sint a * sint a"
    using fits_sint [of b] by (subst sint_mult_fits) (auto simp: q fits_Int_def)
  have "sint b - sint (c_div b a * a) = sint b mod sint a"
    by (simp add: m minus_div_mult_eq_mod)
  moreover have "fits_Int (sint b mod sint a)"
    using pos_mod_bound [OF assms(1), of "sint b"] pos_mod_sign [OF assms(1), of "sint b"]
      fits_sint [of a] unfolding fits_Int_def by linarith
  ultimately show ?thesis by (metis sint_diff_fits)
qed

function gcd_loop :: "cint \<Rightarrow> cint \<Rightarrow> cint \<Rightarrow> cint \<Rightarrow> cint \<times> cint" where
  "gcd_loop m11 m21 m12 m22 =
    (if c_less 0 m11 \<and> c_less 0 m21 then
       (if c_less m11 m21
        then let k = c_div m21 m11 in gcd_loop m11 (m21 - k * m11) m12 (m22 - k * m12)
        else let k = c_div m11 m21 in gcd_loop (m11 - k * m21) m21 (m12 - k * m22) m22)
     else (m11, m21))"
  by pat_completeness auto

termination
proof (relation "measure (\<lambda>(m11, m21, m12, m22). nat (sint m11) + nat (sint m21))")
  fix m11 m21 m12 m22 k :: cint
  assume pos: "c_less 0 m11 \<and> c_less 0 m21"
  then have m: "0 < sint m11" "0 < sint m21" by (simp_all add: c_less_def)
  { assume "c_less m11 m21" and "k = c_div m21 m11"
    then show "((m11, m21 - k * m11, m12, m22 - k * m12), (m11, m21, m12, m22))
        \<in> measure (\<lambda>(m11, m21, m12, m22). nat (sint m11) + nat (sint m21))"
      using m by (auto simp: sint_sub_div_mult c_less_def intro: order_less_trans [OF pos_mod_bound]) }
  { assume "\<not> c_less m11 m21" and "k = c_div m11 m21"
    then show "((m11 - k * m21, m21, m12 - k * m22, m22), (m11, m21, m12, m22))
        \<in> measure (\<lambda>(m11, m21, m12, m22). nat (sint m11) + nat (sint m21))"
      using m by (auto simp: sint_sub_div_mult c_less_def intro: order_less_le_trans [OF pos_mod_bound]) }
qed simp

declare gcd_loop.simps [simp del] ipow_loop.simps [simp del]

definition gcd_Int :: "cint \<Rightarrow> cint \<Rightarrow> (yap_error \<times> 'f trm) + cint" where
  "gcd_Int m11 m21 = (case gcd_loop m11 m21 1 0 of (m11, m21) \<Rightarrow>
    if c_less m11 0 \<or> c_less m21 0
      then ArithError EVALUATION_ERROR_INT_OVERFLOW (MkIntegerTerm m11)
    else if m11 \<noteq> 0 then Inr m11 else Inr m21)"

definition p_gcd :: "'f env \<Rightarrow> 'f trm \<Rightarrow> 'f trm \<Rightarrow> 'f res" where [arith_defs]:
  "p_gcd E t1 t2 = (case ETypeOfTerm t1 of
      long_int_e \<Rightarrow> (case ETypeOfTerm t2 of
          long_int_e \<Rightarrow> (let i1 = IntegerOfTerm t1; i2 = IntegerOfTerm t2;
                  i1 = (if c_le 0 i1 then i1 else - i1);
                  i2 = (if c_le 0 i2 then i2 else - i2)
              in bindE (gcd_Int i1 i2) RINT)
        | double_e \<Rightarrow> ArithError TYPE_ERROR_INTEGER t2
        | big_int_e \<Rightarrow> Yap_gmp_gcd_int_big E (IntegerOfTerm t1) t2
        | _ \<Rightarrow> RERROR)
    | double_e \<Rightarrow> ArithError TYPE_ERROR_INTEGER t1
    | big_int_e \<Rightarrow> (case ETypeOfTerm t2 of
          long_int_e \<Rightarrow> Yap_gmp_gcd_int_big E (IntegerOfTerm t2) t1
        | big_int_e \<Rightarrow> Yap_gmp_gcd_big_big E t1 t2
        | double_e \<Rightarrow> ArithError TYPE_ERROR_INTEGER t2
        | _ \<Rightarrow> RERROR)
    | _ \<Rightarrow> RERROR)"

text \<open>Minimum and maximum return one of their arguments.\<close>

definition p_min :: "'f env \<Rightarrow> 'f trm \<Rightarrow> 'f trm \<Rightarrow> 'f res" where [arith_defs]:
  "p_min E t1 t2 = (case ETypeOfTerm t1 of
      long_int_e \<Rightarrow> (case ETypeOfTerm t2 of
          long_int_e \<Rightarrow> Inr (if c_less (IntegerOfTerm t1) (IntegerOfTerm t2) then t1 else t2)
        | double_e \<Rightarrow> Inr (if f_le E (f_of_Int E (IntegerOfTerm t1)) (FloatOfTerm t2) then t1 else t2)
        | big_int_e \<Rightarrow> Inr (if Yap_gmp_cmp_int_big E (IntegerOfTerm t1) t2 < 0 then t1 else t2)
        | _ \<Rightarrow> RERROR)
    | double_e \<Rightarrow> (case ETypeOfTerm t2 of
          long_int_e \<Rightarrow> Inr (if f_le E (f_of_Int E (IntegerOfTerm t2)) (FloatOfTerm t1) then t2 else t1)
        | double_e \<Rightarrow> Inr (if f_le E (FloatOfTerm t1) (FloatOfTerm t2) then t1 else t2)
        | big_int_e \<Rightarrow> Inr (if Yap_gmp_cmp_float_big E (FloatOfTerm t1) t2 < 0 then t1 else t2)
        | _ \<Rightarrow> RERROR)
    | big_int_e \<Rightarrow> (case ETypeOfTerm t2 of
          long_int_e \<Rightarrow> Inr (if Yap_gmp_cmp_big_int E t1 (IntegerOfTerm t2) < 0 then t1 else t2)
        | big_int_e \<Rightarrow> Inr (if Yap_gmp_cmp_big_big E t1 t2 < 0 then t1 else t2)
        | double_e \<Rightarrow> Inr (if Yap_gmp_cmp_big_float E t1 (FloatOfTerm t2) < 0 then t1 else t2)
        | _ \<Rightarrow> RERROR)
    | _ \<Rightarrow> RERROR)"

definition p_max :: "'f env \<Rightarrow> 'f trm \<Rightarrow> 'f trm \<Rightarrow> 'f res" where [arith_defs]:
  "p_max E t1 t2 = (case ETypeOfTerm t1 of
      long_int_e \<Rightarrow> (case ETypeOfTerm t2 of
          long_int_e \<Rightarrow> Inr (if c_less (IntegerOfTerm t2) (IntegerOfTerm t1) then t1 else t2)
        | double_e \<Rightarrow> Inr (if f_le E (FloatOfTerm t2) (f_of_Int E (IntegerOfTerm t1)) then t1 else t2)
        | big_int_e \<Rightarrow> Inr (if Yap_gmp_cmp_int_big E (IntegerOfTerm t1) t2 > 0 then t1 else t2)
        | _ \<Rightarrow> RERROR)
    | double_e \<Rightarrow> (case ETypeOfTerm t2 of
          long_int_e \<Rightarrow> Inr (if f_le E (FloatOfTerm t1) (f_of_Int E (IntegerOfTerm t2)) then t2 else t1)
        | double_e \<Rightarrow> Inr (if f_le E (FloatOfTerm t2) (FloatOfTerm t1) then t1 else t2)
        | big_int_e \<Rightarrow> Inr (if Yap_gmp_cmp_float_big E (FloatOfTerm t1) t2 > 0 then t1 else t2)
        | _ \<Rightarrow> RERROR)
    | big_int_e \<Rightarrow> (case ETypeOfTerm t2 of
          long_int_e \<Rightarrow> Inr (if Yap_gmp_cmp_big_int E t1 (IntegerOfTerm t2) > 0 then t1 else t2)
        | big_int_e \<Rightarrow> Inr (if Yap_gmp_cmp_big_big E t1 t2 > 0 then t1 else t2)
        | double_e \<Rightarrow> Inr (if Yap_gmp_cmp_big_float E t1 (FloatOfTerm t2) > 0 then t1 else t2)
        | _ \<Rightarrow> RERROR)
    | _ \<Rightarrow> RERROR)"

section \<open>Dispatch\<close>

datatype arith2_op = op_plus | op_minus | op_times | op_fdiv | op_mod | op_rem | op_div | op_idiv
  | op_sll | op_slr | op_and | op_or | op_xor | op_atan2 | op_power | op_power2 | op_gcd
  | op_min | op_max | op_rdiv

fun eval2 :: "'f env \<Rightarrow> arith2_op \<Rightarrow> 'f trm \<Rightarrow> 'f trm \<Rightarrow> 'f res" where
  "eval2 E op_plus t1 t2 = p_plus E t1 t2"
| "eval2 E op_minus t1 t2 = p_minus E t1 t2"
| "eval2 E op_times t1 t2 = p_times E t1 t2"
| "eval2 E op_div t1 t2 = p_div E t1 t2"
| "eval2 E op_idiv t1 t2 = p_div2 E t1 t2"
| "eval2 E op_and t1 t2 = p_and E t1 t2"
| "eval2 E op_or t1 t2 = p_or E t1 t2"
| "eval2 E op_sll t1 t2 = p_sll E t1 t2"
| "eval2 E op_slr t1 t2 = p_slr E t1 t2"
| "eval2 E op_mod t1 t2 = p_mod E t1 t2"
| "eval2 E op_rem t1 t2 = p_rem E t1 t2"
| "eval2 E op_fdiv t1 t2 = p_fdiv E t1 t2"
| "eval2 E op_xor t1 t2 = p_xor E t1 t2"
| "eval2 E op_atan2 t1 t2 = p_atan2 E t1 t2"
| "eval2 E op_power t1 t2 = p_exp E t1 t2"
| "eval2 E op_power2 t1 t2 = p_power E t1 t2"
| "eval2 E op_gcd t1 t2 = p_gcd E t1 t2"
| "eval2 E op_min t1 t2 = p_min E t1 t2"
| "eval2 E op_max t1 t2 = p_max E t1 t2"
| "eval2 E op_rdiv t1 t2 = p_rdiv E t1 t2"

definition Yap_eval_binary :: "'f env \<Rightarrow> arith2_op \<Rightarrow> 'f trm \<Rightarrow> 'f trm \<Rightarrow> 'f res" where
  "Yap_eval_binary E f t1 t2 = eval2 E f t1 t2"

text \<open>The table of operator names.\<close>

definition InitBinTab :: "(string \<times> arith2_op) list" where
  "InitBinTab =
    [(''+'', op_plus), (''-'', op_minus), (''*'', op_times), (''/'', op_fdiv), (''mod'', op_mod),
     (''rem'', op_rem), (''//'', op_div), (''div'', op_idiv), (''<<'', op_sll), (''>>'', op_slr),
     (''/'' @ [CHR 0x5C], op_and), ([CHR 0x5C] @ ''/'', op_or), (''#'', op_xor), (''><'', op_xor),
     (''xor'', op_xor), (''atan'', op_atan2), (''atan2'', op_atan2), (''^'', op_power),
     (''**'', op_power2), (''exp'', op_power2), (''gcd'', op_gcd), (''min'', op_min),
     (''max'', op_max), (''rdiv'', op_rdiv)]"

end
