(* ===== verification/YapArith2Correct.thy ===== *)
theory YapArith2Correct
  imports YapArith2
begin

text \<open>
  What binary arithmetic computes: the operations on machine integers against the exact ones,
  the exactness of the tower integer / bignum / rational for addition, subtraction and
  multiplication, the table of the mathematical functions of the integer operators with the
  domain on which the code computes them, and the places where it does not.
\<close>

section \<open>Machine integers\<close>

lemma RINT_box: "RINT i = box_int E (sint i)"
  by (simp add: RINT_def box_int_def int_term_def word_of_int_sint)

lemma mkInt_box:
  assumes "- (2 ^ 57) \<le> sint i" and "sint i < 2 ^ 57"
  shows "Inr (mkInt i) = box_int E (sint i)"
proof -
  have "IntInBnd i" using assms by (simp add: IntInBnd_iff)
  then show ?thesis by (simp add: RINT_box [symmetric] RINT_def MkIntegerTerm_def)
qed

lemma sint_xor_neg: "sint (a XOR b :: cint) < 0 \<longleftrightarrow> (sint a < 0) \<noteq> (sint b < 0)"
  using bit_last_iff [of "a XOR b"] bit_last_iff [of a] bit_last_iff [of b]
  by (simp add: bit_xor_iff)

lemma sint_bit_ops:
  "sint (a AND b :: cint) = sint a AND sint b"
  "sint (a OR b :: cint) = sint a OR sint b"
  "sint (a XOR b :: cint) = sint a XOR sint b"
  by (simp_all add: signed_and_eq signed_or_eq signed_xor_eq)

lemma sint_floored_mod:
  assumes "sint j \<noteq> 0"
  shows "sint (floored_mod i j) = sint i mod sint j"
proof -
  have m: "sint (c_mod i j) = sint i smod sint j" by (rule sint_c_mod)
  have cond: "c_mod i j \<noteq> 0 \<and> c_less (c_mod i j XOR j) 0 \<longleftrightarrow>
      sint i smod sint j \<noteq> 0 \<and> (sint i smod sint j < 0) \<noteq> (sint j < 0)"
    by (simp add: c_less_def sint_xor_neg m eq_zero_iff_sint)
  have "fits_Int (sint i smod sint j + sint j)" if "(sint i smod sint j < 0) \<noteq> (sint j < 0)"
    using that smod_int_range [OF assms, of "sint i"] fits_sint [of j]
    by (auto simp: fits_Int_def)
  then show ?thesis
    using cond mod_from_smod [OF assms, of "sint i"]
    by (auto simp: floored_mod_def Let_def m sint_add_fits)
qed

lemma sint_SLR:
  assumes "0 \<le> sint s"
  shows "sint (SLR i s) = sint i div 2 ^ nat (sint s)"
proof (cases "unat s < 63")
  case True
  have "unat s = nat (sint s)"
    using assms by (simp add: uint_eq_sint unat_eq_nat_uint)
  with True show ?thesis by (simp add: SLR_def sint_c_shr drop_bit_eq_div)
next
  case False
  then have "63 \<le> nat (sint s)"
    using assms by (simp add: uint_eq_sint unat_eq_nat_uint)
  then have "(2 :: int) ^ 63 \<le> 2 ^ nat (sint s)" by (rule power_increasing) simp
  then have "- (2 ^ nat (sint s)) \<le> sint i" "sint i < 2 ^ nat (sint s)"
    using sint_greater_eq [of i] sint_less [of i] by simp_all
  then have "sint i div 2 ^ nat (sint s) = (if 0 \<le> sint i then 0 else - 1)"
    using int_div_pos_eq [of "sint i" "2 ^ nat (sint s)" "- 1" "sint i + 2 ^ nat (sint s)"]
    by (auto simp: div_pos_pos_trivial)
  with False show ?thesis by (simp add: SLR_def c_le_def)
qed

text \<open>The search for the number of leading zeros of a magnitude.\<close>

definition clrsb_inv :: "nat \<Rightarrow> nat \<Rightarrow> cint \<times> int \<Rightarrow> bool" where
  "clrsb_inv k v s \<longleftrightarrow> 0 \<le> sint (fst s) \<and> unat (fst s) < 2 ^ k \<and> 0 \<le> snd s
    \<and> snd s + int k \<le> 64 \<and> (\<exists>e. snd s + int k + int e = 64 \<and> unat (fst s) = v div 2 ^ e)"

lemma clrsb_inv_step:
  assumes inv: "clrsb_inv (2 * n) v s" and n: "n < 63"
  shows "clrsb_inv n v (clrsb_step n s)"
proof (cases s)
  case (Pair i j)
  with inv obtain e where i: "0 \<le> sint i" "unat i < 2 ^ (2 * n)" "0 \<le> j"
    "j + 2 * int n + int e = 64" "unat i = v div 2 ^ e"
    by (auto simp: clrsb_inv_def)
  have p: "sint (push_bit n 1 :: cint) = 2 ^ n"
  proof -
    have "fits_Int (2 ^ n)"
      using power_strict_increasing [OF n, of "2 :: int"] zero_less_power [of "2 :: int" n]
      unfolding fits_Int_def by linarith
    then have "sint (word_of_int (2 ^ n) :: cint) = 2 ^ n" by (rule sint_of_int_fits)
    then show ?thesis by (simp add: push_bit_eq_mult)
  qed
  have less: "c_less i (push_bit n 1) \<longleftrightarrow> unat i < 2 ^ n"
  proof -
    have "sint i < 2 ^ n \<longleftrightarrow> int (unat i) < int (2 ^ n)"
      using i(1) by (simp add: uint_eq_sint)
    then show ?thesis by (simp only: c_less_def p of_nat_less_iff)
  qed
  have step: "clrsb_step n s = (if unat i < 2 ^ n then (i, j + int n) else (c_shr i n, j))"
    unfolding clrsb_step_def Pair prod.case less ..
  show ?thesis
  proof (cases "unat i < 2 ^ n")
    case True
    with i have "clrsb_inv n v (i, j + int n)"
      unfolding clrsb_inv_def by (auto intro!: exI [of _ e])
    with True show ?thesis by (simp only: step if_True)
  next
    case False
    have "v div 2 ^ e div 2 ^ n = v div 2 ^ (e + n)" by (simp add: div_mult2_eq power_add)
    with i half_word [OF i(2)] unat_c_shr [OF i(1), of n] have "clrsb_inv n v (c_shr i n, j)"
      unfolding clrsb_inv_def by (auto intro!: exI [of _ "e + n"])
    with False show ?thesis by (simp only: step if_False)
  qed
qed

lemma clrsb_last: "(case s of (i, j) \<Rightarrow> if c_less i 2 then j + 1 else j) = snd (clrsb_step 1 s)"
  by (cases s) (simp add: clrsb_step_def)

lemma clrsb_bound:
  assumes "i \<noteq> Int_MIN"
  shows "0 \<le> clrsb i \<and> clrsb i \<le> 63 \<and> \<bar>sint i\<bar> < 2 ^ nat (64 - clrsb i)"
proof -
  define m where "m = (if c_less i 0 then - i else i)"
  have m: "sint m = \<bar>sint i\<bar>"
    using assms fits_sint [of i] sint_uminus_fits [of i] unfolding eq_Int_MIN_iff
    by (auto simp: m_def c_less_def fits_Int_def)
  then have "0 \<le> sint m" by simp
  then have "int (unat m) = sint m" by (simp add: uint_eq_sint)
  then have "int (unat m) < int (2 ^ 64)" using sint_less [of m] by simp
  then have lt: "unat m < 2 ^ 64" by (simp only: of_nat_less_iff)
  define s where "s = clrsb_step 2 (clrsb_step 4 (clrsb_step 8 (clrsb_step 16 (clrsb_step 32 (m, 0)))))"
  have "clrsb_inv (2 * 32) (unat m) (m, 0)"
    using \<open>0 \<le> sint m\<close> lt by (auto simp: clrsb_inv_def)
  from clrsb_inv_step [OF this] have "clrsb_inv (2 * 16) (unat m) (clrsb_step 32 (m, 0))" by simp
  from clrsb_inv_step [OF this]
  have "clrsb_inv (2 * 8) (unat m) (clrsb_step 16 (clrsb_step 32 (m, 0)))" by simp
  from clrsb_inv_step [OF this]
  have "clrsb_inv (2 * 4) (unat m) (clrsb_step 8 (clrsb_step 16 (clrsb_step 32 (m, 0))))" by simp
  from clrsb_inv_step [OF this]
  have "clrsb_inv (2 * 2) (unat m)
      (clrsb_step 4 (clrsb_step 8 (clrsb_step 16 (clrsb_step 32 (m, 0)))))" by simp
  from clrsb_inv_step [OF this] have "clrsb_inv (2 * 1) (unat m) s" by (simp add: s_def)
  from clrsb_inv_step [OF this] have inv: "clrsb_inv 1 (unat m) (clrsb_step 1 s)" by simp
  have c: "clrsb i = snd (clrsb_step 1 s)"
    using assms unfolding clrsb_def m_def [symmetric] Let_def s_def [symmetric] clrsb_last by simp
  from inv obtain e where e: "clrsb i + 1 + int e = 64" "unat m div 2 ^ e < 2" "0 \<le> clrsb i"
    by (auto simp: clrsb_inv_def c)
  then have "unat m < 2 ^ (e + 1)" by (simp add: div_less_iff_less_mult)
  then have "int (unat m) < int (2 ^ (e + 1))" by (simp only: of_nat_less_iff)
  then have "\<bar>sint i\<bar> < 2 ^ (e + 1)" using \<open>int (unat m) = sint m\<close> m by simp
  moreover have "nat (64 - clrsb i) = e + 1" using e by simp
  ultimately show ?thesis using e by simp
qed

section \<open>The fast operations are exact\<close>

context gmp
begin

lemma add_int_exact: "add_int E i j = box_int E (sint i + sint j)"
  by (simp add: add_int_def add_ints RINT_box [where E = E] sint_add_fits)

lemma sub_int_exact: "sub_int E i j = box_int E (sint i - sint j)"
  by (simp add: sub_int_def sub_ints RINT_box [where E = E] sint_diff_fits)

lemma times_int_exact: "times_int E i j = box_int E (sint i * sint j)"
  by (simp add: times_int_def mul_ints RINT_box [where E = E] sint_mult_fits)

lemma do_sll_exact:
  assumes "0 < sint j"
  shows "do_sll E i j = box_int E (sint i * 2 ^ nat (sint j))"
proof (cases "clrsb i > sint j")
  case True
  then have "i \<noteq> Int_MIN" using assms by (auto simp: clrsb_def)
  note b = clrsb_bound [OF this]
  have u: "unat j = nat (sint j)" using assms by (simp add: uint_eq_sint unat_eq_nat_uint)
  have "\<bar>sint i\<bar> * 2 ^ nat (sint j) < 2 ^ nat (64 - clrsb i) * 2 ^ nat (sint j)"
    using b by simp
  also have "\<dots> = 2 ^ (nat (64 - clrsb i) + nat (sint j))" by (simp add: power_add)
  also have "\<dots> \<le> 2 ^ 63" by (rule power_increasing) (use True b assms in auto)
  finally have "\<bar>sint i * 2 ^ nat (sint j)\<bar> < 2 ^ 63" by (simp add: abs_mult)
  then have fits: "fits_Int (sint i * 2 ^ nat (sint j))" by (auto simp: fits_Int_def)
  have "push_bit (unat j) i = word_of_int (sint i * 2 ^ nat (sint j))"
    by (simp add: u push_bit_eq_mult word_of_int_sint)
  with fits have "sint (push_bit (unat j) i) = sint i * 2 ^ nat (sint j)"
    by (simp only: sint_of_int_fits)
  with True show ?thesis by (simp add: do_sll_def RINT_box [where E = E])
next
  case False
  have "unat j = nat (sint j)" using assms by (simp add: uint_eq_sint unat_eq_nat_uint)
  with False show ?thesis by (simp add: do_sll_def sll_ints)
qed

end

section \<open>Greatest common divisor and powers of machine integers\<close>

lemma gcd_loop_correct:
  assumes "0 \<le> sint a" and "0 \<le> sint b"
  shows "case gcd_loop a b u v of (x, y) \<Rightarrow> 0 \<le> sint x \<and> 0 \<le> sint y
    \<and> (sint x = 0 \<or> sint y = 0) \<and> gcd (sint x) (sint y) = gcd (sint a) (sint b)"
  using assms
proof (induction a b u v rule: gcd_loop.induct)
  case (1 a b u v)
  show ?case
  proof (cases "c_less 0 a \<and> c_less 0 b")
    case False
    with 1 show ?thesis by (auto simp: gcd_loop.simps [of a b] c_less_def)
  next
    case True
    then have pos: "0 < sint a" "0 < sint b" by (simp_all add: c_less_def)
    show ?thesis
    proof (cases "c_less a b")
      case True
      have "sint (b - c_div b a * a) = sint b mod sint a" by (rule sint_sub_div_mult) (fact pos)+
      moreover have "gcd (sint a) (sint b mod sint a) = gcd (sint a) (sint b)"
        by (metis gcd.commute gcd_red_int)
      ultimately show ?thesis
        using 1 pos True \<open>c_less 0 a \<and> c_less 0 b\<close> by (simp add: gcd_loop.simps [of a b] Let_def)
    next
      case False
      have "sint (a - c_div a b * b) = sint a mod sint b" by (rule sint_sub_div_mult) (fact pos)+
      moreover have "gcd (sint a mod sint b) (sint b) = gcd (sint a) (sint b)"
        by (metis gcd.commute gcd_red_int)
      ultimately show ?thesis
        using 1 pos False \<open>c_less 0 a \<and> c_less 0 b\<close> by (simp add: gcd_loop.simps [of a b] Let_def)
    qed
  qed
qed

lemma gcd_Int_correct:
  assumes "0 \<le> sint a" and "0 \<le> sint b"
  obtains g where "gcd_Int a b = Inr g" "sint g = gcd (sint a) (sint b)"
proof -
  obtain x y where xy: "gcd_loop a b 1 0 = (x, y)" by (cases "gcd_loop a b 1 0")
  with gcd_loop_correct [OF assms, of 1 0]
  have x: "0 \<le> sint x" "0 \<le> sint y" "sint x = 0 \<or> sint y = 0"
    "gcd (sint x) (sint y) = gcd (sint a) (sint b)" by simp_all
  then have "gcd_Int a b = Inr (if x \<noteq> 0 then x else y)"
    by (simp add: gcd_Int_def xy c_less_def)
  moreover have "sint (if x \<noteq> 0 then x else y) = gcd (sint x) (sint y)"
    using x(1-3) by (auto simp: eq_zero_iff_sint)
  ultimately show ?thesis using that x(4) by simp
qed

lemma ipow_loop_value: "ipow_loop r x p = r * x ^ unat p"
proof (induction r x p rule: ipow_loop.induct)
  case (1 r x p)
  define q where "q = drop_bit 1 p"
  have q: "unat q = unat p div 2"
    unfolding q_def by (simp only: unat_drop_bit_eq drop_bit_eq_div [where 'a = nat] power_one_right)
  have odd: "p AND 1 \<noteq> 0 \<longleftrightarrow> odd (unat p)"
    using bit_iff_and_push_bit_not_eq_0 [of p 0] by (simp add: bit_unsigned_iff flip: bit_0)
  have pow: "(if p AND 1 \<noteq> 0 then r * x else r) * (x * x) ^ unat q = r * x ^ unat p"
  proof -
    have "x ^ unat p = x ^ (2 * (unat p div 2) + unat p mod 2)" by simp
    also have "\<dots> = (x * x) ^ unat q * x ^ (unat p mod 2)"
      by (simp only: power_add power_mult power2_eq_square q)
    finally show ?thesis
      unfolding odd by (simp add: odd_iff_mod_2_eq_one even_iff_mod_2_eq_zero mult_ac)
  qed
  have step: "ipow_loop r x p = (if q = 0 then if p AND 1 \<noteq> 0 then r * x else r
      else ipow_loop (if p AND 1 \<noteq> 0 then r * x else r) (x * x) q)"
    by (simp add: ipow_loop.simps [of r x p] Let_def q_def)
  show ?case
  proof (cases "q = 0")
    case True
    with pow step have "ipow_loop r x p = r * x ^ unat p" by simp
    then show ?thesis .
  next
    case False
    then have "ipow_loop r x p = (if p AND 1 \<noteq> 0 then r * x else r) * (x * x) ^ unat q"
      using 1 step q_def by simp
    with pow False show ?thesis by (simp add: q_def)
  qed
qed

lemma bit_len_unique:
  assumes "2 ^ m \<le> n" and "n < 2 ^ (m + 1)"
  shows "bit_len n = m + 1"
proof -
  have "n \<noteq> 0" using assms(1) by (metis le_zero_eq power_not_zero zero_neq_numeral)
  note b = bit_len_spec [OF this]
  have "(2 :: nat) ^ m < 2 ^ bit_len n" using assms(1) b by linarith
  then have "m < bit_len n" by (rule power_less_imp_less_exp [rotated]) simp
  moreover have "(2 :: nat) ^ bit_len n < 2 ^ (m + 2)" using assms(2) b by simp
  then have "bit_len n < m + 2" by (rule power_less_imp_less_exp [rotated]) simp
  ultimately show ?thesis by simp
qed

text \<open>
  The overflow test of the power: it compares the position of the highest bit of the base times
  the exponent with 61. \<open>power_flagged\<close> is that test on the numbers.
\<close>

definition power_flagged :: "int \<Rightarrow> int \<Rightarrow> bool" where
  "power_flagged x p \<longleftrightarrow> 61 < (bit_len (nat \<bar>x\<bar>) - 1) * nat p"

lemma ipow_correct:
  assumes "0 < sint p" and "sint p < 2 ^ 57" and "x \<noteq> 0" and "x \<noteq> Int_MIN" and "no_ffsll E"
  shows "ipow E x p = (Inr (if power_flagged (sint x) (sint p) then 0 else x ^ unat p)
    :: (yap_error \<times> 'f trm) + cint)"
proof -
  define px where "px = (if c_less x 0 then - x else x)"
  have px: "sint px = \<bar>sint x\<bar>"
    using assms fits_sint [of x] sint_uminus_fits [of x] unfolding eq_Int_MIN_iff
    by (auto simp: px_def c_less_def fits_Int_def)
  have "sint x \<noteq> 0" using assms(3) by (simp add: eq_zero_iff_sint)
  then have pos: "0 < sint px" by (simp add: px)
  then obtain m where m: "Yap_msb E px = (Inr m :: (yap_error \<times> 'f trm) + cint)" "unat m < 63" "2 ^ unat m \<le> unat px"
    "unat px < 2 ^ (unat m + 1)"
    by (rule msb_correct [OF assms(5)])
  have up: "unat px = nat \<bar>sint x\<bar>"
    using pos px by (simp add: unat_eq_nat_uint uint_eq_sint)
  have len: "bit_len (nat \<bar>sint x\<bar>) - 1 = unat m"
    using bit_len_unique [OF m(3,4)] by (simp add: up)
  have pn: "unat p = nat (sint p)"
    using assms(1) by (simp add: unat_eq_nat_uint uint_eq_sint)
  have "unat m * unat p < 2 ^ 6 * 2 ^ 57"
    using assms(2) m(2) by (intro mult_strict_mono) (simp_all add: pn)
  then have "unat (m * p) = unat m * unat p"
    by (simp add: unat_word_ariths)
  then have nb: "unat (m * p) > 61 \<longleftrightarrow> power_flagged (sint x) (sint p)"
    by (simp only: power_flagged_def len pn)
  have guards: "p \<noteq> 0" "\<not> (x = 0 \<and> c_less 0 p)" "\<not> c_less p 0"
    using assms by (auto simp: c_less_def)
  show ?thesis
    using guards nb assms(3) unfolding ipow_def px_def [symmetric] Let_def
    by (simp add: m(1) ipow_loop_value)
qed

lemma word_power_exact:
  assumes "fits_Int (sint x ^ n)"
  shows "sint (x ^ n :: cint) = sint x ^ n"
proof -
  have "x ^ n = word_of_int (sint x ^ n)"
    by (simp add: word_of_int_sint)
  with assms show ?thesis by (simp only: sint_of_int_fits)
qed

section \<open>The integer operators as mathematical functions\<close>

text \<open>
  \<open>math2\<close> is the mathematical function of each operator on integers: \<open>//\<close> truncates, \<open>div\<close> and
  \<open>mod\<close> round down, so that \<open>mod\<close> has the sign of the divisor (the comment at its head says that it is
  always positive, which the code does not do), \<open>rem\<close> goes with truncation, a shift by a negative count
  goes the other way. \<open>exact2\<close> is the domain on which the code computes it; the conditions on divisions and
  powers are exactly those under which the bignum paths agree with the machine ones.
\<close>

fun math2 :: "arith2_op \<Rightarrow> int \<Rightarrow> int \<Rightarrow> int" where
  "math2 op_plus x y = x + y"
| "math2 op_minus x y = x - y"
| "math2 op_times x y = x * y"
| "math2 op_div x y = x sdiv y"
| "math2 op_idiv x y = x div y"
| "math2 op_mod x y = x mod y"
| "math2 op_rem x y = x smod y"
| "math2 op_and x y = x AND y"
| "math2 op_or x y = x OR y"
| "math2 op_xor x y = x XOR y"
| "math2 op_sll x y = (if 0 \<le> y then x * 2 ^ nat y else x div 2 ^ nat (- y))"
| "math2 op_slr x y = (if 0 \<le> y then x div 2 ^ nat y else x * 2 ^ nat (- y))"
| "math2 op_power x y = x ^ nat y"
| "math2 op_gcd x y = gcd x y"
| "math2 op_min x y = min x y"
| "math2 op_max x y = max x y"
| "math2 _ x y = 0"

fun exact2 :: "arith2_op \<Rightarrow> int \<Rightarrow> int \<Rightarrow> bool" where
  "exact2 op_plus x y = True"
| "exact2 op_minus x y = True"
| "exact2 op_times x y = True"
| "exact2 op_and x y = True"
| "exact2 op_or x y = True"
| "exact2 op_xor x y = True"
| "exact2 op_min x y = True"
| "exact2 op_max x y = True"
| "exact2 op_div x y = (y \<noteq> 0 \<and>
    (if fits_Int x then fits_Int y \<or> x \<noteq> - y
     else if fits_Int y then 0 \<le> x \<or> y dvd x
     else sgn x = sgn y \<or> y dvd x))"
| "exact2 op_idiv x y = (y \<noteq> 0 \<and>
    (if fits_Int x then
       (if fits_Int y then fits_Int (x - x mod y) else x = 0 \<or> sgn x = sgn y)
     else fits_Int y \<longrightarrow> 0 < y \<or> y dvd x))"
| "exact2 op_mod x y = (y \<noteq> 0 \<and> (fits_Int x \<and> \<not> fits_Int y \<longrightarrow> x \<noteq> 0 \<or> y < 0))"
| "exact2 op_rem x y = (y \<noteq> 0 \<and> (fits_Int x \<and> \<not> fits_Int y \<longrightarrow> x \<noteq> - y))"
| "exact2 op_sll x y = (fits_Int y \<and> y \<noteq> - (2 ^ 63))"
| "exact2 op_slr x y = (fits_Int y \<and> y \<noteq> - (2 ^ 63))"
| "exact2 op_power x y = (0 \<le> y \<and> y < 2 ^ 57 \<and> (fits_Int x \<longrightarrow>
    x = 0 \<or> y = 0 \<or> (x \<noteq> - (2 ^ 63) \<and> (fits_Int (x ^ nat y) \<or> power_flagged x y))))"
| "exact2 op_gcd x y =
    (if fits_Int x \<and> fits_Int y then x \<noteq> - (2 ^ 63) \<and> y \<noteq> - (2 ^ 63)
     else if fits_Int x then x \<noteq> 0 \<and> x \<noteq> - (2 ^ 63)
     else if fits_Int y then y \<noteq> 0 \<and> y \<noteq> - (2 ^ 63)
     else True)"
| "exact2 _ x y = False"

text \<open>
  A result returned: the canonical term of the integer, or the resource error when its limbs
  do not fit on the stack.
\<close>

definition returns :: "'f env \<Rightarrow> 'f res \<Rightarrow> int \<Rightarrow> bool" where
  "returns E r z \<longleftrightarrow> r = Inr (int_term z)
    \<or> (r = Inl (RESOURCE_ERROR_STACK, TermNil) \<and> \<not> fits_Int z \<and> \<not> limbs_fit E z)"

lemma returns_box [simp]: "returns E (box_int E z) z"
  by (simp add: returns_def box_int_def)

lemma returns_boxI: "r = box_int E z \<Longrightarrow> returns E r z"
  by simp

definition int_arg :: "'f trm \<Rightarrow> int \<Rightarrow> bool" where
  "int_arg t z \<longleftrightarrow> canonical t \<and> int_val t = Some z"

text \<open>
  What an operator gives for a number: a canonical term that reads as the number, or the resource error.
  Unlike \<open>returns\<close> it does not mention the boxing functions of the code.
\<close>

definition gives :: "'f env \<Rightarrow> 'f res \<Rightarrow> int \<Rightarrow> bool" where
  "gives E r z \<longleftrightarrow> (\<exists>t. r = Inr t \<and> int_arg t z)
    \<or> (r = Inl (RESOURCE_ERROR_STACK, TermNil) \<and> \<not> fits_Int z \<and> \<not> limbs_fit E z)"

lemma int_arg_int_term: "\<not> tag_gap z \<Longrightarrow> int_arg (int_term z) z"
  by (simp add: int_arg_def canonical_int_term int_val_int_term)

lemma gives_returns: "returns E r z \<Longrightarrow> \<not> tag_gap z \<Longrightarrow> gives E r z"
  by (auto simp: returns_def gives_def int_arg_int_term)

lemma int_arg_cases [consumes 1, case_names small big]:
  assumes "int_arg t z"
  obtains "ETypeOfTerm t = long_int_e" "fits_Int z" "sint (IntegerOfTerm t) = z" "t = int_term z"
  | "t = BigT z" "\<not> fits_Int z" "t = int_term z"
proof (cases t)
  case (IntT i)
  with assms have z: "z = sint i" "- (2 ^ 57) \<le> sint i" "sint i < 2 ^ 57"
    by (simp_all add: int_arg_def)
  then have "t = int_term z"
    by (simp add: IntT int_term_def word_of_int_sint MkIntegerTerm_def mkInt_def IntInBnd_iff
        IntOfTerm_MkIntTerm)
  with z that(1) show ?thesis by (simp add: IntT)
next
  case (LongT i)
  with assms have "z = sint i" "\<not> IntInBnd i" by (simp_all add: int_arg_def)
  then have "t = int_term z"
    by (simp add: LongT int_term_def word_of_int_sint MkIntegerTerm_def)
  with \<open>z = sint i\<close> that(1) show ?thesis by (simp add: LongT)
next
  case (BigT y)
  with assms have "t = BigT z" "\<not> fits_Int z" by (auto simp: int_arg_def)
  moreover from this have "t = int_term z" by (simp add: int_term_def)
  ultimately show ?thesis by (rule that(2))
qed (use assms in \<open>simp_all add: int_arg_def\<close>)

lemma returns_arg: "int_arg t z \<Longrightarrow> returns E (Inr t) z"
  by (erule int_arg_cases) (simp_all add: returns_def)

lemma sdiv_div:
  assumes "(y :: int) \<noteq> 0" and "sgn x = sgn y \<or> x = 0 \<or> y dvd x"
  shows "x sdiv y = x div y"
  using assms by (auto simp: signed_divide_int_eq_divide_int)

context gmp
begin

lemma ring_big:
  "Yap_gmp_add_int_big E i (BigT z) = box_int E (sint i + z)"
  "Yap_gmp_sub_int_big E i (BigT z) = box_int E (sint i - z)"
  "Yap_gmp_mul_int_big E i (BigT z) = box_int E (sint i * z)"
  "Yap_gmp_sub_big_int E (BigT z) i = box_int E (z - sint i)"
  "Yap_gmp_add_big_big E (BigT y) (BigT z) = box_int E (y + z)"
  "Yap_gmp_sub_big_big E (BigT y) (BigT z) = box_int E (y - z)"
  "Yap_gmp_mul_big_big E (BigT y) (BigT z) = box_int E (y * z)"
  by (simp_all add: gmp_defs gmp_laws MkBigAndClose)

lemma ring_exact:
  assumes "int_arg s x" and "int_arg t y"
  shows "p_plus E s t = box_int E (x + y)"
    and "p_minus E s t = box_int E (x - y)"
    and "p_times E s t = box_int E (x * y)"
  by (cases rule: int_arg_cases [OF assms(1)]; cases rule: int_arg_cases [OF assms(2)];
      simp add: p_plus_def p_minus_def p_times_def ring_big add_int_exact sub_int_exact
        times_int_exact add.commute mult.commute)+

lemma bitwise_exact:
  assumes "int_arg s x" and "int_arg t y"
  shows "p_and E s t = box_int E (x AND y)"
    and "p_or E s t = box_int E (x OR y)"
    and "p_xor E s t = box_int E (x XOR y)"
  by (cases rule: int_arg_cases [OF assms(1)]; cases rule: int_arg_cases [OF assms(2)];
      simp add: p_and_def p_or_def p_xor_def bit_ops RINT_box [where E = E] sint_bit_ops
        and.commute or.commute xor.commute)+

lemma RINT_returns: "sint i = z \<Longrightarrow> returns E (RINT i) z"
  by (auto simp: RINT_box [where E = E])

lemma mkInt_returns:
  assumes "sint i = z" and "\<bar>z\<bar> < 2 ^ 57"
  shows "returns E (Inr (mkInt i)) z"
  using assms by (auto intro!: returns_boxI mkInt_box)

lemma zero_returns: "z = 0 \<Longrightarrow> returns E (Inr (mkInt 0)) z"
  by (rule mkInt_returns) simp_all

lemma most_neg_by_minus_one:
  "returns E (Yap_gmp_add_ints E Int_MAX 1) (2 ^ 63)"
  by (rule returns_boxI) (simp add: add_ints)

lemma small_divisor:
  "c_less 0 i \<Longrightarrow> z div sint i = (if 0 < sint i then z div sint i else - (z div - sint i))"
  by (simp add: c_less_def)

lemma div_exact:
  assumes "int_arg s x" and "int_arg t y" and "exact2 op_div x y"
  shows "returns E (p_div E s t) (x sdiv y)"
  using assms(1)
proof (cases rule: int_arg_cases)
  case s: small
  from assms(2) show ?thesis
  proof (cases rule: int_arg_cases)
    case t: small
    let ?i = "IntegerOfTerm s" and ?j = "IntegerOfTerm t"
    have "?j \<noteq> 0" using assms(3) t(3) by auto
    show ?thesis
    proof (cases "?i = Int_MIN \<and> ?j = - 1")
      case True
      then have "x sdiv y = 2 ^ 63" using s(3) t(3) by auto
      with True s(1) t(1) show ?thesis
        using most_neg_by_minus_one by (simp add: p_div_def)
    next
      case False
      then have "p_div E s t = RINT (c_div ?i ?j)"
        using s(1) t(1) \<open>?j \<noteq> 0\<close> by (auto simp: p_div_def)
      then show ?thesis
        using sint_c_div [OF False] s(3) t(3) by (simp add: RINT_returns)
    qed
  next
    case t: big
    have "\<bar>x\<bar> < \<bar>y\<bar>"
      using s(2) t(2) assms(3) by (auto simp: fits_Int_def)
    then have "x sdiv y = 0" by (simp add: signed_divide_int_def)
    then show ?thesis using s(1) by (simp add: t(1) p_div_def gmp_defs zero_returns)
  qed
next
  case s: big
  from assms(2) show ?thesis
  proof (cases rule: int_arg_cases)
    case t: small
    let ?j = "IntegerOfTerm t"
    have y: "?j \<noteq> 0" "y \<noteq> 0" "0 \<le> x \<or> y dvd x" using assms(3) s(2) t(2,3) by auto
    have "p_div E s t = box_int E (if 0 < y then x div y else - (x div - y))"
      using y(1) t(1,3) by (simp add: s(1) p_div_def div_big_int c_less_def)
    moreover have "(if 0 < y then x div y else - (x div - y)) = x sdiv y"
      using y(2,3) by (auto simp: signed_divide_int_def sgn_if div_eq_div_abs [of x]) 
    ultimately show ?thesis by simp
  next
    case t: big
    then show ?thesis
      using assms(3) s(2) by (auto simp: s(1) p_div_def div_big_big sdiv_div)
  qed
qed

lemma idiv_small:
  assumes "sint j \<noteq> 0" and "\<not> (i = Int_MIN \<and> j = - 1)"
    and "fits_Int (sint i - sint i mod sint j)"
  shows "sint (c_div (i - floored_mod i j) j) = sint i div sint j"
proof -
  have d: "sint (i - floored_mod i j) = sint i - sint i mod sint j"
    using assms by (simp add: sint_diff_fits sint_floored_mod)
  have "\<not> (i - floored_mod i j = Int_MIN \<and> j = - 1)"
  proof
    assume min: "i - floored_mod i j = Int_MIN \<and> j = - 1"
    with d have "sint i = - (2 ^ 63)" by auto
    with min assms(2) show False by (auto simp: eq_Int_MIN_iff)
  qed
  then show ?thesis by (simp add: sint_c_div d div_from_sdiv)
qed

lemma idiv_exact:
  assumes "int_arg s x" and "int_arg t y" and "exact2 op_idiv x y"
  shows "returns E (p_div2 E s t) (x div y)"
  using assms(1)
proof (cases rule: int_arg_cases)
  case s: small
  from assms(2) show ?thesis
  proof (cases rule: int_arg_cases)
    case t: small
    let ?i = "IntegerOfTerm s" and ?j = "IntegerOfTerm t"
    have j: "?j \<noteq> 0" "sint ?j \<noteq> 0" using assms(3) t(3) by auto
    show ?thesis
    proof (cases "?i = Int_MIN \<and> ?j = - 1")
      case True
      then have "x div y = 2 ^ 63" using s(3) t(3) by auto
      with True s(1) t(1) show ?thesis
        using most_neg_by_minus_one by (simp add: p_div2_def)
    next
      case False
      then have "p_div2 E s t = RINT (c_div (?i - floored_mod ?i ?j) ?j)"
        using s(1) t(1) j(1) by (auto simp: p_div2_def Let_def)
      then show ?thesis
        using idiv_small [OF j(2) False] s(2,3) t(2,3) assms(3) by (simp add: RINT_returns)
    qed
  next
    case t: big
    have x: "x = 0 \<or> sgn x = sgn y" "\<bar>x\<bar> < \<bar>y\<bar>"
      using s(2) t(2) assms(3) by (auto simp: fits_Int_def sgn_if split: if_splits)
    then have "x div y = 0"
      by (auto simp: sgn_if div_eq_div_abs [of x] split: if_splits)
    then show ?thesis using s(1) by (simp add: t(1) p_div2_def gmp_defs zero_returns)
  qed
next
  case s: big
  from assms(2) show ?thesis
  proof (cases rule: int_arg_cases)
    case t: small
    let ?j = "IntegerOfTerm t"
    have y: "?j \<noteq> 0" "y \<noteq> 0" "0 < y \<or> y dvd x" using assms(3) s(2) t(2,3) by auto
    have "p_div2 E s t = box_int E (if 0 < y then x div y else - (x div - y))"
      using y(1) t(1,3) by (simp add: s(1) p_div2_def div2_big_int c_less_def)
    moreover have "(if 0 < y then x div y else - (x div - y)) = x div y"
      using y(2,3) by (auto simp: div_minus_right dvd_neg_div)
    ultimately show ?thesis by simp
  next
    case t: big
    then show ?thesis
      using assms(3) s(2) by (auto simp: s(1) p_div2_def div2_big_big)
  qed
qed

lemma mod_exact:
  assumes "int_arg s x" and "int_arg t y" and "exact2 op_mod x y"
  shows "returns E (p_mod E s t) (x mod y)"
  using assms(1)
proof (cases rule: int_arg_cases)
  case s: small
  from assms(2) show ?thesis
  proof (cases rule: int_arg_cases)
    case t: small
    let ?i = "IntegerOfTerm s" and ?j = "IntegerOfTerm t"
    have j: "?j \<noteq> 0" "sint ?j \<noteq> 0" using assms(3) t(3) by auto
    show ?thesis
    proof (cases "?i = Int_MIN \<and> ?j = - 1")
      case True
      then have "x mod y = 0" using s(3) t(3) by auto
      with True s(1) t(1) show ?thesis by (simp add: p_mod_def zero_returns)
    next
      case False
      then have "p_mod E s t = RINT (floored_mod ?i ?j)"
        using s(1) t(1) j(1) by (auto simp: p_mod_def)
      then show ?thesis
        using sint_floored_mod [OF j(2), of ?i] s(3) t(3) by (simp add: RINT_returns)
    qed
  next
    case t: big
    have "sint (IntegerOfTerm s) \<noteq> 0 \<or> y < 0"
      using assms(3) s(2,3) t(2) by auto
    with s t show ?thesis
      using mod_int_big [OF t(2), of "IntegerOfTerm s"] by (simp add: p_mod_def)
  qed
next
  case s: big
  from assms(2) show ?thesis
  proof (cases rule: int_arg_cases)
    case t: small
    have "IntegerOfTerm t \<noteq> 0" "sint (IntegerOfTerm t) \<noteq> 0" using assms(3) t(3) by auto
    with t(1,3) show ?thesis by (simp add: s(1) p_mod_def mod_rem_ops)
  next
    case t: big
    then show ?thesis using assms(3) by (auto simp: s(1) p_mod_def mod_rem_ops)
  qed
qed

lemma rem_exact:
  assumes "int_arg s x" and "int_arg t y" and "exact2 op_rem x y"
  shows "returns E (p_rem E s t) (x smod y)"
  using assms(1)
proof (cases rule: int_arg_cases)
  case s: small
  from assms(2) show ?thesis
  proof (cases rule: int_arg_cases)
    case t: small
    let ?i = "IntegerOfTerm s" and ?j = "IntegerOfTerm t"
    have j: "?j \<noteq> 0" using assms(3) t(3) by auto
    show ?thesis
    proof (cases "?i = Int_MIN \<and> ?j = - 1")
      case True
      then have "x smod y = 0" using s(3) t(3) by (auto simp: smod_int_alt_def)
      with True s(1) t(1) show ?thesis by (simp add: p_rem_def zero_returns)
    next
      case False
      then have "p_rem E s t = RINT (c_mod ?i ?j)"
        using s(1) t(1) j(1) by (auto simp: p_rem_def)
      then show ?thesis
        using sint_c_mod [of ?i ?j] s(3) t(3) by (simp add: RINT_returns)
    qed
  next
    case t: big
    have "sint (IntegerOfTerm s) \<noteq> - y"
      using assms(3) s(2,3) t(2) by auto
    with s t show ?thesis
      using rem_int_big [OF t(2), of "IntegerOfTerm s"] by (simp add: p_rem_def)
  qed
next
  case s: big
  from assms(2) show ?thesis
  proof (cases rule: int_arg_cases)
    case t: small
    have "IntegerOfTerm t \<noteq> 0" "sint (IntegerOfTerm t) \<noteq> 0" using assms(3) t(3) by auto
    with t(1,3) show ?thesis by (simp add: s(1) p_rem_def mod_rem_ops)
  next
    case t: big
    then show ?thesis using assms(3) by (auto simp: s(1) p_rem_def mod_rem_ops)
  qed
qed

lemma sint_minus_not_min: "\<not> (j = Int_MIN) \<Longrightarrow> sint (- j) = - sint (j :: cint)"
  using fits_sint [of j] unfolding eq_Int_MIN_iff
  by (intro sint_uminus_fits) (auto simp: fits_Int_def)

lemma sll_exact:
  assumes "int_arg s x" and "int_arg t y" and "exact2 op_sll x y"
  shows "returns E (p_sll E s t) (math2 op_sll x y)"
proof -
  from assms(2,3) have t: "ETypeOfTerm t = long_int_e" "sint (IntegerOfTerm t) = y"
    by (auto elim!: int_arg_cases)
  then have nmin: "IntegerOfTerm t \<noteq> Int_MIN" using assms(3) by (auto simp: eq_Int_MIN_iff)
  note neg = sint_minus_not_min [OF nmin]
  from assms(1) show ?thesis
  proof (cases rule: int_arg_cases)
    case s: small
    show ?thesis
    proof (cases "y \<le> 0")
      case True
      have "p_sll E s t = RINT (SLR (IntegerOfTerm s) (- IntegerOfTerm t))"
        using s(1) t True nmin by (simp add: p_sll_def c_le_def)
      moreover have "sint (SLR (IntegerOfTerm s) (- IntegerOfTerm t)) = x div 2 ^ nat (- y)"
        using True by (subst sint_SLR) (simp_all add: neg t(2) s(3))
      ultimately show ?thesis using True by (auto intro: RINT_returns)
    next
      case False
      with s t show ?thesis by (simp add: p_sll_def c_le_def do_sll_exact)
    qed
  next
    case s: big
    have "p_sll E s t = Yap_gmp_sll_big_int E (BigT x) (IntegerOfTerm t)"
      using t by (simp add: s(1) p_sll_def)
    with nmin t(2) show ?thesis
      using returns_arg [OF assms(1), of E]
      by (auto simp: sll_big_int c_less_def s(1))
  qed
qed

lemma slr_exact:
  assumes "int_arg s x" and "int_arg t y" and "exact2 op_slr x y"
  shows "returns E (p_slr E s t) (math2 op_slr x y)"
proof -
  from assms(2,3) have t: "ETypeOfTerm t = long_int_e" "sint (IntegerOfTerm t) = y"
    by (auto elim!: int_arg_cases)
  then have nmin: "IntegerOfTerm t \<noteq> Int_MIN" using assms(3) by (auto simp: eq_Int_MIN_iff)
  note neg = sint_minus_not_min [OF nmin]
  from assms(1) show ?thesis
  proof (cases rule: int_arg_cases)
    case s: small
    show ?thesis
    proof (cases "y < 0")
      case True
      with s t nmin show ?thesis
        using do_sll_exact [of "- IntegerOfTerm t" "IntegerOfTerm s"]
        by (simp add: p_slr_def c_less_def neg)
    next
      case False
      have "p_slr E s t = RINT (SLR (IntegerOfTerm s) (IntegerOfTerm t))"
        using s(1) t False by (simp add: p_slr_def c_less_def)
      moreover have "sint (SLR (IntegerOfTerm s) (IntegerOfTerm t)) = x div 2 ^ nat y"
        using False by (subst sint_SLR) (simp_all add: t(2) s(3))
      ultimately show ?thesis using False by (auto intro: RINT_returns)
    qed
  next
    case s: big
    have "- IntegerOfTerm t \<noteq> Int_MIN" using nmin neg t(2) assms(3)
      unfolding eq_Int_MIN_iff by (auto simp: fits_Int_def)
    moreover have "p_slr E s t = Yap_gmp_sll_big_int E (BigT x) (- IntegerOfTerm t)"
      using t by (simp add: s(1) p_slr_def)
    ultimately show ?thesis
      using returns_arg [OF assms(1), of E] neg t(2)
      by (auto simp: sll_big_int c_less_def s(1))
  qed
qed

lemma gcd_exact:
  assumes "int_arg s x" and "int_arg t y" and "exact2 op_gcd x y"
  shows "returns E (p_gcd E s t) (gcd x y)"
  using assms(1)
proof (cases rule: int_arg_cases)
  case s: small
  from assms(2) show ?thesis
  proof (cases rule: int_arg_cases)
    case t: small
    define a where "a = (if c_le 0 (IntegerOfTerm s) then IntegerOfTerm s else - IntegerOfTerm s)"
    define b where "b = (if c_le 0 (IntegerOfTerm t) then IntegerOfTerm t else - IntegerOfTerm t)"
    have "IntegerOfTerm s \<noteq> Int_MIN" "IntegerOfTerm t \<noteq> Int_MIN"
      using assms(3) s(2,3) t(2,3) unfolding eq_Int_MIN_iff by auto
    then have ab: "sint a = \<bar>x\<bar>" "sint b = \<bar>y\<bar>"
      using s(3) t(3) by (auto simp: a_def b_def c_le_def sint_minus_not_min)
    obtain g where g: "gcd_Int a b = (Inr g :: (yap_error \<times> 'f trm) + cint)"
      "sint g = gcd (sint a) (sint b)"
      by (rule gcd_Int_correct [of a b]) (simp_all add: ab)
    have "p_gcd E s t = bindE (gcd_Int a b) RINT"
      using s(1) t(1) by (simp add: p_gcd_def a_def b_def Let_def)
    then show ?thesis using g ab by (simp add: RINT_returns)
  next
    case t: big
    have "sint (IntegerOfTerm s) \<noteq> 0" "IntegerOfTerm s \<noteq> Int_MIN"
      using assms(3) s(2,3) t(2) unfolding eq_Int_MIN_iff by auto
    with s(1,3) show ?thesis by (simp add: t(1) p_gcd_def gcd_int_big)
  qed
next
  case s: big
  from assms(2) show ?thesis
  proof (cases rule: int_arg_cases)
    case t: small
    have "sint (IntegerOfTerm t) \<noteq> 0" "IntegerOfTerm t \<noteq> Int_MIN"
      using assms(3) t(2,3) s(2) unfolding eq_Int_MIN_iff by auto
    with t(1,3) show ?thesis by (simp add: s(1) p_gcd_def gcd_int_big gcd.commute)
  next
    case t: big
    then show ?thesis by (simp add: s(1) p_gcd_def gcd_big_big)
  qed
qed

lemma min_max_exact:
  assumes "int_arg s x" and "int_arg t y"
  shows "returns E (p_min E s t) (min x y)" and "returns E (p_max E s t) (max x y)"
proof -
  have sg: "(c :: int) < 0 \<longleftrightarrow> sgn c = - 1" "c > 0 \<longleftrightarrow> sgn c = 1" for c
    by (simp_all add: sgn_if)
  note rules = p_min_def p_max_def c_less_def sg cmp_int_big [OF big_num_BigT]
    cmp_big_int [OF big_num_BigT] cmp_big_big
  have ret: "returns E (Inr s) x" "returns E (Inr t) y"
    using assms by (simp_all add: returns_arg)
  from assms(1) show "returns E (p_min E s t) (min x y)"
  proof (cases rule: int_arg_cases)
    case s: small
    from assms(2) show ?thesis
      by (cases rule: int_arg_cases) (use s ret in \<open>auto simp: rules min_def split: if_splits\<close>)
  next
    case s: big
    from assms(2) show ?thesis
      by (cases rule: int_arg_cases) (use s ret in \<open>auto simp: rules min_def sgn_diff split: if_splits\<close>)
  qed
  from assms(1) show "returns E (p_max E s t) (max x y)"
  proof (cases rule: int_arg_cases)
    case s: small
    from assms(2) show ?thesis
      by (cases rule: int_arg_cases) (use s ret in \<open>auto simp: rules max_def split: if_splits\<close>)
  next
    case s: big
    from assms(2) show ?thesis
      by (cases rule: int_arg_cases) (use s ret in \<open>auto simp: rules max_def sgn_diff split: if_splits\<close>)
  qed
qed

lemma power_exact:
  assumes "int_arg s x" and "int_arg t y" and "exact2 op_power x y" and "no_ffsll E"
  shows "returns E (p_exp E s t) (x ^ nat y)"
proof -
  have y: "0 \<le> y" "y < 2 ^ 57" using assms(3) by simp_all
  from assms(2) y have t: "ETypeOfTerm t = long_int_e" "sint (IntegerOfTerm t) = y"
    by (auto elim!: int_arg_cases simp: fits_Int_def)
  let ?p = "IntegerOfTerm t"
  have unat: "unat ?p = nat y"
    using y(1) t(2) by (simp add: unat_eq_nat_uint uint_eq_sint)
  from assms(1) show ?thesis
  proof (cases rule: int_arg_cases)
    case s: small
    let ?x = "IntegerOfTerm s"
    have unfold: "p_exp E s t = bindE (ipow E ?x ?p)
        (\<lambda>pow. if ?x \<noteq> 0 \<and> pow = 0 then Yap_gmp_exp_int_int E ?x ?p else RINT pow)"
      using s(1) t y by (simp add: p_exp_def c_less_def Let_def)
    show ?thesis
    proof (cases "y = 0 \<or> x = 0")
      case True
      then have "ipow E ?x ?p = (Inr (if y = 0 then 1 else 0) :: (yap_error \<times> 'f trm) + cint)"
        using t(2) s(3) y by (auto simp: ipow_def c_less_def eq_zero_iff_sint)
      with True s(3) t(2) y(1) show ?thesis
        by (auto simp: unfold eq_zero_iff_sint nat_eq_iff intro!: RINT_returns)
    next
      case False
      then have x: "?x \<noteq> 0" "?x \<noteq> Int_MIN" "fits_Int (x ^ nat y) \<or> power_flagged x y"
        using assms(3) s(2,3) unfolding eq_Int_MIN_iff by auto
      have ip: "ipow E ?x ?p = (Inr (if power_flagged x y then 0 else ?x ^ nat y)
          :: (yap_error \<times> 'f trm) + cint)"
        using ipow_correct [of ?p ?x E] False y t(2) s(3) x assms(4) by (simp add: unat)
      have gmp: "Yap_gmp_exp_int_int E ?x ?p = box_int E (x ^ nat y)"
        by (simp add: exp_int_int s(3) unat)
      show ?thesis
      proof (cases "power_flagged x y")
        case True
        with x(1) ip gmp show ?thesis by (simp add: unfold)
      next
        case nf: False
        then have v: "sint (?x ^ nat y) = x ^ nat y"
          using x(3) s(3) word_power_exact [of ?x "nat y"] by simp
        then have "?x ^ nat y \<noteq> 0"
          using False s(3) by (auto simp: eq_zero_iff_sint)
        with nf ip v show ?thesis by (simp add: unfold RINT_returns)
      qed
    qed
  next
    case s: big
    show ?thesis
    proof (cases "y = 0")
      case True
      with t have "p_exp E s t = Inr (mkInt 1)"
        by (auto simp: s(1) p_exp_def Yap_gmp_exp_big_int_def c_less_def eq_zero_iff_sint)
      with True show ?thesis by (simp add: mkInt_returns)
    next
      case False
      with y t have "p_exp E s t = box_int E (x ^ nat y)"
        by (simp add: s(1) p_exp_def exp_big_int c_less_def)
      then show ?thesis by simp
    qed
  qed
qed

text \<open>All operators together.\<close>

lemma eval2_returns:
  assumes "int_arg s x" and "int_arg t y" and "exact2 f x y" and "f = op_power \<Longrightarrow> no_ffsll E"
  shows "returns E (eval2 E f s t) (math2 f x y)"
  using assms(3)
  by (cases f)
    (use assms ring_exact [OF assms(1,2)] bitwise_exact [OF assms(1,2)] in
      \<open>simp_all add: div_exact idiv_exact mod_exact rem_exact sll_exact [simplified]
        slr_exact [simplified] gcd_exact power_exact min_max_exact\<close>)

end

end
