(* ===== verification/YapArith1.thy ===== *)
theory YapArith1
  imports YapArith2Correct
begin

text \<open>
  Unary and constant arithmetic: the evaluable functors of one argument of C/arith1.c, the
  evaluable atoms of C/arith0.c and their tables of names. \<open>eval1\<close> is one C function; its
  cases are grouped here as the source groups them.
\<close>

section \<open>Conversions\<close>

definition float_to_int :: "'f env \<Rightarrow> 'f \<Rightarrow> 'f res" where [arith_defs]:
  "float_to_int E v = (let i = f_to_Int E v in
    if f_eq E (f_sub E (f_of_Int E i) v) (f_of_Int E 0) then RINT i
    else Yap_gmp_float_to_big E v)"

definition get_float :: "'f env \<Rightarrow> 'f trm \<Rightarrow> 'f" where [arith_defs]:
  "get_float E t =
    (if IsFloatTerm t then FloatOfTerm t
     else if IsInt_trm t then f_of_Int E (IntegerOfTerm t)
     else if IsLongIntTerm t then f_of_Int E (IntegerOfTerm t)
     else if IsBigIntTerm t then Yap_gmp_to_float E t
     else f_of_Int E 0)"

section \<open>The operators\<close>

datatype arith1_op = op_uplus | op_uminus | op_unot | op_exp | op_log | op_log10 | op_sqrt
  | op_sin | op_cos | op_tan | op_sinh | op_cosh | op_tanh | op_asin | op_acos | op_atan
  | op_asinh | op_acosh | op_atanh | op_floor | op_ceiling | op_round | op_truncate | op_integer
  | op_float | op_abs | op_lsb | op_msb | op_popcount | op_ffracp | op_fintp | op_sign
  | op_lgamma | op_erf | op_erfc | op_rational | op_rationalize | op_random1

definition eval1_uminus :: "'f env \<Rightarrow> 'f trm \<Rightarrow> 'f res" where [arith_defs]:
  "eval1_uminus E t = (case ETypeOfTerm t of
      long_int_e \<Rightarrow> (let i = IntegerOfTerm t in
        if i = Int_MIN then Yap_gmp_neg_int E i else RINT (- IntegerOfTerm t))
    | double_e \<Rightarrow> RFLOAT (f_neg E (FloatOfTerm t))
    | big_int_e \<Rightarrow> Yap_gmp_neg_big E t
    | _ \<Rightarrow> RERROR)"

definition eval1_unot :: "'f env \<Rightarrow> 'f trm \<Rightarrow> 'f res" where [arith_defs]:
  "eval1_unot E t = (case ETypeOfTerm t of
      long_int_e \<Rightarrow> RINT (NOT (IntegerOfTerm t))
    | double_e \<Rightarrow> ArithError TYPE_ERROR_INTEGER t
    | big_int_e \<Rightarrow> Yap_gmp_unot_big E t
    | _ \<Rightarrow> RERROR)"

text \<open>
  The functions of libm. Logarithms check their argument, the square root and the inverse
  functions check their result for \<open>NaN\<close>.
\<close>

definition libm_plain :: "'f env \<Rightarrow> libm \<Rightarrow> 'f trm \<Rightarrow> 'f res" where [arith_defs]:
  "libm_plain E g t = RFLOAT (f_libm E g (get_float E t))"

definition libm_log :: "'f env \<Rightarrow> libm \<Rightarrow> 'f trm \<Rightarrow> 'f res" where [arith_defs]:
  "libm_log E g t = (let dbl = get_float E t in
    if f_le E (f_of_Int E 0) dbl then RFLOAT (f_libm E g dbl)
    else ArithError EVALUATION_ERROR_UNDEFINED t)"

definition libm_checked :: "'f env \<Rightarrow> libm \<Rightarrow> yap_error \<Rightarrow> 'f trm \<Rightarrow> 'f res" where [arith_defs]:
  "libm_checked E g err t = (let dbl = get_float E t; out = f_libm E g dbl in
    if f_isnan E out then ArithError err t else RFLOAT out)"

text \<open>
  Rounding to an integer: integers and bignums first, then the checks on the double, then the
  conversion of \<open>floor\<close>, \<open>ceil\<close> or \<open>rint\<close> of it.
\<close>

definition eval1_to_int ::
  "'f env \<Rightarrow> ('f trm \<Rightarrow> 'f res) \<Rightarrow> ('f \<Rightarrow> libm) \<Rightarrow> 'f trm \<Rightarrow> 'f res" where [arith_defs]:
  "eval1_to_int E big g t = (case ETypeOfTerm t of
      long_int_e \<Rightarrow> Inr t
    | double_e \<Rightarrow> (let dbl = FloatOfTerm t in
        if f_isnan E dbl then ArithError DOMAIN_ERROR_OUT_OF_RANGE t
        else if f_isinf E dbl then ArithError EVALUATION_ERROR_INT_OVERFLOW (FltT dbl)
        else float_to_int E (f_libm E (g dbl) dbl))
    | big_int_e \<Rightarrow> big t
    | _ \<Rightarrow> RERROR)"

definition eval1_truncate :: "'f env \<Rightarrow> 'f trm \<Rightarrow> 'f res" where [arith_defs]:
  "eval1_truncate E t = eval1_to_int E (Yap_gmp_trunc E)
    (\<lambda>dbl. if f_less E dbl (f_of_Int E 0) then L_ceil else L_floor) t"

definition eval1_float :: "'f env \<Rightarrow> 'f trm \<Rightarrow> 'f res" where [arith_defs]:
  "eval1_float E t = (case ETypeOfTerm t of
      long_int_e \<Rightarrow> RFLOAT (f_of_Int E (IntegerOfTerm t))
    | double_e \<Rightarrow> Inr t
    | big_int_e \<Rightarrow> RFLOAT (Yap_gmp_to_float E t)
    | _ \<Rightarrow> RERROR)"

definition eval1_rational :: "'f env \<Rightarrow> 'f trm \<Rightarrow> 'f res" where [arith_defs]:
  "eval1_rational E t = (case ETypeOfTerm t of
      long_int_e \<Rightarrow> Inr t
    | double_e \<Rightarrow> Yap_gmp_float_to_rational E (FloatOfTerm t)
    | big_int_e \<Rightarrow> Inr t
    | _ \<Rightarrow> RERROR)"

definition eval1_rationalize :: "'f env \<Rightarrow> 'f trm \<Rightarrow> 'f res" where [arith_defs]:
  "eval1_rationalize E t = (case ETypeOfTerm t of
      long_int_e \<Rightarrow> Inr t
    | double_e \<Rightarrow> (case Yap_gmp_float_rationalize E (FloatOfTerm t) of
        Some r \<Rightarrow> r | None \<Rightarrow> ArithError NO_RETURN t)
    | big_int_e \<Rightarrow> Inr t
    | _ \<Rightarrow> RERROR)"

text \<open>\<open>labs\<close> of the most negative \<open>Int\<close> wraps around to itself.\<close>

definition c_labs :: "cint \<Rightarrow> cint" where [arith_defs]:
  "c_labs i = (if c_less i 0 then - i else i)"

definition eval1_abs :: "'f env \<Rightarrow> 'f trm \<Rightarrow> 'f res" where [arith_defs]:
  "eval1_abs E t = (case ETypeOfTerm t of
      long_int_e \<Rightarrow> RINT (c_labs (IntegerOfTerm t))
    | double_e \<Rightarrow> RFLOAT (f_libm E L_fabs (FloatOfTerm t))
    | big_int_e \<Rightarrow> Yap_gmp_abs_big E t
    | _ \<Rightarrow> RERROR)"

definition eval1_bits ::
  "'f env \<Rightarrow> (cint \<Rightarrow> (yap_error \<times> 'f trm) + cint) \<Rightarrow> ('f trm \<Rightarrow> 'f res) \<Rightarrow> 'f trm \<Rightarrow> 'f res"
  where [arith_defs]:
  "eval1_bits E f big t = (case ETypeOfTerm t of
      long_int_e \<Rightarrow> bindE (f (IntegerOfTerm t)) RINT
    | double_e \<Rightarrow> ArithError TYPE_ERROR_INTEGER t
    | big_int_e \<Rightarrow> big t
    | _ \<Rightarrow> RERROR)"

definition eval1_ffracp :: "'f env \<Rightarrow> 'f trm \<Rightarrow> 'f res" where [arith_defs]:
  "eval1_ffracp E t = (case ETypeOfTerm t of
      long_int_e \<Rightarrow> (if isoLanguageFlag E then ArithError TYPE_ERROR_FLOAT t
        else RFLOAT (f_of_Int E 0))
    | double_e \<Rightarrow> (let dbl = FloatOfTerm t in RFLOAT (f_sub E dbl (f_libm E L_ceil dbl)))
    | big_int_e \<Rightarrow> Yap_gmp_float_fractional_part E t
    | _ \<Rightarrow> RERROR)"

definition eval1_fintp :: "'f env \<Rightarrow> 'f trm \<Rightarrow> 'f res" where [arith_defs]:
  "eval1_fintp E t = (case ETypeOfTerm t of
      long_int_e \<Rightarrow> ArithError TYPE_ERROR_FLOAT t
    | double_e \<Rightarrow> RFLOAT (f_libm E L_rint (FloatOfTerm t))
    | big_int_e \<Rightarrow> Yap_gmp_float_integer_part E t
    | _ \<Rightarrow> RERROR)"

definition eval1_sign :: "'f env \<Rightarrow> 'f trm \<Rightarrow> 'f res" where [arith_defs]:
  "eval1_sign E t = (case ETypeOfTerm t of
      long_int_e \<Rightarrow> (let x = IntegerOfTerm t in
        RINT (if c_less 0 x then 1 else if c_less x 0 then - 1 else 0))
    | double_e \<Rightarrow> (let dbl = FloatOfTerm t; z = f_of_Int E 0 in
        RINT (if f_less E z dbl then 1 else if f_less E dbl z then - 1 else 0))
    | big_int_e \<Rightarrow> Yap_gmp_sign E t
    | _ \<Rightarrow> RERROR)"

definition eval1_random1 :: "'f env \<Rightarrow> 'f trm \<Rightarrow> 'f res" where [arith_defs]:
  "eval1_random1 E t = (case ETypeOfTerm t of
      long_int_e \<Rightarrow> RINT (f_to_Int E (f_mul E (Yap_random E) (f_of_Int E (IntegerOfTerm t))))
    | double_e \<Rightarrow> ArithError TYPE_ERROR_INTEGER t
    | big_int_e \<Rightarrow> Yap_gmp_mul_float_big E (Yap_random E) t
    | _ \<Rightarrow> RERROR)"

fun eval1 :: "'f env \<Rightarrow> arith1_op \<Rightarrow> 'f trm \<Rightarrow> 'f res" where
  "eval1 E op_uplus t = Inr t"
| "eval1 E op_uminus t = eval1_uminus E t"
| "eval1 E op_unot t = eval1_unot E t"
| "eval1 E op_exp t = libm_plain E L_exp t"
| "eval1 E op_log t = libm_log E L_log t"
| "eval1 E op_log10 t = libm_log E L_log10 t"
| "eval1 E op_sqrt t = libm_checked E L_sqrt EVALUATION_ERROR_UNDEFINED t"
| "eval1 E op_sin t = libm_plain E L_sin t"
| "eval1 E op_cos t = libm_plain E L_cos t"
| "eval1 E op_tan t = libm_plain E L_tan t"
| "eval1 E op_sinh t = libm_plain E L_sinh t"
| "eval1 E op_cosh t = libm_plain E L_cosh t"
| "eval1 E op_tanh t = libm_plain E L_tanh t"
| "eval1 E op_asin t = libm_checked E L_asin EVALUATION_ERROR_UNDEFINED t"
| "eval1 E op_acos t = libm_checked E L_acos EVALUATION_ERROR_UNDEFINED t"
| "eval1 E op_atan t = libm_checked E L_atan DOMAIN_ERROR_OUT_OF_RANGE t"
| "eval1 E op_asinh t = libm_checked E L_asinh DOMAIN_ERROR_OUT_OF_RANGE t"
| "eval1 E op_acosh t = libm_checked E L_acosh DOMAIN_ERROR_OUT_OF_RANGE t"
| "eval1 E op_atanh t = libm_checked E L_atanh DOMAIN_ERROR_OUT_OF_RANGE t"
| "eval1 E op_lgamma t = libm_plain E L_lgamma t"
| "eval1 E op_erf t = libm_plain E L_erf t"
| "eval1 E op_erfc t = libm_plain E L_erfc t"
| "eval1 E op_floor t = eval1_to_int E (Yap_gmp_floor E) (\<lambda>d. L_floor) t"
| "eval1 E op_ceiling t = eval1_to_int E (Yap_gmp_ceiling E) (\<lambda>d. L_ceil) t"
| "eval1 E op_round t = eval1_to_int E (Yap_gmp_round E) (\<lambda>d. L_rint) t"
| "eval1 E op_truncate t = eval1_truncate E t"
| "eval1 E op_integer t = eval1_truncate E t"
| "eval1 E op_float t = eval1_float E t"
| "eval1 E op_rational t = eval1_rational E t"
| "eval1 E op_rationalize t = eval1_rationalize E t"
| "eval1 E op_abs t = eval1_abs E t"
| "eval1 E op_msb t = eval1_bits E (Yap_msb E) (Yap_gmp_msb E) t"
| "eval1 E op_lsb t = eval1_bits E lsb (Yap_gmp_lsb E) t"
| "eval1 E op_popcount t = eval1_bits E popcount (Yap_gmp_popcount E) t"
| "eval1 E op_ffracp t = eval1_ffracp E t"
| "eval1 E op_fintp t = eval1_fintp E t"
| "eval1 E op_sign t = eval1_sign E t"
| "eval1 E op_random1 t = eval1_random1 E t"

definition Yap_eval_unary :: "'f env \<Rightarrow> arith1_op \<Rightarrow> 'f trm \<Rightarrow> 'f res" where
  "Yap_eval_unary E f t = eval1 E f t"

definition InitUnTab :: "(string \<times> arith1_op) list" where
  "InitUnTab =
    [(''+'', op_uplus), (''-'', op_uminus), ([CHR 0x5C], op_unot), (''exp'', op_exp),
     (''log'', op_log), (''log10'', op_log10), (''sqrt'', op_sqrt), (''sin'', op_sin),
     (''cos'', op_cos), (''tan'', op_tan), (''sinh'', op_sinh), (''cosh'', op_cosh),
     (''tanh'', op_tanh), (''asin'', op_asin), (''acos'', op_acos), (''atan'', op_atan),
     (''asinh'', op_asinh), (''acosh'', op_acosh), (''atanh'', op_atanh), (''floor'', op_floor),
     (''ceiling'', op_ceiling), (''round'', op_round), (''truncate'', op_truncate),
     (''integer'', op_integer), (''float'', op_float), (''abs'', op_abs), (''msb'', op_msb),
     (''lsb'', op_lsb), (''popcount'', op_popcount), (''float_fractional_part'', op_ffracp),
     (''float_integer_part'', op_fintp), (''sign'', op_sign), (''lgamma'', op_lgamma),
     (''erf'', op_erf), (''erfc'', op_erfc), (''rational'', op_rational),
     (''rationalize'', op_rationalize), (''random'', op_random1)]"

section \<open>Evaluable atoms\<close>

datatype arith0_op = op_pi | op_e | op_epsilon | op_inf | op_nan | op_random | op_cputime
  | op_heapused | op_localsp | op_globalsp | op_env | op_tr | op_stackfree

text \<open>
  The constants that read the state of the machine (time and stack sizes) are the values of
  \<open>Yap_stat\<close>.
\<close>

fun eval0 :: "'f env \<Rightarrow> arith0_op \<Rightarrow> 'f res" where
  "eval0 E op_pi = RFLOAT (f_pi E)"
| "eval0 E op_e = RFLOAT (f_e E)"
| "eval0 E op_epsilon = RFLOAT (f_epsilon E)"
| "eval0 E op_inf = (if isoLanguageFlag E then ArithError TYPE_ERROR_EVALUABLE TermNil
    else RFLOAT (f_inf E))"
| "eval0 E op_nan = (if isoLanguageFlag E then ArithError TYPE_ERROR_EVALUABLE TermNil
    else RFLOAT (f_nan E))"
| "eval0 E op_random = RFLOAT (Yap_random E)"
| "eval0 E op_cputime = RFLOAT (f_div E (f_of_Int E (Yap_stat E ''cputime'')) (f_of_Int E 1000))"
| "eval0 E op_heapused = RINT (Yap_stat E ''heapused'')"
| "eval0 E op_localsp = RINT (Yap_stat E ''local_sp'')"
| "eval0 E op_env = RINT (Yap_stat E ''$env'')"
| "eval0 E op_tr = RINT (Yap_stat E ''$tr'')"
| "eval0 E op_stackfree = RINT (Yap_stat E ''stackfree'')"
| "eval0 E op_globalsp = RINT (Yap_stat E ''global_sp'')"

definition Yap_eval_atom :: "'f env \<Rightarrow> arith0_op \<Rightarrow> 'f res" where
  "Yap_eval_atom E f = eval0 E f"

definition InitConstTab :: "(string \<times> arith0_op) list" where
  "InitConstTab =
    [(''pi'', op_pi), (''e'', op_e), (''epsilon'', op_epsilon), (''inf'', op_inf),
     (''nan'', op_nan), (''random'', op_random), (''cputime'', op_cputime),
     (''heapused'', op_heapused), (''local_sp'', op_localsp), (''global_sp'', op_globalsp),
     (''$env'', op_env), (''$tr'', op_tr), (''stackfree'', op_stackfree)]"

section \<open>The integer operators as mathematical functions\<close>

fun math1 :: "arith1_op \<Rightarrow> int \<Rightarrow> int" where
  "math1 op_uplus x = x"
| "math1 op_uminus x = - x"
| "math1 op_unot x = - x - 1"
| "math1 op_abs x = \<bar>x\<bar>"
| "math1 op_sign x = sgn x"
| "math1 op_msb x = int (bit_len (nat x)) - 1"
| "math1 op_lsb x = int (low_bit (nat x))"
| "math1 op_popcount x = int (bit_count (nat x))"
| "math1 _ x = x"

text \<open>
  The domain on which the code computes them. The most significant bit of a bignum and the
  absolute value of the most negative \<open>Int\<close> are left out: there the code gives another number.
\<close>

fun exact1 :: "arith1_op \<Rightarrow> int \<Rightarrow> bool" where
  "exact1 op_uplus x = True"
| "exact1 op_uminus x = True"
| "exact1 op_unot x = True"
| "exact1 op_abs x = (x \<noteq> - (2 ^ 63))"
| "exact1 op_sign x = True"
| "exact1 op_msb x = (0 < x \<and> fits_Int x)"
| "exact1 op_lsb x = (0 < x \<and> fits_Int x)"
| "exact1 op_popcount x = (0 \<le> x \<and> fits_Int x)"
| "exact1 op_floor x = True"
| "exact1 op_ceiling x = True"
| "exact1 op_round x = True"
| "exact1 op_truncate x = True"
| "exact1 op_integer x = True"
| "exact1 op_rational x = True"
| "exact1 op_rationalize x = True"
| "exact1 _ x = False"

lemma low_bit_unique:
  assumes "bit n b" and "\<forall>i < b. \<not> bit n i"
  shows "low_bit n = b"
proof -
  have "n \<noteq> 0" using assms(1) by (metis bit_0_eq bot_apply bot_bool_def)
  with low_bit_spec [of n] assms show ?thesis
    by (metis linorder_neqE_nat)
qed

context gmp
begin

lemma uminus_exact:
  assumes "int_arg t x"
  shows "returns E (eval1_uminus E t) (- x)"
  using assms
proof (cases rule: int_arg_cases)
  case small
  show ?thesis
  proof (cases "IntegerOfTerm t = Int_MIN")
    case True
    then have "x = - (2 ^ 63)" using small(3) by simp
    with True small show ?thesis by (simp add: eval1_uminus_def neg_int)
  next
    case False
    with small sint_minus_not_min [OF False] show ?thesis
      by (simp add: eval1_uminus_def RINT_returns)
  qed
next
  case big
  then show ?thesis by (simp add: eval1_uminus_def gmp_defs gmp_laws MkBigAndClose)
qed

lemma unot_exact:
  assumes "int_arg t x"
  shows "returns E (eval1_unot E t) (- x - 1)"
  using assms
proof (cases rule: int_arg_cases)
  case small
  have "fits_Int (sint (- 1 :: cint) - sint (IntegerOfTerm t))"
    using fits_sint [of "IntegerOfTerm t"] by (auto simp: fits_Int_def)
  moreover have "NOT (IntegerOfTerm t) = - 1 - IntegerOfTerm t"
    by (simp add: not_eq_complement minus_diff_commute)
  ultimately have "sint (NOT (IntegerOfTerm t)) = - x - 1"
    using small(3) by (simp add: sint_diff_fits)
  with small show ?thesis by (simp add: eval1_unot_def RINT_returns)
next
  case big
  then show ?thesis by (simp add: eval1_unot_def unot_big not_int_def)
qed

lemma abs_exact:
  assumes "int_arg t x" and "x \<noteq> - (2 ^ 63)"
  shows "returns E (eval1_abs E t) \<bar>x\<bar>"
  using assms(1)
proof (cases rule: int_arg_cases)
  case small
  then have "IntegerOfTerm t \<noteq> Int_MIN" using assms(2) by (auto simp: eq_Int_MIN_iff)
  from sint_minus_not_min [OF this] small show ?thesis
    by (auto simp: eval1_abs_def c_labs_def c_less_def intro!: RINT_returns)
next
  case big
  then show ?thesis by (simp add: eval1_abs_def gmp_defs gmp_laws MkBigAndClose)
qed

lemma sign_exact:
  assumes "int_arg t x"
  shows "returns E (eval1_sign E t) (sgn x)"
  using assms
proof (cases rule: int_arg_cases)
  case small
  then show ?thesis
    by (auto simp: eval1_sign_def c_less_def Let_def sgn_if intro!: RINT_returns)
next
  case big
  then show ?thesis
    by (auto simp: eval1_sign_def gmp_defs gmp_laws sgn_if intro!: RINT_returns)
qed

lemma sint_count: "n \<le> 64 \<Longrightarrow> sint (of_nat n :: cint) = int n"
  using sint_of_int_fits [of "int n"] by (simp add: fits_Int_def)

lemma msb_exact:
  assumes "int_arg t x" and "0 < x" and "fits_Int x" and "no_ffsll E"
  shows "returns E (eval1 E op_msb t) (math1 op_msb x)"
proof -
  from assms(1,3) have t: "ETypeOfTerm t = long_int_e" "sint (IntegerOfTerm t) = x"
    by (auto elim: int_arg_cases)
  let ?i = "IntegerOfTerm t"
  have pos: "0 < sint ?i" using t assms(2) by simp
  have un: "unat ?i = nat x" using pos t(2) by (simp add: unat_eq_nat_uint uint_eq_sint)
  obtain m where m: "Yap_msb E ?i = (Inr m :: (yap_error \<times> 'f trm) + cint)" "unat m < 63"
    "2 ^ unat m \<le> unat ?i" "unat ?i < 2 ^ (unat m + 1)"
    by (rule msb_correct [OF assms(4) pos])
  have "bit_len (nat x) = unat m + 1" using bit_len_unique [OF m(3,4)] by (simp add: un)
  moreover have "sint m = int (unat m)" using sint_count [of "unat m"] m(2) by simp
  ultimately show ?thesis using t m(1) by (simp add: eval1_bits_def RINT_returns)
qed

lemma lsb_exact:
  assumes "int_arg t x" and "0 < x" and "fits_Int x"
  shows "returns E (eval1 E op_lsb t) (math1 op_lsb x)"
proof -
  from assms(1,3) have t: "ETypeOfTerm t = long_int_e" "sint (IntegerOfTerm t) = x"
    by (auto elim: int_arg_cases)
  let ?i = "IntegerOfTerm t"
  have pos: "0 < sint ?i" using t assms(2) by simp
  have un: "unat ?i = nat x" using pos t(2) by (simp add: unat_eq_nat_uint uint_eq_sint)
  obtain l where l: "lsb ?i = (Inr l :: (yap_error \<times> 'f trm) + cint)" "lowest ?i (unat l)"
    by (rule lsb_correct [OF pos])
  have "low_bit (nat x) = unat l"
    using l(2) un [symmetric] by (intro low_bit_unique) (auto simp: lowest_def bit_unsigned_iff)
  moreover have "unat l < 64" using l(2) bit_lt64 by (auto simp: lowest_def)
  then have "sint l = int (unat l)" using sint_count [of "unat l"] by simp
  ultimately show ?thesis using t l(1) by (simp add: eval1_bits_def RINT_returns)
qed

lemma popcount_exact:
  assumes "int_arg t x" and "0 \<le> x" and "fits_Int x"
  shows "returns E (eval1 E op_popcount t) (math1 op_popcount x)"
proof -
  from assms(1,3) have t: "ETypeOfTerm t = long_int_e" "sint (IntegerOfTerm t) = x"
    by (auto elim: int_arg_cases)
  let ?i = "IntegerOfTerm t"
  have nonneg: "0 \<le> sint ?i" using t assms(2) by simp
  have un: "unat ?i = nat x" using nonneg t(2) by (simp add: unat_eq_nat_uint uint_eq_sint)
  have "bit_count (nat x) = card {b. bit ?i b}"
    by (simp add: bit_count_spec un [symmetric] bit_unsigned_iff)
  moreover have "card {b. bit ?i b} \<le> card {..<64 :: nat}"
    by (rule card_mono) (auto dest: bit_lt64)
  ultimately show ?thesis
    using t popcount_correct [OF nonneg, where 'a = 'f]
    by (simp add: eval1_bits_def RINT_returns sint_count)
qed

lemma identity_exact:
  assumes "int_arg t x" and "f \<in> {op_floor, op_ceiling, op_round, op_truncate, op_integer,
    op_rational, op_rationalize}"
  shows "returns E (eval1 E f t) x"
  using assms(1)
proof (cases rule: int_arg_cases)
  case small
  then show ?thesis
    using assms(2) returns_arg [OF assms(1), of E]
    by (auto simp: eval1_to_int_def eval1_truncate_def eval1_rational_def eval1_rationalize_def)
next
  case big
  have "returns E (Inr (BigT x)) x" using returns_arg [OF assms(1), of E] by (simp only: big(1))
  then show ?thesis
    using assms(2) unfolding big(1)
    by (auto simp: eval1_to_int_def eval1_truncate_def eval1_rational_def eval1_rationalize_def)
qed

lemma eval1_returns:
  assumes "int_arg t x" and "exact1 f x" and "f = op_msb \<Longrightarrow> no_ffsll E"
  shows "returns E (eval1 E f t) (math1 f x)"
proof (cases "f \<in> {op_msb, op_lsb, op_popcount}")
  case True
  then show ?thesis
    using assms msb_exact [OF assms(1)] lsb_exact [OF assms(1)] popcount_exact [OF assms(1)]
    by (auto simp del: eval1.simps math1.simps)
next
  case False
  then show ?thesis
    using assms(2) identity_exact [OF assms(1), of f]
    by (cases f)
      (simp_all add: returns_arg [OF assms(1)] uminus_exact [OF assms(1)] unot_exact [OF assms(1)]
        abs_exact [OF assms(1)] sign_exact [OF assms(1)])
qed

end

end
