(* ===== verification/YapEval.thy ===== *)
theory YapEval
  imports YapArith1
begin

text \<open>
  The evaluator of arithmetic expressions, \<open>Eval\<close> of C/eval.c: numbers evaluate to themselves,
  evaluable atoms and functors are looked up by name and arity in the tables of the other
  arithmetic files, a list of one element stands for that element, and \<open>A^[I,J]\<close> reads an
  element of a matrix term. Terms are finite trees here, so the mark the code leaves in the
  functor cell while it evaluates the arguments (to catch cyclic terms) is never met again.
\<close>

section \<open>Lookup of evaluable functors\<close>

datatype exp_op = Op1 arith1_op | Op2 arith2_op

definition Yap_GetExpProp :: "string \<Rightarrow> nat \<Rightarrow> exp_op option" where
  "Yap_GetExpProp name n =
    (if n = 1 then map_option Op1 (map_of InitUnTab name)
     else if n = 2 then map_option Op2 (map_of InitBinTab name)
     else None)"

fun takeIndicator :: "'f trm \<Rightarrow> 'f trm" where
  "takeIndicator (AtmT a) = ApplT ''/'' [AtmT a, mkInt 0]"
| "takeIndicator (PairT h t) = ApplT ''/'' [TermNil, mkInt 2]"
| "takeIndicator (ApplT f args) = ApplT ''/'' [AtmT f, MkIntegerTerm (of_nat (length args))]"
| "takeIndicator t = undefined"

text \<open>The byte of a string read as a C \<open>char\<close>, which is signed.\<close>

definition char_Int :: "char \<Rightarrow> cint" where
  "char_Int c = scast (of_char c :: 8 word)"

section \<open>Matrix terms\<close>

text \<open>The number of elements of a nested \<open>[]\<close> term.\<close>

fun matrix_length :: "'f trm \<Rightarrow> cint \<Rightarrow> (yap_error \<times> 'f trm) + cint" where
  "matrix_length (ApplT f args) sz =
    (if f \<noteq> ''[]'' then Inr sz
     else case args of
       [] \<Rightarrow> ArithError UNDEFINED_BEHAVIOUR (ApplT f args)
     | a # as \<Rightarrow> matrix_length a (sz * of_nat (length args)))"
| "matrix_length t sz = (if IsAppl_trm t then ArithError UNDEFINED_BEHAVIOUR t else Inr sz)"

text \<open>
  The argument an index selects. The code checks the index against the arity from above only;
  an index of zero or less reads cells before the arguments, and a boxed term has no arity.
\<close>

definition select_arg :: "'f trm \<Rightarrow> cint \<Rightarrow> 'f res" where
  "select_arg t indx =
    (if \<not> IsAppl_trm t then ArithError TYPE_ERROR_EVALUABLE t
     else case t of
       ApplT f args \<Rightarrow>
         if int (length args) < sint indx then ArithError TYPE_ERROR_EVALUABLE t
         else if sint indx < 1 then ArithError UNDEFINED_BEHAVIOUR t
         else Inr (args ! (nat (sint indx) - 1))
     | _ \<Rightarrow> ArithError UNDEFINED_BEHAVIOUR t)"

lemma select_arg_size:
  assumes "select_arg t i = Inr a"
  shows "size a < size t"
proof -
  from assms obtain f args where t: "t = ApplT f args" and "nat (sint i) - 1 < length args"
    and a: "a = args ! (nat (sint i) - 1)"
    by (auto simp: select_arg_def ArithError_def split: if_splits trm.splits)
  then have "a \<in> set args" by simp
  then show ?thesis using size_list_estimation' [of a args "size a" size] t by simp
qed

section \<open>The evaluator\<close>

function (sequential) Eval :: "'f env \<Rightarrow> 'f trm \<Rightarrow> 'f res"
  and get_matrix_element :: "'f env \<Rightarrow> 'f trm \<Rightarrow> 'f trm \<Rightarrow> 'f res" where
  "Eval E (VarT v) = ArithError INSTANTIATION_ERROR (VarT v)"
| "Eval E (AtmT a) = (case map_of InitConstTab a of
      None \<Rightarrow> ArithError TYPE_ERROR_EVALUABLE (takeIndicator (AtmT a))
    | Some f \<Rightarrow> Yap_eval_atom E f)"
| "Eval E (StrT s) = (case s of
      [] \<Rightarrow> RINT 0
    | [c] \<Rightarrow> RINT (char_Int c)
    | _ \<Rightarrow> ArithError TYPE_ERROR_EVALUABLE (StrT s))"
| "Eval E (DBRefT p) = ArithError UNDEFINED_BEHAVIOUR (DBRefT p)"
| "Eval E (PairT h t) =
    (if t \<noteq> TermNil then ArithError TYPE_ERROR_EVALUABLE (PairT h t) else Eval E h)"
| "Eval E (ApplT f [a]) = (case Yap_GetExpProp f 1 of
      Some (Op1 p) \<Rightarrow> bindE (Eval E a) (\<lambda>t1. Yap_eval_unary E p t1)
    | _ \<Rightarrow> ArithError TYPE_ERROR_EVALUABLE (takeIndicator (ApplT f [a])))"
| "Eval E (ApplT f [a, b]) = (case Yap_GetExpProp f 2 of
      Some (Op2 p) \<Rightarrow>
        (if p = op_power \<and> IsPair_trm b then get_matrix_element E a b
         else bindE (Eval E a) (\<lambda>t1. bindE (Eval E b) (\<lambda>t2. Yap_eval_binary E p t1 t2)))
    | _ \<Rightarrow> ArithError TYPE_ERROR_EVALUABLE (takeIndicator (ApplT f [a, b])))"
| "Eval E (ApplT f args) = ArithError TYPE_ERROR_EVALUABLE (takeIndicator (ApplT f args))"
| "Eval E t = Inr t"
| "get_matrix_element E t1 (PairT h t) = bindE (Eval E h) (\<lambda>indxt.
      if \<not> IsIntegerTerm indxt then ArithError TYPE_ERROR_EVALUABLE (PairT h t)
      else case select_arg t1 (IntegerOfTerm indxt) of
        Inl e \<Rightarrow> Inl e
      | Inr t1' \<Rightarrow>
          (if IsPair_trm t then get_matrix_element E t1' t
           else if t \<noteq> TermNil then ArithError TYPE_ERROR_EVALUABLE t
           else Eval E t1'))"
| "get_matrix_element E t1 t2 =
    (if t2 = AtmT ''length'' then bindE (matrix_length t1 1) RINT
     else ArithError TYPE_ERROR_EVALUABLE t2)"
  by pat_completeness auto

termination
  by (relation "measure (case_sum (\<lambda>(E, t). 2 * size t)
      (\<lambda>(E, t1, t2). 2 * (size t1 + size t2) + 1))")
    (auto dest!: select_arg_size)

end
