(* ===== verification/YapEvalCorrect.thy ===== *)
theory YapEvalCorrect
  imports YapEval
begin

text \<open>
  What the evaluator computes. \<open>ieval\<close> is the mathematical value of an integer expression, with
  no value where an operator leaves the domain on which the code is exact or an intermediate
  result falls in the gap that a tagged cell cannot hold; the evaluator returns its canonical
  term. Every successful evaluation returns a number in canonical form or a double.
\<close>

section \<open>Results are canonical numbers\<close>

definition num_ok :: "'f trm \<Rightarrow> bool" where
  "num_ok t \<longleftrightarrow> canonical t \<or> IsFloatTerm t"

definition good :: "'f res \<Rightarrow> bool" where
  "good m \<longleftrightarrow> (\<forall>r. m = Inr r \<longrightarrow> num_ok r)"

lemma good_simps [simp]:
  "good (RINT i)" "good (RFLOAT d)" "good (Inl e)" "good (ArithError x t)" "good (Inr (mkInt i))"
  "good (Inr t) \<longleftrightarrow> num_ok t" "good (Inr (MkIntegerTerm i))"
  by (simp_all add: good_def num_ok_def RINT_def RFLOAT_def ArithError_def
      canonical_MkIntegerTerm small_canonical)

lemma num_ok_simps [simp]: "num_ok (mkInt i)" "num_ok (MkIntegerTerm i)" "num_ok (FltT d)"
  by (simp_all add: num_ok_def canonical_MkIntegerTerm small_canonical)

lemma good_bindE: "(\<And>a. good (f a)) \<Longrightarrow> good (bindE m f)"
  by (cases m) simp_all

lemma canonical_big: "canonical (BigT z) \<Longrightarrow> \<not> fits_Int z"
  by simp

lemma good_box [simp]: "good (box_int E z)" "good (box_rat E q)"
  by (auto simp: good_def box_int_def box_rat_def num_ok_def canonical_int_term)

lemma num_ok_etype:
  "num_ok t \<Longrightarrow> ETypeOfTerm t = long_int_e \<or> ETypeOfTerm t = double_e \<or> ETypeOfTerm t = big_int_e"
  by (cases t) (auto simp: num_ok_def)

context gmp
begin

lemmas good_rules = MkBigAndClose MkRatAndClose Let_def

lemma good_gmp_unary:
  "good (Yap_gmp_neg_int E i)" "good (Yap_gmp_neg_big E t)" "good (Yap_gmp_abs_big E t)"
  "good (Yap_gmp_unot_big E t)" "good (Yap_gmp_sign E t)" "good (Yap_gmp_lsb E t)"
  "good (Yap_gmp_msb E t)" "good (Yap_gmp_popcount E t)" "good (Yap_gmp_float_to_rational E d)"
  "good (Yap_gmp_float_fractional_part E t)" "good (Yap_gmp_float_integer_part E t)"
  "good (Yap_gmp_float_to_big E d)" "good (float_to_int E d)"
  by (simp_all add: gmp_defs good_rules float_to_int_def)

lemma good_gmp_round:
  assumes "num_ok t"
  shows "good (Yap_gmp_floor E t)" and "good (Yap_gmp_ceiling E t)"
    and "good (Yap_gmp_round E t)" and "good (Yap_gmp_trunc E t)"
  by (simp_all add: gmp_defs good_rules assms)

lemma good_rationalize: "Yap_gmp_float_rationalize E d = Some r \<Longrightarrow> good r"
  by (auto simp: Yap_gmp_float_rationalize_def good_rules split: option.splits)

lemma eval1_good:
  assumes "num_ok t"
  shows "good (eval1 E f t)"
  using num_ok_etype [OF assms] assms good_gmp_round [OF assms]
  by (cases f; elim disjE)
    (auto simp: eval1_uminus_def eval1_unot_def libm_plain_def libm_log_def libm_checked_def
      eval1_to_int_def eval1_truncate_def eval1_float_def eval1_rational_def
      eval1_rationalize_def eval1_abs_def eval1_bits_def eval1_ffracp_def eval1_fintp_def
      eval1_sign_def eval1_random1_def good_gmp_unary Let_def Yap_gmp_mul_float_big_def
      intro: good_bindE good_rationalize split: option.split)

lemma eval0_good: "good (eval0 E f)"
  by (cases f) simp_all

lemma good_gmp_binary:
  "good (Yap_gmp_add_ints E i j)" "good (Yap_gmp_sub_ints E i j)" "good (Yap_gmp_mul_ints E i j)"
  "good (Yap_gmp_sll_ints E i j)" "good (Yap_gmp_add_int_big E i t)"
  "good (Yap_gmp_sub_int_big E i t)" "good (Yap_gmp_mul_int_big E i t)"
  "good (Yap_gmp_sub_big_int E t i)" "good (Yap_gmp_add_big_big E s t)"
  "good (Yap_gmp_sub_big_big E s t)" "good (Yap_gmp_mul_big_big E s t)"
  "good (Yap_gmp_div_int_big E i t)" "good (Yap_gmp_div_big_int E t i)"
  "good (Yap_gmp_div2_big_int E t i)" "good (Yap_gmp_div_big_big E s t)"
  "good (Yap_gmp_div2_big_big E s t)" "good (Yap_gmp_and_int_big E i t)"
  "good (Yap_gmp_ior_int_big E i t)" "good (Yap_gmp_xor_int_big E i t)"
  "good (Yap_gmp_and_big_big E s t)" "good (Yap_gmp_ior_big_big E s t)"
  "good (Yap_gmp_xor_big_big E s t)"
  by (simp_all add: gmp_defs good_rules)

lemma good_gmp_binary2:
  "good (Yap_gmp_mod_big_big E s t)" "good (Yap_gmp_mod_big_int E t i)"
  "good (Yap_gmp_mod_int_big E i t)" "good (Yap_gmp_rem_big_big E s t)"
  "good (Yap_gmp_rem_big_int E t i)" "good (Yap_gmp_rem_int_big E i t)"
  "good (Yap_gmp_gcd_big_big E s t)" "good (Yap_gmp_gcd_int_big E i t)"
  "good (Yap_gmp_add_float_big E d t)" "good (Yap_gmp_sub_float_big E d t)"
  "good (Yap_gmp_sub_big_float E t d)" "good (Yap_gmp_mul_float_big E d t)"
  "good (Yap_gmp_fdiv_float_big E d t)" "good (Yap_gmp_fdiv_big_float E t d)"
  "good (Yap_gmp_fdiv_int_big E i t)" "good (Yap_gmp_fdiv_big_int E t i)"
  "good (Yap_gmp_fdiv_big_big E s t)" "good (Yap_gmp_exp_int_int E i j)"
  "good (Yap_gmp_exp_big_int E t i)" "good (Yap_gmp_exp_int_big E i t)"
  "good (Yap_gmp_exp_big_big E s t)" "good (Yap_gmq_rdiv_int_int E i j)"
  "good (Yap_gmq_rdiv_int_big E i t)" "good (Yap_gmq_rdiv_big_int E t i)"
  "good (Yap_gmq_rdiv_big_big E s t)"
  by (simp_all add: gmp_defs good_rules split: prod.split)

lemma good_sll_big_int: "num_ok t \<Longrightarrow> good (Yap_gmp_sll_big_int E t i)"
  by (simp add: gmp_defs good_rules)

lemma good_do_sll: "good (do_sll E i j)"
  by (simp add: do_sll_def good_gmp_binary)

lemma good_if: "good a \<Longrightarrow> good b \<Longrightarrow> good (if c then a else b)"
  by simp

lemma good_pick: "num_ok s \<Longrightarrow> num_ok t \<Longrightarrow> good (Inr (if c then s else t))"
  by simp

lemmas good_ops = good_gmp_binary good_gmp_binary2 good_do_sll good_sll_big_int good_bindE

definition num_type :: "'f trm \<Rightarrow> bool" where
  "num_type t \<longleftrightarrow> ETypeOfTerm t = long_int_e \<or> ETypeOfTerm t = double_e \<or> ETypeOfTerm t = big_int_e"

lemma good_plus_minus_times:
  assumes "num_type s" and "num_type t"
  shows "good (p_plus E s t)" and "good (p_minus E s t)" and "good (p_times E s t)"
  using assms unfolding num_type_def
  by (auto simp: p_plus_def p_minus_def p_times_def add_int_def sub_int_def times_int_def
      good_gmp_binary good_gmp_binary2)

lemma good_div:
  assumes "num_type s" and "num_type t"
  shows "good (p_div E s t)" and "good (p_div2 E s t)" and "good (p_mod E s t)"
    and "good (p_rem E s t)" and "good (p_fdiv E s t)"
    and "ETypeOfTerm t \<noteq> double_e \<Longrightarrow> good (p_rdiv E s t)"
  using assms unfolding num_type_def
  by (auto simp: p_div_def p_div2_def p_mod_def p_rem_def p_rdiv_def p_fdiv_def Let_def
      good_gmp_binary good_gmp_binary2)

lemma good_bits:
  assumes "num_type s" and "num_type t"
  shows "good (p_and E s t)" and "good (p_or E s t)" and "good (p_xor E s t)"
    and "good (p_atan2 E s t)" and "good (p_power E s t)"
  using assms unfolding num_type_def
  by (auto simp: p_and_def p_or_def p_xor_def p_atan2_def p_power_def good_gmp_binary)

lemma good_shift:
  assumes "num_type s" and "num_type t" and "num_ok s"
  shows "good (p_sll E s t)" and "good (p_slr E s t)"
  using assms unfolding num_type_def
  by (auto simp: p_sll_def p_slr_def Let_def good_do_sll good_sll_big_int)

lemma good_exp_gcd:
  assumes "num_type s" and "num_type t"
  shows "good (p_exp E s t)" and "good (p_gcd E s t)"
  using assms unfolding num_type_def
  by (auto simp: p_exp_def p_gcd_def Let_def good_gmp_binary2 intro!: good_bindE)

lemma good_min_max:
  assumes "num_type s" and "num_type t" and "num_ok s" and "num_ok t"
  shows "good (p_min E s t)" and "good (p_max E s t)"
  using assms(1,2) unfolding num_type_def
  by (elim disjE; simp add: p_min_def p_max_def assms(3,4))+

lemma eval2_good:
  assumes "num_ok s" and "num_ok t" and "f = op_rdiv \<Longrightarrow> ETypeOfTerm t \<noteq> double_e"
  shows "good (eval2 E f s t)"
proof -
  have "num_type s" "num_type t" using assms by (simp_all add: num_type_def num_ok_etype)
  then show ?thesis
    using assms
    by (cases f) (simp_all add: good_plus_minus_times good_div good_bits good_shift good_exp_gcd
        good_min_max)
qed

end

text \<open>
  The expressions whose numbers are canonical (a blob of another kind is no number) and that do
  not use \<open>rdiv\<close>, which returns the null term for an integer and a double.
\<close>

fun leaves_ok :: "'f trm \<Rightarrow> bool" where
  "leaves_ok (ApplT f args) \<longleftrightarrow> f \<noteq> ''rdiv'' \<and> (\<forall>a \<in> set args. leaves_ok a)"
| "leaves_ok (PairT h t) \<longleftrightarrow> leaves_ok h \<and> leaves_ok t"
| "leaves_ok t \<longleftrightarrow> IsNumTerm t \<longrightarrow> num_ok t"

lemma select_arg_leaves: "select_arg t i = Inr a \<Longrightarrow> leaves_ok t \<Longrightarrow> leaves_ok a"
  by (auto simp: select_arg_def ArithError_def split: if_splits trm.splits)

lemma rdiv_name: "Yap_GetExpProp f 2 = Some (Op2 op_rdiv) \<Longrightarrow> f = ''rdiv''"
  by (auto simp: Yap_GetExpProp_def InitBinTab_def split: if_splits)

lemma goodD: "good m \<Longrightarrow> m = Inr r \<Longrightarrow> num_ok r"
  by (simp add: good_def)

lemma good_bindE_Inr: "(\<And>a. m = Inr a \<Longrightarrow> good (f a)) \<Longrightarrow> good (bindE m f)"
  by (cases m) simp_all

context gmp
begin

lemma Eval_good:
  "leaves_ok t \<Longrightarrow> good (Eval E t)"
  "leaves_ok t1 \<Longrightarrow> leaves_ok t2 \<Longrightarrow> good (get_matrix_element E t1 t2)"
proof (induction E\<equiv>E t and E\<equiv>E t1 t2 rule: Eval_get_matrix_element.induct)
  case (2 a)
  show ?case by (simp add: Yap_eval_atom_def eval0_good split: option.split)
next
  case (3 s)
  show ?case by (simp split: list.split)
next
  case (6 f a)
  show ?case
  proof (cases "Yap_GetExpProp f 1")
    case (Some p)
    show ?thesis
    proof (cases p)
      case (Op1 u)
      then have "good (Eval E a)" using 6 Some by simp
      then have "good (bindE (Eval E a) (\<lambda>t1. eval1 E u t1))"
        by (intro good_bindE_Inr eval1_good) (rule goodD)
      with Some Op1 show ?thesis by (simp add: Yap_eval_unary_def [abs_def])
    qed (use Some in simp)
  qed simp
next
  case (7 f a b)
  show ?case
  proof (cases "Yap_GetExpProp f 2")
    case (Some p)
    show ?thesis
    proof (cases p)
      case (Op2 u)
      then have u: "u \<noteq> op_rdiv" using rdiv_name Some 7(4) by auto
      show ?thesis
      proof (cases "u = op_power \<and> IsPair_trm b")
        case True
        with 7 Some Op2 show ?thesis by simp
      next
        case False
        have a: "good (Eval E a)" using 7(2) 7(4) Some Op2 False by auto
        have b: "good (Eval E b)" if "Eval E a = Inr t1" for t1
          using 7(3) 7(4) Some Op2 False that by auto
        have "Eval E (ApplT f [a, b]) =
            bindE (Eval E a) (\<lambda>t1. bindE (Eval E b) (\<lambda>t2. eval2 E u t1 t2))"
          using Some Op2 False by (auto simp: Yap_eval_binary_def [abs_def])
        moreover have "good \<dots>"
          using a b u by (intro good_bindE_Inr eval2_good) (blast dest: goodD)+
        ultimately show ?thesis by (simp only:)
      qed
    qed (simp add: Some)
  qed simp
next
  case (10 t1 h t)
  show ?case
    unfolding get_matrix_element.simps
  proof (rule good_bindE_Inr)
    fix i assume i: "Eval E h = Inr i"
    show "good (if \<not> IsIntegerTerm i then ArithError TYPE_ERROR_EVALUABLE (PairT h t)
      else case select_arg t1 (IntegerOfTerm i) of Inl e \<Rightarrow> Inl e
        | Inr t1' \<Rightarrow> (if IsPair_trm t then get_matrix_element E t1' t
            else if t \<noteq> TermNil then ArithError TYPE_ERROR_EVALUABLE t else Eval E t1'))"
    proof (cases "IsIntegerTerm i")
      case True
      show ?thesis
      proof (cases "select_arg t1 (IntegerOfTerm i)")
        case (Inr t1')
        with 10 i True select_arg_leaves [OF Inr] show ?thesis by auto
      qed (simp add: True)
    qed simp
  qed
qed (auto simp: term_class intro!: good_bindE)

end

section \<open>The value of an integer expression\<close>

function (sequential) ieval :: "'f trm \<Rightarrow> int option" where
  "ieval (ApplT f [a]) = (case Yap_GetExpProp f 1 of
      Some (Op1 p) \<Rightarrow> (case ieval a of
          Some x \<Rightarrow> if exact1 p x \<and> \<not> tag_gap (math1 p x) then Some (math1 p x) else None
        | None \<Rightarrow> None)
    | _ \<Rightarrow> None)"
| "ieval (ApplT f [a, b]) = (case Yap_GetExpProp f 2 of
      Some (Op2 p) \<Rightarrow>
        (if p = op_power \<and> IsPair_trm b then None
         else case (ieval a, ieval b) of
          (Some x, Some y) \<Rightarrow>
            if exact2 p x y \<and> \<not> tag_gap (math2 p x y) then Some (math2 p x y) else None
        | _ \<Rightarrow> None)
    | _ \<Rightarrow> None)"
| "ieval (PairT h t) = (if t = TermNil then ieval h else None)"
| "ieval (ApplT f args) = None"
| "ieval t = (if canonical t then int_val t else None)"
  by pat_completeness auto

termination
  by (relation "measure size") auto

text \<open>The expressions inside an expression, itself included.\<close>

fun parts :: "'f trm \<Rightarrow> 'f trm set" where
  "parts (ApplT f args) = insert (ApplT f args) (\<Union>a \<in> set args. parts a)"
| "parts (PairT h t) = insert (PairT h t) (parts h)"
| "parts t = {t}"

text \<open>Some integer inside the expression has no room on the stack.\<close>

definition no_room :: "'f env \<Rightarrow> 'f trm \<Rightarrow> bool" where
  "no_room E t \<longleftrightarrow> (\<exists>s \<in> parts t. \<exists>x. ieval s = Some x \<and> \<not> fits_Int x \<and> \<not> limbs_fit E x)"

lemma self_part: "t \<in> parts t"
  by (cases t) simp_all

lemma no_room_arg: "no_room E a \<Longrightarrow> a \<in> set args \<Longrightarrow> no_room E (ApplT f args)"
  by (auto simp: no_room_def)

lemma no_room_head: "no_room E h \<Longrightarrow> no_room E (PairT h t)"
  by (auto simp: no_room_def)

text \<open>Either the value or, if some integer does not fit on the stack, the resource error.\<close>

definition evaluates :: "'f env \<Rightarrow> 'f trm \<Rightarrow> 'f res \<Rightarrow> int \<Rightarrow> bool" where
  "evaluates E t r z \<longleftrightarrow> r = Inr (int_term z)
    \<or> (r = Inl (RESOURCE_ERROR_STACK, TermNil) \<and> no_room E t)"

lemma evaluates_returns: "returns E r z \<Longrightarrow> ieval t = Some z \<Longrightarrow> evaluates E t r z"
  using self_part [of t] by (auto simp: evaluates_def returns_def no_room_def)

lemma ieval_no_gap: "ieval t = Some z \<Longrightarrow> \<not> tag_gap z"
proof (induction t rule: ieval.induct)
  case (1 f a)
  then show ?case by (auto split: option.splits exp_op.splits if_splits)
next
  case (2 f a b)
  then show ?case by (auto split: option.splits exp_op.splits if_splits)
qed (auto simp: tag_gap_def IntInBnd_iff fits_Int_def split: if_splits)

context gmp
begin

lemma Eval_ieval: "ieval t = Some z \<Longrightarrow> no_ffsll E \<Longrightarrow> evaluates E t (Eval E t) z"
proof (induction t arbitrary: z rule: ieval.induct)
  case (1 f a)
  from 1(2) obtain p x where p: "Yap_GetExpProp f 1 = Some (Op1 p)" "ieval a = Some x"
    "exact1 p x" "z = math1 p x"
    by (auto split: option.splits exp_op.splits if_splits)
  have IH: "evaluates E a (Eval E a) x" using 1(1,3) p by blast
  have R: "returns E (eval1 E p (int_term x)) z"
    using eval1_returns [OF int_arg_int_term] ieval_no_gap [OF p(2)] p(3,4) 1(3) by blast
  then show ?case
    using IH p(1) evaluates_returns [OF R 1(2)] no_room_arg [of E a "[a]" f]
    by (auto simp: evaluates_def Yap_eval_unary_def)
next
  case (2 f a b)
  from 2(3) obtain p x y where p: "Yap_GetExpProp f 2 = Some (Op2 p)"
    "\<not> (p = op_power \<and> IsPair_trm b)" "ieval a = Some x" "ieval b = Some y"
    "exact2 p x y" "z = math2 p x y"
    by (auto split: option.splits exp_op.splits if_splits)
  have a: "evaluates E a (Eval E a) x" and b: "evaluates E b (Eval E b) y" using 2(1,2,4) p by blast+
  have R: "returns E (eval2 E p (int_term x) (int_term y)) z"
    using eval2_returns [OF int_arg_int_term int_arg_int_term]
      ieval_no_gap [OF p(3)] ieval_no_gap [OF p(4)] p(5,6) 2(4) by blast
  have "Eval E (ApplT f [a, b]) =
      bindE (Eval E a) (\<lambda>t1. bindE (Eval E b) (\<lambda>t2. eval2 E p t1 t2))"
    using p(1,2) by (auto simp: Yap_eval_binary_def [abs_def])
  then show ?case
    using a b evaluates_returns [OF R 2(3)] no_room_arg [of E _ "[a, b]" f]
    by (auto simp: evaluates_def simp del: Eval.simps)
next
  case (3 h t)
  then show ?case by (auto split: if_splits simp: evaluates_def no_room_head)
qed (auto split: if_splits intro!: evaluates_returns returns_arg simp: int_arg_def)

end

end
