(* ===== verification/YapArithProps.thy ===== *)
theory YapArithProps
  imports YapEvalCorrect
begin

text \<open>
  The properties of arithmetic: exactness of the operators and of the evaluator on the domain
  where the code computes the documented function, canonical form of the results, errors, and
  the inputs on which the code gives another number than the documented one.
\<close>

lemma mkInt_small: "- (2 ^ 57) \<le> sint i \<Longrightarrow> sint i < 2 ^ 57 \<Longrightarrow> mkInt i = IntT i"
  by (simp add: mkInt_def IntOfTerm_MkIntTerm)

lemma mkInt_zero [simp]: "mkInt 0 = IntT 0"
  by (rule mkInt_small) simp_all

lemma rat_val_split:
  assumes "rat_val t = Some q"
  shows "(ETypeOfTerm t = long_int_e \<and> q = of_int (sint (IntegerOfTerm t)))
    \<or> (ETypeOfTerm t = big_int_e \<and> big_num t q)"
  using assms by (cases t) (auto simp: big_num_def)

section \<open>Exactness\<close>

text \<open>
  C6: a binary operator on two integers in canonical form returns a canonical term that reads as
  \<open>math2\<close> of the two numbers (\<open>//\<close> and \<open>rem\<close> truncate; \<open>div\<close> and \<open>mod\<close> round down, so that \<open>mod\<close> has the sign
  of the divisor), or the stack resource error when that number is a bignum that does not fit,
  provided that the operands are in the domain \<open>exact2\<close> of the operator, that the number is not in the
  gap of the tagged representation, and, for the power, that \<open>msb\<close> is the binary search.
\<close>

theorem arith2_exact:
  assumes "gmp E" and "int_arg s x" and "int_arg t y" and "exact2 f x y"
    and "\<not> tag_gap (math2 f x y)" and "f = op_power \<Longrightarrow> no_ffsll E"
  shows "gives E (eval2 E f s t) (math2 f x y)"
  by (rule gives_returns [OF gmp.eval2_returns [OF assms(1-4,6)] assms(5)])

theorem arith2_exact_witness:
  "gives ref_env (eval2 ref_env op_mod (int_term (- 7)) (int_term (2 ^ 70))) (2 ^ 70 - 7)"
proof -
  have "exact2 op_mod (- 7) (2 ^ 70)" by (simp add: fits_Int_def)
  moreover have "int_arg (int_term (- 7)) (- 7)" "int_arg (int_term (2 ^ 70)) (2 ^ 70)"
    by (rule int_arg_int_term, simp add: tag_gap_def)+
  ultimately show ?thesis
    using arith2_exact [OF ref.gmp_axioms, of "int_term (- 7)" "- 7" "int_term (2 ^ 70)" "2 ^ 70"
        op_mod] by (simp add: tag_gap_def)
qed

text \<open>
  C13: a unary operator (sign change, complement, absolute value, sign, most and least significant
  bit, population count, the roundings) on an integer in canonical form returns a canonical term that
  reads as \<open>math1\<close> of the number, or the stack resource error when that is a bignum that does not fit,
  provided that the operand is in the domain \<open>exact1\<close> of the operator, that the number is not in the gap
  of the tagged representation, and, for the most significant bit, that \<open>msb\<close> is the binary search.
\<close>

theorem arith1_exact:
  assumes "gmp E" and "int_arg t x" and "exact1 f x"
    and "\<not> tag_gap (math1 f x)" and "f = op_msb \<Longrightarrow> no_ffsll E"
  shows "gives E (eval1 E f t) (math1 f x)"
  by (rule gives_returns [OF gmp.eval1_returns [OF assms(1-3,5)] assms(4)])

theorem arith1_exact_witness:
  "gives ref_env (eval1 ref_env op_uminus (LongT Int_MIN)) (2 ^ 63)"
proof -
  have "int_arg (LongT Int_MIN) (- (2 ^ 63))" by (simp add: int_arg_def IntInBnd_iff)
  from arith1_exact [OF ref.gmp_axioms this, of op_uminus] show ?thesis by (simp add: tag_gap_def)
qed

text \<open>
  Rational results, as \<open>gives\<close> for integers: a canonical term (an integer when the denominator is one)
  that reads as the number, or the resource error. The integers in the gap of the tagged
  representation are not covered.
\<close>

definition gives_rat :: "'f env \<Rightarrow> 'f res \<Rightarrow> rat \<Rightarrow> bool" where
  "gives_rat E r q \<longleftrightarrow> (\<exists>t. r = Inr t \<and> canonical t \<and> rat_val t = Some q)
    \<or> (r = Inl (RESOURCE_ERROR_STACK, TermNil)
      \<and> (if snd (quotient_of q) = 1 then \<not> fits_Int (fst (quotient_of q)) \<and> \<not> limbs_fit E (fst (quotient_of q))
        else \<not> rat_fits E q))"

definition rat_gap :: "rat \<Rightarrow> bool" where
  "rat_gap q \<longleftrightarrow> snd (quotient_of q) = 1 \<and> tag_gap (fst (quotient_of q))"

lemma gives_rat_box:
  assumes "\<not> rat_gap q"
  shows "gives_rat E (box_rat E q) q"
proof (cases "snd (quotient_of q) = 1")
  case True
  then have q: "q = of_int (fst (quotient_of q))" by (simp add: quotient_of_one)
  have gap: "\<not> tag_gap (fst (quotient_of q))" using assms True by (simp add: rat_gap_def)
  have "rat_val (int_term (fst (quotient_of q)) :: 'a trm) = Some q"
    using rat_val_of_int_val [OF int_val_int_term [OF gap]] q by simp
  with True gap show ?thesis
    by (auto simp: gives_rat_def box_rat_def box_int_def canonical_int_term)
next
  case False
  then show ?thesis by (auto simp: gives_rat_def box_rat_def)
qed

text \<open>
  C15: addition, subtraction and multiplication of machine integers, bignums and rationals each
  return a canonical term that reads as the exact rational sum, difference or product, an
  integer when its denominator is one, or the stack resource error when that number does not fit;
  results in the gap of the tagged representation are excepted.
\<close>

theorem rational_ring_exact:
  assumes "gmp E" and "rat_val s = Some p" and "rat_val t = Some q"
  shows "(\<not> rat_gap (p + q) \<longrightarrow> gives_rat E (p_plus E s t) (p + q))
    \<and> (\<not> rat_gap (p - q) \<longrightarrow> gives_rat E (p_minus E s t) (p - q))
    \<and> (\<not> rat_gap (p * q) \<longrightarrow> gives_rat E (p_times E s t) (p * q))"
proof -
  note rules = gmp.add_int_exact [OF assms(1)] gmp.sub_int_exact [OF assms(1)]
    gmp.times_int_exact [OF assms(1)] gmp.add_int_big [OF assms(1)] gmp.sub_int_big [OF assms(1)]
    gmp.mul_int_big [OF assms(1)] gmp.sub_big_int [OF assms(1)] gmp.add_big_big [OF assms(1)]
    gmp.sub_big_big [OF assms(1)] gmp.mul_big_big [OF assms(1)] boxes
  show ?thesis
    using rat_val_split [OF assms(2)] rat_val_split [OF assms(3)]
    by (elim disjE conjE) (simp_all add: p_plus_def p_minus_def p_times_def rules gives_rat_box ac_simps)
qed

theorem rational_ring_exact_witness:
  "gives_rat ref_env (p_plus ref_env (RatT (1 / 2)) (RatT (1 / 2))) 1"
proof -
  have "\<not> rat_gap 1" using quotient_of_int [of 1] by (simp add: rat_gap_def tag_gap_def)
  then show ?thesis
    using rational_ring_exact [OF ref.gmp_axioms, of "RatT (1 / 2)" "1 / 2" "RatT (1 / 2)" "1 / 2"]
    by simp
qed

text \<open>
  C16: rational division of two machine integers, bignums or rationals by a divisor that is not zero
  returns a canonical term that reads as the exact quotient, an integer when its denominator is
  one, or the stack resource error when it does not fit, provided that neither operand is the most
  negative \<open>Int\<close> and that the quotient is not in the gap of the tagged representation.
\<close>

theorem rdiv_exact:
  assumes "gmp E" and "rat_val s = Some p" and "rat_val t = Some q" and "q \<noteq> 0"
    and "p \<noteq> - (2 ^ 63) \<and> q \<noteq> - (2 ^ 63)" and "\<not> rat_gap (p / q)"
  shows "gives_rat E (eval2 E op_rdiv s t) (p / q)"
proof -
  have min: "i \<noteq> Int_MIN" if "of_int (sint i) \<noteq> (- (2 ^ 63) :: rat)" for i
  proof
    assume "i = Int_MIN"
    with that show False by simp
  qed
  have zero: "sint i \<noteq> 0" "i \<noteq> 0" if "of_int (sint i) \<noteq> (0 :: rat)" for i :: cint
    using that by auto
  note rules = gmp.rdiv_int_int [OF assms(1)] gmp.rdiv_int_big [OF assms(1)]
    gmp.rdiv_big_int [OF assms(1)] gmp.rdiv_big_big [OF assms(1)]
  show ?thesis
    using rat_val_split [OF assms(2)] rat_val_split [OF assms(3)] assms(4,5) gives_rat_box [OF assms(6)]
    by (elim disjE conjE) (simp_all add: p_rdiv_def rules min zero Let_def)
qed

theorem rdiv_exact_witness: "gives_rat ref_env (eval2 ref_env op_rdiv (IntT 1) (IntT 2)) (1 / 2)"
proof -
  have "\<not> rat_gap (1 / 2)" by code_simp
  then show ?thesis
    using rdiv_exact [OF ref.gmp_axioms, of "IntT 1" 1 "IntT 2" 2] by (simp add: sint_uint)
qed

section \<open>The evaluator\<close>

text \<open>
  C1: let the value \<open>ieval\<close> of an arithmetic expression over integers be defined, that is, all its
  operators are applied inside their domains \<open>exact1\<close> and \<open>exact2\<close>, no number in it is in the gap of the
  tagged representation, and it has no matrix subscripts. In a build where \<open>msb\<close> is the binary
  search it evaluates to a canonical term that reads as the value; the only other outcome is the
  stack resource error, and only if the value of some expression inside is a bignum without room.
\<close>

theorem Eval_exact:
  assumes "gmp E" and "no_ffsll E" and "ieval t = Some z"
  shows "(\<exists>r. Eval E t = Inr r \<and> canonical r \<and> int_val r = Some z)
    \<or> (Eval E t = Inl (RESOURCE_ERROR_STACK, TermNil) \<and> no_room E t)"
  using gmp.Eval_ieval [OF assms(1,3,2)] int_arg_int_term [OF ieval_no_gap [OF assms(3)]]
  by (auto simp: evaluates_def int_arg_def)

lemma sint_small:
  assumes "(numeral n :: int) < 2 ^ 63"
  shows "sint (numeral n :: cint) = numeral n"
proof -
  have "- (2 ^ 63) \<le> (numeral n :: int)" by (rule order_trans [of _ 0]) simp_all
  with assms have "fits_Int (numeral n)" unfolding fits_Int_def by (intro conjI)
  from sint_of_int_fits [OF this] show ?thesis by simp
qed

theorem Eval_exact_witness:
  "Eval ref_env (ApplT ''+'' [IntT 2, ApplT ''*'' [IntT 3, ApplT ''-'' [IntT 4]]])
    = Inr (IntT (- 10))"
proof -
  have "ieval (ApplT ''+'' [IntT 2, ApplT ''*'' [IntT 3, ApplT ''-'' [IntT 4]]])
      = Some (- 10)"
    by (simp add: Yap_GetExpProp_def InitBinTab_def InitUnTab_def sint_small tag_gap_def)
  moreover have "\<not> no_room ref_env t" for t :: "rat trm"
    by (simp add: no_room_def ref_env_def)
  ultimately obtain r where r: "Eval ref_env (ApplT ''+'' [IntT 2, ApplT ''*'' [IntT 3, ApplT ''-'' [IntT 4]]]) = Inr r"
    "canonical r" "int_val r = Some (- 10)"
    using Eval_exact [OF ref.gmp_axioms ref_no_ffsll] by blast
  have c: "canonical (IntT (- 10) :: rat trm)" "int_val (IntT (- 10) :: rat trm) = Some (- 10)"
    by (simp_all add: sint_uint)
  from canonical_unique [OF r(2) c(1)] r(3) c(2) have "r = IntT (- 10)"
    by (simp add: rat_val_of_int_val)
  with r(1) show ?thesis by simp
qed

text \<open>
  C14: whatever an expression without the operator \<open>rdiv\<close>, whose numbers are canonical or doubles,
  evaluates to is again a number in canonical form, or a double; in particular an integer result
  is a bignum only if it is out of the range of \<open>Int\<close>, and the null term, which \<open>rdiv\<close> can return, is not.
\<close>

theorem Eval_canonical:
  assumes "gmp E" and "leaves_ok t" and "Eval E t = Inr r"
  shows "canonical r \<or> IsFloatTerm r"
  using goodD [OF gmp.Eval_good(1) [OF assms(1,2)] assms(3)] by (simp add: num_ok_def)

theorem Eval_canonical_witness:
  "\<exists>r. Eval ref_env (ApplT ''+'' [IntT 2, IntT 3]) = Inr r \<and> (canonical r \<or> IsFloatTerm r)"
proof -
  have "leaves_ok (ApplT ''+'' [IntT 2, IntT 3])"
    by (simp add: num_ok_def sint_small)
  moreover have "Eval ref_env (ApplT ''+'' [IntT 2, IntT 3]) = Inr (MkIntegerTerm 5)"
    by (simp add: Yap_GetExpProp_def InitBinTab_def Yap_eval_binary_def p_plus_def add_int_def
        RINT_def sint_small fits_Int_def)
  ultimately show ?thesis
    using Eval_canonical [OF ref.gmp_axioms, of "ApplT ''+'' [IntT 2, IntT 3]"] by blast
qed

text \<open>
  Evaluation of an expression reaches an expression inside it: the argument of a unary operator,
  the first argument of a binary one, the second once the first has a value, the element of a
  list of one element, the first subscript of a matrix.
\<close>

inductive reaches :: "'f env \<Rightarrow> 'f trm \<Rightarrow> 'f trm \<Rightarrow> bool" for E where
  reaches_self: "reaches E t t"
| reaches_unary: "Yap_GetExpProp f 1 = Some (Op1 p) \<Longrightarrow> reaches E a s \<Longrightarrow> reaches E (ApplT f [a]) s"
| reaches_first: "Yap_GetExpProp f 2 = Some (Op2 p) \<Longrightarrow> \<not> (p = op_power \<and> IsPair_trm b)
    \<Longrightarrow> reaches E a s \<Longrightarrow> reaches E (ApplT f [a, b]) s"
| reaches_second: "Yap_GetExpProp f 2 = Some (Op2 p) \<Longrightarrow> \<not> (p = op_power \<and> IsPair_trm b)
    \<Longrightarrow> Eval E a = Inr v \<Longrightarrow> reaches E b s \<Longrightarrow> reaches E (ApplT f [a, b]) s"
| reaches_element: "reaches E h s \<Longrightarrow> reaches E (PairT h TermNil) s"
| reaches_subscript: "Yap_GetExpProp f 2 = Some (Op2 op_power) \<Longrightarrow> reaches E h s
    \<Longrightarrow> reaches E (ApplT f [a, PairT h t]) s"

text \<open>
  C17: evaluation is strict and left to right, at any depth: the error of an expression that
  evaluation reaches (through the arguments of unary operators, the first arguments of binary
  ones, the second ones once the first has a value, the elements of lists and the first
  subscripts of matrices) is the error of the whole expression.
\<close>

theorem Eval_propagates_errors:
  assumes "reaches E t s" and "Eval E s = Inl e"
  shows "Eval E t = Inl e"
  using assms
proof (induction rule: reaches.induct)
  case (reaches_first f p b a s)
  then show ?case by auto
next
  case (reaches_second f p b a v s)
  then show ?case by auto
qed simp_all

theorem Eval_propagates_errors_witness:
  "Eval ref_env (ApplT ''+'' [IntT 1, ApplT ''-'' [ApplT ''*'' [VarT 8, AtmT ''foo'']]])
    = Inl (INSTANTIATION_ERROR, VarT 8)"
proof -
  have ops: "Yap_GetExpProp ''+'' 2 = Some (Op2 op_plus)" "Yap_GetExpProp ''*'' 2 = Some (Op2 op_times)"
    "Yap_GetExpProp ''-'' 1 = Some (Op1 op_uminus)"
    by (simp_all add: Yap_GetExpProp_def InitBinTab_def InitUnTab_def)
  have "reaches ref_env (ApplT ''*'' [VarT 8, AtmT ''foo'']) (VarT 8)"
    by (rule reaches_first [OF ops(2)]) (auto intro: reaches_self)
  then have "reaches ref_env (ApplT ''+'' [IntT 1, ApplT ''-'' [ApplT ''*'' [VarT 8, AtmT ''foo'']]]) (VarT 8)"
    by (intro reaches_second [OF ops(1)] reaches_unary [OF ops(3)]) auto
  from Eval_propagates_errors [OF this] show ?thesis by (simp add: ArithError_def)
qed

section \<open>Errors\<close>

text \<open>
  C18: dividing an integer of any size by the integer zero, with any of the four integer division
  operators, throws the zero divisor error with the divisor as its culprit.
\<close>

theorem zero_divisor_error:
  assumes "int_arg s x" and "f \<in> {op_div, op_idiv, op_mod, op_rem}"
  shows "eval2 E f s (IntT 0) = Inl (EVALUATION_ERROR_ZERO_DIVISOR, IntT 0)"
  using assms(1)
proof (cases rule: int_arg_cases)
  case small
  then show ?thesis
    using assms(2)
    by (auto simp: p_div_def p_div2_def p_mod_def p_rem_def ArithError_def Let_def)
next
  case big
  then show ?thesis
    using assms(2)
    by (auto simp: p_div_def p_div2_def p_mod_def p_rem_def ArithError_def Let_def
        Yap_gmp_div_big_int_def c_less_def)
qed

theorem zero_divisor_error_witness:
  "eval2 ref_env op_mod (BigT (2 ^ 70)) (IntT 0) = Inl (EVALUATION_ERROR_ZERO_DIVISOR, IntT 0)"
  using zero_divisor_error [of "BigT (2 ^ 70)" "2 ^ 70" op_mod ref_env]
  by (simp add: int_arg_def fits_Int_def)

text \<open>
  An integer operator given a double as its second operand throws a type error for an
  integer, and the culprit is a double, whatever number the first operand is.
\<close>

theorem double_operand_type_error:
  assumes "num_ok s"
    and "f \<in> {op_div, op_idiv, op_mod, op_rem, op_and, op_or, op_xor, op_sll, op_slr, op_gcd}"
  shows "\<exists>c. eval2 E f s (FltT d) = Inl (TYPE_ERROR_INTEGER, FltT c)"
proof -
  have "\<exists>c. s = FltT c" if "ETypeOfTerm s = double_e"
    using that by (cases s) simp_all
  then show ?thesis
    using num_ok_etype [OF assms(1)] assms(2)
    by (elim disjE)
      (auto simp: p_div_def p_div2_def p_mod_def p_rem_def p_and_def p_or_def p_xor_def p_sll_def
        p_slr_def p_gcd_def ArithError_def)
qed

theorem double_operand_type_error_witness:
  "\<exists>c. eval2 ref_env op_and (IntT 1) (FltT (1 / 2)) = Inl (TYPE_ERROR_INTEGER, FltT c)"
  using double_operand_type_error [of "IntT 1 :: rat trm" op_and ref_env "1 / 2"]
  by (simp add: num_ok_def)

section \<open>Overflow tests\<close>

lemma sint_neg_bit: "sint (w :: cint) < 0 \<longleftrightarrow> bit w 63"
  using bit_last_iff [of w] by simp

text \<open>Wrapping changes a value by a multiple of \<open>2 ^ 64\<close>.\<close>

lemma sint_wraps:
  obtains k where "sint (word_of_int x :: cint) = x + k * 2 ^ 64"
proof
  have "sint (word_of_int x :: cint) = (x + 2 ^ 63) mod 2 ^ 64 - 2 ^ 63"
    by (simp add: sint_sbintrunc' signed_take_bit_eq_take_bit_shift take_bit_eq_mod)
  then show "sint (word_of_int x :: cint) = x + (- ((x + 2 ^ 63) div 2 ^ 64)) * 2 ^ 64"
    using div_mult_mod_eq [of "x + 2 ^ 63" "2 ^ 64"] by linarith
qed

text \<open>
  The portable test of the header for the overflow of a subtraction, on the signs of the
  operands and of the wrapped difference, holds exactly when the exact difference is out of the
  range of \<open>Int\<close>, as the compiler builtin reports.
\<close>

lemma sub_overflow_correct: "sub_overflow (i - j) i j \<longleftrightarrow> \<not> fits_Int (sint i - sint j)"
proof -
  have neg: "sub_overflow (i - j) i j \<longleftrightarrow>
      (sint i < 0 \<and> \<not> sint j < 0 \<and> \<not> sint (i - j) < 0) \<or>
      (\<not> sint i < 0 \<and> sint j < 0 \<and> sint (i - j) < 0)"
    unfolding sub_overflow_def c_less_def sint_0 sint_neg_bit
    by (simp add: bit_and_iff bit_or_iff bit_not_iff)
  obtain k where k: "sint (i - j) = sint i - sint j + k * 2 ^ 64"
    using sint_wraps [of "sint i - sint j"] by (metis of_int_diff word_of_int_sint)
  show ?thesis
  proof (cases "fits_Int (sint i - sint j)")
    case True
    then show ?thesis by (auto simp: neg sint_diff_fits fits_Int_def)
  next
    case False
    have b: "- (2 ^ 63) \<le> sint i" "sint i < 2 ^ 63" "- (2 ^ 63) \<le> sint j" "sint j < 2 ^ 63"
      "- (2 ^ 63) \<le> sint (i - j)" "sint (i - j) < 2 ^ 63"
      using fits_sint [of i] fits_sint [of j] fits_sint [of "i - j"] by (simp_all add: fits_Int_def)
    have p: "(2 :: int) ^ 64 = 2 * 2 ^ 63" by simp
    from False consider "sint i - sint j < - (2 ^ 63)" | "2 ^ 63 \<le> sint i - sint j"
      unfolding fits_Int_def by linarith
    then show ?thesis
    proof cases
      case 1
      with k b have "sint i < 0" "\<not> sint j < 0" "0 < k * 2 ^ 64" "k * 2 ^ 64 < 2 * 2 ^ 64"
        using p by linarith+
      then have "k = 1" by simp
      with k b 1 p have "\<not> sint (i - j) < 0" by simp
      with \<open>sint i < 0\<close> \<open>\<not> sint j < 0\<close> False show ?thesis by (simp add: neg)
    next
      case 2
      with k b have "\<not> sint i < 0" "sint j < 0" "k * 2 ^ 64 < 0" "- 2 * 2 ^ 64 < k * 2 ^ 64"
        using p by linarith+
      then have "k = - 1" by simp
      with k b 2 p have "sint (i - j) < 0" by simp
      with \<open>\<not> sint i < 0\<close> \<open>sint j < 0\<close> False show ?thesis by (simp add: neg)
    qed
  qed
qed

lemma mult_wrapped_quotient:
  assumes q: "c_div (i * j) j = i" and j: "sint j \<noteq> 0" and m: "\<not> (i = Int_MIN \<and> j = - 1)"
  shows "fits_Int (sint i * sint j)"
proof -
  have nm: "\<not> (i * j = Int_MIN \<and> j = - 1)"
  proof
    assume a: "i * j = Int_MIN \<and> j = - 1"
    then have "i = - Int_MIN" by (metis minus_equation_iff mult_minus1_right)
    with a m show False by simp
  qed
  define z where "z = sint (i * j)"
  have si: "sint i = z sdiv sint j"
    using sint_c_div [OF nm] q by (simp add: z_def)
  obtain k where k: "z = sint i * sint j + k * 2 ^ 64"
    unfolding z_def using sint_wraps [of "sint i * sint j"] by (metis of_int_mult word_of_int_sint)
  have "sint i * sint j + z smod sint j = z"
    using si by (metis sdiv_mult_smod_eq)
  then have r: "z smod sint j = k * 2 ^ 64" using k by linarith
  have "\<bar>z smod sint j\<bar> < \<bar>sint j\<bar>" using smod_int_range [OF j, of z] by (auto simp: abs_if)
  moreover have "\<bar>sint j\<bar> \<le> 2 ^ 63"
    using fits_sint [of j] by (auto simp: fits_Int_def abs_if)
  ultimately have "\<bar>k * 2 ^ 64\<bar> < 2 ^ 63" using r by linarith
  then have "k = 0" by (simp add: abs_mult)
  then show ?thesis using k fits_sint [of "i * j"] by (simp add: z_def)
qed

text \<open>
  The portable test for the overflow of a multiplication, which divides the wrapped product
  back, holds exactly when the exact product is out of the range of \<open>Int\<close>.
\<close>

lemma mul_overflow_correct: "mul_overflow (i * j) i j \<longleftrightarrow> \<not> fits_Int (sint i * sint j)"
proof (cases "i = Int_MIN \<and> j = - 1")
  case True
  then have "sint i * sint j = 2 ^ 63" by simp
  then have "\<not> fits_Int (sint i * sint j)" by (simp add: fits_Int_def)
  with True show ?thesis by (simp add: mul_overflow_def)
next
  case notmin: False
  show ?thesis
  proof (cases "j = 0")
    case True
    then show ?thesis by (simp add: mul_overflow_def fits_Int_def)
  next
    case False
    then have j: "sint j \<noteq> 0" by (simp add: eq_zero_iff_sint)
    have test: "mul_overflow (i * j) i j \<longleftrightarrow> c_div (i * j) j \<noteq> i"
      using False notmin by (auto simp: mul_overflow_def)
    show ?thesis
    proof (cases "fits_Int (sint i * sint j)")
      case True
      then have m: "sint (i * j) = sint i * sint j" by (rule sint_mult_fits)
      have "\<not> (i * j = Int_MIN \<and> j = - 1)"
      proof
        assume a: "i * j = Int_MIN \<and> j = - 1"
        then have "i * j = Int_MIN" ..
        then have "sint (i * j) = - (2 ^ 63)" by (simp only: sint_Int_MIN)
        with m have "sint i * sint j = - (2 ^ 63)" by (rule subst)
        moreover have "sint j = - 1" using a by simp
        ultimately have "sint i = 2 ^ 63" by (simp only: mult_minus1_right)
        with fits_sint [of i] show False by (simp add: fits_Int_def)
      qed
      then have "sint (c_div (i * j) j) = sint i * sint j sdiv sint j"
        by (simp only: sint_c_div m not_False_eq_True)
      also have "\<dots> = sint i" using j by (simp add: sdiv_div)
      finally show ?thesis using True test by simp
    next
      case of: False
      have "c_div (i * j) j \<noteq> i"
        using mult_wrapped_quotient [OF _ j notmin] of by blast
      with of test show ?thesis by simp
    qed
  qed
qed

text \<open>
  C22: the portable overflow tests of the header are equivalent to the compiler builtins. The sign test of a
  wrapped difference and the division test of a wrapped product hold exactly when the exact result is out
  of the range of \<open>Int\<close>.
\<close>

theorem overflow_tests_correct:
  "(sub_overflow (i - j) i j \<longleftrightarrow> \<not> fits_Int (sint i - sint j))
    \<and> (mul_overflow (i * j) i j \<longleftrightarrow> \<not> fits_Int (sint i * sint j))"
  using sub_overflow_correct mul_overflow_correct by blast

section \<open>Bits and digits\<close>

text \<open>
  The binary search for the most significant bit of a positive \<open>Int\<close> finds its position: the
  number lies between that power of two and the next.
\<close>

theorem Yap_msb_correct:
  assumes "no_ffsll E" and "0 < sint i"
  shows "\<exists>m. Yap_msb E i = Inr m \<and> unat m < 63 \<and> 2 ^ unat m \<le> unat i \<and> unat i < 2 ^ (unat m + 1)"
  by (rule msb_correct [OF assms]) blast

theorem Yap_msb_correct_witness: "\<exists>m. Yap_msb ref_env 1000 = Inr m \<and> 2 ^ unat m \<le> (1000 :: nat) \<and> 1000 < (2 :: nat) ^ (unat m + 1)"
  using Yap_msb_correct [OF ref_no_ffsll, of 1000] by (auto simp: sint_small)

text \<open>
  C23: a 64 bit integer outside the gap of the tagged representation, the most negative one
  included, that is written in decimal by the C library and read back by GMP becomes a canonical
  term that reads as the same integer.
\<close>

theorem decimal_roundtrip:
  assumes "gmp E" and "\<not> tag_gap (sint i)"
  shows "\<exists>t. Yap_gmp_big_from_64bits E i = Inr t \<and> canonical t \<and> int_val t = Some (sint i)"
  using int_arg_int_term [OF assms(2)] gmp.big_from_64bits [OF assms(1), of i]
  by (simp add: int_arg_def int_term_def word_of_int_sint)

theorem decimal_roundtrip_witness:
  "\<exists>t. Yap_gmp_big_from_64bits ref_env Int_MIN = Inr t \<and> int_val t = Some (- (2 ^ 63))"
  using decimal_roundtrip [OF ref.gmp_axioms, of Int_MIN] by (auto simp: tag_gap_def)

end
