(* ===== verification/YapArithDeviations.thy ===== *)
theory YapArithDeviations
  imports YapArithProps
begin

text \<open>
  The inputs on which the arithmetic of the code gives another number than the documented
  function: what it returns there, proved on the same definitions as the exactness theorems. A
  signed overflow is modelled as wrapping, which is what the compilers used for the program do
  for these expressions.
\<close>

context gmp
begin

lemma div_rounds_down:
  assumes "int_arg s x" and "int_arg t y" and "\<not> fits_Int x" and "fits_Int y"
    and "x < 0" and "0 < y" and "\<not> y dvd x"
  shows "p_div E s t = box_int E (x sdiv y - 1)"
  using assms(1)
proof (cases rule: int_arg_cases)
  case small
  with assms(3) show ?thesis by simp
next
  case s: big
  from assms(2) show ?thesis
  proof (cases rule: int_arg_cases)
    case t: small
    have "p_div E s t = box_int E (x div y)"
      using t(1,3) assms(6) by (auto simp: s(1) p_div_def div_big_int c_less_def)
    moreover have "x div y = x sdiv y - 1"
      using assms(5,6,7) by (simp add: signed_divide_int_def div_eq_div_abs [of x])
    ultimately show ?thesis by simp
  next
    case big
    with assms(4) show ?thesis by simp
  qed
qed

lemma mod_int_big_zero:
  assumes "0 < z"
  shows "p_mod E (IntT 0) (BigT z) = box_int E z"
  using assms by (simp add: p_mod_def gmp_simps c_less_def)

lemma gcd_int_big_zero: "p_gcd E (IntT 0) (BigT z) = Inr (IntT 0)"
  by (simp add: p_gcd_def gmp_defs c_less_def)

end

text \<open>
  The quotient \<open>//\<close> truncates on machine integers, but a negative bignum divided by a positive
  machine integer rounds down: the result is one less than the truncated quotient whenever the
  division is not exact.
\<close>

theorem bignum_quotient_rounds_down:
  assumes "gmp E" and "int_arg s x" and "int_arg t y" and "\<not> fits_Int x" and "fits_Int y"
    and "x < 0" and "0 < y" and "\<not> y dvd x"
  shows "returns E (eval2 E op_div s t) (x sdiv y - 1)"
  using gmp.div_rounds_down [OF assms] by (simp add: returns_boxI)

theorem bignum_quotient_rounds_down_witness:
  "returns ref_env (eval2 ref_env op_div (BigT (- (2 ^ 70) - 1)) (IntT 2)) (- (2 ^ 69) - 1)"
proof -
  have "int_arg (BigT (- (2 ^ 70) - 1)) (- (2 ^ 70) - 1 :: int)" "int_arg (IntT 2) 2"
    by (simp_all add: int_arg_def fits_Int_def sint_small)
  from bignum_quotient_rounds_down [OF ref.gmp_axioms this]
  have "returns ref_env (eval2 ref_env op_div (BigT (- (2 ^ 70) - 1)) (IntT 2))
      ((- (2 ^ 70) - 1) sdiv 2 - 1)"
    by (simp add: fits_Int_def)
  then show ?thesis by (simp add: signed_divide_int_def)
qed

text \<open>
  The floored division of machine integers subtracts the modulus from the dividend first, and
  that subtraction overflows near the most negative \<open>Int\<close>: its quotient by 3 is positive.
\<close>

theorem floored_division_wraps:
  "eval2 E op_idiv (LongT Int_MIN) (IntT 3) = RINT 3074457345618258602"
proof -
  have "floored_mod Int_MIN 3 = 1"
    by (simp add: floored_mod_def Let_def c_mod_def c_less_def sint_small signed_modulo_int_def)
  moreover have "c_div (Int_MIN - 1) 3 = 3074457345618258602"
    by (simp add: c_div_def sint_small signed_divide_int_def)
  ultimately show ?thesis by (simp add: p_div2_def)
qed

text \<open>
  The power of machine integers predicts an overflow from the most significant bit of the base,
  rounded down, times the exponent. When that estimate is at most 61 the result is the power
  modulo \<open>2 ^ 64\<close>, also where the exact power is out of range, as for \<open>3 ^ 41\<close>.
\<close>

theorem power_wraps:
  assumes "no_ffsll E" and "int_arg s x" and "int_arg t p" and "fits_Int x" and "x \<noteq> 0" and "x \<noteq> - (2 ^ 63)"
    and "0 < p" and "p < 2 ^ 57" and "\<not> power_flagged x p" and "(word_of_int (x ^ nat p) :: cint) \<noteq> 0"
  shows "eval2 E op_power s t = RINT (word_of_int (x ^ nat p))"
  using assms(2)
proof (cases rule: int_arg_cases)
  case s: small
  from assms(3) show ?thesis
  proof (cases rule: int_arg_cases)
    case t: small
    have n: "unat (IntegerOfTerm t) = nat p"
      using assms(7) t(3) by (simp add: unat_eq_nat_uint uint_eq_sint)
    have w: "IntegerOfTerm s ^ nat p = word_of_int (x ^ nat p)"
      by (simp add: word_of_int_sint flip: s(3))
    have ip: "ipow E (IntegerOfTerm s) (IntegerOfTerm t)
        = (Inr (word_of_int (x ^ nat p)) :: (yap_error \<times> 'a trm) + cint)"
      using ipow_correct [of "IntegerOfTerm t" "IntegerOfTerm s" E] assms(1,5-9) s(3) t(3)
      by (simp add: n w eq_Int_MIN_iff eq_zero_iff_sint)
    from s(1) t(1) assms(7,10) t(3) show ?thesis
      by (simp add: p_exp_def ip c_less_def)
  next
    case big
    with assms(7,8) show ?thesis by (simp add: fits_Int_def)
  qed
next
  case big
  with assms(4) show ?thesis by simp
qed

theorem power_wraps_witness:
  "eval2 ref_env op_power (IntT 3) (IntT 41) = RINT (word_of_int (3 ^ 41)) \<and> \<not> fits_Int (3 ^ 41)"
proof -
  have args: "int_arg (IntT 3) 3" "int_arg (IntT 41) 41"
    by (simp_all add: int_arg_def sint_small IntInBnd_iff)
  have "bit_len 3 = 2" using bit_len_unique [of 1 3] by simp
  then have "\<not> power_flagged 3 41" by (simp add: power_flagged_def)
  moreover have "(word_of_int (3 ^ nat 41) :: cint) \<noteq> 0"
    by simp
  ultimately show ?thesis
    using power_wraps [OF ref_no_ffsll args] by (simp add: fits_Int_def)
qed

text \<open>
  Zero modulo a positive bignum is the bignum itself, not zero.
\<close>

lemma mod_of_zero_by_bignum:
  assumes "gmp E" and "0 < z"
  shows "returns E (eval2 E op_mod (IntT 0) (BigT z)) z"
  using gmp.mod_int_big_zero [OF assms] by (simp add: returns_boxI)

lemma mod_of_zero_by_bignum_witness:
  "returns ref_env (eval2 ref_env op_mod (IntT 0) (BigT (2 ^ 70))) (2 ^ 70)"
  by (rule mod_of_zero_by_bignum [OF ref.gmp_axioms]) simp

text \<open>
  The greatest common divisor of the integer zero and a bignum is zero, not the absolute value
  of the bignum.
\<close>

lemma gcd_of_zero_and_bignum: "eval2 E op_gcd (IntT 0) (BigT z) = Inr (IntT 0)"
  by (simp add: p_gcd_def gmp_defs c_less_def)

text \<open>
  C24: with a zero first operand two bignum operations are wrong: zero modulo a positive bignum is the
  bignum itself, and the greatest common divisor of zero and a bignum is zero.
\<close>

theorem zero_and_bignum:
  assumes "gmp E" and "0 < z"
  shows "returns E (eval2 E op_mod (IntT 0) (BigT z)) z \<and> eval2 E op_gcd (IntT 0) (BigT z) = Inr (IntT 0)"
  using mod_of_zero_by_bignum [OF assms] gcd_of_zero_and_bignum by blast

theorem zero_and_bignum_witness:
  "returns ref_env (eval2 ref_env op_mod (IntT 0) (BigT (2 ^ 70))) (2 ^ 70)
    \<and> eval2 ref_env op_gcd (IntT 0) (BigT (2 ^ 70)) = Inr (IntT 0)"
  by (rule zero_and_bignum [OF ref.gmp_axioms]) simp

end
