(* ===== verification/YapCompare.thy ===== *)
theory YapCompare
  imports YapEval
begin

text \<open>
  The standard order of terms and the arithmetic comparisons, \<open>C/cmppreds.c\<close>. Results are the
  \<open>Int\<close>s of the code, of which callers use the sign: a difference of machine words is the word
  difference read as an \<open>Int\<close>, so it wraps around, while the \<open>int\<close>s returned by the C library and
  by GMP are integers.

  Two terms are compared first by their cells. Equal cells are the same term, but two boxes with
  the same contents are different cells, so this identity test is an argument \<open>same\<close> of the
  definitions; the locale \<open>cell_identity\<close> states what the tagging guarantees of it. Terms are trees:
  while it descends into a compound argument the code overwrites the cell it came from, to end on
  cyclic terms, and restores it on the way back.
\<close>

locale cell_identity =
  fixes same :: "'f trm \<Rightarrow> 'f trm \<Rightarrow> bool"
  assumes same_eq: "same s t \<Longrightarrow> s = t"
    and same_atom: "same (AtmT a) (AtmT a)"
    and same_int: "same (IntT i) (IntT i)"

interpretation structural: cell_identity "(=)"
  by unfold_locales simp_all

section \<open>Cells\<close>

text \<open>The C library's comparison of strings, bytes being unsigned.\<close>

fun strcmp :: "string \<Rightarrow> string \<Rightarrow> int" where
  "strcmp [] [] = 0"
| "strcmp [] (d # ds) = - 1"
| "strcmp (c # cs) [] = 1"
| "strcmp (c # cs) (d # ds) =
    (if c = d then strcmp cs ds else if (of_char c :: nat) < of_char d then - 1 else 1)"

definition cmp_atoms :: "string \<Rightarrow> string \<Rightarrow> int" where
  "cmp_atoms a1 a2 = strcmp a1 a2"

definition rfloat :: "'f env \<Rightarrow> 'f \<Rightarrow> int" where
  "rfloat E x = (if f_less E (f_of_Int E 0) x then 1 else if f_eq E x (f_of_Int E 0) then 0 else - 1)"

text \<open>Subtraction of two \<open>Int\<close>s or of two addresses.\<close>

definition word_diff :: "64 word \<Rightarrow> 64 word \<Rightarrow> int" where
  "word_diff a b = sint (a - b)"

fun RefOfTerm :: "'f trm \<Rightarrow> cell" where
  "RefOfTerm (DBRefT p) = p"
| "RefOfTerm _ = undefined"

fun StringOfTerm :: "'f trm \<Rightarrow> string" where
  "StringOfTerm (StrT s) = s"
| "StringOfTerm _ = undefined"

section \<open>Nested terms\<close>

text \<open>
  What the body of the loop does with two arguments: stop with a result, go on with the next pair,
  or push the rest of this level and visit the arguments of two compound terms.
\<close>

datatype 'f visit = Done int | Next | Visit "'f trm list" "'f trm list"

definition done_unless_zero :: "int \<Rightarrow> 'f visit" where
  "done_unless_zero out = (if out \<noteq> 0 then Done out else Next)"

fun visit_var :: "cell \<Rightarrow> 'f trm \<Rightarrow> 'f visit" where
  "visit_var p (VarT q) = done_unless_zero (word_diff p q)"
| "visit_var p _ = Done (- 1)"

fun visit_atom :: "string \<Rightarrow> 'f trm \<Rightarrow> 'f visit" where
  "visit_atom a (AtmT b) = Done (cmp_atoms a b)"
| "visit_atom a t = Done (if IsPrimitiveTerm t then 1 else - 1)"

text \<open>The branches of tagged and of boxed integers are the same but for how they read \<open>d0\<close>.\<close>

definition visit_int :: "'f env \<Rightarrow> cint \<Rightarrow> 'f trm \<Rightarrow> 'f visit" where
  "visit_int E i d1 = done_unless_zero
    (if IsInt_trm d1 then word_diff i (IntegerOfTerm d1)
     else if IsFloatTerm d1 then 1
     else if IsLongIntTerm d1 then word_diff i (IntegerOfTerm d1)
     else if IsBigIntTerm d1 then Yap_gmp_tcmp_int_big E i d1
     else if IsDBRef_trm d1 then 1
     else - 1)"

definition visit_float :: "'f env \<Rightarrow> 'f \<Rightarrow> 'f trm \<Rightarrow> 'f visit" where
  "visit_float E d d1 = done_unless_zero
    (if IsFloatTerm d1 then rfloat E (f_sub E d (FloatOfTerm d1))
     else if IsDBRef_trm d1 then 1
     else - 1)"

definition visit_string :: "string \<Rightarrow> 'f trm \<Rightarrow> 'f visit" where
  "visit_string s d1 = done_unless_zero
    (if IsStringTerm d1 then strcmp s (StringOfTerm d1)
     else if IsInt_trm d1 \<or> IsFloatTerm d1 \<or> IsLongIntTerm d1 \<or> IsBigIntTerm d1 \<or> IsDBRef_trm d1 then 1
     else - 1)"

definition visit_big :: "'f env \<Rightarrow> 'f trm \<Rightarrow> 'f trm \<Rightarrow> 'f visit" where
  "visit_big E d0 d1 = done_unless_zero
    (if IsInt_trm d1 then Yap_gmp_tcmp_big_int E d0 (IntegerOfTerm d1)
     else if IsFloatTerm d1 then 1
     else if IsLongIntTerm d1 then Yap_gmp_tcmp_big_int E d0 (IntegerOfTerm d1)
     else if IsBigIntTerm d1 then Yap_gmp_tcmp_big_big E d0 d1
     else if IsDBRef_trm d1 then 1
     else - 1)"

text \<open>A pair meets a compound term: by arity, then by name.\<close>

fun visit_pair :: "'f trm \<Rightarrow> 'f trm \<Rightarrow> 'f trm \<Rightarrow> 'f visit" where
  "visit_pair h t (PairT h' t') = Visit [h, t] [h', t']"
| "visit_pair h t (ApplT f args) =
    Done (if 2 - int (length args) \<noteq> 0 then 2 - int (length args) else strcmp ''.'' f)"
| "visit_pair h t _ = Done 1"

definition visit_ref :: "cell \<Rightarrow> 'f trm \<Rightarrow> 'f visit" where
  "visit_ref p d1 = Done (if IsDBRef_trm d1 then word_diff (RefOfTerm d1) p else - 1)"

fun visit_appl :: "string \<Rightarrow> 'f trm list \<Rightarrow> 'f trm \<Rightarrow> 'f visit" where
  "visit_appl f args (ApplT g args') =
    (if f \<noteq> g \<or> length args \<noteq> length args' then
       Done (let out = int (length args) - int (length args') in if out \<noteq> 0 then out else cmp_atoms f g)
     else Visit args args')"
| "visit_appl f args d1 = Done (if IsAppl_trm d1 then - 1 else 1)"

definition visit :: "'f env \<Rightarrow> ('f trm \<Rightarrow> 'f trm \<Rightarrow> bool) \<Rightarrow> 'f trm \<Rightarrow> 'f trm \<Rightarrow> 'f visit" where
  "visit E same d0 d1 =
    (if IsVar_trm d0 \<and> IsVar_trm d1 then visit_var (case d0 of VarT p \<Rightarrow> p) d1
     else if IsVar_trm d0 then Done (- 1)
     else if IsVar_trm d1 then Done 1
     else if same d0 d1 then Next
     else case d0 of
       AtmT a \<Rightarrow> visit_atom a d1
     | IntT i \<Rightarrow> visit_int E i d1
     | FltT d \<Rightarrow> visit_float E d d1
     | StrT s \<Rightarrow> visit_string s d1
     | LongT i \<Rightarrow> visit_int E i d1
     | PairT h t \<Rightarrow> visit_pair h t d1
     | DBRefT p \<Rightarrow> visit_ref p d1
     | ApplT f args \<Rightarrow> visit_appl f args d1
     | _ \<Rightarrow> visit_big E d0 d1)"

lemma size_list_mult: "size_list (\<lambda>t. 2 * f t) xs \<le> 2 * size_list f xs"
  by (induction xs) auto

lemma visit_size:
  assumes "visit E same d0 d1 = Visit xs ys"
  shows "size_list (\<lambda>t. 2 * (2 * size t)) xs < 2 * (2 * size d0)"
proof -
  note mult = size_list_mult [of "\<lambda>t. 2 * size t"] size_list_mult [of size]
  from assms have "(\<exists>h t. d0 = PairT h t \<and> xs = [h, t]) \<or> (\<exists>f. d0 = ApplT f xs)"
    by (auto simp: visit_def visit_int_def visit_float_def visit_string_def visit_big_def
        visit_ref_def done_unless_zero_def Let_def
        elim!: visit_var.elims visit_atom.elims visit_pair.elims visit_appl.elims
        split: if_splits trm.splits)
  then show ?thesis
    using order_trans [OF mult(1) [of xs] mult_le_mono2 [OF mult(2) [of xs], of 2]] by auto
qed

text \<open>
  The loop of \<open>compare_complex\<close>. A frame is the arguments left at one level of both terms; the stack
  \<open>to_visit\<close> holds the frames of the enclosing levels. The two lists of a frame have the same length.
\<close>

function (sequential) compare_complex ::
    "'f env \<Rightarrow> ('f trm \<Rightarrow> 'f trm \<Rightarrow> bool) \<Rightarrow> 'f trm list \<Rightarrow> 'f trm list
      \<Rightarrow> ('f trm list \<times> 'f trm list) list \<Rightarrow> int" where
  "compare_complex E same (d0 # xs) (d1 # ys) to_visit = (case visit E same d0 d1 of
      Done out \<Rightarrow> out
    | Next \<Rightarrow> compare_complex E same xs ys to_visit
    | Visit xs' ys' \<Rightarrow> compare_complex E same xs' ys' ((xs, ys) # to_visit))"
| "compare_complex E same [] ys ((xs', ys') # to_visit) = compare_complex E same xs' ys' to_visit"
| "compare_complex E same [] ys [] = 0"
| "compare_complex E same (d0 # xs) [] to_visit = undefined"
  by pat_completeness auto

termination
  by (relation "measure (\<lambda>(E, same, xs, ys, to_visit).
      size_list (\<lambda>t. 2 * (2 * size t)) xs
      + size_list (\<lambda>(as, bs). size_list (\<lambda>t. 2 * (2 * size t)) as) to_visit)")
    (auto dest: visit_size)

section \<open>The standard order\<close>

fun compare_atom :: "string \<Rightarrow> 'f trm \<Rightarrow> int" where
  "compare_atom a (AtmT b) = cmp_atoms a b"
| "compare_atom a t = (if IsPrimitiveTerm t then 1 else if IsStringTerm t then 1 else - 1)"

fun compare_tagged_int :: "'f env \<Rightarrow> cint \<Rightarrow> 'f trm \<Rightarrow> int" where
  "compare_tagged_int E i (IntT j) = word_diff i j"
| "compare_tagged_int E i (FltT d) = 1"
| "compare_tagged_int E i (LongT j) = word_diff i j"
| "compare_tagged_int E i (BigT z) = Yap_gmp_tcmp_int_big E i (BigT z)"
| "compare_tagged_int E i (RatT q) = Yap_gmp_tcmp_int_big E i (RatT q)"
| "compare_tagged_int E i (BlobT b p) = Yap_gmp_tcmp_int_big E i (BlobT b p)"
| "compare_tagged_int E i (DBRefT p) = 1"
| "compare_tagged_int E i (StrT s) = - 1"
| "compare_tagged_int E i t = - 1"

fun compare_pair ::
    "'f env \<Rightarrow> ('f trm \<Rightarrow> 'f trm \<Rightarrow> bool) \<Rightarrow> 'f trm \<Rightarrow> 'f trm \<Rightarrow> 'f trm \<Rightarrow> int" where
  "compare_pair E same h t (ApplT f args) =
    (if \<not> (f = ''.'' \<and> length args = 2) then strcmp ''.'' f
     else compare_complex E same [h, t] args [])"
| "compare_pair E same h t (PairT h' t') = compare_complex E same [h, t] [h', t'] []"
| "compare_pair E same h t t2 = 1"

definition compare_float :: "'f env \<Rightarrow> 'f \<Rightarrow> 'f trm \<Rightarrow> int" where
  "compare_float E d t2 =
    (if IsFloatTerm t2 then rfloat E (f_sub E d (FloatOfTerm t2))
     else if IsDBRef_trm t2 then 1 else - 1)"

definition compare_long_int :: "'f env \<Rightarrow> cint \<Rightarrow> 'f trm \<Rightarrow> int" where
  "compare_long_int E i t2 =
    (if IsInt_trm t2 then word_diff i (IntegerOfTerm t2)
     else if IsFloatTerm t2 then 1
     else if IsLongIntTerm t2 then word_diff i (IntegerOfTerm t2)
     else if IsBigIntTerm t2 then Yap_gmp_tcmp_int_big E i t2
     else if IsDBRef_trm t2 then 1 else - 1)"

definition compare_big :: "'f env \<Rightarrow> 'f trm \<Rightarrow> 'f trm \<Rightarrow> int" where
  "compare_big E t1 t2 =
    (if IsInt_trm t2 then Yap_gmp_tcmp_big_int E t1 (IntegerOfTerm t2)
     else if IsFloatTerm t2 then 1
     else if IsLongIntTerm t2 then Yap_gmp_tcmp_big_int E t1 (IntegerOfTerm t2)
     else if IsBigIntTerm t2 then Yap_gmp_tcmp_big_big E t1 t2
     else if IsDBRef_trm t2 then 1 else - 1)"

fun compare_string :: "string \<Rightarrow> 'f trm \<Rightarrow> int" where
  "compare_string s (StrT r) = strcmp s r"
| "compare_string s t2 =
    (if IsFloatTerm t2 \<or> IsLongIntTerm t2 \<or> IsBigIntTerm t2 \<or> IsDBRef_trm t2 then 1 else - 1)"

definition compare_ref :: "cell \<Rightarrow> 'f trm \<Rightarrow> int" where
  "compare_ref p t2 = (if IsDBRef_trm t2 then word_diff (RefOfTerm t2) p else - 1)"

text \<open>
  Against a pair, the test on the arity is \<open>!(out = arity) - 2\<close>, which negates the arity before it
  subtracts.
\<close>

fun compare_appl ::
    "'f env \<Rightarrow> ('f trm \<Rightarrow> 'f trm \<Rightarrow> bool) \<Rightarrow> string \<Rightarrow> 'f trm list \<Rightarrow> 'f trm \<Rightarrow> int" where
  "compare_appl E same f args (PairT h t) =
    (let out = int (length args) in
     if (if out = 0 then 1 else 0) - (2 :: int) \<noteq> 0 then strcmp f ''.'' else out)"
| "compare_appl E same f args (ApplT g args') =
    (let r = int (length args) - int (length args') in
     if r \<noteq> 0 then r
     else let r = cmp_atoms f g in
       if r \<noteq> 0 then r else compare_complex E same args args' [])"
| "compare_appl E same f args t2 = 1"

definition compare :: "'f env \<Rightarrow> ('f trm \<Rightarrow> 'f trm \<Rightarrow> bool) \<Rightarrow> 'f trm \<Rightarrow> 'f trm \<Rightarrow> int" where
  "compare E same t1 t2 =
    (if same t1 t2 then 0
     else case t1 of
       VarT p \<Rightarrow> (case t2 of VarT q \<Rightarrow> word_diff p q | _ \<Rightarrow> - 1)
     | _ \<Rightarrow> if IsVar_trm t2 then 1 else (case t1 of
         AtmT a \<Rightarrow> compare_atom a t2
       | IntT i \<Rightarrow> compare_tagged_int E i t2
       | PairT h t \<Rightarrow> compare_pair E same h t t2
       | FltT d \<Rightarrow> compare_float E d t2
       | LongT i \<Rightarrow> compare_long_int E i t2
       | StrT s \<Rightarrow> compare_string s t2
       | DBRefT p \<Rightarrow> compare_ref p t2
       | ApplT f args \<Rightarrow> compare_appl E same f args t2
       | _ \<Rightarrow> compare_big E t1 t2))"

definition Yap_compare_terms :: "'f env \<Rightarrow> ('f trm \<Rightarrow> 'f trm \<Rightarrow> bool) \<Rightarrow> 'f trm \<Rightarrow> 'f trm \<Rightarrow> int" where
  "Yap_compare_terms E same d0 d1 = compare E same d0 d1"

text \<open>
  \<open>compare/3\<close>: the order as an atom, unified with the first argument. The result is what the goal
  does: it fails, succeeds, or succeeds binding a variable.
\<close>

datatype 'f outcome = Fails | Succeeds | Binds cell "'f trm"

definition p_compare ::
    "'f env \<Rightarrow> ('f trm \<Rightarrow> 'f trm \<Rightarrow> bool) \<Rightarrow> 'f trm \<Rightarrow> 'f trm \<Rightarrow> 'f trm
      \<Rightarrow> (yap_error \<times> 'f trm) + 'f outcome" where
  "p_compare E same a1 a2 a3 =
    (let r = compare E same a2 a3;
         p = (if r < 0 then ''<'' else if r > 0 then ''>'' else ''='')
     in case a1 of
       VarT v \<Rightarrow> Inr (Binds v (AtmT p))
     | AtmT a \<Rightarrow>
         (if a = p then Inr Succeeds
          else if a \<noteq> ''<'' \<and> a \<noteq> ''>'' \<and> a \<noteq> ''='' then ArithError DOMAIN_ERROR_ORDER a1
          else Inr Fails)
     | _ \<Rightarrow> ArithError TYPE_ERROR_ATOM a1)"

definition a_noteq :: "'f env \<Rightarrow> ('f trm \<Rightarrow> 'f trm \<Rightarrow> bool) \<Rightarrow> 'f trm \<Rightarrow> 'f trm \<Rightarrow> bool" where
  "a_noteq E same t1 t2 \<longleftrightarrow> compare E same t1 t2 \<noteq> 0"

definition a_gen_lt :: "'f env \<Rightarrow> ('f trm \<Rightarrow> 'f trm \<Rightarrow> bool) \<Rightarrow> 'f trm \<Rightarrow> 'f trm \<Rightarrow> bool" where
  "a_gen_lt E same t1 t2 \<longleftrightarrow> compare E same t1 t2 < 0"

definition a_gen_le :: "'f env \<Rightarrow> ('f trm \<Rightarrow> 'f trm \<Rightarrow> bool) \<Rightarrow> 'f trm \<Rightarrow> 'f trm \<Rightarrow> bool" where
  "a_gen_le E same t1 t2 \<longleftrightarrow> compare E same t1 t2 \<le> 0"

definition a_gen_gt :: "'f env \<Rightarrow> ('f trm \<Rightarrow> 'f trm \<Rightarrow> bool) \<Rightarrow> 'f trm \<Rightarrow> 'f trm \<Rightarrow> bool" where
  "a_gen_gt E same t1 t2 \<longleftrightarrow> compare E same t1 t2 > 0"

definition a_gen_ge :: "'f env \<Rightarrow> ('f trm \<Rightarrow> 'f trm \<Rightarrow> bool) \<Rightarrow> 'f trm \<Rightarrow> 'f trm \<Rightarrow> bool" where
  "a_gen_ge E same t1 t2 \<longleftrightarrow> compare E same t1 t2 \<ge> 0"

section \<open>Arithmetic comparison\<close>

definition int_cmp :: "cint \<Rightarrow> int" where
  "int_cmp dif = sint dif"

definition flt_cmp :: "'f env \<Rightarrow> 'f \<Rightarrow> int" where
  "flt_cmp E dif =
    (if f_less E dif (f_of_Int E 0) then - 1 else if f_less E (f_of_Int E 0) dif then 1 else 0)"

definition Yap_Eval :: "'f env \<Rightarrow> 'f trm \<Rightarrow> 'f res" where
  "Yap_Eval E t = (if t = null_trm \<or> (\<not> IsVar_trm t \<and> IsNumTerm t) then Inr t else Eval E t)"

text \<open>A value that is no number, such as the null term, compares as 0.\<close>

definition a_cmp_int :: "'f env \<Rightarrow> cint \<Rightarrow> 'f trm \<Rightarrow> (yap_error \<times> 'f trm) + int" where
  "a_cmp_int E i1 t2 = bindE (Yap_Eval E t2) (\<lambda>t2.
    if IsIntegerTerm t2 then Inr (int_cmp (i1 - IntegerOfTerm t2))
    else if IsFloatTerm t2 then
      (if f_isnan E (FloatOfTerm t2) then ArithError EVALUATION_ERROR_UNDEFINED t2
       else Inr (flt_cmp E (f_sub E (f_of_Int E i1) (FloatOfTerm t2))))
    else if IsBigIntTerm t2 then Inr (Yap_gmp_cmp_int_big E i1 t2)
    else Inr 0)"

definition a_cmp_float :: "'f env \<Rightarrow> 'f trm \<Rightarrow> 'f trm \<Rightarrow> (yap_error \<times> 'f trm) + int" where
  "a_cmp_float E t1 t2 = (let f1 = FloatOfTerm t1 in
    if f_isnan E f1 then ArithError EVALUATION_ERROR_UNDEFINED t1
    else bindE (Yap_Eval E t2) (\<lambda>t2.
      if IsIntegerTerm t2 then Inr (flt_cmp E (f_sub E f1 (f_of_Int E (IntegerOfTerm t2))))
      else if IsFloatTerm t2 then
        (if f_isnan E (FloatOfTerm t2) then ArithError EVALUATION_ERROR_UNDEFINED t2
         else Inr (flt_cmp E (f_sub E f1 (FloatOfTerm t2))))
      else if IsBigIntTerm t2 then Inr (Yap_gmp_cmp_float_big E f1 t2)
      else Inr 0))"

definition a_cmp_big :: "'f env \<Rightarrow> 'f trm \<Rightarrow> 'f trm \<Rightarrow> (yap_error \<times> 'f trm) + int" where
  "a_cmp_big E t1 t2 = bindE (Yap_Eval E t2) (\<lambda>t2.
    if IsIntegerTerm t2 then Inr (Yap_gmp_cmp_big_int E t1 (IntegerOfTerm t2))
    else if IsFloatTerm t2 then
      (if f_isnan E (FloatOfTerm t2) then ArithError EVALUATION_ERROR_UNDEFINED t2
       else Inr (Yap_gmp_cmp_big_float E t1 (FloatOfTerm t2)))
    else if IsBigIntTerm t2 then Inr (Yap_gmp_cmp_big_big E t1 t2)
    else Inr 0)"

definition a_cmp :: "'f env \<Rightarrow> 'f trm \<Rightarrow> 'f trm \<Rightarrow> (yap_error \<times> 'f trm) + int" where
  "a_cmp E t1 t2 =
    (if IsVar_trm t1 then ArithError INSTANTIATION_ERROR t1
     else if IsVar_trm t2 then ArithError INSTANTIATION_ERROR t2
     else if IsFloatTerm t1 \<and> IsFloatTerm t2 then
       Inr (flt_cmp E (f_sub E (FloatOfTerm t1) (FloatOfTerm t2)))
     else if IsIntegerTerm t1 \<and> IsIntegerTerm t2 then
       Inr (int_cmp (IntegerOfTerm t1 - IntegerOfTerm t2))
     else bindE (Yap_Eval E t1) (\<lambda>t1.
       if IsIntegerTerm t1 then a_cmp_int E (IntegerOfTerm t1) t2
       else if IsFloatTerm t1 then a_cmp_float E t1 t2
       else if IsBigIntTerm t1 then a_cmp_big E t1 t2
       else Inr 0))"

definition a_eq :: "'f env \<Rightarrow> 'f trm \<Rightarrow> 'f trm \<Rightarrow> (yap_error \<times> 'f trm) + bool" where
  "a_eq E t1 t2 =
    (if IsVar_trm t1 then ArithError INSTANTIATION_ERROR t1
     else if IsVar_trm t2 then ArithError INSTANTIATION_ERROR t2
     else if IsFloatTerm t1 \<and> IsFloatTerm t2 then Inr (f_eq E (FloatOfTerm t1) (FloatOfTerm t2))
     else if IsFloatTerm t1 \<and> IsIntegerTerm t2 then
       Inr (f_eq E (FloatOfTerm t1) (f_of_Int E (IntegerOfTerm t2)))
     else if IsIntegerTerm t1 \<and> IsIntegerTerm t2 then Inr (IntegerOfTerm t1 = IntegerOfTerm t2)
     else if IsIntegerTerm t1 \<and> IsFloatTerm t2 then
       Inr (f_eq E (FloatOfTerm t2) (f_of_Int E (IntegerOfTerm t1)))
     else bindE (a_cmp E t1 t2) (\<lambda>out. Inr (out = 0)))"

definition a_dif :: "'f env \<Rightarrow> 'f trm \<Rightarrow> 'f trm \<Rightarrow> (yap_error \<times> 'f trm) + bool" where
  "a_dif E t1 t2 = bindE (a_cmp E t1 t2) (\<lambda>out. Inr (out \<noteq> 0))"

definition a_gt :: "'f env \<Rightarrow> 'f trm \<Rightarrow> 'f trm \<Rightarrow> (yap_error \<times> 'f trm) + bool" where
  "a_gt E t1 t2 = bindE (a_cmp E t1 t2) (\<lambda>out. Inr (out > 0))"

definition a_ge :: "'f env \<Rightarrow> 'f trm \<Rightarrow> 'f trm \<Rightarrow> (yap_error \<times> 'f trm) + bool" where
  "a_ge E t1 t2 = bindE (a_cmp E t1 t2) (\<lambda>out. Inr (out \<ge> 0))"

definition a_lt :: "'f env \<Rightarrow> 'f trm \<Rightarrow> 'f trm \<Rightarrow> (yap_error \<times> 'f trm) + bool" where
  "a_lt E t1 t2 = bindE (a_cmp E t1 t2) (\<lambda>out. Inr (out < 0))"

definition a_le :: "'f env \<Rightarrow> 'f trm \<Rightarrow> 'f trm \<Rightarrow> (yap_error \<times> 'f trm) + bool" where
  "a_le E t1 t2 = bindE (a_cmp E t1 t2) (\<lambda>out. Inr (out \<le> 0))"

end
