(* ===== verification/YapCompareCorrect.thy ===== *)
theory YapCompareCorrect
  imports YapCompare YapArithProps "HOL-Library.Product_Lexorder" "HOL-Library.List_Lexorder"
    "HOL-Library.Char_ord"
begin

text \<open>
  The standard order as a linear order of keys. The key of a term is the list of its symbols in
  the order the comparison reads them; symbols are ordered by kind, then by number, then by name,
  and keys lexicographically, with the orders of the library. \<open>compare\<close> has the sign of the order
  of the keys on the domain \<open>order_dom\<close>, which leaves out the terms on which the code does not
  implement an order: pairs, strings, boxes inside compound terms, integers whose differences
  overflow.
\<close>

section \<open>Signs\<close>

definition sg :: "'a :: linorder \<Rightarrow> 'a \<Rightarrow> int" where
  "sg a b = (if a < b then - 1 else if a = b then 0 else 1)"

lemma sg_refl [simp]: "sg a a = 0"
  by (simp add: sg_def)

lemma sg_iff:
  "sg a b < 0 \<longleftrightarrow> a < b" "sg a b = 0 \<longleftrightarrow> a = b" "0 < sg a b \<longleftrightarrow> b < a"
  by (auto simp: sg_def)

lemma sgn_sg [simp]: "sgn (sg a b) = sg a b"
  by (simp add: sg_def)

lemma sgn_diff_sg: "sgn (a - b :: int) = sg a b"
  by (simp add: sg_def)

lemma sg_Cons: "sg (a # u) (b # v) = (if a = b then sg u v else sg a b)"
  by (auto simp: sg_def)

lemma sg_append [simp]: "sg (u @ v) (u @ w) = sg v w"
  by (induction u) (simp_all add: sg_Cons)

lemma sg_triple:
  "sg (a, b, c) (d, e, f) = (if a \<noteq> d then sg a d else if b \<noteq> e then sg b e else sg c f)"
  by (auto simp: sg_def less_prod_def')

lemma sg_of_int: "sg (of_int a :: rat) (of_int b) = sg a b"
  by (simp add: sg_def)

lemma sg_of_nat: "sg (of_nat a :: rat) (of_nat b) = sg a b"
  by (simp add: sg_def)

lemma sg_minus: "sg (- a :: rat) (- b) = sg b a"
  by (auto simp: sg_def)

lemma sg_int: "sg (int a) (int b) = sg a b"
  by (simp add: sg_def)

lemma strcmp_sg: "strcmp s t = sg s t"
  by (induction s t rule: strcmp.induct) (auto simp: sg_Cons sg_def less_char_def)

section \<open>Keys\<close>

type_synonym symbol = "nat \<times> rat \<times> string"

fun order_key :: "('f \<Rightarrow> rat) \<Rightarrow> 'f trm \<Rightarrow> symbol list" where
  "order_key fk (VarT p) = [(0, of_int (sint p), '''')]"
| "order_key fk (DBRefT p) = [(1, of_int (- sint p), '''')]"
| "order_key fk (FltT d) = [(2, fk d, '''')]"
| "order_key fk (RatT q) = [(3, q, '''')]"
| "order_key fk (IntT i) = [(4, of_int (sint i), '''')]"
| "order_key fk (LongT i) = [(4, of_int (sint i), '''')]"
| "order_key fk (BigT z) = [(4, of_int z, '''')]"
| "order_key fk (StrT s) = [(5, 0, s)]"
| "order_key fk (AtmT a) = [(6, 0, a)]"
| "order_key fk (ApplT f args) =
    (7, of_nat (length args), f) # concat (List.map (order_key fk) args)"
| "order_key fk (PairT h t) = (7, 2, ''.'') # order_key fk h @ order_key fk t"
| "order_key fk (BlobT b p) = [(8, 0, '''')]"

text \<open>Numbers whose differences fit an \<open>Int\<close>.\<close>

definition half_range :: "cint \<Rightarrow> bool" where
  "half_range i \<longleftrightarrow> - (2 ^ 62) \<le> sint i \<and> sint i < 2 ^ 62"

fun inner_dom :: "'f trm \<Rightarrow> bool" where
  "inner_dom (VarT p) = half_range p"
| "inner_dom (AtmT a) = True"
| "inner_dom (IntT i) = half_range i"
| "inner_dom (ApplT f args) = (\<forall>a \<in> set args. inner_dom a)"
| "inner_dom _ = False"

fun order_dom :: "'f set \<Rightarrow> 'f trm \<Rightarrow> bool" where
  "order_dom FD (FltT d) = (d \<in> FD)"
| "order_dom FD (LongT i) = half_range i"
| "order_dom FD (BigT z) = (\<not> fits_Int z)"
| "order_dom FD (RatT q) = True"
| "order_dom FD (StrT s) = False"
| "order_dom FD (DBRefT p) = half_range p"
| "order_dom FD t = inner_dom t"

text \<open>The doubles \<open>FD\<close> are ordered as the numbers \<open>fk\<close> by the sign of their differences.\<close>

definition float_order :: "'f env \<Rightarrow> ('f \<Rightarrow> rat) \<Rightarrow> 'f set \<Rightarrow> bool" where
  "float_order E fk FD \<longleftrightarrow> (\<forall>a \<in> FD. \<forall>b \<in> FD. rfloat E (f_sub E a b) = sg (fk a) (fk b))"

lemma word_diff_sg:
  assumes "half_range a" and "half_range b"
  shows "sgn (word_diff a b) = sg (sint a) (sint b)"
proof -
  have "fits_Int (sint a - sint b)"
    using assms by (auto simp: half_range_def fits_Int_def)
  then show ?thesis by (simp add: word_diff_def sint_diff_fits sgn_diff_sg)
qed

lemma word_diff_eq_0 [simp]: "word_diff a b = 0 \<longleftrightarrow> a = b"
proof -
  have "word_diff a b = 0 \<longleftrightarrow> a - b = 0" by (simp only: word_diff_def eq_zero_iff_sint)
  then show ?thesis by simp
qed

lemma done_unless_zero_cases:
  assumes "sgn out = sg a b"
  shows "done_unless_zero out = (if a = b then Next else Done out)"
  using assms sgn_eq_0_iff [of out] by (auto simp: done_unless_zero_def sg_iff)

section \<open>Nested terms\<close>

context cell_identity
begin

lemma visit_inner:
  assumes "inner_dom x" and "inner_dom y"
  shows "case visit E same x y of
      Done out \<Rightarrow> hd (order_key fk x) \<noteq> hd (order_key fk y)
        \<and> sgn out = sg (hd (order_key fk x)) (hd (order_key fk y))
    | Next \<Rightarrow> order_key fk x = order_key fk y
    | Visit xs ys \<Rightarrow> (\<exists>f. x = ApplT f xs \<and> y = ApplT f ys \<and> length xs = length ys)"
proof (cases x)
  case (VarT p)
  with assms show ?thesis
    by (cases y)
      (simp_all add: visit_def done_unless_zero_cases [OF word_diff_sg] word_diff_sg sg_triple
        sg_of_int sg_def [of 0])
next
  case (AtmT a)
  show ?thesis
  proof (cases "\<exists>b. y = AtmT b")
    case True
    then obtain b where b: "y = AtmT b" ..
    show ?thesis
    proof (cases "a = b")
      case True
      then show ?thesis using same_atom by (simp add: AtmT b visit_def)
    next
      case False
      then have "\<not> same x y" using same_eq by (auto simp: AtmT b)
      with False show ?thesis
        by (simp add: AtmT b visit_def sg_triple cmp_atoms_def strcmp_sg)
    qed
  next
    case False
    then have "\<not> same x y" using same_eq by (auto simp: AtmT)
    with assms False show ?thesis
      by (cases y) (simp_all add: AtmT visit_def sg_triple term_class, simp_all add: sg_def)
  qed
next
  case (IntT i)
  with assms same_int show ?thesis
    by (cases y) (auto simp: visit_def visit_int_def done_unless_zero_cases [OF word_diff_sg]
        word_diff_sg sg_triple sg_of_int done_unless_zero_def sg_def dest: same_eq)
next
  case (ApplT f xs)
  with assms show ?thesis
    by (cases y) (auto simp: visit_def sg_triple sg_of_nat sg_int cmp_atoms_def strcmp_sg Let_def
        sgn_diff_sg sg_def [of 7] dest: same_eq)
qed (use assms in simp_all)

end

text \<open>The symbols of one side of the frames still to visit.\<close>

abbreviation keys :: "('f \<Rightarrow> rat) \<Rightarrow> 'f trm list \<Rightarrow> symbol list" where
  "keys fk ts \<equiv> concat (List.map (order_key fk) ts)"

abbreviation frame_ok :: "'f trm list \<Rightarrow> 'f trm list \<Rightarrow> bool" where
  "frame_ok xs ys \<equiv> length xs = length ys \<and> (\<forall>t \<in> set xs. inner_dom t) \<and> (\<forall>t \<in> set ys. inner_dom t)"

lemma order_key_Cons: "order_key fk t = hd (order_key fk t) # tl (order_key fk t)"
  by (cases t) simp_all

lemma compare_complex_sg:
  assumes "cell_identity same" and "frame_ok xs ys" and "\<forall>(as, bs) \<in> set st. frame_ok as bs"
  shows "sgn (compare_complex E same xs ys st) =
    sg (keys fk xs @ concat (List.map (keys fk \<circ> fst) st))
       (keys fk ys @ concat (List.map (keys fk \<circ> snd) st))"
  using assms
proof (induction E same xs ys st rule: compare_complex.induct)
  case (1 E s d0 xs d1 ys st)
  have inner: "inner_dom d0" "inner_dom d1" using "1.prems"(2) by simp_all
  note visit = cell_identity.visit_inner [OF "1.prems"(1) inner, of fk E]
  show ?case
  proof (cases "visit E s d0 d1")
    case (Done out)
    with visit show ?thesis
      using order_key_Cons [of fk d0] order_key_Cons [of fk d1]
      by (simp add: sg_Cons) (metis append_Cons sg_Cons)
  next
    case Next
    with visit "1.IH"(1) "1.prems" show ?thesis by simp
  next
    case (Visit xs' ys')
    with visit obtain f where f: "d0 = ApplT f xs'" "d1 = ApplT f ys'" "length xs' = length ys'"
      by auto
    then have "frame_ok xs' ys'" using inner by simp
    with Visit f "1.IH"(2) "1.prems" show ?thesis by (simp add: sg_Cons)
  qed
qed auto

section \<open>The order\<close>

text \<open>Two kinds of terms are ordered by their rank.\<close>

lemma sg_rank:
  "a < d \<Longrightarrow> sg ((a :: nat, b :: rat, c :: string) # u) ((d, e, f) # v) = - 1"
  "d < a \<Longrightarrow> sg ((a :: nat, b :: rat, c :: string) # u) ((d, e, f) # v) = 1"
  by (auto simp: sg_Cons sg_triple sg_def)

lemma sg_same_rank:
  "sg [(a :: nat, b :: rat, c :: string)] [(a, e, f)] = (if b \<noteq> e then sg b e else sg c f)"
  by (auto simp: sg_Cons sg_triple)

lemma rat_tcmp:
  "Yap_gmp_tcmp_int_big E i (RatT q) = 1" "Yap_gmp_tcmp_big_int E (RatT q) i = - 1"
  by (simp_all add: gmp_defs)

lemmas compare_parts = compare_def compare_float_def compare_long_int_def compare_big_def
  compare_ref_def term_class cmp_atoms_def strcmp_sg sg_rank sg_same_rank sg_of_int sg_of_nat
  word_diff_sg

lemma compare_top:
  assumes E: "gmp E" and same: "cell_identity same" and fo: "float_order E fk FD"
    and s: "order_dom FD s" and t: "order_dom FD t"
  shows "sgn (compare E same s t) = sg (order_key fk s) (order_key fk t)"
proof (cases "same s t")
  case True
  then have "s = t" using cell_identity.same_eq [OF same] by simp
  with True show ?thesis by (simp add: compare_def)
next
  case False
  note big = gmp.tcmp_big_int [OF E] gmp.tcmp_big_big [OF E]
  show ?thesis
  proof (cases s)
    case (VarT p)
    with False s t show ?thesis by (cases t) (simp_all add: compare_parts)
  next
    case (AtmT a)
    with False s t show ?thesis by (cases t) (simp_all add: compare_parts)
  next
    case (IntT i)
    with False s t show ?thesis
      by (cases t) (simp_all add: compare_parts big rat_tcmp sgn_diff_sg)
  next
    case (LongT i)
    with False s t show ?thesis
      by (cases t) (simp_all add: compare_parts big rat_tcmp sgn_diff_sg)
  next
    case (FltT d)
    with False s t fo show ?thesis
      by (cases t) (simp_all add: compare_parts float_order_def)
  next
    case (BigT z)
    with False s t show ?thesis
      by (cases t) (simp_all add: compare_parts big sgn_diff_sg)
  next
    case (RatT q)
    with False s t show ?thesis
      by (cases t) (simp_all add: compare_parts big rat_tcmp sg_def [of q])
  next
    case (DBRefT p)
    with False s t show ?thesis by (cases t) (simp_all add: compare_parts sg_minus)
  next
    case (ApplT f args)
    show ?thesis
    proof (cases "\<exists>g args'. t = ApplT g args'")
      case True
      then obtain g args' where g: "t = ApplT g args'" by blast
      have "sgn (compare_complex E same args args' []) = sg (keys fk args) (keys fk args')"
        if "length args = length args'"
        using compare_complex_sg [OF same, of args args' "[]" E fk] that s t by (simp add: ApplT g)
      then show ?thesis
        using False by (simp add: ApplT g compare_def Let_def cmp_atoms_def strcmp_sg sgn_diff_sg
            sg_int sg_Cons sg_triple sg_of_nat sg_iff)
    next
      case not_appl: False
      with False s t show ?thesis by (cases t) (simp_all add: ApplT compare_parts)
    qed
  qed (use s in simp_all)
qed
section \<open>Ordering by a key\<close>

text \<open>
  What a sorting routine relies on: on the elements \<open>D\<close>, the sign of the comparison is the order of
  a key in a linear order.
\<close>

locale keyed_cmp =
  fixes cmp :: "'a \<Rightarrow> 'a \<Rightarrow> int" and key :: "'a \<Rightarrow> 'k :: linorder" and D :: "'a set"
  assumes cmp_sg: "x \<in> D \<Longrightarrow> y \<in> D \<Longrightarrow> sgn (cmp x y) = sg (key x) (key y)"
begin

lemma cmp_le: "x \<in> D \<Longrightarrow> y \<in> D \<Longrightarrow> cmp x y \<le> 0 \<longleftrightarrow> key x \<le> key y"
  using cmp_sg [of x y] sgn_greater [of "cmp x y"] by (simp add: sg_iff not_less [symmetric])

lemma cmp_less: "x \<in> D \<Longrightarrow> y \<in> D \<Longrightarrow> cmp x y < 0 \<longleftrightarrow> key x < key y"
  using cmp_sg [of x y] sgn_less [of "cmp x y"] by (simp add: sg_iff)

lemma cmp_eq: "x \<in> D \<Longrightarrow> y \<in> D \<Longrightarrow> cmp x y = 0 \<longleftrightarrow> key x = key y"
  using cmp_sg [of x y] sgn_eq_0_iff [of "cmp x y"] by (simp add: sg_iff)

end

lemma compare_keyed:
  assumes "gmp E" and "cell_identity same" and "float_order E fk FD"
  shows "keyed_cmp (Yap_compare_terms E same) (order_key fk) {t. order_dom FD t}"
  by unfold_locales (simp add: Yap_compare_terms_def compare_top [OF assms])

lemma ref_float_order: "float_order ref_env id UNIV"
  by (simp add: float_order_def rfloat_def ref_env_def sg_def)

interpretation ref_order: keyed_cmp "Yap_compare_terms ref_env (=)" "order_key id" "{t. order_dom UNIV t}"
  by (rule compare_keyed [OF ref.gmp_axioms structural.cell_identity_axioms ref_float_order])

end
