(* ===== verification/YapCompareProps.thy ===== *)
theory YapCompareProps
  imports YapCompareCorrect
begin

text \<open>The properties of the standard order and of the arithmetic comparisons.\<close>

section \<open>The standard order\<close>

text \<open>
  C7: on terms of the domain \<open>order_dom\<close> the comparison has the sign of a linear order: variables
  before database references, doubles, rationals, integers, atoms and compound terms; numbers by
  value; atoms by their bytes; compound terms by arity, name and arguments from the left. The
  explicit stack of the code visits the arguments in exactly that order.
\<close>

theorem standard_order:
  assumes "gmp E" and "cell_identity same" and "float_order E fk FD"
    and "order_dom FD s" and "order_dom FD t"
  shows "sgn (Yap_compare_terms E same s t) = sg (order_key fk s) (order_key fk t)"
  unfolding Yap_compare_terms_def by (rule compare_top [OF assms])

theorem standard_order_witness:
  "sgn (Yap_compare_terms ref_env (=) (ApplT ''f'' [AtmT ''a'', IntT 1]) (ApplT ''f'' [AtmT ''a'', IntT 2])) = - 1"
proof -
  have dom: "order_dom UNIV (ApplT ''f'' [AtmT ''a'', IntT n])" if "half_range n" for n :: cint
    using that by simp
  have "half_range 1" "half_range 2" by (simp_all add: half_range_def sint_small)
  from standard_order [OF ref.gmp_axioms structural.cell_identity_axioms ref_float_order
      dom [OF this(1)] dom [OF this(2)]]
  show ?thesis by (simp add: sg_Cons sg_triple sg_of_int sint_small) (simp add: sg_def)
qed

text \<open>
  C33: on two terms of the domain \<open>order_dom\<close> (no lists, no strings, no boxed numbers inside compound terms, no
  machine integers or addresses outside \<open>- 2 ^ 62\<close> to \<open>2 ^ 62\<close>) \<open>compare/3\<close> called with a variable binds it to
  \<open><\<close>, \<open>=\<close> or \<open>>\<close> as the key of the first term in the standard order is less than, equal to or greater than
  that of the second.
\<close>

theorem p_compare_order:
  assumes "gmp E" and "cell_identity same" and "float_order E fk FD"
    and "order_dom FD s" and "order_dom FD t"
  shows "p_compare E same (VarT v) s t = Inr (Binds v (AtmT
    (if order_key fk s < order_key fk t then ''<''
     else if order_key fk s = order_key fk t then ''='' else ''>'')))"
proof -
  have "sgn (compare E same s t) = sg (order_key fk s) (order_key fk t)"
    by (rule compare_top [OF assms])
  then show ?thesis
    using sgn_less [of "compare E same s t"] sgn_greater [of "compare E same s t"]
    by (auto simp: p_compare_def sg_iff)
qed

theorem p_compare_order_witness:
  "p_compare ref_env (=) (VarT 8) (AtmT ''a'') (AtmT ''b'') = Inr (Binds 8 (AtmT ''<''))"
  using p_compare_order [OF ref.gmp_axioms structural.cell_identity_axioms ref_float_order,
      of "AtmT ''a''" "AtmT ''b''" 8]
  by (simp add: less_char_def)

text \<open>
  C34: the standard order has a cycle: a list is compared with a compound term by name alone, two
  compound terms by arity first, so \<open>[a]\<close> comes before \<open>f(x)\<close>, \<open>f(x)\<close> before \<open>1 + 2\<close> and \<open>1 + 2\<close>
  before \<open>[a]\<close>.
\<close>

theorem standard_order_cycle:
  assumes "cell_identity same"
  shows "Yap_compare_terms E same (PairT (AtmT ''a'') TermNil) (ApplT ''f'' [AtmT ''x'']) < 0
    \<and> Yap_compare_terms E same (ApplT ''f'' [AtmT ''x'']) (ApplT ''+'' [IntT 1, IntT 2]) < 0
    \<and> Yap_compare_terms E same (ApplT ''+'' [IntT 1, IntT 2]) (PairT (AtmT ''a'') TermNil) < 0"
proof -
  have "\<not> same s t" if "s \<noteq> t" for s t
    using cell_identity.same_eq [OF assms] that by blast
  then show ?thesis by (simp add: Yap_compare_terms_def compare_def)
qed

theorem standard_order_cycle_witness:
  "Yap_compare_terms ref_env (=) (PairT (AtmT ''a'') TermNil) (ApplT ''f'' [AtmT ''x'']) < 0"
  using standard_order_cycle [OF structural.cell_identity_axioms, of ref_env] by blast

text \<open>
  A string and a tagged integer each come before the other.
\<close>

lemma string_and_integer:
  assumes "cell_identity same"
  shows "Yap_compare_terms E same (StrT s) (IntT i) = - 1
    \<and> Yap_compare_terms E same (IntT i) (StrT s) = - 1"
proof -
  have "\<not> same s t" if "s \<noteq> t" for s t
    using cell_identity.same_eq [OF assms] that by blast
  then show ?thesis by (simp add: Yap_compare_terms_def compare_def)
qed

lemma string_and_integer_witness:
  "Yap_compare_terms ref_env (=) (StrT ''abc'') (IntT 1) = - 1"
  using string_and_integer [OF structural.cell_identity_axioms, of ref_env "''abc''" 1] by blast

text \<open>
  Inside a compound term, a compound argument and a double each come before the other.
\<close>

lemma nested_double_and_compound:
  assumes "cell_identity same"
  shows "Yap_compare_terms E same (ApplT f [FltT d]) (ApplT f [ApplT g args]) < 0
    \<and> Yap_compare_terms E same (ApplT f [ApplT g args]) (ApplT f [FltT d]) < 0"
proof -
  have "\<not> same s t" if "s \<noteq> t" for s t
    using cell_identity.same_eq [OF assms] that by blast
  then show ?thesis
    by (simp add: Yap_compare_terms_def compare_def cmp_atoms_def strcmp_sg visit_def
        visit_float_def done_unless_zero_def)
qed

lemma nested_double_and_compound_witness:
  "Yap_compare_terms ref_env (=) (ApplT ''f'' [FltT 1]) (ApplT ''f'' [ApplT ''g'' [AtmT ''a'']]) < 0"
  using nested_double_and_compound [OF structural.cell_identity_axioms, of ref_env "''f''" 1] by blast

text \<open>
  C35: the standard order is not antisymmetric. A string and a tagged integer each come before the other,
  and so do, as arguments of a compound term, a compound term and a double.
\<close>

theorem order_not_antisymmetric:
  assumes "cell_identity same"
  shows "Yap_compare_terms E same (StrT s) (IntT i) < 0 \<and> Yap_compare_terms E same (IntT i) (StrT s) < 0
    \<and> Yap_compare_terms E same (ApplT f [FltT d]) (ApplT f [ApplT g args]) < 0
    \<and> Yap_compare_terms E same (ApplT f [ApplT g args]) (ApplT f [FltT d]) < 0"
  using string_and_integer [OF assms, of E s i] nested_double_and_compound [OF assms, of E f d g args]
  by simp

theorem order_not_antisymmetric_witness:
  "Yap_compare_terms ref_env (=) (StrT ''abc'') (IntT 1) < 0
    \<and> Yap_compare_terms ref_env (=) (IntT 1) (StrT ''abc'') < 0"
  using order_not_antisymmetric [OF structural.cell_identity_axioms, of ref_env "''abc''" 1] by blast

section \<open>Arithmetic comparison\<close>

lemma Yap_Eval_int: "int_arg t z \<Longrightarrow> Yap_Eval E t = Inr t"
  by (cases t) (simp_all add: int_arg_def Yap_Eval_def term_class)

text \<open>Two integers whose difference fits an \<open>Int\<close>, if both do.\<close>

definition comparable :: "int \<Rightarrow> int \<Rightarrow> bool" where
  "comparable x y \<longleftrightarrow> (fits_Int x \<and> fits_Int y \<longrightarrow> fits_Int (x - y))"

lemma etype_integer: "ETypeOfTerm t = long_int_e \<longleftrightarrow> IsIntegerTerm t"
  by (cases t) (simp_all add: IsIntegerTerm_def)

lemma integer_kinds: "IsIntegerTerm t \<Longrightarrow> \<not> IsVar_trm t \<and> \<not> IsFloatTerm t \<and> \<not> IsBigIntTerm t"
  by (cases t) (simp_all add: IsIntegerTerm_def)

lemma a_cmp_ints:
  assumes "gmp E" and s: "int_arg s x" and t: "int_arg t y" and "comparable x y"
  shows "\<exists>out. a_cmp E s t = Inr out \<and> sgn out = sg x y"
  using s
proof (cases rule: int_arg_cases)
  case s1: small
  then have si: "IsIntegerTerm s" by (simp add: etype_integer)
  from t show ?thesis
  proof (cases rule: int_arg_cases)
    case t1: small
    then have "IsIntegerTerm t" by (simp add: etype_integer)
    moreover have "sint (IntegerOfTerm s - IntegerOfTerm t) = x - y"
      using s1(2,3) t1(2,3) assms(4) by (simp add: comparable_def sint_diff_fits)
    ultimately show ?thesis
      using si integer_kinds [OF si] integer_kinds [of t]
      by (simp add: a_cmp_def int_cmp_def sgn_diff_sg)
  next
    case t1: big
    have "sgn (Yap_gmp_cmp_int_big E (IntegerOfTerm s) t) = sg x y"
      using gmp.cmp_si [OF assms(1), of y "IntegerOfTerm s"] s1(3)
      by (simp add: t1(1) gmp_defs sgn_minus sgn_diff_sg) (auto simp: sg_def)
    then show ?thesis
      using si integer_kinds [OF si] Yap_Eval_int [OF s, of E] Yap_Eval_int [OF t, of E]
      by (simp add: a_cmp_def a_cmp_int_def t1(1) IsIntegerTerm_def [of "BigT y"])
  qed
next
  case s1: big
  from t show ?thesis
  proof (cases rule: int_arg_cases)
    case t1: small
    then have ti: "IsIntegerTerm t" by (simp add: etype_integer)
    have "sgn (Yap_gmp_cmp_big_int E s (IntegerOfTerm t)) = sg x y"
      using gmp.cmp_si [OF assms(1), of x "IntegerOfTerm t"] t1(3)
      by (simp add: s1(1) gmp_defs sgn_diff_sg)
    then show ?thesis
      using ti integer_kinds [OF ti] Yap_Eval_int [OF s, of E] Yap_Eval_int [OF t, of E]
      by (simp add: a_cmp_def a_cmp_big_def s1(1) IsIntegerTerm_def [of "BigT x"])
  next
    case t1: big
    have "sgn (Yap_gmp_cmp_big_big E s t) = sg x y"
      by (simp add: s1(1) t1(1) gmp.cmp_big_big [OF assms(1)] sgn_diff_sg)
    then show ?thesis
      using Yap_Eval_int [OF s, of E] Yap_Eval_int [OF t, of E]
      by (simp add: a_cmp_def a_cmp_big_def s1(1) t1(1) IsIntegerTerm_def)
  qed
qed

lemma int_arg_kinds:
  assumes "int_arg t z"
  shows "\<not> IsVar_trm t" "\<not> IsFloatTerm t" "IsIntegerTerm t \<Longrightarrow> sint (IntegerOfTerm t) = z"
  using assms by (cases t; simp add: int_arg_def IsIntegerTerm_def)+

text \<open>
  C31: the six arithmetic comparison predicates decide the order of two integers of any size, unless
  both are machine integers whose difference overflows.
\<close>

theorem arith_comparisons:
  assumes "gmp E" and "int_arg s x" and "int_arg t y" and "comparable x y"
  shows "a_lt E s t = Inr (x < y) \<and> a_le E s t = Inr (x \<le> y) \<and> a_gt E s t = Inr (x > y)
    \<and> a_ge E s t = Inr (x \<ge> y) \<and> a_dif E s t = Inr (x \<noteq> y) \<and> a_eq E s t = Inr (x = y)"
proof -
  obtain out where out: "a_cmp E s t = Inr out" "sgn out = sg x y"
    using a_cmp_ints [OF assms] by blast
  have sign: "out < 0 \<longleftrightarrow> x < y" "out = 0 \<longleftrightarrow> x = y" "out \<le> 0 \<longleftrightarrow> x \<le> y"
    "0 < out \<longleftrightarrow> y < x" "0 \<le> out \<longleftrightarrow> y \<le> x"
    using out(2) sgn_less [of out] sgn_greater [of out] by (auto simp: sg_def split: if_splits)
  have "a_eq E s t = Inr (x = y)"
    using int_arg_kinds [OF assms(2)] int_arg_kinds [OF assms(3)] out(1) sign(2)
    by (auto simp: a_eq_def)
  with out(1) sign show ?thesis
    by (simp add: a_lt_def a_le_def a_gt_def a_ge_def a_dif_def)
qed

theorem arith_comparisons_witness:
  "a_lt ref_env (int_term 5) (int_term (2 ^ 70)) = Inr True"
proof -
  have args: "int_arg (int_term 5) 5" "int_arg (int_term (2 ^ 70)) (2 ^ 70)"
    by (rule int_arg_int_term, simp add: tag_gap_def)+
  from arith_comparisons [OF ref.gmp_axioms this] show ?thesis
    by (simp add: comparable_def fits_Int_def)
qed

text \<open>
  The comparison of machine integers subtracts them, so the largest \<open>Int\<close> is not greater than
  the smallest, and comes before it in the standard order.
\<close>

theorem integer_comparison_wraps:
  assumes "cell_identity same"
  shows "a_gt E (LongT Int_MAX) (LongT Int_MIN) = Inr False
    \<and> Yap_compare_terms E same (LongT Int_MAX) (LongT Int_MIN) = - 1"
proof -
  have "sint (Int_MAX - Int_MIN) = - 1" by simp
  moreover have "\<not> same (LongT Int_MAX) (LongT Int_MIN)"
    using cell_identity.same_eq [OF assms, of "LongT Int_MAX" "LongT Int_MIN"] by auto
  ultimately show ?thesis
    by (simp add: a_gt_def a_cmp_def int_cmp_def IsIntegerTerm_def Yap_compare_terms_def
        compare_def compare_long_int_def word_diff_def del: One_nat_def)
qed

theorem integer_comparison_wraps_witness: "a_gt ref_env (LongT Int_MAX) (LongT Int_MIN) = Inr False"
  using integer_comparison_wraps [OF structural.cell_identity_axioms, of ref_env] by blast

end
