(* ===== verification/YapSort.thy ===== *)
theory YapSort
  imports YapCompare
begin

text \<open>
  The sorting builtins, \<open>C/sort.c\<close>: merge sort of a vector on the heap. An element takes two cells, so
  the vector has an even and an odd lane, and each level of the recursion leaves its result in the
  lane its caller asks for. Memory is a function from cell numbers to terms; \<open>pt\<close> is the cell number of
  a vector. The comparison is an argument of the routines.
\<close>

type_synonym 'a mem = "nat \<Rightarrow> 'a"

text \<open>The two lanes, and their offset in an element.\<close>

datatype lane = M_EVEN | M_ODD

fun ofs :: "lane \<Rightarrow> nat" where
  "ofs M_EVEN = 0"
| "ofs M_ODD = 1"

text \<open>\<open>my_p ^ 1\<close>\<close>

fun other :: "lane \<Rightarrow> lane" where
  "other M_EVEN = M_ODD"
| "other M_ODD = M_EVEN"

section \<open>The vector\<close>

text \<open>
  The list is copied to the even lane. The result is the number of elements, or \<open>- 1\<close> for a term
  that is no proper list. Running out of heap in the middle, where the code collects garbage and
  starts again, is not modelled.
\<close>

fun build_loop :: "'f trm mem \<Rightarrow> nat \<Rightarrow> int \<Rightarrow> 'f trm \<Rightarrow> 'f trm mem \<times> int" where
  "build_loop mem pt out (PairT h t) =
    (let mem = mem(pt := h) in
     if IsVar_trm t then (mem, - 1)
     else if t = TermNil then (mem, out + 1)
     else build_loop mem (pt + 2) (out + 1) t)"
| "build_loop mem pt out _ = (mem, - 1)"

definition build_new_list :: "'f trm mem \<Rightarrow> nat \<Rightarrow> 'f trm \<Rightarrow> 'f trm mem \<times> int" where
  "build_new_list mem pt t =
    (if IsVar_trm t then (mem, - 1) else if t = TermNil then (mem, 0) else build_loop mem pt 0 t)"

text \<open>Copying the rest of a run to the output.\<close>

function copy_loop :: "'a mem \<Rightarrow> nat \<Rightarrow> nat \<Rightarrow> nat \<Rightarrow> 'a mem \<times> nat" where
  "copy_loop mem p end_p pt =
    (if p < end_p then copy_loop (mem(pt := mem p)) (p + 2) end_p (pt + 2) else (mem, pt))"
  by pat_completeness auto

termination
  by (relation "measure (\<lambda>(mem, p, end_p, pt). end_p - p)") auto

declare copy_loop.simps [simp del]

section \<open>Sorting that keeps duplicates\<close>

function merge_loop :: "('a \<Rightarrow> 'a \<Rightarrow> int) \<Rightarrow> 'a mem \<Rightarrow> nat \<Rightarrow> nat \<Rightarrow> nat \<Rightarrow> nat \<Rightarrow> nat
    \<Rightarrow> 'a mem \<times> nat \<times> nat \<times> nat" where
  "merge_loop cmp mem pt_left end_pt_left pt_right end_pt pt =
    (if pt_left < end_pt_left \<and> pt_right < end_pt then
       if cmp (mem pt_left) (mem pt_right) \<le> 0
       then merge_loop cmp (mem(pt := mem pt_left)) (pt_left + 2) end_pt_left pt_right end_pt (pt + 2)
       else merge_loop cmp (mem(pt := mem pt_right)) pt_left end_pt_left (pt_right + 2) end_pt (pt + 2)
     else (mem, pt_left, pt_right, pt))"
  by pat_completeness auto

termination
  by (relation "measure (\<lambda>(cmp, mem, l, end_l, r, end_r, pt). (end_l - l) + (end_r - r))") auto

declare merge_loop.simps [simp del]

function simple_mergesort :: "('a \<Rightarrow> 'a \<Rightarrow> int) \<Rightarrow> 'a mem \<Rightarrow> nat \<Rightarrow> nat \<Rightarrow> lane \<Rightarrow> 'a mem" where
  "simple_mergesort cmp mem pt siz my_p =
    (if 2 < siz then
       let half_size = siz div 2;
           pt_right = pt + half_size * 2;
           left_p = other my_p;
           right_p = my_p;
           mem = simple_mergesort cmp mem pt half_size left_p;
           mem = simple_mergesort cmp mem pt_right (siz - half_size) right_p;
           (mem, pt_left, pt_right, pt') =
             merge_loop cmp mem (pt + ofs left_p) (pt + half_size * 2) (pt_right + ofs right_p)
               (pt + 2 * siz) (pt + ofs my_p);
           (mem, pt') = copy_loop mem pt_left (pt + half_size * 2) pt'
       in if my_p \<noteq> right_p then fst (copy_loop mem pt_right (pt + 2 * siz) pt') else mem
     else if 1 < siz \<and> cmp (mem pt) (mem (pt + 2)) > 0 then
       let t = mem (pt + 2);
           mem = mem(pt + 2 + ofs my_p := mem pt)
       in mem(pt + ofs my_p := t)
     else if my_p = M_ODD then
       let mem = mem(pt + 1 := mem pt)
       in if 1 < siz then mem(pt + 3 := mem (pt + 2)) else mem
     else mem)"
  by pat_completeness auto

termination
  by (relation "measure (\<lambda>(cmp, mem, pt, siz, my_p). siz)") auto

declare simple_mergesort.simps [simp del]

section \<open>Sorting by key\<close>

text \<open>The key of a term \<open>Key - Value\<close>.\<close>

fun key_of :: "'f trm \<Rightarrow> 'f trm option" where
  "key_of (ApplT f [k, v]) = (if f = ''-'' then Some k else None)"
| "key_of _ = None"

text \<open>\<open>None\<close> is the return of \<open>FALSE\<close> for an element without a key.\<close>

function key_merge_loop :: "('f trm \<Rightarrow> 'f trm \<Rightarrow> int) \<Rightarrow> 'f trm mem \<Rightarrow> nat \<Rightarrow> nat \<Rightarrow> nat \<Rightarrow> nat \<Rightarrow> nat
    \<Rightarrow> ('f trm mem \<times> nat \<times> nat \<times> nat) option" where
  "key_merge_loop cmp mem pt_left end_pt_left pt_right end_pt pt =
    (if pt_left < end_pt_left \<and> pt_right < end_pt then
       (case key_of (mem pt_left) of
          None \<Rightarrow> None
        | Some t0 \<Rightarrow> (case key_of (mem pt_right) of
            None \<Rightarrow> None
          | Some t1 \<Rightarrow>
              if cmp t0 t1 \<le> 0
              then key_merge_loop cmp (mem(pt := mem pt_left)) (pt_left + 2) end_pt_left pt_right end_pt (pt + 2)
              else key_merge_loop cmp (mem(pt := mem pt_right)) pt_left end_pt_left (pt_right + 2) end_pt (pt + 2)))
     else Some (mem, pt_left, pt_right, pt))"
  by pat_completeness auto

termination
  by (relation "measure (\<lambda>(cmp, mem, l, end_l, r, end_r, pt). (end_l - l) + (end_r - r))") auto

declare key_merge_loop.simps [simp del]

function key_mergesort :: "('f trm \<Rightarrow> 'f trm \<Rightarrow> int) \<Rightarrow> 'f trm mem \<Rightarrow> nat \<Rightarrow> nat \<Rightarrow> lane
    \<Rightarrow> 'f trm mem option" where
  "key_mergesort cmp mem pt siz my_p =
    (if 2 < siz then
       let half_size = siz div 2;
           pt_right = pt + half_size * 2;
           left_p = other my_p;
           right_p = my_p
       in case key_mergesort cmp mem pt half_size left_p of
         None \<Rightarrow> None
       | Some mem \<Rightarrow> (case key_mergesort cmp mem pt_right (siz - half_size) right_p of
           None \<Rightarrow> None
         | Some mem \<Rightarrow> (case key_merge_loop cmp mem (pt + ofs left_p) (pt + half_size * 2)
               (pt_right + ofs right_p) (pt + 2 * siz) (pt + ofs my_p) of
             None \<Rightarrow> None
           | Some (mem, pt_left, pt_right, pt') \<Rightarrow>
               (let (mem, pt') = copy_loop mem pt_left (pt + half_size * 2) pt'
                in Some (if my_p \<noteq> right_p then fst (copy_loop mem pt_right (pt + 2 * siz) pt') else mem))))
     else if 1 < siz then
       (case key_of (mem pt) of
          None \<Rightarrow> None
        | Some t0 \<Rightarrow> (case key_of (mem (pt + 2)) of
            None \<Rightarrow> None
          | Some t1 \<Rightarrow>
              if cmp t0 t1 > 0 then
                (let t = mem (pt + 2);
                     mem = mem(pt + 2 + ofs my_p := mem pt)
                 in Some (mem(pt + ofs my_p := t)))
              else if my_p = M_ODD then
                (let mem = mem(pt + 1 := mem pt) in Some (mem(pt + 3 := mem (pt + 2))))
              else Some mem))
     else if my_p = M_ODD then Some (mem(pt + 1 := mem pt)) else Some mem)"
  by pat_completeness auto

termination
  by (relation "measure (\<lambda>(cmp, mem, pt, siz, my_p). siz)") auto

declare key_mergesort.simps [simp del]

section \<open>Sorting that drops duplicates\<close>

function compact_merge_loop :: "('a \<Rightarrow> 'a \<Rightarrow> int) \<Rightarrow> 'a mem \<Rightarrow> nat \<Rightarrow> nat \<Rightarrow> nat \<Rightarrow> nat \<Rightarrow> nat \<Rightarrow> nat
    \<Rightarrow> 'a mem \<times> nat \<times> nat \<times> nat \<times> nat" where
  "compact_merge_loop cmp mem pt_left end_pt_left pt_right end_pt_right pt siz =
    (if pt_left < end_pt_left \<and> pt_right < end_pt_right then
       let c = cmp (mem pt_left) (mem pt_right) in
       if c < 0
       then compact_merge_loop cmp (mem(pt := mem pt_left)) (pt_left + 2) end_pt_left pt_right end_pt_right
         (pt + 2) (siz + 1)
       else if c = 0
       then compact_merge_loop cmp mem (pt_left + 2) end_pt_left pt_right end_pt_right pt siz
       else compact_merge_loop cmp (mem(pt := mem pt_right)) pt_left end_pt_left (pt_right + 2) end_pt_right
         (pt + 2) (siz + 1)
     else (mem, pt_left, pt_right, pt, siz))"
  by pat_completeness auto

termination
  by (relation "measure (\<lambda>(cmp, mem, l, end_l, r, end_r, pt, siz). (end_l - l) + (end_r - r))") auto

declare compact_merge_loop.simps [simp del]

function copy_count_loop :: "'a mem \<Rightarrow> nat \<Rightarrow> nat \<Rightarrow> nat \<Rightarrow> nat \<Rightarrow> 'a mem \<times> nat \<times> nat" where
  "copy_count_loop mem p end_p pt siz =
    (if p < end_p then copy_count_loop (mem(pt := mem p)) (p + 2) end_p (pt + 2) (siz + 1)
     else (mem, pt, siz))"
  by pat_completeness auto

termination
  by (relation "measure (\<lambda>(mem, p, end_p, pt, siz). end_p - p)") auto

declare copy_count_loop.simps [simp del]

function compact_mergesort :: "('a \<Rightarrow> 'a \<Rightarrow> int) \<Rightarrow> 'a mem \<Rightarrow> nat \<Rightarrow> nat \<Rightarrow> lane \<Rightarrow> 'a mem \<times> nat" where
  "compact_mergesort cmp mem pt siz my_p =
    (if 2 < siz then
       let half_size = siz div 2;
           pt_right = pt + half_size * 2;
           left_p = other my_p;
           right_p = my_p;
           (mem, lsize) = compact_mergesort cmp mem pt half_size left_p;
           (mem, rsize) = compact_mergesort cmp mem pt_right (siz - half_size) right_p;
           pt_right = pt_right + ofs right_p;
           end_pt_left = pt + 2 * lsize;
           end_pt_right = pt_right + 2 * rsize;
           (mem, pt_left, pt_right, pt', siz) =
             compact_merge_loop cmp mem (pt + ofs left_p) end_pt_left pt_right end_pt_right (pt + ofs my_p) 0;
           (mem, pt', siz) = copy_count_loop mem pt_left end_pt_left pt' siz;
           (mem, pt', siz) = copy_count_loop mem pt_right end_pt_right pt' siz
       in (mem, siz)
     else if siz = 2 then
       let c = cmp (mem pt) (mem (pt + 2)) in
       if c > 0 then
         (let t = mem (pt + 2);
              mem = mem(pt + 2 + ofs my_p := mem pt)
          in (mem(pt + ofs my_p := t), 2))
       else if c = 0 then (if my_p = M_ODD then mem(pt + 1 := mem pt) else mem, 1)
       else (if my_p = M_ODD then (let mem = mem(pt + 1 := mem pt) in mem(pt + 3 := mem (pt + 2))) else mem, 2)
     else (if my_p = M_ODD then mem(pt + 1 := mem pt) else mem, 1))"
  by pat_completeness auto

termination
  by (relation "measure (\<lambda>(cmp, mem, pt, siz, my_p). siz)") auto

declare compact_mergesort.simps [simp del]

section \<open>The result list\<close>

text \<open>Linking the vector into a list fills the odd cells with pointers to the next pair.\<close>

datatype 'f slot = Elem "'f trm" | AbsPair_at nat

function adjust_loop :: "'f slot mem \<Rightarrow> nat \<Rightarrow> nat \<Rightarrow> 'f slot mem" where
  "adjust_loop mem pt ptf =
    (if pt < ptf then adjust_loop (mem(pt := AbsPair_at (pt + 1))) (pt + 2) ptf
     else mem(pt := Elem TermNil))"
  by pat_completeness auto

termination
  by (relation "measure (\<lambda>(mem, pt, ptf). ptf - pt)") auto

declare adjust_loop.simps [simp del]

definition adjust_vector :: "'f trm mem \<Rightarrow> nat \<Rightarrow> nat \<Rightarrow> 'f slot mem" where
  "adjust_vector mem pt siz = adjust_loop (\<lambda>a. Elem (mem a)) (pt + 1) (pt + 2 * (siz - 1))"

text \<open>The term a pair at cell \<open>a\<close> stands for, following at most \<open>n\<close> tails.\<close>

primrec pair_at :: "nat \<Rightarrow> 'f slot mem \<Rightarrow> nat \<Rightarrow> 'f trm" where
  "pair_at 0 mem a = undefined"
| "pair_at (Suc n) mem a = PairT (case mem a of Elem t \<Rightarrow> t | AbsPair_at b \<Rightarrow> undefined)
    (case mem (a + 1) of Elem t \<Rightarrow> t | AbsPair_at b \<Rightarrow> pair_at n mem b)"

section \<open>The builtins\<close>

text \<open>
  Each builtin unifies a term with its second argument: that term, or \<open>None\<close> when the goal fails.
  The vector is built at the top of the heap, cell \<open>HR\<close>.
\<close>

definition p_sort :: "('f trm \<Rightarrow> 'f trm \<Rightarrow> int) \<Rightarrow> 'f trm mem \<Rightarrow> nat \<Rightarrow> 'f trm \<Rightarrow> 'f trm option" where
  "p_sort cmp mem HR a1 =
    (let (mem, siz) = build_new_list mem HR a1 in
     if siz < 0 then None
     else if siz < 2 then Some a1
     else let (mem, siz) = compact_mergesort cmp mem HR (nat siz) M_EVEN
          in Some (pair_at siz (adjust_vector mem HR siz) HR))"

definition p_msort :: "('f trm \<Rightarrow> 'f trm \<Rightarrow> int) \<Rightarrow> 'f trm mem \<Rightarrow> nat \<Rightarrow> 'f trm \<Rightarrow> 'f trm option" where
  "p_msort cmp mem HR a1 =
    (let (mem, siz) = build_new_list mem HR a1 in
     if siz < 0 then None
     else if siz < 2 then Some a1
     else let mem = simple_mergesort cmp mem HR (nat siz) M_EVEN
          in Some (pair_at (nat siz) (adjust_vector mem HR (nat siz)) HR))"

definition p_ksort :: "('f trm \<Rightarrow> 'f trm \<Rightarrow> int) \<Rightarrow> 'f trm mem \<Rightarrow> nat \<Rightarrow> 'f trm \<Rightarrow> 'f trm option" where
  "p_ksort cmp mem HR a1 =
    (let (mem, siz) = build_new_list mem HR a1 in
     if siz < 0 then None
     else if siz < 2 then Some a1
     else case key_mergesort cmp mem HR (nat siz) M_EVEN of
       None \<Rightarrow> None
     | Some mem \<Rightarrow> Some (pair_at (nat siz) (adjust_vector mem HR (nat siz)) HR))"

end
