(* ===== verification/YapSortCorrect.thy ===== *)
theory YapSortCorrect
  imports YapSort YapCompareCorrect "HOL-Library.Multiset"
begin

text \<open>
  The vector routines refine merge sorts on lists, and these sort. The refinement makes no
  assumption on the comparison: it is about where the elements are in the two lanes. That the
  lists are sorted, and the sort stable, is proved from the locale \<open>keyed_cmp\<close>.
\<close>

section \<open>Merge sort on lists\<close>

fun merge_list :: "('a \<Rightarrow> 'a \<Rightarrow> int) \<Rightarrow> 'a list \<Rightarrow> 'a list \<Rightarrow> 'a list" where
  "merge_list cmp [] ys = ys"
| "merge_list cmp xs [] = xs"
| "merge_list cmp (x # xs) (y # ys) =
    (if cmp x y \<le> 0 then x # merge_list cmp xs (y # ys) else y # merge_list cmp (x # xs) ys)"

fun compact_list :: "('a \<Rightarrow> 'a \<Rightarrow> int) \<Rightarrow> 'a list \<Rightarrow> 'a list \<Rightarrow> 'a list" where
  "compact_list cmp [] ys = ys"
| "compact_list cmp xs [] = xs"
| "compact_list cmp (x # xs) (y # ys) =
    (if cmp x y < 0 then x # compact_list cmp xs (y # ys)
     else if cmp x y = 0 then compact_list cmp xs (y # ys)
     else y # compact_list cmp (x # xs) ys)"

text \<open>The sort that keeps duplicates, for a way of merging.\<close>

function sort_by :: "('a list \<Rightarrow> 'a list \<Rightarrow> 'a list) \<Rightarrow> 'a list \<Rightarrow> 'a list" where
  "sort_by merge xs =
    (if length xs < 2 then xs
     else merge (sort_by merge (take (length xs div 2) xs)) (sort_by merge (drop (length xs div 2) xs)))"
  by pat_completeness auto

termination
  by (relation "measure (\<lambda>(merge, xs). length xs)") auto

declare sort_by.simps [simp del]

lemma sort_by_short: "length xs < 2 \<Longrightarrow> sort_by merge xs = xs"
  by (simp add: sort_by.simps)

lemma sort_by_split:
  "2 \<le> length xs \<Longrightarrow> sort_by merge xs =
    merge (sort_by merge (take (length xs div 2) xs)) (sort_by merge (drop (length xs div 2) xs))"
  by (simp add: sort_by.simps)

lemma sort_by_two: "sort_by merge [x, y] = merge [x] [y]"
  by (simp add: sort_by_split sort_by_short)

text \<open>Of two equal elements the code keeps the first, but merging keeps the one on the right.\<close>

definition compact_two :: "('a \<Rightarrow> 'a \<Rightarrow> int) \<Rightarrow> 'a \<Rightarrow> 'a \<Rightarrow> 'a list" where
  "compact_two cmp x y = (if cmp x y > 0 then [y, x] else if cmp x y = 0 then [x] else [x, y])"

function compact_sort :: "('a \<Rightarrow> 'a \<Rightarrow> int) \<Rightarrow> 'a list \<Rightarrow> 'a list" where
  "compact_sort cmp xs =
    (if length xs < 2 then xs
     else if length xs = 2 then compact_two cmp (hd xs) (hd (tl xs))
     else compact_list cmp (compact_sort cmp (take (length xs div 2) xs))
       (compact_sort cmp (drop (length xs div 2) xs)))"
  by pat_completeness auto

termination
  by (relation "measure (\<lambda>(cmp, xs). length xs)") auto

declare compact_sort.simps [simp del]

lemma compact_sort_short: "length xs < 2 \<Longrightarrow> compact_sort cmp xs = xs"
  by (simp add: compact_sort.simps)

lemma compact_sort_two: "compact_sort cmp [x, y] = compact_two cmp x y"
  by (simp add: compact_sort.simps)

lemma compact_sort_split:
  "2 < length xs \<Longrightarrow> compact_sort cmp xs = compact_list cmp (compact_sort cmp (take (length xs div 2) xs))
    (compact_sort cmp (drop (length xs div 2) xs))"
  by (simp add: compact_sort.simps)

section \<open>Lanes\<close>

definition run :: "'a mem \<Rightarrow> nat \<Rightarrow> nat \<Rightarrow> 'a list" where
  "run mem p n = List.map (\<lambda>i. mem (p + 2 * i)) [0..<n]"

lemma length_run [simp]: "length (run mem p n) = n"
  by (simp add: run_def)

lemma run_0 [simp]: "run mem p 0 = []"
  by (simp add: run_def)

lemma run_Suc: "run mem p (Suc n) = mem p # run mem (p + 2) n"
  unfolding run_def by (subst map_upt_Suc) simp

lemma run_two: "run mem p 2 = [mem p, mem (p + 2)]"
  by (simp add: numeral_2_eq_2 run_Suc)

lemma run_append: "run mem p (m + n) = run mem p m @ run mem (p + 2 * m) n"
  by (induction m arbitrary: p) (simp_all add: run_Suc add.assoc)

lemma run_split: "m \<le> n \<Longrightarrow> run mem p n = run mem p m @ run mem (p + 2 * m) (n - m)"
  using run_append [of mem p m "n - m"] by simp

lemma take_run: "m \<le> n \<Longrightarrow> take m (run mem p n) = run mem p m"
  and drop_run: "m \<le> n \<Longrightarrow> drop m (run mem p n) = run mem (p + 2 * m) (n - m)"
  by (simp_all add: run_split [of m n])

lemma run_cong: "(\<And>i. i < n \<Longrightarrow> mem (p + 2 * i) = mem' (p + 2 * i)) \<Longrightarrow> run mem p n = run mem' p n"
  by (simp add: run_def)

text \<open>A cell outside a run, because it lies below or above it or in the other lane.\<close>

definition outside :: "nat \<Rightarrow> nat \<Rightarrow> nat \<Rightarrow> bool" where
  "outside a p n \<longleftrightarrow> (\<forall>i < n. a \<noteq> p + 2 * i)"

lemma run_upd [simp]: "outside a p n \<Longrightarrow> run (mem(a := x)) p n = run mem p n"
  by (rule run_cong) (auto simp: outside_def)

lemma outside_Suc: "outside a p (Suc n) \<longleftrightarrow> a \<noteq> p \<and> outside a (p + 2) n"
  by (force simp: outside_def less_Suc_eq_0_disj)

lemma outside_0 [simp]: "outside a p 0"
  by (simp add: outside_def)

lemma outside_less: "a < p \<Longrightarrow> outside a p n"
  by (simp add: outside_def)

text \<open>The end pointer of a run of \<open>n\<close> elements, which the code takes in either lane.\<close>

definition spans :: "nat \<Rightarrow> nat \<Rightarrow> nat \<Rightarrow> bool" where
  "spans p end_p n \<longleftrightarrow> end_p \<le> p + 2 * n \<and> p + 2 * n \<le> end_p + 1"

lemma spans_less: "spans p e n \<Longrightarrow> p < e \<longleftrightarrow> 0 < n"
  by (auto simp: spans_def)

lemma spans_Suc: "spans p e (Suc n) \<longleftrightarrow> spans (p + 2) e n"
  by (auto simp: spans_def)

lemma copy_loop_run:
  assumes "spans p e n" and "odd (p + pt)"
  shows "run (fst (copy_loop mem p e pt)) pt n = run mem p n
    \<and> (\<forall>a. outside a pt n \<longrightarrow> fst (copy_loop mem p e pt) a = mem a)"
  using assms
proof (induction n arbitrary: mem p pt)
  case 0
  then show ?case by (simp add: copy_loop.simps [of _ p] spans_less)
next
  case (Suc n)
  have out: "outside pt (p + 2) n" "outside pt (pt + 2) n"
    using Suc.prems(2) by (auto simp: outside_def)
  have less: "p < e" using Suc.prems(1) by (simp add: spans_less)
  have pre: "spans (p + 2) e n" "odd (p + 2 + (pt + 2))"
    using Suc.prems by (simp_all add: spans_Suc)
  define m where "m = mem(pt := mem p)"
  have m: "run m (p + 2) n = run mem (p + 2) n" "m pt = mem p" "\<And>a. a \<noteq> pt \<Longrightarrow> m a = mem a"
    using out(1) by (simp_all add: m_def)
  note IH = Suc.IH [OF pre, of m]
  have "copy_loop mem p e pt = copy_loop m (p + 2) e (pt + 2)"
    using less by (simp add: copy_loop.simps [of mem p] m_def)
  then show ?case
    using IH m out(2) by (simp add: run_Suc outside_Suc)
qed

text \<open>
  Merging in place: the output \<open>pt\<close> shares its lane with the right run, which starts as many
  elements further as the left run has; the left run is in the other lane.
\<close>

lemma merge_in_place:
  assumes "spans l el nl" and "spans r er nr" and "r = pt + 2 * nl" and "odd (l + pt)"
    and "merge_loop cmp mem l el r er pt = (mem1, l1, r1, pt1)"
  shows "run (fst (copy_loop mem1 l1 el pt1)) pt (nl + nr) = merge_list cmp (run mem l nl) (run mem r nr)
    \<and> (\<forall>a. outside a pt (nl + nr) \<longrightarrow> fst (copy_loop mem1 l1 el pt1) a = mem a)"
  using assms
proof (induction "nl + nr" arbitrary: nl nr mem l r pt)
  case 0
  then show ?case
    by (auto simp: merge_loop.simps [of _ _ l] copy_loop.simps [of mem1 l1] spans_less)
next
  case (Suc k)
  show ?case
  proof (cases "0 < nl \<and> 0 < nr")
    case False
    with Suc.prems have m: "(mem1, l1, r1, pt1) = (mem, l, r, pt)"
      by (auto simp: merge_loop.simps [of _ _ l] spans_less)
    have "run mem pt nr = run mem r nr" if "nl = 0" using that Suc.prems(3) by simp
    moreover have "merge_list cmp xs [] = xs" for xs by (cases xs) simp_all
    moreover have "copy_loop mem l el pt = (mem, pt)" if "nl = 0"
      using that spans_less [OF Suc.prems(1)] by (simp add: copy_loop.simps [of mem l])
    ultimately show ?thesis
      using False m copy_loop_run [OF Suc.prems(1,4), of mem] by (cases "nl = 0") simp_all
  next
    case True
    then obtain nl' nr' where n: "nl = Suc nl'" "nr = Suc nr'" by (metis gr0_conv_Suc)
    have less: "l < el" "r < er" using True Suc.prems(1,2) by (simp_all add: spans_less)
    show ?thesis
    proof (cases "cmp (mem l) (mem r) \<le> 0")
      case True
      have step: "merge_loop cmp (mem(pt := mem l)) (l + 2) el r er (pt + 2) = (mem1, l1, r1, pt1)"
        using Suc.prems(5) less True by (simp add: merge_loop.simps [of _ _ l])
      have out: "outside pt (l + 2) nl'" "outside pt r nr" "outside pt (pt + 2) (nl' + nr)"
        using Suc.prems(3,4) n by (auto simp: outside_def)
      have "k = nl' + nr" using Suc.hyps(2) n by simp
      from Suc.hyps(1) [OF this _ Suc.prems(2) _ _ step] Suc.prems(1,3,4) n out show ?thesis
        using True by (simp add: spans_Suc run_Suc outside_Suc)
    next
      case False
      have step: "merge_loop cmp (mem(pt := mem r)) l el (r + 2) er (pt + 2) = (mem1, l1, r1, pt1)"
        using Suc.prems(5) less False by (simp add: merge_loop.simps [of _ _ l])
      have out: "outside pt l nl" "outside pt (r + 2) nr'" "outside pt (pt + 2) (nl + nr')"
        using Suc.prems(3,4) n by (auto simp: outside_def)
      have "k = nl + nr'" using Suc.hyps(2) n by simp
      from Suc.hyps(1) [OF this Suc.prems(1) _ _ _ step] Suc.prems(2,3,4) n out show ?thesis
        using False by (simp add: spans_Suc run_Suc outside_Suc)
    qed
  qed
qed

section \<open>The sort that keeps duplicates\<close>

lemma ofs_other: "odd (ofs (other q) + ofs q)" "ofs q \<le> 1"
  by (cases q; simp)+

text \<open>The cells of a vector of \<open>n\<close> elements.\<close>

abbreviation beside :: "nat \<Rightarrow> nat \<Rightarrow> nat \<Rightarrow> bool" where
  "beside a pt n \<equiv> a < pt \<or> pt + 2 * n \<le> a"

lemma beside_outside: "beside a pt n \<Longrightarrow> outside a (pt + ofs q) n"
  by (cases q) (auto simp: outside_def)

lemma run_beside: "(\<And>a. \<not> beside a pt n \<Longrightarrow> mem a = mem' a) \<Longrightarrow> run mem (pt + ofs q) n = run mem' (pt + ofs q) n"
  by (rule run_cong) (cases q; auto)

lemma simple_mergesort_refines:
  assumes "1 \<le> n"
  shows "run (simple_mergesort cmp mem pt n q) (pt + ofs q) n = sort_by (merge_list cmp) (run mem pt n)
    \<and> (\<forall>a. beside a pt n \<longrightarrow> simple_mergesort cmp mem pt n q a = mem a)"
  using assms
proof (induction n arbitrary: mem pt q rule: less_induct)
  case (less n)
  show ?case
  proof (cases "2 < n")
    case False
    then consider "n = 1" | "n = 2" using less.prems by linarith
    then show ?thesis
    proof cases
      case 1
      then show ?thesis
        by (cases q) (simp_all add: simple_mergesort.simps run_Suc sort_by_short)
    next
      case 2
      then have n: "n = Suc (Suc 0)" by simp
      show ?thesis unfolding n
        by (cases q) (auto simp: simple_mergesort.simps run_Suc sort_by_two)
    qed
  next
    case True
    define h where "h = n div 2"
    have h: "1 \<le> h" "h < n" "1 \<le> n - h" "n - h < n" "h + (n - h) = n"
      using True by (auto simp: h_def)
    define mem1 where "mem1 = simple_mergesort cmp mem pt h (other q)"
    define mem2 where "mem2 = simple_mergesort cmp mem1 (pt + h * 2) (n - h) q"
    obtain mem3 l r pt' where m: "merge_loop cmp mem2 (pt + ofs (other q)) (pt + h * 2)
        (pt + h * 2 + ofs q) (pt + 2 * n) (pt + ofs q) = (mem3, l, r, pt')"
      by (metis prod_cases4)
    have res: "simple_mergesort cmp mem pt n q = fst (copy_loop mem3 l (pt + h * 2) pt')"
      using True m by (simp add: simple_mergesort.simps [of cmp mem] h_def mem1_def mem2_def Let_def
          split_def)
    have r1: "run mem1 (pt + ofs (other q)) h = sort_by (merge_list cmp) (run mem pt h)"
      "\<And>a. beside a pt h \<Longrightarrow> mem1 a = mem a"
      using less.IH [OF h(2,1), of mem pt "other q"] by (auto simp: mem1_def)
    have r2: "run mem2 (pt + h * 2 + ofs q) (n - h)
        = sort_by (merge_list cmp) (run mem1 (pt + h * 2) (n - h))"
      "\<And>a. beside a (pt + h * 2) (n - h) \<Longrightarrow> mem2 a = mem1 a"
      using less.IH [OF h(4,3), of mem1 "pt + h * 2" q] by (auto simp: mem2_def)
    have left: "run mem2 (pt + ofs (other q)) h = run mem1 (pt + ofs (other q)) h"
      by (rule run_beside) (auto intro: r2(2))
    have right: "run mem1 (pt + h * 2) (n - h) = run mem (pt + h * 2) (n - h)"
      using run_beside [of "pt + h * 2" "n - h" mem1 mem M_EVEN] r1(2) by simp
    have spans: "spans (pt + ofs (other q)) (pt + h * 2) h" "spans (pt + h * 2 + ofs q) (pt + 2 * n) (n - h)"
      using ofs_other(2) [of q] ofs_other(2) [of "other q"] h(2) by (auto simp: spans_def)
    have "odd (pt + ofs (other q) + (pt + ofs q))" using ofs_other(1) [of q] by simp
    from merge_in_place [OF spans _ this m] h(5)
    have "run (fst (copy_loop mem3 l (pt + h * 2) pt')) (pt + ofs q) n
        = merge_list cmp (run mem2 (pt + ofs (other q)) h) (run mem2 (pt + h * 2 + ofs q) (n - h))"
      "\<And>a. outside a (pt + ofs q) n \<Longrightarrow> fst (copy_loop mem3 l (pt + h * 2) pt') a = mem2 a"
      by simp_all
    moreover have "sort_by (merge_list cmp) (run mem pt n)
        = merge_list cmp (sort_by (merge_list cmp) (run mem pt h))
            (sort_by (merge_list cmp) (run mem (pt + h * 2) (n - h)))"
      using True h(2) by (simp add: sort_by_split take_run drop_run h_def mult.commute)
    moreover have "mem2 a = mem a" if "beside a pt n" for a
    proof -
      have "beside a pt h" "beside a (pt + h * 2) (n - h)" using that h(2) by auto
      then show ?thesis by (simp only: r1(2) r2(2))
    qed
    ultimately show ?thesis
      using r1(1) r2(1) left right by (simp add: res beside_outside)
  qed
qed

section \<open>The lists are sorted\<close>

lemma two_lists_induct [case_names left right both]:
  assumes "\<And>ys. P [] ys" and "\<And>x xs. P (x # xs) []"
    and "\<And>x xs y ys. P xs (y # ys) \<Longrightarrow> P (x # xs) ys \<Longrightarrow> P xs ys \<Longrightarrow> P (x # xs) (y # ys)"
  shows "P xs ys"
proof (induction xs arbitrary: ys)
  case (Cons x xs)
  show ?case by (induction ys) (simp_all add: assms Cons.IH)
qed (rule assms(1))

lemma halves_induct [case_names short split]:
  assumes "\<And>xs. length xs < 2 \<Longrightarrow> P xs"
    and "\<And>xs. 2 \<le> length xs \<Longrightarrow> P (take (length xs div 2) xs) \<Longrightarrow> P (drop (length xs div 2) xs) \<Longrightarrow> P xs"
  shows "P xs"
proof (induction xs rule: length_induct)
  case (1 xs)
  show ?case
  proof (cases "length xs < 2")
    case False
    then have "length (take (length xs div 2) xs) < length xs"
      "length (drop (length xs div 2) xs) < length xs" by auto
    then have "P (take (length xs div 2) xs)" "P (drop (length xs div 2) xs)"
      using 1 by blast+
    from assms(2) [OF _ this] False show ?thesis by simp
  qed (rule assms(1))
qed

lemma halves_induct_two [case_names short two split]:
  assumes "\<And>xs. length xs < 2 \<Longrightarrow> P xs" and "\<And>x y. P [x, y]"
    and "\<And>xs. 2 < length xs \<Longrightarrow> P (take (length xs div 2) xs) \<Longrightarrow> P (drop (length xs div 2) xs) \<Longrightarrow> P xs"
  shows "P xs"
proof (induction xs rule: halves_induct)
  case (split xs)
  show ?case
  proof (cases "length xs = 2")
    case True
    then obtain x y where "xs = [x, y]" by (auto simp: numeral_2_eq_2 length_Suc_conv)
    then show ?thesis using assms(2) by simp
  next
    case False
    with assms(3) [OF _ split.IH] split.hyps show ?thesis by simp
  qed
qed (rule assms(1))

lemma take_drop_set: "set (take n xs) \<union> set (drop n xs) = set xs"
  by (metis append_take_drop_id set_append)

lemma mset_merge_list [simp]: "mset (merge_list cmp xs ys) = mset xs + mset ys"
  by (induction xs ys rule: two_lists_induct) simp_all

lemma set_merge_list [simp]: "set (merge_list cmp xs ys) = set xs \<union> set ys"
  by (induction xs ys rule: two_lists_induct) auto

lemma mset_sort_by_merge [simp]: "mset (sort_by (merge_list cmp) xs) = mset xs"
proof (induction xs rule: halves_induct)
  case (split xs)
  then show ?case by (simp add: sort_by_split flip: mset_append)
qed (simp add: sort_by_short)

lemma set_sort_by_merge [simp]: "set (sort_by (merge_list cmp) xs) = set xs"
  by (rule mset_eq_setD) simp

lemma set_compact_list: "set (compact_list cmp xs ys) \<subseteq> set xs \<union> set ys"
  by (induction xs ys rule: two_lists_induct) auto

lemma length_compact_list: "length (compact_list cmp xs ys) \<le> length xs + length ys"
  by (induction xs ys rule: two_lists_induct) auto

lemma set_compact_sort: "set (compact_sort cmp xs) \<subseteq> set xs"
proof (induction xs rule: halves_induct_two)
  case (split xs)
  show ?case
    using split set_compact_list [of cmp "compact_sort cmp (take (length xs div 2) xs)"
        "compact_sort cmp (drop (length xs div 2) xs)"] take_drop_set [of "length xs div 2" xs]
    by (auto simp: compact_sort_split)
qed (auto simp: compact_sort_short compact_sort_two compact_two_def)

lemma length_compact_sort: "length (compact_sort cmp xs) \<le> length xs"
proof (induction xs rule: halves_induct_two)
  case (split xs)
  show ?case
    using split length_compact_list [of cmp "compact_sort cmp (take (length xs div 2) xs)"
        "compact_sort cmp (drop (length xs div 2) xs)"]
    by (simp add: compact_sort_split) linarith
qed (auto simp: compact_sort_short compact_sort_two compact_two_def)

lemma compact_list_nonempty: "ys \<noteq> [] \<Longrightarrow> compact_list cmp xs ys \<noteq> []"
  by (induction xs ys rule: two_lists_induct) auto

lemma compact_sort_nonempty: "xs \<noteq> [] \<Longrightarrow> compact_sort cmp xs \<noteq> []"
proof (induction xs rule: halves_induct_two)
  case (split xs)
  then have "drop (length xs div 2) xs \<noteq> []" by (simp add: not_le)
  with split show ?case by (simp add: compact_sort_split compact_list_nonempty)
qed (simp_all add: compact_sort_short compact_sort_two compact_two_def)

lemma sorted_short: "length xs < 2 \<Longrightarrow> sorted xs" "length xs < 2 \<Longrightarrow> sorted_wrt (<) xs"
  by (cases xs; simp)+

context keyed_cmp
begin

lemma sorted_merge_list:
  assumes "set xs \<subseteq> D" and "set ys \<subseteq> D" and "sorted (List.map key xs)" and "sorted (List.map key ys)"
  shows "sorted (List.map key (merge_list cmp xs ys))"
  using assms
proof (induction xs ys rule: two_lists_induct)
  case (both x xs y ys)
  then show ?case using cmp_le [of x y] by (auto simp: not_le)
qed auto

text \<open>Equal elements keep their order, those of the left list first.\<close>

lemma filter_merge_list:
  assumes "set xs \<subseteq> D" and "set ys \<subseteq> D" and "sorted (List.map key xs)"
  shows "filter (\<lambda>x. k = key x) (merge_list cmp xs ys)
    = filter (\<lambda>x. k = key x) xs @ filter (\<lambda>x. k = key x) ys"
  using assms
proof (induction xs ys rule: two_lists_induct)
  case (both x xs y ys)
  show ?case
  proof (cases "key x \<le> key y")
    case True
    then show ?thesis using both cmp_le [of x y] by (auto split: if_splits)
  next
    case False
    then have "filter (\<lambda>x. key y = key x) (x # xs) = []"
      using both.prems(3) by (auto simp: filter_empty_conv)
    then show ?thesis using both False cmp_le [of x y] by auto
  qed
qed auto

lemma sort_by_merge:
  assumes "set xs \<subseteq> D"
  shows "sorted (List.map key (sort_by (merge_list cmp) xs))
    \<and> filter (\<lambda>x. k = key x) (sort_by (merge_list cmp) xs) = filter (\<lambda>x. k = key x) xs"
  using assms
proof (induction xs rule: halves_induct)
  case (split xs)
  then have "set (take (length xs div 2) xs) \<subseteq> D" "set (drop (length xs div 2) xs) \<subseteq> D"
    using take_drop_set [of "length xs div 2" xs] by auto
  with split show ?case
    by (simp add: sort_by_split sorted_merge_list filter_merge_list flip: filter_append)
qed (simp add: sort_by_short sorted_short)

lemma sort_by_sort_key:
  assumes "set xs \<subseteq> D"
  shows "sort_by (merge_list cmp) xs = sort_key key xs"
  by (rule properties_for_sort_key [symmetric]) (use sort_by_merge [OF assms] in simp_all)

lemma compact_list_sorted:
  assumes "set xs \<subseteq> D" and "set ys \<subseteq> D"
    and "sorted_wrt (<) (List.map key xs)" and "sorted_wrt (<) (List.map key ys)"
  shows "sorted_wrt (<) (List.map key (compact_list cmp xs ys))
    \<and> key ` set (compact_list cmp xs ys) = key ` (set xs \<union> set ys)"
  using assms
proof (induction xs ys rule: two_lists_induct)
  case (both x xs y ys)
  then have xy: "x \<in> D" "y \<in> D" by auto
  have xs: "\<And>z. z \<in> set xs \<Longrightarrow> key x < key z" and ys: "\<And>z. z \<in> set ys \<Longrightarrow> key y < key z"
    using both.prems(3,4) by auto
  consider "key x < key y" | "key x = key y" | "key y < key x" by (rule linorder_cases)
  then show ?case
  proof cases
    case 1
    have "key x < key z" if "z \<in> set (compact_list cmp xs (y # ys))" for z
      using set_compact_list [of cmp xs "y # ys"] that 1 xs ys less_trans by fastforce
    with 1 show ?thesis
      using both.IH(1) both.prems cmp_less [OF xy] by auto
  next
    case 2
    then show ?thesis
      using both.IH(1) both.prems cmp_less [OF xy] cmp_eq [OF xy] by auto
  next
    case 3
    have "key y < key z" if "z \<in> set (compact_list cmp (x # xs) ys)" for z
      using set_compact_list [of cmp "x # xs" ys] that 3 xs ys less_trans by fastforce
    with 3 show ?thesis
      using both.IH(2) both.prems cmp_less [OF xy] cmp_eq [OF xy] by auto
  qed
qed auto

lemma compact_sort_sorted:
  assumes "set xs \<subseteq> D"
  shows "sorted_wrt (<) (List.map key (compact_sort cmp xs))
    \<and> key ` set (compact_sort cmp xs) = key ` set xs"
  using assms
proof (induction xs rule: halves_induct_two)
  case (two x y)
  then show ?case
    using cmp_less [of x y] cmp_eq [of x y] by (auto simp: compact_sort_two compact_two_def)
next
  case (split xs)
  let ?l = "compact_sort cmp (take (length xs div 2) xs)"
  let ?r = "compact_sort cmp (drop (length xs div 2) xs)"
  have halves: "set (take (length xs div 2) xs) \<subseteq> D" "set (drop (length xs div 2) xs) \<subseteq> D"
    using split.prems take_drop_set [of "length xs div 2" xs] by auto
  then have "set ?l \<subseteq> D" "set ?r \<subseteq> D"
    using set_compact_sort by (meson order_trans)+
  from compact_list_sorted [OF this] split.IH(1) [OF halves(1)] split.IH(2) [OF halves(2)]
  show ?case
    using split.hyps arg_cong [OF take_drop_set [of "length xs div 2" xs], of "(`) key"]
    by (simp add: compact_sort_split image_Un)
qed (simp add: compact_sort_short sorted_short)

lemma compact_sort_keys:
  assumes "set xs \<subseteq> D"
  shows "List.map key (compact_sort cmp xs) = sorted_list_of_set (key ` set xs)"
  using compact_sort_sorted [OF assms]
  by (metis List.finite_set list.set_map strict_sorted_equal sorted_list_of_set.set_sorted_key_list_of_set
      strict_sorted_list_of_set)

end

end
