(* ===== verification/YapSortVector.thy ===== *)
theory YapSortVector
  imports YapSortCorrect
begin

text \<open>
  The refinements of the two other vector sorts, of the linking of the vector into a list, and the
  builtins as functions on lists.
\<close>

section \<open>Sorting that drops duplicates\<close>

lemma outside_mono: "outside a p n \<Longrightarrow> m \<le> n \<Longrightarrow> outside a p m"
  by (auto simp: outside_def)

lemma copy_count_run:
  assumes "spans p e n" and "odd (p + pt) \<or> pt \<le> p"
    and "copy_count_loop mem p e pt k = (mem', pt', k')"
  shows "run mem' pt n = run mem p n \<and> (\<forall>a. outside a pt n \<longrightarrow> mem' a = mem a)
    \<and> pt' = pt + 2 * n \<and> k' = k + n"
  using assms
proof (induction n arbitrary: mem p pt k)
  case 0
  then show ?case by (auto simp: copy_count_loop.simps [of _ p] spans_less)
next
  case (Suc n)
  have out: "outside pt (p + 2) n" "outside pt (pt + 2) n"
    using Suc.prems(2) by (auto simp: outside_def)
  have pre: "spans (p + 2) e n" "odd (p + 2 + (pt + 2)) \<or> pt + 2 \<le> p + 2"
    using Suc.prems by (auto simp: spans_Suc)
  define m where "m = mem(pt := mem p)"
  have m: "run m (p + 2) n = run mem (p + 2) n" "m pt = mem p" "\<And>a. a \<noteq> pt \<Longrightarrow> m a = mem a"
    using out(1) by (simp_all add: m_def)
  have "p < e" using Suc.prems(1) by (simp add: spans_less)
  then have "copy_count_loop m (p + 2) e (pt + 2) (k + 1) = (mem', pt', k')"
    using Suc.prems(3) by (simp add: copy_count_loop.simps [of mem p] m_def)
  from Suc.IH [OF pre this] show ?case
    using m out(2) by (simp add: run_Suc outside_Suc)
qed

text \<open>
  The right run starts somewhere above the output in the same lane, and the results of the two
  copying loops follow those of the merging loop. All cells written are among the first \<open>n\<close> of the
  output lane.
\<close>

lemma compact_in_place:
  assumes "spans l el nl" and "spans r er nr" and "pt + 2 * nl \<le> r" and "r + 2 * nr \<le> pt + 2 * n"
    and "even (r + pt)" and "odd (l + pt)"
    and "compact_merge_loop cmp mem l el r er pt k = (mem1, l1, r1, pt1, k1)"
    and "copy_count_loop mem1 l1 el pt1 k1 = (mem2, pt2, k2)"
    and "copy_count_loop mem2 r1 er pt2 k2 = (mem3, pt3, k3)"
    and "ys = compact_list cmp (run mem l nl) (run mem r nr)"
  shows "k3 = k + length ys \<and> run mem3 pt (length ys) = ys \<and> (\<forall>a. outside a pt n \<longrightarrow> mem3 a = mem a)"
  using assms
proof (induction "nl + nr" arbitrary: nl nr mem l r pt k n ys rule: less_induct)
  case less
  note prems = less.prems
  show ?case
  proof (cases "0 < nl \<and> 0 < nr")
    case False
    have stop: "mem1 = mem" "l1 = l" "r1 = r" "pt1 = pt" "k1 = k"
      using False prems(1,2,7) by (auto simp: compact_merge_loop.simps [of _ _ l] spans_less)
    have left: "run mem2 pt nl = run mem l nl \<and> (\<forall>a. outside a pt nl \<longrightarrow> mem2 a = mem a)
        \<and> pt2 = pt + 2 * nl \<and> k2 = k + nl"
      using copy_count_run [OF prems(1)] prems(6,8) stop by blast
    have "odd (r + pt2) \<or> pt2 \<le> r" using left prems(3) by simp
    note right = copy_count_run [OF prems(2) this prems(9) [unfolded stop]]
    have nil: "compact_list cmp xs [] = xs" for xs by (cases xs) simp_all
    from False consider "nl = 0" | "nr = 0" by auto
    then show ?thesis
    proof cases
      case 1
      then have "mem2 = mem" using left by (auto intro!: ext)
      moreover have "outside a pt n \<Longrightarrow> outside a pt nr" for a
        using prems(3,4) by (auto intro: outside_mono)
      ultimately show ?thesis using left right prems(10) 1 by simp
    next
      case 2
      then have "mem3 = mem2" using right by (auto intro!: ext)
      moreover have "outside a pt n \<Longrightarrow> outside a pt nl" for a
        using prems(3,4) by (auto intro: outside_mono)
      ultimately show ?thesis using left right prems(10) 2 nil by simp
    qed
  next
    case True
    then obtain nl' nr' where n: "nl = Suc nl'" "nr = Suc nr'" by (metis gr0_conv_Suc)
    have lt: "l < el" "r < er" using True prems(1,2) by (simp_all add: spans_less)
    obtain n' where n': "n = Suc n'" using prems(3,4) n by (cases n) auto
    have out: "outside pt (l + 2) nl'" "outside pt l nl" "outside pt (r + 2) nr'"
      using prems(3,6) n by (auto simp: outside_def)
    have out_r: "outside pt r nr" using prems(3) n by (auto simp: outside_def)
    have spans: "spans (l + 2) el nl'" "spans (r + 2) er nr'"
      using prems(1,2) n by (simp_all add: spans_Suc)
    consider "cmp (mem l) (mem r) < 0" | "cmp (mem l) (mem r) = 0" | "0 < cmp (mem l) (mem r)"
      by linarith
    then show ?thesis
    proof cases
      case 1
      define m where "m = mem(pt := mem l)"
      have m: "run m (l + 2) nl' = run mem (l + 2) nl'" "run m r nr = run mem r nr"
        "m pt = mem l" "\<And>a. a \<noteq> pt \<Longrightarrow> m a = mem a"
        using out out_r by (simp_all add: m_def)
      have step: "compact_merge_loop cmp m (l + 2) el r er (pt + 2) (k + 1) = (mem1, l1, r1, pt1, k1)"
        using prems(7) lt 1 by (simp add: compact_merge_loop.simps [of _ _ l] m_def)
      have "outside pt (pt + 2) n'" by (simp add: outside_def)
      moreover have "nl' + nr < nl + nr" "pt + 2 + 2 * nl' \<le> r" "r + 2 * nr \<le> pt + 2 + 2 * n'"
        "even (r + (pt + 2))" "odd (l + 2 + (pt + 2))"
        using prems(3-6) n n' by simp_all
      note IH = less.hyps [OF this(1) spans(1) prems(2) this(2-5) step prems(8,9) refl]
      ultimately show ?thesis
        using IH m 1 prems(10) n n' by (simp add: run_Suc outside_Suc)
    next
      case 2
      have step: "compact_merge_loop cmp mem (l + 2) el r er pt k = (mem1, l1, r1, pt1, k1)"
        using prems(7) lt 2 by (simp add: compact_merge_loop.simps [of _ _ l])
      have "nl' + nr < nl + nr" "pt + 2 * nl' \<le> r" "odd (l + 2 + pt)"
        using prems(3,6) n by simp_all
      note IH = less.hyps [OF this(1) spans(1) prems(2) this(2) prems(4,5) this(3) step prems(8,9) refl]
      then show ?thesis using 2 prems(10) n by (simp add: run_Suc)
    next
      case 3
      define m where "m = mem(pt := mem r)"
      have m: "run m l nl = run mem l nl" "run m (r + 2) nr' = run mem (r + 2) nr'"
        "m pt = mem r" "\<And>a. a \<noteq> pt \<Longrightarrow> m a = mem a"
        using out by (simp_all add: m_def)
      have step: "compact_merge_loop cmp m l el (r + 2) er (pt + 2) (k + 1) = (mem1, l1, r1, pt1, k1)"
        using prems(7) lt 3 by (simp add: compact_merge_loop.simps [of _ _ l] m_def)
      have "outside pt (pt + 2) n'" by (simp add: outside_def)
      moreover have "nl + nr' < nl + nr" "pt + 2 + 2 * nl \<le> r + 2" "r + 2 + 2 * nr' \<le> pt + 2 + 2 * n'"
        "even (r + 2 + (pt + 2))" "odd (l + (pt + 2))"
        using prems(3-6) n n' by simp_all
      note IH = less.hyps [OF this(1) prems(1) spans(2) this(2-5) step prems(8,9) refl]
      ultimately show ?thesis
        using IH m 3 prems(10) n n' by (simp add: run_Suc outside_Suc)
    qed
  qed
qed

lemma compact_mergesort_refines:
  assumes "1 \<le> n" and "compact_mergesort cmp mem pt n q = (mem', k)"
  shows "k = length (compact_sort cmp (run mem pt n))
    \<and> run mem' (pt + ofs q) k = compact_sort cmp (run mem pt n)
    \<and> (\<forall>a. beside a pt n \<longrightarrow> mem' a = mem a)"
  using assms
proof (induction n arbitrary: mem pt q mem' k rule: less_induct)
  case (less n)
  show ?case
  proof (cases "2 < n")
    case False
    then consider "n = 1" | "n = 2" using less.prems(1) by linarith
    then show ?thesis
    proof cases
      case 1
      then show ?thesis using less.prems(2)
        by (cases q) (auto simp: compact_mergesort.simps [of cmp mem] run_Suc compact_sort_short)
    next
      case 2
      show ?thesis using less.prems(2) unfolding 2
        by (cases q) (auto simp: compact_mergesort.simps [of cmp mem] run_Suc run_two compact_sort_two
            compact_two_def Let_def split: if_splits)
    qed
  next
    case True
    define h where "h = n div 2"
    have h: "1 \<le> h" "h < n" "1 \<le> n - h" "n - h < n" "h + (n - h) = n"
      using True by (auto simp: h_def)
    obtain mem1 lsz where l: "compact_mergesort cmp mem pt h (other q) = (mem1, lsz)" by fastforce
    obtain mem2 rsz where r: "compact_mergesort cmp mem1 (pt + h * 2) (n - h) q = (mem2, rsz)"
      by fastforce
    obtain m3 l3 r3 p3 k3 where m3: "compact_merge_loop cmp mem2 (pt + ofs (other q)) (pt + 2 * lsz)
        (pt + h * 2 + ofs q) (pt + h * 2 + ofs q + 2 * rsz) (pt + ofs q) 0 = (m3, l3, r3, p3, k3)"
      by (metis prod_cases5)
    obtain m4 p4 k4 where m4: "copy_count_loop m3 l3 (pt + 2 * lsz) p3 k3 = (m4, p4, k4)"
      by (metis prod_cases3)
    obtain m5 p5 k5 where m5: "copy_count_loop m4 r3 (pt + h * 2 + ofs q + 2 * rsz) p4 k4 = (m5, p5, k5)"
      by (metis prod_cases3)
    have res: "mem' = m5 \<and> k = k5"
      using True l r m3 m4 m5 less.prems(2)
      by (simp add: compact_mergesort.simps [of cmp mem] h_def Let_def)
    let ?xs = "compact_sort cmp (run mem pt h)"
    let ?ys = "compact_sort cmp (run mem (pt + h * 2) (n - h))"
    have r1: "lsz = length ?xs" "run mem1 (pt + ofs (other q)) lsz = ?xs"
      "\<And>a. beside a pt h \<Longrightarrow> mem1 a = mem a"
      using less.IH [OF h(2,1) l] by auto
    have "run mem1 (pt + h * 2) (n - h) = run mem (pt + h * 2) (n - h)"
      using run_beside [of "pt + h * 2" "n - h" mem1 mem M_EVEN] r1(3) by simp
    then have r2: "rsz = length ?ys" "run mem2 (pt + h * 2 + ofs q) rsz = ?ys"
      "\<And>a. beside a (pt + h * 2) (n - h) \<Longrightarrow> mem2 a = mem1 a"
      using less.IH [OF h(4,3) r] by auto
    have len: "lsz \<le> h" "rsz \<le> n - h"
      using length_compact_sort [of cmp "run mem pt h"]
        length_compact_sort [of cmp "run mem (pt + h * 2) (n - h)"] by (simp_all add: r1(1) r2(1))
    have left: "run mem2 (pt + ofs (other q)) lsz = ?xs"
    proof -
      have "run mem2 (pt + ofs (other q)) lsz = run mem1 (pt + ofs (other q)) lsz"
        using len(1) by (intro run_beside r2(2,3)) auto
      with r1(2) show ?thesis by simp
    qed
    have "spans (pt + ofs (other q)) (pt + 2 * lsz) lsz"
      "spans (pt + h * 2 + ofs q) (pt + h * 2 + ofs q + 2 * rsz) rsz"
      "pt + ofs q + 2 * lsz \<le> pt + h * 2 + ofs q" "pt + h * 2 + ofs q + 2 * rsz \<le> pt + ofs q + 2 * n"
      "even (pt + h * 2 + ofs q + (pt + ofs q))" "odd (pt + ofs (other q) + (pt + ofs q))"
      using ofs_other(2) [of "other q"] ofs_other(1) [of q] len h(2,5) by (auto simp: spans_def)
    from compact_in_place [OF this m3 m4 m5 refl]
    have "k5 = length (compact_list cmp ?xs ?ys)"
      "run m5 (pt + ofs q) k5 = compact_list cmp ?xs ?ys"
      "\<And>a. outside a (pt + ofs q) n \<Longrightarrow> m5 a = mem2 a"
      by (simp_all add: left r2(2))
    moreover have "compact_sort cmp (run mem pt n) = compact_list cmp ?xs ?ys"
      using True h(2) by (simp add: compact_sort_split take_run drop_run h_def mult.commute)
    moreover have "mem2 a = mem a" if "beside a pt n" for a
    proof -
      have "beside a pt h" "beside a (pt + h * 2) (n - h)" using that h(2) by auto
      then show ?thesis by (simp only: r1(3) r2(3))
    qed
    ultimately show ?thesis using res by (simp add: beside_outside)
  qed
qed

section \<open>Sorting by key\<close>

text \<open>The comparison of the keys of two elements that have one.\<close>

definition by_key :: "('f trm \<Rightarrow> 'f trm \<Rightarrow> int) \<Rightarrow> 'f trm \<Rightarrow> 'f trm \<Rightarrow> int" where
  "by_key cmp s t = cmp (the (key_of s)) (the (key_of t))"

abbreviation keyed :: "'f trm list \<Rightarrow> bool" where
  "keyed ts \<equiv> \<forall>t \<in> set ts. key_of t \<noteq> None"

lemma merge_loops_stop:
  assumes "\<not> (l < el \<and> r < er)"
  shows "merge_loop cmp mem l el r er pt = (mem, l, r, pt)"
    and "key_merge_loop cmp' mem' l el r er pt = Some (mem', l, r, pt)"
  by (simp_all only: merge_loop.simps [of cmp mem] key_merge_loop.simps [of cmp' mem'] if_not_P [OF assms])

lemma key_merge_loop_keyed:
  assumes "spans l el nl" and "spans r er nr" and "r = pt + 2 * nl" and "odd (l + pt)"
    and "keyed (run mem l nl)" and "keyed (run mem r nr)"
  shows "key_merge_loop cmp mem l el r er pt = Some (merge_loop (by_key cmp) mem l el r er pt)"
  using assms
proof (induction "nl + nr" arbitrary: nl nr mem l r pt)
  case 0
  then have "\<not> l < el" by (simp add: spans_less)
  then show ?case
    by (simp add: merge_loop.simps [of _ mem l] key_merge_loop.simps [of _ mem l])
next
  case (Suc k)
  note prems = Suc.prems
  show ?case
  proof (cases "0 < nl \<and> 0 < nr")
    case False
    then have "\<not> (l < el \<and> r < er)" using prems(1,2) by (simp add: spans_less)
    then show ?thesis by (simp add: merge_loops_stop [OF \<open>\<not> (l < el \<and> r < er)\<close>])
  next
    case True
    then obtain nl' nr' where n: "nl = Suc nl'" "nr = Suc nr'" by (metis gr0_conv_Suc)
    have less: "l < el" "r < er" using True prems(1,2) by (simp_all add: spans_less)
    obtain t0 t1 where t: "key_of (mem l) = Some t0" "key_of (mem r) = Some t1"
      using prems(5,6) n by (auto simp: run_Suc)
    have out: "outside pt (l + 2) nl'" "outside pt l nl" "outside pt r nr" "outside pt (r + 2) nr'"
      using prems(3,4) n by (auto simp: outside_def)
    have k: "k = nl' + nr" "k = nl + nr'" using Suc.hyps(2) n by simp_all
    have spans: "spans (l + 2) el nl'" "spans (r + 2) er nr'"
      using prems(1,2) n by (simp_all add: spans_Suc)
    have runs: "keyed (run mem (l + 2) nl')" "keyed (run mem (r + 2) nr')"
      using prems(5,6) n by (auto simp: run_Suc)
    show ?thesis
    proof (cases "cmp t0 t1 \<le> 0")
      case True
      from Suc.hyps(1) [OF k(1) spans(1) prems(2), of "pt + 2" "mem(pt := mem l)"]
      show ?thesis
        using True prems(3,4,6) n out runs less t
        by (simp add: merge_loop.simps [of _ mem] key_merge_loop.simps [of _ mem] by_key_def)
    next
      case False
      from Suc.hyps(1) [OF k(2) prems(1) spans(2), of "pt + 2" "mem(pt := mem r)"]
      show ?thesis
        using False prems(3,4,5) n out runs less t
        by (simp add: merge_loop.simps [of _ mem] key_merge_loop.simps [of _ mem] by_key_def)
    qed
  qed
qed

lemma key_merge_loop_unkeyed:
  assumes "l < el" and "r < er" and "key_of (mem l) = None"
  shows "key_merge_loop cmp mem l el r er pt = None"
  using assms by (simp add: key_merge_loop.simps [of _ mem])

lemma set_simple_run:
  "1 \<le> n \<Longrightarrow> set (run (simple_mergesort cmp mem pt n q) (pt + ofs q) n) = set (run mem pt n)"
  by (simp add: simple_mergesort_refines)

lemma key_mergesort_refines:
  assumes "1 \<le> n"
  shows "key_mergesort cmp mem pt n q =
    (if n = 1 \<or> keyed (run mem pt n) then Some (simple_mergesort (by_key cmp) mem pt n q) else None)"
  using assms
proof (induction n arbitrary: mem pt q rule: less_induct)
  case (less n)
  show ?case
  proof (cases "2 < n")
    case False
    then consider "n = 1" | "n = 2" using less.prems by linarith
    then show ?thesis
    proof cases
      case 1
      then show ?thesis
        by (simp add: key_mergesort.simps [of _ mem] simple_mergesort.simps [of _ mem])
    next
      case 2
      show ?thesis unfolding 2
        by (auto simp: key_mergesort.simps [of _ mem] simple_mergesort.simps [of _ mem] run_two
            by_key_def Let_def split: option.split)
    qed
  next
    case True
    define h where "h = n div 2"
    have h: "1 \<le> h" "h < n" "1 \<le> n - h" "n - h < n" "h + (n - h) = n" "n - h \<noteq> 1"
      using True by (auto simp: h_def)
    define mem1 where "mem1 = simple_mergesort (by_key cmp) mem pt h (other q)"
    define mem2 where "mem2 = simple_mergesort (by_key cmp) mem1 (pt + h * 2) (n - h) q"
    have left: "key_mergesort cmp mem pt h (other q) =
        (if h = 1 \<or> keyed (run mem pt h) then Some mem1 else None)"
      using less.IH [OF h(2,1)] by (simp add: mem1_def)
    have "\<And>a. beside a pt h \<Longrightarrow> mem1 a = mem a"
      using simple_mergesort_refines [OF h(1)] unfolding mem1_def by blast
    then have "run mem1 (pt + h * 2) (n - h) = run mem (pt + h * 2) (n - h)"
      using run_beside [of "pt + h * 2" "n - h" mem1 mem M_EVEN] by simp
    then have right: "key_mergesort cmp mem1 (pt + h * 2) (n - h) q =
        (if keyed (run mem (pt + h * 2) (n - h)) then Some mem2 else None)"
      and right_set: "set (run mem2 (pt + h * 2 + ofs q) (n - h)) = set (run mem (pt + h * 2) (n - h))"
      using less.IH [OF h(4,3), of mem1 "pt + h * 2" q] h(6)
        set_simple_run [OF h(3), of "by_key cmp" mem1 "pt + h * 2" q] by (simp_all add: mem2_def)
    have "run mem2 (pt + ofs (other q)) h = run mem1 (pt + ofs (other q)) h"
      using simple_mergesort_refines [OF h(3), of "by_key cmp" mem1 "pt + h * 2" q]
      by (intro run_beside) (auto simp: mem2_def)
    then have left_set: "set (run mem2 (pt + ofs (other q)) h) = set (run mem pt h)"
      using set_simple_run [OF h(1)] by (simp add: mem1_def)
    have all: "keyed (run mem pt n) \<longleftrightarrow> keyed (run mem pt h) \<and> keyed (run mem (pt + h * 2) (n - h))"
      using run_split [of h n mem pt] h(2) by (auto simp: mult.commute)
    have spans: "spans (pt + ofs (other q)) (pt + h * 2) h" "spans (pt + h * 2 + ofs q) (pt + 2 * n) (n - h)"
      "pt + h * 2 + ofs q = pt + ofs q + 2 * h" "odd (pt + ofs (other q) + (pt + ofs q))"
      using ofs_other [of q] ofs_other(2) [of "other q"] h(2) by (auto simp: spans_def)
    show ?thesis
    proof (cases "keyed (run mem pt n)")
      case keyed: True
      then have "key_merge_loop cmp mem2 (pt + ofs (other q)) (pt + h * 2) (pt + h * 2 + ofs q)
          (pt + 2 * n) (pt + ofs q) = Some (merge_loop (by_key cmp) mem2 (pt + ofs (other q)) (pt + h * 2)
          (pt + h * 2 + ofs q) (pt + 2 * n) (pt + ofs q))"
        using all left_set right_set by (intro key_merge_loop_keyed [OF spans]) simp_all
      then show ?thesis
        using True keyed left right all
        by (simp add: key_mergesort.simps [of cmp mem pt n q] simple_mergesort.simps [of "by_key cmp" mem pt n q]
            Let_def h_def [symmetric] mem1_def [symmetric] mem2_def [symmetric] split_def)
    next
      case unkeyed: False
      have "key_merge_loop cmp mem2 (pt + ofs (other q)) (pt + h * 2) (pt + h * 2 + ofs q)
          (pt + 2 * n) (pt + ofs q) = None" if "h = 1" "\<not> keyed (run mem pt h)"
      proof (rule key_merge_loop_unkeyed)
        show "key_of (mem2 (pt + ofs (other q))) = None"
          using that left_set by (simp add: run_Suc)
      qed (use spans_less [OF spans(1)] spans_less [OF spans(2)] h in simp_all)
      then show ?thesis
        using True unkeyed left right all h(2)
        by (auto simp: key_mergesort.simps [of cmp mem pt n q] Let_def h_def [symmetric])
    qed
  qed
qed

end
