(* ===== verification/YapSortProps.thy ===== *)
theory YapSortProps
  imports YapSortVector YapCompareProps
begin

text \<open>The builtins \<open>sort/2\<close>, \<open>msort/2\<close> and \<open>keysort/2\<close> as functions on lists, and their properties.\<close>

section \<open>From lists to vectors and back\<close>

definition list_term :: "'f trm list \<Rightarrow> 'f trm" where
  "list_term ts = foldr PairT ts TermNil"

lemma list_term_simps [simp]:
  "list_term [] = TermNil" "list_term (t # ts) = PairT t (list_term ts)"
  by (simp_all add: list_term_def)

lemma list_term_nil [simp]: "list_term ts = TermNil \<longleftrightarrow> ts = []"
  by (cases ts) (simp_all add: TermNil_def)

lemma list_term_inject [simp]: "list_term ts = list_term us \<longleftrightarrow> ts = us"
proof (induction ts arbitrary: us)
  case Nil
  show ?case by (cases us) (simp_all add: TermNil_def)
next
  case (Cons t ts)
  then show ?case by (cases us) (simp_all add: TermNil_def)
qed

lemma not_var_list [simp]: "\<not> IsVar_trm (list_term ts)"
  by (cases ts) (simp_all add: TermNil_def)

lemma build_loop_list:
  assumes "ts \<noteq> []"
  shows "snd (build_loop mem pt k (list_term ts)) = k + int (length ts)
    \<and> run (fst (build_loop mem pt k (list_term ts))) pt (length ts) = ts
    \<and> (\<forall>a < pt. fst (build_loop mem pt k (list_term ts)) a = mem a)"
  using assms
proof (induction ts arbitrary: mem pt k)
  case (Cons t ts)
  show ?case
  proof (cases "ts = []")
    case True
    then show ?thesis by (simp add: run_Suc Let_def TermNil_def)
  next
    case False
    define m where "m = mem(pt := t)"
    have m: "m pt = t" "\<And>a. a < pt \<Longrightarrow> m a = mem a" by (simp_all add: m_def)
    have "build_loop mem pt k (list_term (t # ts)) = build_loop m (pt + 2) (k + 1) (list_term ts)"
      using False by (simp add: m_def Let_def)
    with Cons.IH [OF False, of m "pt + 2" "k + 1"] m show ?thesis
      by (simp add: run_Suc)
  qed
qed simp

lemma build_new_list_list:
  obtains mem' where "build_new_list mem pt (list_term ts) = (mem', int (length ts))"
    and "run mem' pt (length ts) = ts"
proof (cases "ts = []")
  case True
  then show ?thesis using that by (simp add: build_new_list_def TermNil_def)
next
  case False
  then show ?thesis
    using build_loop_list [OF False, of mem pt 0] that
    by (cases "build_loop mem pt 0 (list_term ts)") (simp add: build_new_list_def)
qed

lemma build_loop_improper:
  assumes "\<nexists>ts. t = list_term ts"
  shows "snd (build_loop mem pt k t) = - 1"
  using assms
proof (induction t arbitrary: mem pt k)
  case (PairT h t)
  have "\<nexists>ts. t = list_term ts"
    using PairT.prems list_term_simps(2) by metis
  moreover from this have "t \<noteq> TermNil" using list_term_simps(1) by metis
  ultimately show ?case using PairT.IH(2) by (simp add: Let_def)
qed simp_all

lemma build_new_list_improper:
  assumes "\<nexists>ts. t = list_term ts"
  obtains mem' where "build_new_list mem pt t = (mem', - 1)"
proof -
  have "t \<noteq> TermNil" using assms list_term_simps(1) by metis
  then have "snd (build_new_list mem pt t) = - 1"
    using build_loop_improper [OF assms] by (simp add: build_new_list_def)
  then show ?thesis using that by (cases "build_new_list mem pt t") simp
qed

lemma adjust_loop_list:
  assumes "run mem pt (Suc m) = List.map Elem ts"
  shows "pair_at (Suc m) (adjust_loop mem (pt + 1) (pt + 2 * m)) pt = list_term ts
    \<and> (\<forall>a \<le> pt. adjust_loop mem (pt + 1) (pt + 2 * m) a = mem a)"
  using assms
proof (induction m arbitrary: mem pt ts)
  case 0
  then show ?case by (auto simp: adjust_loop.simps [of mem] run_Suc)
next
  case (Suc m)
  then obtain t us where ts: "ts = t # us" "mem pt = Elem t" "run mem (pt + 2) (Suc m) = List.map Elem us"
    by (auto simp: run_Suc [of mem pt])
  define mem1 where "mem1 = mem(pt + 1 := AbsPair_at (pt + 2))"
  have m1: "run mem1 (pt + 2) (Suc m) = List.map Elem us" "mem1 (pt + 1) = AbsPair_at (pt + 2)"
    "\<And>a. a \<le> pt \<Longrightarrow> mem1 a = mem a"
    using ts(3) by (simp_all add: mem1_def outside_less)
  define A where "A = adjust_loop mem (pt + 1) (pt + 2 * Suc m)"
  have "A = adjust_loop mem1 (pt + 2 + 1) (pt + 2 + 2 * m)"
    unfolding A_def by (subst adjust_loop.simps) (simp add: mem1_def numeral_3_eq_3)
  with Suc.IH [OF m1(1)] have A: "pair_at (Suc m) A (pt + 2) = list_term us"
    "\<And>a. a \<le> pt + 2 \<Longrightarrow> A a = mem1 a"
    by blast+
  have "A pt = Elem t" "A (pt + 1) = AbsPair_at (pt + 2)"
    using A(2) [of pt] A(2) [of "pt + 1"] m1(2,3) ts(2) by simp_all
  then have "pair_at (Suc (Suc m)) A pt = list_term ts"
    using A(1) by (simp only: pair_at.simps(2) [of "Suc m" A pt] slot.case ts(1) list_term_simps(2))
  with A(2) m1(3) show ?case unfolding A_def [symmetric] by simp
qed

lemma adjust_vector_list:
  assumes "1 \<le> n"
  shows "pair_at n (adjust_vector mem pt n) pt = list_term (run mem pt n)"
proof -
  obtain m where n: "n = Suc m" using assms by (cases n) auto
  have "run (\<lambda>a. Elem (mem a)) pt (Suc m) = List.map Elem (run mem pt n)"
    by (simp add: run_def n)
  from adjust_loop_list [OF this] show ?thesis
    by (simp add: adjust_vector_def n del: pair_at.simps)
qed

section \<open>The builtins on lists\<close>

lemma p_msort_list: "p_msort cmp mem HR (list_term ts) = Some (list_term (sort_by (merge_list cmp) ts))"
proof -
  obtain mem' where b: "build_new_list mem HR (list_term ts) = (mem', int (length ts))"
    "run mem' HR (length ts) = ts"
    by (rule build_new_list_list)
  show ?thesis
  proof (cases "length ts < 2")
    case True
    with b show ?thesis by (simp add: p_msort_def sort_by_short)
  next
    case False
    with b simple_mergesort_refines [of "length ts" cmp mem' HR M_EVEN] show ?thesis
      by (simp add: p_msort_def Let_def adjust_vector_list)
  qed
qed

lemma p_sort_list: "p_sort cmp mem HR (list_term ts) = Some (list_term (compact_sort cmp ts))"
proof -
  obtain mem' where b: "build_new_list mem HR (list_term ts) = (mem', int (length ts))"
    "run mem' HR (length ts) = ts"
    by (rule build_new_list_list)
  show ?thesis
  proof (cases "length ts < 2")
    case True
    with b show ?thesis by (simp add: p_sort_def compact_sort_short)
  next
    case False
    obtain m k where c: "compact_mergesort cmp mem' HR (length ts) M_EVEN = (m, k)" by fastforce
    from False have "1 \<le> length ts" by simp
    from compact_mergesort_refines [OF this c]
    have "k = length (compact_sort cmp ts)" "run m HR k = compact_sort cmp ts" by (auto simp: b(2))
    moreover have "compact_sort cmp ts \<noteq> []"
      using False by (intro compact_sort_nonempty) auto
    ultimately show ?thesis
      using False b(1) c by (simp add: p_sort_def Let_def adjust_vector_list Suc_le_eq)
  qed
qed

lemma p_ksort_list:
  "p_ksort cmp mem HR (list_term ts) =
    (if length ts < 2 \<or> keyed ts then Some (list_term (sort_by (merge_list (by_key cmp)) ts)) else None)"
proof -
  obtain mem' where b: "build_new_list mem HR (list_term ts) = (mem', int (length ts))"
    "run mem' HR (length ts) = ts"
    by (rule build_new_list_list)
  show ?thesis
  proof (cases "length ts < 2")
    case True
    with b show ?thesis by (simp add: p_ksort_def sort_by_short)
  next
    case False
    with b key_mergesort_refines [of "length ts" cmp mem' HR M_EVEN]
      simple_mergesort_refines [of "length ts" "by_key cmp" mem' HR M_EVEN]
    show ?thesis by (simp add: p_ksort_def adjust_vector_list)
  qed
qed

lemma sorts_improper:
  assumes "\<nexists>ts. t = list_term ts"
  shows "p_sort cmp mem HR t = None" "p_msort cmp mem HR t = None" "p_ksort cmp mem HR t = None"
  by (rule build_new_list_improper [OF assms, of mem HR];
      simp add: p_sort_def p_msort_def p_ksort_def)+

lemma by_key_keyed_cmp:
  assumes "keyed_cmp cmp key D"
  shows "keyed_cmp (by_key cmp) (\<lambda>t. key (the (key_of t))) {t. \<exists>k \<in> D. key_of t = Some k}"
  by unfold_locales (auto simp: by_key_def keyed_cmp.cmp_sg [OF assms])

section \<open>Properties\<close>

text \<open>
  C4: \<open>msort/2\<close> sorts a list of terms of the domain into the standard order and is stable: the result
  is the stable sort by the key of the order, for a list of any length.
  Each element must be in the domain \<open>order_dom\<close>: a variable, an atom, a compound term over variables, atoms and
  tagged integers, an integer, a rational, a double of a set ordered by its differences or a database
  reference, with machine integers and addresses from \<open>- 2 ^ 62\<close> to below \<open>2 ^ 62\<close>; no lists, no strings, and no
  boxed numbers inside compound terms.
\<close>

theorem msort_sorts:
  assumes "gmp E" and "cell_identity same" and "float_order E fk FD" and "\<forall>t \<in> set ts. order_dom FD t"
  shows "p_msort (Yap_compare_terms E same) mem HR (list_term ts)
    = Some (list_term (sort_key (order_key fk) ts))"
proof -
  have "set ts \<subseteq> {t. order_dom FD t}" using assms(4) by auto
  from keyed_cmp.sort_by_sort_key [OF compare_keyed [OF assms(1-3)] this] show ?thesis
    by (simp add: p_msort_list)
qed

theorem msort_sorts_witness:
  "p_msort (Yap_compare_terms ref_env (=)) (\<lambda>_. null_trm) 0
    (list_term [AtmT ''b'', AtmT ''c'', AtmT ''a'']) = Some (list_term [AtmT ''a'', AtmT ''b'', AtmT ''c''])"
  using msort_sorts [OF ref.gmp_axioms structural.cell_identity_axioms ref_float_order,
      of "[AtmT ''b'', AtmT ''c'', AtmT ''a'']" "\<lambda>_. null_trm" 0]
  by (simp add: less_char_def less_eq_char_def)

text \<open>
  C29: \<open>sort/2\<close> returns a list of elements of its argument whose keys are the strictly increasing list
  of the keys of the argument: sorted and without duplicates, for a list whose elements are all in the
  domain \<open>order_dom\<close> (as for \<open>msort/2\<close>: no lists, no strings, no boxed numbers inside compound terms, no machine
  integers or addresses outside \<open>- 2 ^ 62\<close> to \<open>2 ^ 62\<close>).
\<close>

theorem sort_sorts_unique:
  assumes "gmp E" and "cell_identity same" and "float_order E fk FD" and "\<forall>t \<in> set ts. order_dom FD t"
  shows "\<exists>us. p_sort (Yap_compare_terms E same) mem HR (list_term ts) = Some (list_term us)
    \<and> List.map (order_key fk) us = sorted_list_of_set (order_key fk ` set ts) \<and> set us \<subseteq> set ts"
proof -
  have "set ts \<subseteq> {t. order_dom FD t}" using assms(4) by auto
  from keyed_cmp.compact_sort_keys [OF compare_keyed [OF assms(1-3)] this]
    set_compact_sort [of "Yap_compare_terms E same" ts]
  show ?thesis by (auto simp: p_sort_list)
qed

theorem sort_sorts_unique_witness:
  "\<exists>us. p_sort (Yap_compare_terms ref_env (=)) (\<lambda>_. null_trm) 0
      (list_term [AtmT ''b'', AtmT ''a'', AtmT ''b'']) = Some (list_term us)
    \<and> set us \<subseteq> {AtmT ''a'', AtmT ''b''}"
  using sort_sorts_unique [OF ref.gmp_axioms structural.cell_identity_axioms ref_float_order,
      of "[AtmT ''b'', AtmT ''a'', AtmT ''b'']" "\<lambda>_. null_trm" 0]
  by auto

text \<open>
  C30: \<open>keysort/2\<close> is the stable sort by the keys of a list of \<open>Key - Value\<close> terms whose keys are all in the
  domain \<open>order_dom\<close> (as for \<open>msort/2\<close>: no lists, no strings, no boxed numbers inside compound terms, no machine
  integers or addresses outside \<open>- 2 ^ 62\<close> to \<open>2 ^ 62\<close>); the values are any terms.
\<close>

theorem keysort_sorts:
  assumes "gmp E" and "cell_identity same" and "float_order E fk FD"
    and "\<forall>t \<in> set ts. \<exists>k. key_of t = Some k \<and> order_dom FD k"
  shows "p_ksort (Yap_compare_terms E same) mem HR (list_term ts)
    = Some (list_term (sort_key (\<lambda>t. order_key fk (the (key_of t))) ts))"
proof -
  have "keyed ts" using assms(4) by auto
  moreover have "set ts \<subseteq> {t. \<exists>k \<in> {t. order_dom FD t}. key_of t = Some k}" using assms(4) by auto
  note keyed_cmp.sort_by_sort_key [OF by_key_keyed_cmp [OF compare_keyed [OF assms(1-3)]] this]
  ultimately show ?thesis by (simp add: p_ksort_list)
qed

theorem keysort_sorts_witness:
  "p_ksort (Yap_compare_terms ref_env (=)) (\<lambda>_. null_trm) 0
      (list_term [ApplT ''-'' [AtmT ''b'', IntT 1], ApplT ''-'' [AtmT ''a'', IntT 2]])
    = Some (list_term [ApplT ''-'' [AtmT ''a'', IntT 2], ApplT ''-'' [AtmT ''b'', IntT 1]])"
  using keysort_sorts [OF ref.gmp_axioms structural.cell_identity_axioms ref_float_order,
      of "[ApplT ''-'' [AtmT ''b'', IntT 1], ApplT ''-'' [AtmT ''a'', IntT 2]]" "\<lambda>_. null_trm" 0]
  by (simp add: less_char_def less_eq_char_def)

text \<open>
  \<open>keysort/2\<close> of a list fails exactly when the list has at least two elements and one of them is
  no \<open>Key - Value\<close> term; the key of a single element is not checked.
\<close>

theorem keysort_fails:
  "p_ksort cmp mem HR (list_term ts) = None \<longleftrightarrow> 2 \<le> length ts \<and> (\<exists>t \<in> set ts. key_of t = None)"
  by (auto simp: p_ksort_list)

text \<open>
  The three builtins fail on exactly the terms that are no proper list, apart from the elements
  without key of \<open>keysort/2\<close>.
\<close>

theorem sorts_need_proper_list:
  "(p_msort cmp mem HR t = None \<longleftrightarrow> (\<nexists>ts. t = list_term ts))
    \<and> (p_sort cmp mem HR t = None \<longleftrightarrow> (\<nexists>ts. t = list_term ts))
    \<and> (p_ksort cmp mem HR t \<noteq> None \<longrightarrow> (\<exists>ts. t = list_term ts))"
proof (cases "\<exists>ts. t = list_term ts")
  case True
  then show ?thesis by (auto simp: p_msort_list p_sort_list)
next
  case False
  then show ?thesis by (simp add: sorts_improper)
qed

theorem sorts_need_proper_list_witness:
  "\<exists>ts. PairT (AtmT ''a'' :: rat trm) TermNil = list_term ts"
proof -
  have "p_ksort (\<lambda>s t. 0) (\<lambda>_. null_trm) 0 (PairT (AtmT ''a'' :: rat trm) TermNil) \<noteq> None"
    using p_ksort_list [of "\<lambda>s t. 0" "\<lambda>_. null_trm" 0 "[AtmT ''a'' :: rat trm]"] by simp
  then show ?thesis using sorts_need_proper_list [of "\<lambda>s t. 0" "\<lambda>_. null_trm" 0] by blast
qed

text \<open>
  C32: whatever the comparison does, also where it is no order, \<open>msort/2\<close> neither loses nor duplicates
  an element, and \<open>sort/2\<close> returns elements of the list only and at least one of a list that is not
  empty.
\<close>

theorem sorts_keep_elements:
  "\<exists>us vs. p_msort cmp mem HR (list_term ts) = Some (list_term us) \<and> mset us = mset ts
    \<and> p_sort cmp mem HR (list_term ts) = Some (list_term vs) \<and> set vs \<subseteq> set ts \<and> (vs = [] \<longleftrightarrow> ts = [])"
proof -
  have "compact_sort cmp ts = [] \<longleftrightarrow> ts = []"
    using compact_sort_nonempty [of ts cmp] by (cases "ts = []") (simp_all add: compact_sort_short)
  then show ?thesis
    by (intro exI [of _ "sort_by (merge_list cmp) ts"] exI [of _ "compact_sort cmp ts"])
      (simp add: p_msort_list p_sort_list set_compact_sort)
qed

end
