(* ===== verification/YapStore.thy ===== *)
theory YapStore
  imports YapTerm "HOL-Library.Monad_Syntax"
begin

text \<open>
  The memory of the abstract machine as unification sees it: the cells of the global and local
  stacks, the trail, and the registers that say which cells are older than the latest choice
  point (H/amiops.h, H/YapCompoundTerm.h), with the destructive updates of C/mavar.c.

  An address is a natural number counting cells, the global stack growing upwards from low addresses
  to \<open>HR\<close>, the local stack lying above it and growing downwards. The modelled build is the one
  without tabling, with attributed variables and multi-assignment variables.
\<close>

section \<open>Cells\<close>

text \<open>
  The contents of a cell, by tag: a reference, an atom, a tagged integer, a pair or a compound
  term (the address of its first cell). The other constructors are the first cells of objects:
  the functor of a compound term, a box with the number or string it holds, and the mark
  before an attributed variable. They are never the value of a variable or an argument.
\<close>

datatype 'f hcell =
    RefC nat
  | AtmC string
  | IntC cint
  | PairC nat
  | ApplC nat
  | FunC string nat
  | BoxC "'f trm"
  | AttC

text \<open>The cell with which traversals mark a place they are visiting.\<close>

definition TermFoundVar :: "'f hcell" where
  "TermFoundVar = AtmC ''**''"

record 'f wam =
  cells :: "nat \<Rightarrow> 'f hcell"
  TR :: "'f hcell list"
  HR :: nat
  HB :: nat
  Breg :: nat
  ASP :: nat

text \<open>
  The trail is a list, its top first. \<open>HB\<close> is the top of the global stack at the latest choice
  point (\<open>B->cp_h\<close>), \<open>Breg\<close> the address of that choice point on the local stack, \<open>ASP\<close> the
  top of the local stack.
\<close>

definition RESET_VARIABLE :: "nat \<Rightarrow> (nat \<Rightarrow> 'f hcell) \<Rightarrow> nat \<Rightarrow> 'f hcell" where
  "RESET_VARIABLE p S = S(p := RefC p)"

definition IsUnboundVar :: "(nat \<Rightarrow> 'f hcell) \<Rightarrow> nat \<Rightarrow> bool" where
  "IsUnboundVar S p \<longleftrightarrow> (case S p of RefC q \<Rightarrow> q = p | _ \<Rightarrow> False)"

section \<open>Dereferencing\<close>

text \<open>
  Following references ends at a cell that refers to itself, an unbound variable, whose value is
  that reference, or at a cell that is no reference. A cycle of references would never end, so the
  function is partial.
\<close>

partial_function (option) Derefa :: "(nat \<Rightarrow> 'f hcell) \<Rightarrow> nat \<Rightarrow> 'f hcell option" where
  "Derefa S b = (case S b of RefC q \<Rightarrow> if q = b then Some (RefC b) else Derefa S q | a \<Rightarrow> Some a)"

declare Derefa.simps [code]

definition Deref :: "(nat \<Rightarrow> 'f hcell) \<Rightarrow> 'f hcell \<Rightarrow> 'f hcell option" where
  "Deref S a = (case a of RefC b \<Rightarrow> Derefa S b | _ \<Rightarrow> Some a)"

section \<open>The trail\<close>

definition DO_TRAIL :: "'f hcell \<Rightarrow> 'f wam \<Rightarrow> 'f wam" where
  "DO_TRAIL t m = m\<lparr>TR := t # TR m\<rparr>"

definition OUTSIDE :: "nat \<Rightarrow> nat \<Rightarrow> nat \<Rightarrow> bool" where
  "OUTSIDE lo x hi \<longleftrightarrow> x < lo \<or> hi < x"

definition TRAIL :: "nat \<Rightarrow> 'f wam \<Rightarrow> 'f wam" where
  "TRAIL a m = (if OUTSIDE (HB m) a (Breg m) then DO_TRAIL (RefC a) m else m)"

definition TRAIL_GLOBAL :: "nat \<Rightarrow> 'f wam \<Rightarrow> 'f wam" where
  "TRAIL_GLOBAL a m = (if a < HB m then DO_TRAIL (RefC a) m else m)"

definition TRAIL_LOCAL :: "nat \<Rightarrow> 'f wam \<Rightarrow> 'f wam" where
  "TRAIL_LOCAL a m = (if Breg m < a then DO_TRAIL (RefC a) m else m)"

text \<open>Three entries for a destructive assignment, the old value between two marks.\<close>

definition DO_MATRAIL :: "nat \<Rightarrow> 'f hcell \<Rightarrow> 'f wam \<Rightarrow> 'f wam" where
  "DO_MATRAIL vp oldv m = m\<lparr>TR := ApplC vp # oldv # ApplC vp # TR m\<rparr>"

definition MATRAIL :: "nat \<Rightarrow> 'f hcell \<Rightarrow> 'f wam \<Rightarrow> 'f wam" where
  "MATRAIL vp oldv m = (if OUTSIDE (HB m) vp (Breg m) then DO_MATRAIL vp oldv m else m)"

text \<open>
  Undoing the entries above \<open>TR0\<close>, given as their number; entries of a kind the function does
  not expect end the model's run.
\<close>

fun reset_trail :: "'f hcell list \<Rightarrow> (nat \<Rightarrow> 'f hcell) \<Rightarrow> nat \<Rightarrow> 'f hcell" where
  "reset_trail [] S = S"
| "reset_trail (RefC a # tr) S = reset_trail tr (RESET_VARIABLE a S)"
| "reset_trail (ApplC p # v # _ # tr) S = reset_trail tr (S(p := v))"
| "reset_trail _ S = S"

section \<open>Binding\<close>

text \<open>
  A variable is attributed when the cell before it says so. Binding one calls \<open>Yap_WakeUp\<close>, which
  runs outside this model: the outcome \<open>WakesUp\<close> records the variable and the memory at the call.
\<close>

datatype 'f bound = Bound "'f wam" | WakesUp nat "'f wam"

definition GlobalIsAttVar :: "(nat \<Rightarrow> 'f hcell) \<Rightarrow> nat \<Rightarrow> bool" where
  "GlobalIsAttVar S p \<longleftrightarrow> 0 < p \<and> (case S (p - 1) of AttC \<Rightarrow> True | _ \<Rightarrow> False)"

definition store_cell :: "nat \<Rightarrow> 'f hcell \<Rightarrow> 'f wam \<Rightarrow> 'f wam" where
  "store_cell a d m = m\<lparr>cells := (cells m)(a := d)\<rparr>"

definition Bind_Local :: "nat \<Rightarrow> 'f hcell \<Rightarrow> 'f wam \<Rightarrow> 'f wam" where
  "Bind_Local a d m = store_cell a d (TRAIL_LOCAL a m)"

definition Bind_Global :: "nat \<Rightarrow> 'f hcell \<Rightarrow> 'f wam \<Rightarrow> 'f bound" where
  "Bind_Global a d m =
    (let m' = store_cell a d m in
     if GlobalIsAttVar (cells m') a then WakesUp a m' else Bound (TRAIL_GLOBAL a m'))"

definition YapBind :: "nat \<Rightarrow> 'f hcell \<Rightarrow> 'f wam \<Rightarrow> 'f bound" where
  "YapBind a d m =
    (let m' = store_cell a d m in
     if a < HR m' then
       if GlobalIsAttVar (cells m') a then WakesUp a m' else Bound (TRAIL_GLOBAL a m')
     else Bound (TRAIL_LOCAL a m'))"

definition MaBind :: "nat \<Rightarrow> 'f hcell \<Rightarrow> 'f wam \<Rightarrow> 'f wam" where
  "MaBind vp d m = store_cell vp d (MATRAIL vp (cells m vp) m)"

text \<open>
  Two unbound variables: the younger is bound to the older, except that a global variable is
  bound to an attributed one, and a local variable to a global one.
\<close>

definition UnifyGlobalCells :: "nat \<Rightarrow> nat \<Rightarrow> 'f wam \<Rightarrow> 'f bound" where
  "UnifyGlobalCells a b m =
    (if a < b then
       if GlobalIsAttVar (cells m) b \<and> \<not> GlobalIsAttVar (cells m) a then Bind_Global a (RefC b) m
       else Bind_Global b (RefC a) m
     else if b < a then
       if GlobalIsAttVar (cells m) a \<and> \<not> GlobalIsAttVar (cells m) b then Bind_Global b (RefC a) m
       else Bind_Global a (RefC b) m
     else Bound m)"

definition UnifyCells :: "nat \<Rightarrow> nat \<Rightarrow> 'f wam \<Rightarrow> 'f bound" where
  "UnifyCells a b m =
    (if a < HR m then
       if HR m < b then Bound (Bind_Local b (RefC a) m) else UnifyGlobalCells a b m
     else if a < b then Bound (Bind_Local a (RefC b) m)
     else if b < a then
       if b < HR m then Bound (Bind_Local a (RefC b) m) else Bound (Bind_Local b (RefC a) m)
     else Bound m)"

section \<open>New cells\<close>

definition push_cell :: "'f hcell \<Rightarrow> 'f wam \<Rightarrow> 'f wam" where
  "push_cell d m = m\<lparr>cells := (cells m)(HR m := d), HR := Suc (HR m)\<rparr>"

definition MkVarTerm :: "'f wam \<Rightarrow> 'f hcell \<times> 'f wam" where
  "MkVarTerm m = (RefC (HR m), push_cell (RefC (HR m)) m)"

section \<open>Multi-assignment variables\<close>

text \<open>An unbound local variable is first bound to a new global one, which then stands for it.\<close>

definition globalize :: "'f hcell \<Rightarrow> 'f wam \<Rightarrow> 'f hcell \<times> 'f wam" where
  "globalize d m = (case d of
      RefC v \<Rightarrow> (if HR m < v then (let (n, m') = MkVarTerm m in (n, Bind_Local v n m')) else (d, m))
    | _ \<Rightarrow> (d, m))"

text \<open>
  A mutable term is a compound term of the functor \<open>FunctorMutable\<close>, whose first argument is the
  value and whose second is the clock: a cell that refers to itself or to the place of the global
  stack where the latest trailed assignment was made.
\<close>

definition NewTimedVar :: "'f hcell \<Rightarrow> 'f wam \<Rightarrow> 'f hcell \<times> 'f wam" where
  "NewTimedVar val m =
    (let (val, m) = globalize val m;
         out = HR m
     in (ApplC out,
         m\<lparr>cells := (cells m)(out := FunC ''$mutable_variable'' 2, out + 1 := val, out + 2 := RefC (out + 2)),
           HR := out + 3\<rparr>))"

definition Yap_NewEmptyTimedVar :: "'f wam \<Rightarrow> 'f hcell \<times> 'f wam" where
  "Yap_NewEmptyTimedVar m =
    (let out = HR m
     in (ApplC out,
         m\<lparr>cells := (cells m)(out := FunC ''$mutable_variable'' 2, out + 1 := RefC (out + 1),
             out + 2 := RefC (out + 2)),
           HR := out + 3\<rparr>))"

definition ReadTimedVar :: "nat \<Rightarrow> 'f wam \<Rightarrow> 'f hcell" where
  "ReadTimedVar tv m = cells m (tv + 1)"

fun address_in :: "'f hcell \<Rightarrow> nat" where
  "address_in (RefC p) = p"
| "address_in _ = 0"

definition UpdateTimedVar :: "nat \<Rightarrow> 'f hcell \<Rightarrow> 'f wam \<Rightarrow> 'f hcell \<times> 'f wam" where
  "UpdateTimedVar tv new m =
    (let t = cells m (tv + 1);
         timestmp = address_in (cells m (tv + 2));
         (new, m) = globalize new m
     in (t,
         if HB m < timestmp then store_cell (tv + 1) new m
         else let nclock = RefC (HR m) in
           MaBind (tv + 2) nclock (push_cell TermFoundVar (MaBind (tv + 1) new m))))"

end
