(* ===== verification/YapUnify.thy ===== *)
theory YapUnify
  imports YapStore YapCompare
begin

text \<open>
  Unification: \<open>Yap_IUnify\<close> and \<open>IUnify_complex\<close> (C/unify.c, H/absmi.h), the comparison of boxes
  (H/TermExt.h), and the entry points \<open>Yap_unify\<close> and \<open>Yap_unify_constant\<close> (H/amiops.h). The build
  is the one with \<open>RATIONAL_TREES\<close>: to end on cyclic terms, the loop overwrites the cell of an argument
  with the other argument before it visits the two, and restores all such cells when it stops.

  What a call returns is an option, \<open>None\<close> for a call that does not return. \<open>Woken\<close> ends a run of the
  model at a binding of an attributed variable.
\<close>

datatype 'f unified = TRUE "'f wam" | FALSE "'f wam" | Woken nat "'f wam"

section \<open>Boxes\<close>

text \<open>The functor of a box, which is the number of its type, and the functor of a compound term.\<close>

fun box_type :: "'f trm \<Rightarrow> blob_type" where
  "box_type (FltT _) = double_e"
| "box_type (LongT _) = long_int_e"
| "box_type (StrT _) = string_e"
| "box_type (DBRefT _) = db_ref_e"
| "box_type _ = big_int_e"

fun functor_cell :: "'f hcell \<Rightarrow> (string \<times> nat) + blob_type" where
  "functor_cell (FunC f n) = Inl (f, n)"
| "functor_cell (BoxC t) = Inr (box_type t)"
| "functor_cell _ = Inr attvar_e"

definition unify_extension :: "'f env \<Rightarrow> nat \<Rightarrow> nat \<Rightarrow> 'f trm \<Rightarrow> 'f trm \<Rightarrow> bool" where
  "unify_extension E p q s t = (case box_type s of
      db_ref_e \<Rightarrow> p = q
    | attvar_e \<Rightarrow> p = q
    | long_int_e \<Rightarrow> IntegerOfTerm s = IntegerOfTerm t
    | string_e \<Rightarrow> strcmp (StringOfTerm s) (StringOfTerm t) = 0
    | big_int_e \<Rightarrow> Yap_gmp_tcmp_big_big E s t = 0
    | double_e \<Rightarrow> FloatOfTerm s = FloatOfTerm t)"

text \<open>
  Outside compound terms doubles are compared as numbers and not by their bits, and the call for
  bignums passes the first box twice.
\<close>

definition unify_box :: "'f env \<Rightarrow> nat \<Rightarrow> nat \<Rightarrow> 'f trm \<Rightarrow> 'f trm \<Rightarrow> bool" where
  "unify_box E p q s t = (case box_type s of
      db_ref_e \<Rightarrow> p = q
    | long_int_e \<Rightarrow> IntegerOfTerm s = IntegerOfTerm t
    | string_e \<Rightarrow> strcmp (StringOfTerm s) (StringOfTerm t) = 0
    | double_e \<Rightarrow> f_eq E (FloatOfTerm s) (FloatOfTerm t)
    | big_int_e \<Rightarrow> Yap_gmp_tcmp_big_big E s s = 0
    | attvar_e \<Rightarrow> False)"

section \<open>Compound terms\<close>

text \<open>
  What the loop does with two arguments: go on, after a binding or without one, stop, or visit the
  arguments of two compound terms, \<open>Descend d1 p n q\<close> being the \<open>n\<close> cells after \<open>p\<close> and after \<open>q\<close>
  and \<open>d1\<close> the second term.
\<close>

datatype 'f action = Go "'f bound" | Clash | Descend "'f hcell" nat nat nat

definition unify_functors ::
    "'f env \<Rightarrow> 'f wam \<Rightarrow> nat \<Rightarrow> nat \<Rightarrow> 'f action" where
  "unify_functors E m p q =
    (if functor_cell (cells m p) \<noteq> functor_cell (cells m q) then Clash
     else case cells m p of
         FunC f n \<Rightarrow> Descend (ApplC q) p n q
       | BoxC s \<Rightarrow> (case cells m q of
             BoxC t \<Rightarrow> if unify_extension E p q s t then Go (Bound m) else Clash
           | _ \<Rightarrow> Clash)
       | _ \<Rightarrow> Clash)"

definition unify_values :: "'f env \<Rightarrow> 'f wam \<Rightarrow> 'f hcell \<Rightarrow> 'f hcell \<Rightarrow> 'f action" where
  "unify_values E m d0 d1 = (case d0 of
      RefC p \<Rightarrow> (case d1 of
          RefC q \<Rightarrow> Go (UnifyGlobalCells p q m)
        | _ \<Rightarrow> Go (Bind_Global p d1 m))
    | _ \<Rightarrow> (case d1 of
          RefC q \<Rightarrow> Go (Bind_Global q d0 m)
        | _ \<Rightarrow>
          if d0 = d1 then Go (Bound m)
          else (case d0 of
              PairC p \<Rightarrow> (case d1 of PairC q \<Rightarrow> Descend d1 (p - 1) 2 (q - 1) | _ \<Rightarrow> Clash)
            | ApplC p \<Rightarrow> (case d1 of ApplC q \<Rightarrow> unify_functors E m p q | _ \<Rightarrow> Clash)
            | _ \<Rightarrow> Clash)))"

text \<open>The records of overwritten cells, the latest first.\<close>

fun restore_bindings :: "(nat \<times> 'f hcell) list \<Rightarrow> (nat \<Rightarrow> 'f hcell) \<Rightarrow> nat \<Rightarrow> 'f hcell" where
  "restore_bindings [] S = S"
| "restore_bindings ((p, old) # unif) S = restore_bindings unif (S(p := old))"

definition restored :: "(nat \<times> 'f hcell) list \<Rightarrow> 'f wam \<Rightarrow> 'f wam" where
  "restored unif m = m\<lparr>cells := restore_bindings unif (cells m)\<rparr>"

text \<open>
  The loop of \<open>IUnify_complex\<close>. The stack \<open>to_visit\<close> holds the places where enclosing levels go on.
\<close>

partial_function (option) IUnify_loop ::
    "'f env \<Rightarrow> 'f wam \<Rightarrow> nat \<Rightarrow> nat \<Rightarrow> nat \<Rightarrow> (nat \<times> nat \<times> nat) list \<Rightarrow> (nat \<times> 'f hcell) list
      \<Rightarrow> 'f unified option" where
  "IUnify_loop E m pt0 pt0_end pt1 to_visit unif =
    (if pt0 < pt0_end then
       do {
         d0 \<leftarrow> Derefa (cells m) (pt0 + 1);
         d1 \<leftarrow> Derefa (cells m) (pt1 + 1);
         (case unify_values E m d0 d1 of
            Clash \<Rightarrow> Some (FALSE (restored unif m))
          | Go (WakesUp a m') \<Rightarrow> Some (Woken a m')
          | Go (Bound m') \<Rightarrow> IUnify_loop E m' (pt0 + 1) pt0_end (pt1 + 1) to_visit unif
          | Descend d p n q \<Rightarrow>
              IUnify_loop E (store_cell (pt0 + 1) d m) p (p + n) q
                ((pt0 + 1, pt0_end, pt1 + 1) # to_visit) ((pt0 + 1, cells m (pt0 + 1)) # unif))
       }
     else case to_visit of
       (start0, end0, start1) # to_visit' \<Rightarrow> IUnify_loop E m start0 end0 start1 to_visit' unif
     | [] \<Rightarrow> Some (TRUE (restored unif m)))"

declare IUnify_loop.simps [code]

definition IUnify_complex :: "'f env \<Rightarrow> 'f wam \<Rightarrow> nat \<Rightarrow> nat \<Rightarrow> nat \<Rightarrow> 'f unified option" where
  "IUnify_complex E m pt0 pt0_end pt1 = IUnify_loop E m pt0 pt0_end pt1 [] []"

section \<open>Terms\<close>

definition truth :: "bool \<Rightarrow> 'f wam \<Rightarrow> 'f unified option" where
  "truth b m = Some (if b then TRUE m else FALSE m)"

fun of_bound :: "'f bound \<Rightarrow> 'f unified" where
  "of_bound (Bound m) = TRUE m"
| "of_bound (WakesUp a m) = Woken a m"

definition IUnify_functors :: "'f env \<Rightarrow> 'f wam \<Rightarrow> nat \<Rightarrow> nat \<Rightarrow> 'f unified option" where
  "IUnify_functors E m p q =
    (if functor_cell (cells m p) \<noteq> functor_cell (cells m q) then truth False m
     else case cells m p of
         FunC f n \<Rightarrow> IUnify_complex E m p (p + n) q
       | BoxC s \<Rightarrow> (case cells m q of BoxC t \<Rightarrow> truth (unify_box E p q s t) m | _ \<Rightarrow> truth False m)
       | _ \<Rightarrow> truth False m)"

definition IUnify_values ::
    "'f env \<Rightarrow> 'f wam \<Rightarrow> 'f hcell \<Rightarrow> 'f hcell \<Rightarrow> 'f unified option" where
  "IUnify_values E m d0 d1 = (case d0 of
      RefC p \<Rightarrow> (case d1 of
          RefC q \<Rightarrow> Some (of_bound (UnifyCells p q m))
        | _ \<Rightarrow> Some (of_bound (YapBind p d1 m)))
    | _ \<Rightarrow> (case d1 of
          RefC q \<Rightarrow> Some (of_bound (YapBind q d0 m))
        | _ \<Rightarrow>
          if d0 = d1 then truth True m
          else (case d0 of
              PairC p \<Rightarrow> (case d1 of
                  PairC q \<Rightarrow> IUnify_complex E m (p - 1) (p + 1) (q - 1)
                | _ \<Rightarrow> truth False m)
            | ApplC p \<Rightarrow> (case d1 of ApplC q \<Rightarrow> IUnify_functors E m p q | _ \<Rightarrow> truth False m)
            | _ \<Rightarrow> truth False m)))"

definition Yap_IUnify :: "'f env \<Rightarrow> 'f wam \<Rightarrow> 'f hcell \<Rightarrow> 'f hcell \<Rightarrow> 'f unified option" where
  "Yap_IUnify E m d0 d1 =
    do {
      d0 \<leftarrow> Deref (cells m) d0;
      d1 \<leftarrow> Deref (cells m) d1;
      IUnify_values E m d0 d1
    }"

text \<open>The entries the trail has above \<open>TR0\<close>, and undoing them.\<close>

definition undo_to :: "'f hcell list \<Rightarrow> 'f wam \<Rightarrow> 'f wam" where
  "undo_to TR0 m =
    m\<lparr>cells := reset_trail (take (length (TR m) - length TR0) (TR m)) (cells m),
      TR := drop (length (TR m) - length TR0) (TR m)\<rparr>"

definition Yap_unify :: "'f env \<Rightarrow> 'f wam \<Rightarrow> 'f hcell \<Rightarrow> 'f hcell \<Rightarrow> 'f unified option" where
  "Yap_unify E m t0 t1 =
    do {
      r \<leftarrow> Yap_IUnify E m t0 t1;
      Some (case r of FALSE m' \<Rightarrow> FALSE (undo_to (TR m) m') | _ \<Rightarrow> r)
    }"

end
