(* ===== verification/YapTree.thy ===== *)
theory YapTree
  imports Main
begin

text \<open>
  Labelled trees with finitely many branches at each node, finite or infinite: what a term stands
  for when its variables have values. Two trees are equal when they agree up to every depth. A tree is
  finite when some depth bounds it; its size is then the number of its nodes.
\<close>

codatatype 'l tree = Node (label: 'l) (subs: "'l tree list")

section \<open>Agreement up to a depth\<close>

primrec eq_upto :: "nat \<Rightarrow> 'l tree \<Rightarrow> 'l tree \<Rightarrow> bool" where
  "eq_upto 0 s t = True"
| "eq_upto (Suc n) s t = (label s = label t \<and> list_all2 (eq_upto n) (subs s) (subs t))"

lemma eq_upto_refl [simp]: "eq_upto n t t"
  by (induction n arbitrary: t) (auto simp: list_all2_same)

lemma eq_upto_sym: "eq_upto n s t \<Longrightarrow> eq_upto n t s"
proof (induction n arbitrary: s t)
  case (Suc n)
  have "list_all2 (eq_upto n) (subs t) (subs s)"
    using Suc.prems by (intro list_all2_all_nthI) (auto simp: list_all2_conv_all_nth intro: Suc.IH)
  with Suc.prems show ?case by simp
qed simp

lemma eq_upto_trans: "eq_upto n s t \<Longrightarrow> eq_upto n t u \<Longrightarrow> eq_upto n s u"
proof (induction n arbitrary: s t u)
  case (Suc n)
  have "list_all2 (eq_upto n) (subs s) (subs u)"
    using Suc.prems by (auto intro: list_all2_trans [where ?P1.0 = "eq_upto n" and ?P2.0 = "eq_upto n"] Suc.IH)
  with Suc.prems show ?case by simp
qed simp

lemma eq_upto_less: "eq_upto (Suc n) s t \<Longrightarrow> eq_upto n s t"
proof (induction n arbitrary: s t)
  case (Suc n)
  have "list_all2 (eq_upto (Suc n)) (subs s) (subs t)" using Suc.prems by simp
  then have "list_all2 (eq_upto n) (subs s) (subs t)" by (rule list_all2_mono) (rule Suc.IH)
  with Suc.prems show ?case by simp
qed simp

lemma eq_upto_all:
  assumes "\<And>n. eq_upto n s t"
  shows "s = t"
  using assms
proof (coinduction arbitrary: s t)
  case Eq_tree
  then have all: "\<And>n. list_all2 (eq_upto n) (subs s) (subs t)" and "label s = label t"
    using eq_upto.simps(2) by blast+
  have "list_all2 (\<lambda>x y. \<forall>n. eq_upto n x y) (subs s) (subs t)"
    using all by (auto simp: list_all2_conv_all_nth)
  then show ?case using \<open>label s = label t\<close> by (auto elim!: list_all2_mono)
qed

section \<open>Finite trees\<close>

primrec height_below :: "nat \<Rightarrow> 'l tree \<Rightarrow> bool" where
  "height_below 0 t = False"
| "height_below (Suc n) t = (\<forall>s \<in> set (subs t). height_below n s)"

definition finite_tree :: "'l tree \<Rightarrow> bool" where
  "finite_tree t \<longleftrightarrow> (\<exists>n. height_below n t)"

text \<open>The nodes above depth \<open>n\<close>.\<close>

primrec nodes_above :: "nat \<Rightarrow> 'l tree \<Rightarrow> nat" where
  "nodes_above 0 t = 0"
| "nodes_above (Suc n) t = Suc (sum_list (map (nodes_above n) (subs t)))"

lemma height_below_Suc: "height_below n t \<Longrightarrow> height_below (Suc n) t"
  by (induction n arbitrary: t) auto

lemma nodes_above_Suc: "height_below n t \<Longrightarrow> nodes_above (Suc n) t = nodes_above n t"
proof (induction n arbitrary: t)
  case (Suc n)
  have "map (nodes_above (Suc n)) (subs t) = map (nodes_above n) (subs t)"
    using Suc.prems by (intro map_cong refl Suc.IH) simp
  then show ?case by (subst nodes_above.simps(2)) (simp only: nodes_above.simps(2))
qed simp

lemma nodes_above_subs:
  assumes "height_below n t"
  shows "nodes_above n t = Suc (sum_list (map (nodes_above n) (subs t)))"
  using nodes_above_Suc [OF assms] by simp

lemma height_below_subs:
  assumes "height_below n t" and "s \<in> set (subs t)"
  shows "height_below n s"
proof (cases n)
  case (Suc m)
  with assms have "height_below m s" by simp
  then show ?thesis unfolding Suc by (rule height_below_Suc)
qed (use assms in simp)

lemma nodes_above_pos: "height_below n t \<Longrightarrow> 0 < nodes_above n t"
  by (cases n) simp_all

end
