(* ===== verification/YapUnifyCorrect.thy ===== *)
theory YapUnifyCorrect
  imports YapUnify YapTree
begin

text \<open>
  Unification against its specification. A store is a system of equations between trees, one
  per cell; a model gives every cell a tree that solves them. Unifying two terms must add exactly
  one equation: the models of the new store are the models of the old one that give the two terms the
  same tree. Trees may be infinite, as the code accepts cyclic terms.
\<close>

named_theorems store_defs \<open>unfolding equations of the updates of the store\<close>

declare store_cell_def [store_defs] Bind_Global_def [store_defs] YapBind_def [store_defs]
  Bind_Local_def [store_defs] TRAIL_GLOBAL_def [store_defs] TRAIL_LOCAL_def [store_defs]
  DO_TRAIL_def [store_defs] Let_def [store_defs]

section \<open>Well-formed stores\<close>

fun value_cell :: "'f hcell \<Rightarrow> bool" where
  "value_cell (FunC f n) = False"
| "value_cell (BoxC t) = False"
| "value_cell AttC = False"
| "value_cell d = True"

definition args_ok :: "(nat \<Rightarrow> 'f hcell) \<Rightarrow> nat \<Rightarrow> nat \<Rightarrow> bool" where
  "args_ok S p n \<longleftrightarrow> (\<forall>i \<in> {1..n}. value_cell (S (p + i)))"

fun cell_ok :: "(nat \<Rightarrow> 'f hcell) \<Rightarrow> 'f hcell \<Rightarrow> bool" where
  "cell_ok S (RefC q) = value_cell (S q)"
| "cell_ok S (PairC p) = (0 < p \<and> args_ok S (p - 1) 2)"
| "cell_ok S (ApplC p) = (case S p of FunC f n \<Rightarrow> args_ok S p n | BoxC t \<Rightarrow> True | _ \<Rightarrow> False)"
| "cell_ok S d = value_cell d"

definition store_ok :: "(nat \<Rightarrow> 'f hcell) \<Rightarrow> bool" where
  "store_ok S \<longleftrightarrow> (\<forall>p. value_cell (S p) \<longrightarrow> cell_ok S (S p))"

text \<open>Two boxes are the same number or string exactly when the code says so.\<close>

definition boxes_ok :: "'f env \<Rightarrow> (nat \<Rightarrow> 'f hcell) \<Rightarrow> bool" where
  "boxes_ok E S \<longleftrightarrow> (\<forall>p q s t. S p = BoxC s \<longrightarrow> S q = BoxC t \<longrightarrow> p \<noteq> q \<longrightarrow> box_type s = box_type t \<longrightarrow>
     unify_extension E p q s t = (s = t))"

text \<open>The first cells of objects never change; values are only replaced by values.\<close>

definition same_shape :: "(nat \<Rightarrow> 'f hcell) \<Rightarrow> (nat \<Rightarrow> 'f hcell) \<Rightarrow> bool" where
  "same_shape S S' \<longleftrightarrow>
     (\<forall>p. value_cell (S p) = value_cell (S' p) \<and> (\<not> value_cell (S p) \<longrightarrow> S' p = S p))"

lemma same_shape_refl [simp]: "same_shape S S"
  by (simp add: same_shape_def)

lemma same_shape_trans: "same_shape S S' \<Longrightarrow> same_shape S' S'' \<Longrightarrow> same_shape S S''"
  unfolding same_shape_def by metis

lemma same_shape_sym: "same_shape S S' \<Longrightarrow> same_shape S' S"
  unfolding same_shape_def by metis

lemma same_shape_update: "value_cell (S p) \<Longrightarrow> value_cell d \<Longrightarrow> same_shape S (S(p := d))"
  by (simp add: same_shape_def)

lemma same_shape_value: "same_shape S S' \<Longrightarrow> value_cell (S' p) = value_cell (S p)"
  by (simp add: same_shape_def)

lemma same_shape_header: "same_shape S S' \<Longrightarrow> \<not> value_cell (S p) \<Longrightarrow> S' p = S p"
  unfolding same_shape_def by blast

lemma args_ok_cong:
  assumes "same_shape S S'"
  shows "args_ok S' p n = args_ok S p n"
  by (simp add: args_ok_def same_shape_value [OF assms])

lemma cell_ok_cong:
  assumes "same_shape S S'"
  shows "cell_ok S' d = cell_ok S d"
proof (cases d)
  case (ApplC p)
  show ?thesis
  proof (cases "value_cell (S p)")
    case True
    then have "value_cell (S' p)" by (simp add: same_shape_value [OF assms])
    with True ApplC show ?thesis by (cases "S p"; cases "S' p") simp_all
  next
    case False
    then have "S' p = S p" by (rule same_shape_header [OF assms])
    with ApplC show ?thesis by (simp add: args_ok_cong [OF assms] split: hcell.split)
  qed
qed (simp_all add: args_ok_cong [OF assms] same_shape_value [OF assms])

lemma cell_ok_value: "cell_ok S d \<Longrightarrow> value_cell d"
  by (cases d) auto

lemma store_ok_update:
  assumes "store_ok S" and "value_cell (S p)" and "cell_ok S d"
  shows "store_ok (S(p := d))" and "same_shape S (S(p := d))"
proof -
  show shape: "same_shape S (S(p := d))"
    using assms by (simp add: same_shape_update cell_ok_value)
  show "store_ok (S(p := d))"
    unfolding store_ok_def cell_ok_cong [OF shape] using assms by (simp add: store_ok_def)
qed

section \<open>Models\<close>

datatype 'f lab = LAtm string | LInt cint | LPair | LFun string nat | LBox "'f trm"

type_synonym 'f model = "nat \<Rightarrow> 'f lab tree"

definition args_of :: "'f model \<Rightarrow> nat \<Rightarrow> nat \<Rightarrow> 'f lab tree list" where
  "args_of \<rho> p n = map (\<lambda>i. \<rho> (p + i)) [1..<Suc n]"

fun tree_of :: "'f model \<Rightarrow> (nat \<Rightarrow> 'f hcell) \<Rightarrow> 'f hcell \<Rightarrow> 'f lab tree" where
  "tree_of \<rho> S (RefC q) = \<rho> q"
| "tree_of \<rho> S (AtmC a) = Node (LAtm a) []"
| "tree_of \<rho> S (IntC i) = Node (LInt i) []"
| "tree_of \<rho> S (PairC p) = Node LPair (args_of \<rho> (p - 1) 2)"
| "tree_of \<rho> S (ApplC p) = (case S p of
      FunC f n \<Rightarrow> Node (LFun f n) (args_of \<rho> p n)
    | BoxC t \<Rightarrow> Node (LBox t) []
    | _ \<Rightarrow> undefined)"
| "tree_of \<rho> S d = undefined"

definition models :: "'f model \<Rightarrow> (nat \<Rightarrow> 'f hcell) \<Rightarrow> bool" where
  "models \<rho> S \<longleftrightarrow> (\<forall>p. value_cell (S p) \<longrightarrow> \<rho> p = tree_of \<rho> S (S p))"

definition models_upto :: "nat \<Rightarrow> 'f model \<Rightarrow> (nat \<Rightarrow> 'f hcell) \<Rightarrow> bool" where
  "models_upto k \<rho> S \<longleftrightarrow> (\<forall>p. value_cell (S p) \<longrightarrow> eq_upto k (\<rho> p) (tree_of \<rho> S (S p)))"

lemma models_upto: "models \<rho> S \<Longrightarrow> models_upto k \<rho> S"
  by (simp add: models_def models_upto_def)

lemma models_if_upto: "(\<And>k. models_upto k \<rho> S) \<Longrightarrow> models \<rho> S"
  by (auto simp: models_def models_upto_def intro!: eq_upto_all)

lemma tree_of_cong:
  assumes "same_shape S S'" and "cell_ok S d"
  shows "tree_of \<rho> S' d = tree_of \<rho> S d"
proof (cases d)
  case (ApplC p)
  with assms(2) have "\<not> value_cell (S p)" by (cases "S p") simp_all
  then have "S' p = S p" by (rule same_shape_header [OF assms(1)])
  with ApplC show ?thesis by simp
qed simp_all

lemma models_upto_update:
  assumes "store_ok S" and "value_cell (S p)" and "cell_ok S d"
    and "models_upto k \<rho> S" and "eq_upto k (\<rho> p) (tree_of \<rho> S d)"
  shows "models_upto k \<rho> (S(p := d))"
  unfolding models_upto_def
proof (intro allI impI)
  fix r
  define S' where "S' = S(p := d)"
  have shape: "same_shape S S'" unfolding S'_def by (rule store_ok_update(2) [OF assms(1-3)])
  assume v: "value_cell ((S(p := d)) r)"
  have "cell_ok S (S' r)"
    using v assms(1,3) by (cases "r = p") (simp_all add: S'_def store_ok_def)
  then have "tree_of \<rho> S' (S' r) = tree_of \<rho> S (S' r)" by (rule tree_of_cong [OF shape])
  moreover have "eq_upto k (\<rho> r) (tree_of \<rho> S (S' r))"
    using v assms(4,5) by (cases "r = p") (simp_all add: S'_def models_upto_def)
  ultimately show "eq_upto k (\<rho> r) (tree_of \<rho> (S(p := d)) ((S(p := d)) r))"
    by (simp only: S'_def)
qed

lemma models_update:
  assumes "store_ok S" and "value_cell (S p)" and "cell_ok S d"
    and "models \<rho> S" and "\<rho> p = tree_of \<rho> S d"
  shows "models \<rho> (S(p := d))"
  using assms by (intro models_if_upto models_upto_update) (simp_all add: models_upto)

section \<open>Dereferencing\<close>

lemma Derefa_ok:
  assumes "Derefa S p = Some d" and "store_ok S" and "value_cell (S p)"
  shows "cell_ok S d" and "\<And>q. d = RefC q \<Longrightarrow> S q = RefC q"
    and "\<And>k \<rho>. models_upto k \<rho> S \<Longrightarrow> eq_upto k (\<rho> p) (tree_of \<rho> S d)"
proof -
  have "store_ok S \<longrightarrow> value_cell (S p) \<longrightarrow>
    cell_ok S d \<and> (\<forall>q. d = RefC q \<longrightarrow> S q = RefC q) \<and>
    (\<forall>k \<rho>. models_upto k \<rho> S \<longrightarrow> eq_upto k (\<rho> p) (tree_of \<rho> S d))"
    using assms(1)
  proof (induction rule: Derefa.raw_induct [rotated, consumes 1, case_names step])
    case (step Derefa S p d)
    show ?case
    proof (intro impI)
      assume ok: "store_ok S" and val: "value_cell (S p)"
      then have cell: "cell_ok S (S p)" by (simp add: store_ok_def)
      show "cell_ok S d \<and> (\<forall>q. d = RefC q \<longrightarrow> S q = RefC q) \<and>
        (\<forall>k \<rho>. models_upto k \<rho> S \<longrightarrow> eq_upto k (\<rho> p) (tree_of \<rho> S d))"
      proof (cases "\<exists>q. S p = RefC q \<and> q \<noteq> p")
        case True
        then obtain q where q: "S p = RefC q" "q \<noteq> p" by blast
        with step(2) have "Derefa S q = Some d" by simp
        with step(1) ok cell q have IH: "cell_ok S d \<and> (\<forall>q. d = RefC q \<longrightarrow> S q = RefC q) \<and>
          (\<forall>k \<rho>. models_upto k \<rho> S \<longrightarrow> eq_upto k (\<rho> q) (tree_of \<rho> S d))" by simp
        have "eq_upto k (\<rho> p) (tree_of \<rho> S d)" if "models_upto k \<rho> S" for k \<rho>
        proof -
          have "eq_upto k (\<rho> p) (\<rho> q)" using that val q(1) unfolding models_upto_def by (metis tree_of.simps(1))
          with IH that show ?thesis by (blast intro: eq_upto_trans)
        qed
        with IH show ?thesis by blast
      next
        case False
        with step(2) have "d = S p" and "\<And>q. d = RefC q \<Longrightarrow> q = p"
          by (auto split: hcell.splits if_splits)
        with cell val show ?thesis by (auto simp: models_upto_def)
      qed
    qed
  qed
  with assms show "cell_ok S d" and "\<And>q. d = RefC q \<Longrightarrow> S q = RefC q"
    and "\<And>k \<rho>. models_upto k \<rho> S \<Longrightarrow> eq_upto k (\<rho> p) (tree_of \<rho> S d)"
    by auto
qed

lemma Derefa_models:
  assumes "Derefa S p = Some d" and "store_ok S" and "value_cell (S p)" and "models \<rho> S"
  shows "\<rho> p = tree_of \<rho> S d"
  using Derefa_ok(3) [OF assms(1-3)] assms(4) by (blast intro: eq_upto_all models_upto)

section \<open>One pair of arguments\<close>

definition bind_cell :: "nat \<Rightarrow> 'f hcell \<Rightarrow> 'f wam \<Rightarrow> 'f wam" where
  "bind_cell a d m = TRAIL_GLOBAL a (store_cell a d m)"

lemma Bind_Global_cases:
  "Bind_Global a d m = Bound m' \<Longrightarrow> m' = bind_cell a d m"
  by (simp add: Bind_Global_def bind_cell_def Let_def split: if_splits)

definition no_attvars :: "(nat \<Rightarrow> 'f hcell) \<Rightarrow> bool" where
  "no_attvars S \<longleftrightarrow> (\<forall>p. S p \<noteq> AttC)"

lemma no_attvar [simp]: "no_attvars S \<Longrightarrow> \<not> GlobalIsAttVar S p"
  by (auto simp: no_attvars_def GlobalIsAttVar_def split: hcell.splits)

text \<open>The younger of two global variables is bound, unless one of them is attributed.\<close>

lemma UnifyGlobalCells_cases:
  assumes "UnifyGlobalCells p q m = Bound m'"
  shows "m' = m \<and> p = q
    \<or> m' = bind_cell p (RefC q) m \<and> p \<noteq> q \<and> (no_attvars (cells m) \<longrightarrow> q < p)
    \<or> m' = bind_cell q (RefC p) m \<and> p \<noteq> q \<and> (no_attvars (cells m) \<longrightarrow> p < q)"
  using assms by (auto simp: UnifyGlobalCells_def dest!: Bind_Global_cases split: if_splits)

definition bound_var :: "'f hcell \<Rightarrow> 'f hcell \<Rightarrow> nat \<Rightarrow> 'f hcell \<Rightarrow> bool" where
  "bound_var d0 d1 a d \<longleftrightarrow> (d0 = RefC a \<and> d1 = d \<or> d1 = RefC a \<and> d0 = d) \<and> d \<noteq> RefC a"

lemma functor_cell_eq:
  assumes "functor_cell (FunC f n) = functor_cell d"
  shows "d = FunC f n"
  using assms by (cases d) simp_all

lemma unify_values_Bound:
  assumes "unify_values E m d0 d1 = Go (Bound m')" and "boxes_ok E (cells m)"
  shows "m' = m \<and> (\<forall>\<rho>. tree_of \<rho> (cells m) d0 = tree_of \<rho> (cells m) d1)
    \<or> (\<exists>a d. m' = bind_cell a d m \<and> bound_var d0 d1 a d
        \<and> (no_attvars (cells m) \<longrightarrow> (\<forall>q. d = RefC q \<longrightarrow> q < a)))"
proof (cases "(\<exists>p. d0 = RefC p) \<or> (\<exists>q. d1 = RefC q)")
  case True
  then show ?thesis
  proof (cases "\<exists>p q. d0 = RefC p \<and> d1 = RefC q")
    case True
    then obtain p q where "d0 = RefC p" "d1 = RefC q" by blast
    with assms(1) UnifyGlobalCells_cases [of p q m m'] show ?thesis
      by (auto simp: unify_values_def bound_var_def)
  next
    case False
    with True assms(1) show ?thesis
      by (auto simp: unify_values_def bound_var_def dest!: Bind_Global_cases split: hcell.splits)
  qed
next
  case False
  then show ?thesis
  proof (cases "d0 = d1")
    case True
    with False assms(1) show ?thesis by (auto simp: unify_values_def split: hcell.splits)
  next
    case neq: False
    with False assms(1) obtain p q where d: "d0 = ApplC p" "d1 = ApplC q"
      and u: "unify_functors E m p q = Go (Bound m')"
      by (auto simp: unify_values_def split: hcell.splits)
    then obtain s t where "cells m p = BoxC s" "cells m q = BoxC t" "box_type s = box_type t"
      "unify_extension E p q s t" "m' = m"
      by (auto simp: unify_functors_def split: hcell.splits if_splits)
    with neq d assms(2) show ?thesis by (auto simp: boxes_ok_def)
  qed
qed

lemma unify_values_Descend:
  assumes "unify_values E m d0 d1 = Descend d p n q"
    and "cell_ok (cells m) d0" and "cell_ok (cells m) d1"
  shows "d = d1" and "\<And>a. d1 \<noteq> RefC a" and "args_ok (cells m) p n" and "args_ok (cells m) q n"
    and "\<exists>l. \<forall>\<rho>. tree_of \<rho> (cells m) d0 = Node l (args_of \<rho> p n)
        \<and> tree_of \<rho> (cells m) d1 = Node l (args_of \<rho> q n)"
proof -
  have "d = d1 \<and> (\<forall>a. d1 \<noteq> RefC a) \<and> args_ok (cells m) p n \<and> args_ok (cells m) q n
    \<and> (\<exists>l. \<forall>\<rho>. tree_of \<rho> (cells m) d0 = Node l (args_of \<rho> p n)
        \<and> tree_of \<rho> (cells m) d1 = Node l (args_of \<rho> q n))"
  proof (cases "\<exists>x y. d0 = PairC x \<and> d1 = PairC y")
    case True
    with assms show ?thesis by (auto simp: unify_values_def split: if_splits)
  next
    case False
    with assms(1) obtain x y where d: "d0 = ApplC x" "d1 = ApplC y"
      and u: "unify_functors E m x y = Descend d p n q"
      by (auto simp: unify_values_def split: hcell.splits if_splits)
    have "\<exists>f. cells m x = FunC f n \<and> functor_cell (cells m x) = functor_cell (cells m y)
        \<and> d = ApplC y \<and> p = x \<and> q = y"
      using u unfolding unify_functors_def
      by (cases "cells m x") (auto split: if_splits hcell.splits)
    then obtain f where f: "cells m x = FunC f n"
        and "functor_cell (FunC f n) = functor_cell (cells m y)"
        and *: "d = d1" "p = x" "q = y"
      using d by auto
    from this(2) have "cells m y = FunC f n" by (rule functor_cell_eq)
    with f * d assms(2,3) show ?thesis by auto
  qed
  then show "d = d1" and "\<And>a. d1 \<noteq> RefC a" and "args_ok (cells m) p n"
    and "args_ok (cells m) q n" and "\<exists>l. \<forall>\<rho>. tree_of \<rho> (cells m) d0 = Node l (args_of \<rho> p n)
        \<and> tree_of \<rho> (cells m) d1 = Node l (args_of \<rho> q n)"
    by blast+
qed

lemma functors_clash:
  assumes "unify_functors E m p q = Clash" and "cell_ok (cells m) (ApplC p)"
    and "cell_ok (cells m) (ApplC q)" and "boxes_ok E (cells m)" and "p \<noteq> q"
  shows "tree_of \<rho> (cells m) (ApplC p) \<noteq> tree_of \<rho> (cells m) (ApplC q)"
proof (cases "cells m p")
  case (FunC f n)
  with assms show ?thesis
    by (auto simp: unify_functors_def split: hcell.splits if_splits)
next
  case (BoxC s)
  with assms show ?thesis
    by (auto simp: unify_functors_def boxes_ok_def split: hcell.splits if_splits)
qed (use assms in simp_all)

lemma unify_values_Clash:
  assumes "unify_values E m d0 d1 = Clash"
    and "cell_ok (cells m) d0" and "cell_ok (cells m) d1" and "boxes_ok E (cells m)"
  shows "tree_of \<rho> (cells m) d0 \<noteq> tree_of \<rho> (cells m) d1"
proof (cases "\<exists>p q. d0 = ApplC p \<and> d1 = ApplC q")
  case True
  with assms functors_clash show ?thesis
    by (fastforce simp: unify_values_def split: if_splits)
next
  case False
  with assms show ?thesis
    by (cases d0; cases d1) (auto simp: unify_values_def split: hcell.splits if_splits)
qed

end
