(* ===== verification/YapUnifyLoop.thy ===== *)
theory YapUnifyLoop
  imports YapUnifyCorrect
begin

text \<open>
  The loop of \<open>IUnify_complex\<close>: an induction over its runs, the cells it writes, what the trail
  records, and its correctness on the models of the store.
\<close>

section \<open>Runs of the loop\<close>

text \<open>
  Every property of the results of the loop follows from one case for each way the body continues.
\<close>

lemma IUnify_loop_induct [consumes 1, case_names Fails Wakes Next Visit Pop Done]:
  assumes "IUnify_loop E m pt0 pt0_end pt1 to_visit unif = Some r"
    and "\<And>m pt0 pt0_end pt1 to_visit unif d0 d1. pt0 < pt0_end \<Longrightarrow>
      Derefa (cells m) (pt0 + 1) = Some d0 \<Longrightarrow> Derefa (cells m) (pt1 + 1) = Some d1 \<Longrightarrow>
      unify_values E m d0 d1 = Clash \<Longrightarrow> P m pt0 pt0_end pt1 to_visit unif (FALSE (restored unif m))"
    and "\<And>m pt0 pt0_end pt1 to_visit unif d0 d1 a m'. pt0 < pt0_end \<Longrightarrow>
      Derefa (cells m) (pt0 + 1) = Some d0 \<Longrightarrow> Derefa (cells m) (pt1 + 1) = Some d1 \<Longrightarrow>
      unify_values E m d0 d1 = Go (WakesUp a m') \<Longrightarrow> P m pt0 pt0_end pt1 to_visit unif (Woken a m')"
    and "\<And>m pt0 pt0_end pt1 to_visit unif d0 d1 m' r. pt0 < pt0_end \<Longrightarrow>
      Derefa (cells m) (pt0 + 1) = Some d0 \<Longrightarrow> Derefa (cells m) (pt1 + 1) = Some d1 \<Longrightarrow>
      unify_values E m d0 d1 = Go (Bound m') \<Longrightarrow>
      IUnify_loop E m' (pt0 + 1) pt0_end (pt1 + 1) to_visit unif = Some r \<Longrightarrow>
      P m' (pt0 + 1) pt0_end (pt1 + 1) to_visit unif r \<Longrightarrow> P m pt0 pt0_end pt1 to_visit unif r"
    and "\<And>m pt0 pt0_end pt1 to_visit unif d0 d1 d p n q r. pt0 < pt0_end \<Longrightarrow>
      Derefa (cells m) (pt0 + 1) = Some d0 \<Longrightarrow> Derefa (cells m) (pt1 + 1) = Some d1 \<Longrightarrow>
      unify_values E m d0 d1 = Descend d p n q \<Longrightarrow>
      P (store_cell (pt0 + 1) d m) p (p + n) q ((pt0 + 1, pt0_end, pt1 + 1) # to_visit)
        ((pt0 + 1, cells m (pt0 + 1)) # unif) r \<Longrightarrow> P m pt0 pt0_end pt1 to_visit unif r"
    and "\<And>m pt0 pt0_end pt1 start0 end0 start1 to_visit unif r. \<not> pt0 < pt0_end \<Longrightarrow>
      P m start0 end0 start1 to_visit unif r \<Longrightarrow>
      P m pt0 pt0_end pt1 ((start0, end0, start1) # to_visit) unif r"
    and "\<And>m pt0 pt0_end pt1 unif. \<not> pt0 < pt0_end \<Longrightarrow>
      P m pt0 pt0_end pt1 [] unif (TRUE (restored unif m))"
  shows "P m pt0 pt0_end pt1 to_visit unif r"
proof -
  let ?L = IUnify_loop
  have "E = E \<longrightarrow> P m pt0 pt0_end pt1 to_visit unif r \<and> ?L E m pt0 pt0_end pt1 to_visit unif = Some r"
    using assms(1)
  proof (induction rule: IUnify_loop.raw_induct [where
        P = "\<lambda>E' m pt0 pt0_end pt1 to_visit unif r. E' = E \<longrightarrow> P m pt0 pt0_end pt1 to_visit unif r
          \<and> ?L E m pt0 pt0_end pt1 to_visit unif = Some r",
        rotated, consumes 1, case_names step])
    case (step f E' m pt0 pt0_end pt1 to_visit unif r)
    show ?case
    proof
      assume [simp]: "E' = E"
      note IH = step(1) [of E, THEN mp, OF _ refl]
      note run = IUnify_loop.simps [of E m pt0 pt0_end pt1 to_visit unif]
      show "P m pt0 pt0_end pt1 to_visit unif r \<and> ?L E m pt0 pt0_end pt1 to_visit unif = Some r"
      proof (cases "pt0 < pt0_end")
        case True
        with step(2) obtain d0 d1 where d: "Derefa (cells m) (pt0 + 1) = Some d0"
          "Derefa (cells m) (pt1 + 1) = Some d1"
          by (auto split: bind_splits)
        show ?thesis
        proof (cases "unify_values E m d0 d1")
          case (Go b)
          then show ?thesis
          proof (cases b)
            case (Bound m')
            with step(2) True d Go
            have "f E m' (pt0 + 1) pt0_end (pt1 + 1) to_visit unif = Some r" by simp
            note * = IH [OF this]
            with True d Go Bound run have "?L E m pt0 pt0_end pt1 to_visit unif = Some r" by simp
            with * assms(4) [OF True d] Go Bound show ?thesis by blast
          next
            case (WakesUp a m')
            with step(2) True d Go have "r = Woken a m'" by simp
            with True d Go WakesUp run assms(3) [OF True d] show ?thesis by simp
          qed
        next
          case Clash
          with step(2) True d have "r = FALSE (restored unif m)" by simp
          with True d Clash run assms(2) [OF True d] show ?thesis by simp
        next
          case (Descend d p n q)
          with step(2) True d
          have "f E (store_cell (pt0 + 1) d m) p (p + n) q ((pt0 + 1, pt0_end, pt1 + 1) # to_visit)
            ((pt0 + 1, cells m (pt0 + 1)) # unif) = Some r" by simp
          note * = IH [OF this]
          with True d Descend run have "?L E m pt0 pt0_end pt1 to_visit unif = Some r" by simp
          with * assms(5) [OF True d] Descend show ?thesis by blast
        qed
      next
        case False
        show ?thesis
        proof (cases to_visit)
          case Nil
          with False step(2) have "r = TRUE (restored unif m)" by simp
          with Nil False run assms(7) [OF False] show ?thesis by simp
        next
          case (Cons v to_visit')
          obtain x e y where v: "v = (x, e, y)" by (metis prod_cases3)
          with Cons False step(2) have "f E m x e y to_visit' unif = Some r" by simp
          note * = IH [OF this]
          with Cons v False run have "?L E m pt0 pt0_end pt1 to_visit unif = Some r" by simp
          with * assms(6) [OF False] Cons v show ?thesis by simp
        qed
      qed
    qed
  qed
  then show ?thesis by simp
qed

section \<open>Pending pairs\<close>

definition range_rel :: "(nat \<Rightarrow> nat \<Rightarrow> bool) \<Rightarrow> nat \<Rightarrow> nat \<Rightarrow> nat \<Rightarrow> bool" where
  "range_rel R pt0 pt0_end pt1 \<longleftrightarrow> (\<forall>i \<in> {1..pt0_end - pt0}. R (pt0 + i) (pt1 + i))"

definition pending ::
    "(nat \<Rightarrow> nat \<Rightarrow> bool) \<Rightarrow> nat \<Rightarrow> nat \<Rightarrow> nat \<Rightarrow> (nat \<times> nat \<times> nat) list \<Rightarrow> bool" where
  "pending R pt0 pt0_end pt1 to_visit \<longleftrightarrow>
     range_rel R pt0 pt0_end pt1 \<and> (\<forall>(x, e, y) \<in> set to_visit. range_rel R x e y)"

lemma range_rel_step:
  assumes "pt0 < pt0_end"
  shows "range_rel R pt0 pt0_end pt1 \<longleftrightarrow>
    R (pt0 + 1) (pt1 + 1) \<and> range_rel R (pt0 + 1) pt0_end (pt1 + 1)"
proof -
  have "{1..pt0_end - pt0} = insert 1 (Suc ` {1..pt0_end - (pt0 + 1)})"
    using assms by (auto simp: image_iff Bex_def)
  then show ?thesis by (simp add: range_rel_def del: image_Suc_atLeastAtMost)
qed

lemma pending_step:
  "pt0 < pt0_end \<Longrightarrow> pending R pt0 pt0_end pt1 to_visit \<longleftrightarrow>
    R (pt0 + 1) (pt1 + 1) \<and> pending R (pt0 + 1) pt0_end (pt1 + 1) to_visit"
  by (auto simp: pending_def range_rel_step)

lemma pending_pop:
  "\<not> pt0 < pt0_end \<Longrightarrow> pending R pt0 pt0_end pt1 ((x, e, y) # to_visit) \<longleftrightarrow> pending R x e y to_visit"
  by (auto simp: pending_def range_rel_def)

lemma pending_done: "\<not> pt0 < pt0_end \<Longrightarrow> pending R pt0 pt0_end pt1 []"
  by (auto simp: pending_def range_rel_def)

lemma pending_push:
  "pending R p (p + n) q ((x, e, y) # to_visit) \<longleftrightarrow> range_rel R p (p + n) q \<and> pending R x e y to_visit"
  by (auto simp: pending_def)

lemma pending_mono:
  "pending R pt0 pt0_end pt1 to_visit \<Longrightarrow> (\<And>a b. R a b \<Longrightarrow> R' a b) \<Longrightarrow>
    pending R' pt0 pt0_end pt1 to_visit"
  by (fastforce simp: pending_def range_rel_def)

lemma range_rel_args:
  "range_rel (\<lambda>a b. Q (\<rho> a) (\<rho> b)) p (p + n) q \<longleftrightarrow> list_all2 Q (args_of \<rho> p n) (args_of \<rho> q n)"
proof -
  have "{1..n} = {1..<Suc n}" by auto
  then show ?thesis
    by (auto simp: range_rel_def args_of_def list_all2_map1 list_all2_map2 list_all2_same)
qed

abbreviation both_values :: "(nat \<Rightarrow> 'f hcell) \<Rightarrow> nat \<Rightarrow> nat \<Rightarrow> bool" where
  "both_values S a b \<equiv> value_cell (S a) \<and> value_cell (S b)"

lemma range_values: "args_ok S p n \<Longrightarrow> args_ok S q n \<Longrightarrow> range_rel (both_values S) p (p + n) q"
  by (auto simp: range_rel_def args_ok_def)

section \<open>The invariant of the loop\<close>

definition unif_ok :: "(nat \<Rightarrow> 'f hcell) \<Rightarrow> (nat \<times> 'f hcell) list \<Rightarrow> bool" where
  "unif_ok S unif \<longleftrightarrow> (\<forall>(p, old) \<in> set unif. value_cell (S p) \<and> S p \<noteq> RefC p \<and> cell_ok S old)"

definition loop_inv ::
    "'f wam \<Rightarrow> nat \<Rightarrow> nat \<Rightarrow> nat \<Rightarrow> (nat \<times> nat \<times> nat) list \<Rightarrow> (nat \<times> 'f hcell) list \<Rightarrow> bool" where
  "loop_inv m pt0 pt0_end pt1 to_visit unif \<longleftrightarrow> store_ok (cells m) \<and> unif_ok (cells m) unif
     \<and> pending (both_values (cells m)) pt0 pt0_end pt1 to_visit"

lemma unif_ok_update:
  assumes "store_ok S" and "unif_ok S unif" and "value_cell (S a)" and "cell_ok S d" and "d \<noteq> RefC a"
  shows "unif_ok (S(a := d)) unif"
proof -
  have shape: "same_shape S (S(a := d))" using assms by (intro store_ok_update(2))
  have "value_cell d" using assms(4) by (rule cell_ok_value)
  with assms(2,5) show ?thesis
    unfolding unif_ok_def cell_ok_cong [OF shape] by (simp add: case_prod_beta)
qed

lemma pending_values_cong:
  "same_shape S S' \<Longrightarrow> pending (both_values S) pt0 pt0_end pt1 to_visit \<Longrightarrow>
    pending (both_values S') pt0 pt0_end pt1 to_visit"
  by (erule pending_mono) (simp add: same_shape_value)

lemma boxes_ok_cong:
  assumes "same_shape S S'" and "boxes_ok E S"
  shows "boxes_ok E S'"
proof -
  have "S p = BoxC s" if "S' p = BoxC s" for p s
  proof -
    have "\<not> value_cell (S p)" using that same_shape_value [OF assms(1), of p] by simp
    with same_shape_header [OF assms(1), of p] that show ?thesis by simp
  qed
  with assms(2) show ?thesis unfolding boxes_ok_def by blast
qed

lemma pair_facts:
  assumes "loop_inv m pt0 pt0_end pt1 to_visit unif" and "pt0 < pt0_end"
    and "Derefa (cells m) (pt0 + 1) = Some d0" and "Derefa (cells m) (pt1 + 1) = Some d1"
  shows "value_cell (cells m (pt0 + 1))" and "value_cell (cells m (pt1 + 1))"
    and "cell_ok (cells m) d0" and "cell_ok (cells m) d1"
    and "\<And>k \<rho>. models_upto k \<rho> (cells m) \<Longrightarrow> eq_upto k (\<rho> (pt0 + 1)) (tree_of \<rho> (cells m) d0)"
    and "\<And>k \<rho>. models_upto k \<rho> (cells m) \<Longrightarrow> eq_upto k (\<rho> (pt1 + 1)) (tree_of \<rho> (cells m) d1)"
    and "\<And>a d. bound_var d0 d1 a d \<Longrightarrow>
      cells m a = RefC a \<and> cell_ok (cells m) d \<and> d \<noteq> RefC a"
proof -
  show v: "value_cell (cells m (pt0 + 1))" "value_cell (cells m (pt1 + 1))"
    using assms(1,2) by (simp_all add: loop_inv_def pending_step)
  have ok: "store_ok (cells m)" using assms(1) by (simp add: loop_inv_def)
  note D0 = Derefa_ok [OF assms(3) ok v(1)] and D1 = Derefa_ok [OF assms(4) ok v(2)]
  show "cell_ok (cells m) d0" "cell_ok (cells m) d1" by (fact D0(1), fact D1(1))
  show "\<And>k \<rho>. models_upto k \<rho> (cells m) \<Longrightarrow> eq_upto k (\<rho> (pt0 + 1)) (tree_of \<rho> (cells m) d0)"
    "\<And>k \<rho>. models_upto k \<rho> (cells m) \<Longrightarrow> eq_upto k (\<rho> (pt1 + 1)) (tree_of \<rho> (cells m) d1)"
    by (fact D0(3), fact D1(3))
  show "\<And>a d. bound_var d0 d1 a d \<Longrightarrow> cells m a = RefC a \<and> cell_ok (cells m) d \<and> d \<noteq> RefC a"
    using D0 D1 by (auto simp: bound_var_def)
qed

lemma cells_bind_cell [simp]: "cells (bind_cell a d m) = (cells m)(a := d)"
  by (simp add: bind_cell_def store_defs)

lemma cells_store_cell [simp]: "cells (store_cell a d m) = (cells m)(a := d)"
  by (simp add: store_defs)

lemma regs_bind_cell [simp]:
  "HR (bind_cell a d m) = HR m" "HB (bind_cell a d m) = HB m"
  "Breg (bind_cell a d m) = Breg m" "ASP (bind_cell a d m) = ASP m"
  "TR (bind_cell a d m) = (if a < HB m then RefC a # TR m else TR m)"
  by (simp_all add: bind_cell_def store_defs)

lemma regs_store_cell [simp]:
  "HR (store_cell a d m) = HR m" "HB (store_cell a d m) = HB m"
  "Breg (store_cell a d m) = Breg m" "ASP (store_cell a d m) = ASP m" "TR (store_cell a d m) = TR m"
  by (simp_all add: store_defs)

lemma loop_inv_same:
  "loop_inv m pt0 pt0_end pt1 to_visit unif \<Longrightarrow> pt0 < pt0_end \<Longrightarrow>
    loop_inv m (pt0 + 1) pt0_end (pt1 + 1) to_visit unif"
  by (simp add: loop_inv_def pending_step)

lemma loop_inv_bind:
  assumes "loop_inv m pt0 pt0_end pt1 to_visit unif" and "pt0 < pt0_end"
    and "cells m a = RefC a" and "cell_ok (cells m) d" and "d \<noteq> RefC a"
  shows "loop_inv (bind_cell a d m) (pt0 + 1) pt0_end (pt1 + 1) to_visit unif"
proof -
  have ok: "store_ok (cells m)" and unif: "unif_ok (cells m) unif"
    and pend: "pending (both_values (cells m)) (pt0 + 1) pt0_end (pt1 + 1) to_visit"
    using assms(1,2) by (simp_all add: loop_inv_def pending_step)
  have "value_cell (cells m a)" using assms(3) by simp
  note upd = store_ok_update [OF ok this assms(4)]
  show ?thesis
    using upd(1) unif_ok_update [OF ok unif \<open>value_cell (cells m a)\<close> assms(4,5)]
      pending_values_cong [OF upd(2) pend]
    by (simp add: loop_inv_def)
qed

lemma loop_inv_visit:
  assumes "loop_inv m pt0 pt0_end pt1 to_visit unif" and "pt0 < pt0_end"
    and "cell_ok (cells m) d" and "\<And>a. d \<noteq> RefC a"
    and "args_ok (cells m) p n" and "args_ok (cells m) q n"
  shows "loop_inv (store_cell (pt0 + 1) d m) p (p + n) q ((pt0 + 1, pt0_end, pt1 + 1) # to_visit)
    ((pt0 + 1, cells m (pt0 + 1)) # unif)"
proof -
  have ok: "store_ok (cells m)" and unif: "unif_ok (cells m) unif"
    and pend: "pending (both_values (cells m)) (pt0 + 1) pt0_end (pt1 + 1) to_visit"
    and v: "value_cell (cells m (pt0 + 1))"
    using assms(1,2) by (simp_all add: loop_inv_def pending_step)
  note upd = store_ok_update [OF ok v assms(3)]
  define S where "S = (cells m)(pt0 + 1 := d)"
  have S: "store_ok S" "same_shape (cells m) S" using upd by (simp_all add: S_def)
  have "unif_ok S unif"
    unfolding S_def using unif_ok_update [OF ok unif v assms(3)] assms(4) by simp
  moreover have "cell_ok S (cells m (pt0 + 1))"
    using ok v by (simp add: cell_ok_cong [OF S(2)] store_ok_def)
  moreover have "value_cell (S (pt0 + 1))" "S (pt0 + 1) \<noteq> RefC (pt0 + 1)"
    using assms(3,4) by (simp_all add: S_def cell_ok_value)
  moreover have "pending (both_values S) p (p + n) q ((pt0 + 1, pt0_end, pt1 + 1) # to_visit)"
    using pend range_values [OF assms(5,6)]
    by (intro pending_values_cong [OF S(2)]) (simp add: pending_push)
  moreover have "cells (store_cell (pt0 + 1) d m) = S" by (simp add: S_def)
  ultimately show ?thesis using S(1) unfolding loop_inv_def unif_ok_def by simp
qed

section \<open>What a run writes\<close>

lemma restore_at: "p \<notin> fst ` set unif \<Longrightarrow> restore_bindings unif S p = S p"
  by (induction unif S rule: restore_bindings.induct) auto

lemma restore_update:
  "a \<notin> fst ` set unif \<Longrightarrow> restore_bindings unif (S(a := d)) = (restore_bindings unif S)(a := d)"
  by (induction unif S rule: restore_bindings.induct) (auto simp: fun_upd_twist)

lemma restore_visit:
  "restore_bindings ((p, cells m p) # unif) (cells (store_cell p d m)) = restore_bindings unif (cells m)"
  by simp

lemma restore_ok:
  assumes "store_ok S" and "\<forall>(p, old) \<in> set unif. value_cell (S p) \<and> cell_ok S old"
  shows "store_ok (restore_bindings unif S)" and "same_shape S (restore_bindings unif S)"
proof -
  have "store_ok (restore_bindings unif S) \<and> same_shape S (restore_bindings unif S)"
    using assms
  proof (induction unif S rule: restore_bindings.induct)
    case (2 p old unif S)
    define S' where "S' = S(p := old)"
    have "store_ok S'" and shape: "same_shape S S'"
      using 2(2,3) store_ok_update [of S p old] by (auto simp: S'_def)
    moreover have "\<forall>(p, old) \<in> set unif. value_cell (S' p) \<and> cell_ok S' old"
      using 2(3) by (auto simp: cell_ok_cong [OF shape] same_shape_value [OF shape])
    ultimately show ?case
      using 2(1) same_shape_trans by (fastforce simp flip: S'_def)
  qed simp
  then show "store_ok (restore_bindings unif S)" and "same_shape S (restore_bindings unif S)" by auto
qed

text \<open>
  The store \<open>S'\<close> of \<open>m'\<close> is \<open>S\<close> with more variables bound; those older than the choice point are on the
  trail.
\<close>

definition trailed :: "(nat \<Rightarrow> bool) \<Rightarrow> (nat \<Rightarrow> 'f hcell) \<Rightarrow> 'f hcell list \<Rightarrow> 'f wam \<Rightarrow> bool" where
  "trailed older S tr m' \<longleftrightarrow> (\<exists>new. TR m' = new @ tr \<and> (\<forall>t \<in> set new. \<exists>a. t = RefC a \<and> S a = RefC a)
     \<and> (\<forall>p. older p \<longrightarrow> cells m' p \<noteq> S p \<longrightarrow> RefC p \<in> set new))"

definition extends :: "(nat \<Rightarrow> 'f hcell) \<Rightarrow> 'f wam \<Rightarrow> 'f wam \<Rightarrow> bool" where
  "extends S m m' \<longleftrightarrow> store_ok (cells m') \<and> same_shape S (cells m')
     \<and> (\<forall>p. S p \<noteq> RefC p \<longrightarrow> cells m' p = S p)
     \<and> HR m' = HR m \<and> HB m' = HB m \<and> Breg m' = Breg m \<and> ASP m' = ASP m
     \<and> trailed (\<lambda>p. p < HB m) S (TR m) m'"

fun extends_result :: "(nat \<Rightarrow> 'f hcell) \<Rightarrow> 'f wam \<Rightarrow> 'f unified \<Rightarrow> bool" where
  "extends_result S m (TRUE m') = extends S m m'"
| "extends_result S m (FALSE m') = extends S m m'"
| "extends_result S m (Woken a m') = True"

lemma extends_restored:
  assumes "loop_inv m pt0 pt0_end pt1 to_visit unif"
  shows "extends (restore_bindings unif (cells m)) m (restored unif m)"
proof -
  have "store_ok (restore_bindings unif (cells m))"
    using assms by (intro restore_ok(1)) (auto simp: loop_inv_def unif_ok_def)
  then show ?thesis by (simp add: extends_def restored_def trailed_def)
qed

lemma extends_bind:
  assumes "S a = RefC a" and "value_cell d" and "extends (S(a := d)) (bind_cell a d m) m'" and "d \<noteq> RefC a"
  shows "extends S m m'"
proof -
  have "same_shape S (S(a := d))" using assms(1,2) by (intro same_shape_update) simp_all
  moreover have "trailed (\<lambda>p. p < HB m) S (TR m) m'"
  proof -
    obtain new where new: "TR m' = new @ TR (bind_cell a d m)"
      "\<And>t. t \<in> set new \<Longrightarrow> \<exists>b. t = RefC b \<and> (S(a := d)) b = RefC b"
      "\<And>p. p < HB m \<Longrightarrow> cells m' p \<noteq> (S(a := d)) p \<Longrightarrow> RefC p \<in> set new"
      using assms(3) by (auto simp: extends_def trailed_def)
    let ?new = "if a < HB m then new @ [RefC a] else new"
    have "TR m' = ?new @ TR m" using new(1) by simp
    moreover have "\<forall>t \<in> set ?new. \<exists>b. t = RefC b \<and> S b = RefC b"
    proof
      fix t
      assume "t \<in> set ?new"
      then consider "t = RefC a" | "t \<in> set new" by (auto split: if_splits)
      then show "\<exists>b. t = RefC b \<and> S b = RefC b"
      proof cases
        case 2
        with new(2) obtain b where "t = RefC b" "(S(a := d)) b = RefC b" by blast
        with assms(4) show ?thesis by (auto split: if_splits)
      qed (use assms(1) in simp)
    qed
    moreover have "\<forall>p. p < HB m \<longrightarrow> cells m' p \<noteq> S p \<longrightarrow> RefC p \<in> set ?new"
    proof (intro allI impI)
      fix p
      assume "p < HB m" "cells m' p \<noteq> S p"
      with new(3) [of p] show "RefC p \<in> set ?new" by (cases "p = a") auto
    qed
    ultimately show ?thesis unfolding trailed_def by blast
  qed
  moreover have "cells m' p = S p" if "S p \<noteq> RefC p" for p
    using assms(1,3) that by (auto simp: extends_def fun_upd_apply split: if_splits)
  ultimately show ?thesis
    using assms(3) same_shape_trans [of S "S(a := d)" "cells m'"] by (auto simp: extends_def)
qed

section \<open>Steps of the invariant\<close>

lemma bind_step:
  assumes "loop_inv m pt0 pt0_end pt1 to_visit unif" and "pt0 < pt0_end"
    and "Derefa (cells m) (pt0 + 1) = Some d0" and "Derefa (cells m) (pt1 + 1) = Some d1"
    and "bound_var d0 d1 a d" and "boxes_ok E (cells m)" and "m' = bind_cell a d m"
  shows "loop_inv m' (pt0 + 1) pt0_end (pt1 + 1) to_visit unif" and "boxes_ok E (cells m')"
    and "a \<notin> fst ` set unif" and "cells m a = RefC a" and "cell_ok (cells m) d" and "d \<noteq> RefC a"
    and "same_shape (cells m) (cells m')" and "store_ok (cells m)"
proof -
  show b: "cells m a = RefC a" "cell_ok (cells m) d" "d \<noteq> RefC a"
    using pair_facts(7) [OF assms(1-5)] by simp_all
  show "a \<notin> fst ` set unif" using assms(1) b(1) by (auto simp: loop_inv_def unif_ok_def)
  show ok: "store_ok (cells m)" using assms(1) by (simp add: loop_inv_def)
  with b show shape: "same_shape (cells m) (cells m')"
    unfolding assms(7) cells_bind_cell by (intro store_ok_update(2)) simp_all
  then show "boxes_ok E (cells m')" using assms(6) by (rule boxes_ok_cong)
  show "loop_inv m' (pt0 + 1) pt0_end (pt1 + 1) to_visit unif"
    unfolding assms(7) by (rule loop_inv_bind [OF assms(1,2) b])
qed

lemma visit_step:
  assumes "loop_inv m pt0 pt0_end pt1 to_visit unif" and "pt0 < pt0_end"
    and "Derefa (cells m) (pt0 + 1) = Some d0" and "Derefa (cells m) (pt1 + 1) = Some d1"
    and "unify_values E m d0 d1 = Descend d p n q" and "boxes_ok E (cells m)"
  shows "loop_inv (store_cell (pt0 + 1) d m) p (p + n) q ((pt0 + 1, pt0_end, pt1 + 1) # to_visit)
      ((pt0 + 1, cells m (pt0 + 1)) # unif)"
    and "boxes_ok E (cells (store_cell (pt0 + 1) d m))"
    and "same_shape (cells m) (cells (store_cell (pt0 + 1) d m))"
proof -
  note facts = pair_facts [OF assms(1-4)]
  note desc = unify_values_Descend [OF assms(5) facts(3,4)]
  have "store_ok (cells m)" using assms(1) by (simp add: loop_inv_def)
  then show shape: "same_shape (cells m) (cells (store_cell (pt0 + 1) d m))"
    unfolding cells_store_cell using facts(1,4) desc(1) by (intro store_ok_update(2)) simp_all
  then show "boxes_ok E (cells (store_cell (pt0 + 1) d m))" using assms(6) by (rule boxes_ok_cong)
  show "loop_inv (store_cell (pt0 + 1) d m) p (p + n) q ((pt0 + 1, pt0_end, pt1 + 1) # to_visit)
      ((pt0 + 1, cells m (pt0 + 1)) # unif)"
    using assms(1,2) facts(4) desc by (intro loop_inv_visit) simp_all
qed

lemma loop_inv_pop:
  "\<not> pt0 < pt0_end \<Longrightarrow> loop_inv m pt0 pt0_end pt1 ((x, e, y) # to_visit) unif \<Longrightarrow>
    loop_inv m x e y to_visit unif"
  by (simp add: loop_inv_def pending_pop)

section \<open>Runs extend the store\<close>

theorem IUnify_loop_extends:
  assumes "IUnify_loop E m pt0 pt0_end pt1 to_visit unif = Some r"
    and "loop_inv m pt0 pt0_end pt1 to_visit unif" and "boxes_ok E (cells m)"
  shows "extends_result (restore_bindings unif (cells m)) m r"
  using assms
proof (induction rule: IUnify_loop_induct)
  case (Fails m pt0 pt0_end pt1 to_visit unif d0 d1)
  from Fails(5) show ?case by (simp add: extends_restored)
next
  case (Next m pt0 pt0_end pt1 to_visit unif d0 d1 m' r)
  from unify_values_Bound [OF Next(4,8)] show ?case
  proof (elim disjE exE conjE)
    assume "m' = m"
    with Next(6,8) loop_inv_same [OF Next(7,1)] show ?thesis by simp
  next
    fix a d
    assume m': "m' = bind_cell a d m" and bv: "bound_var d0 d1 a d"
    note step = bind_step [OF Next(7,1,2,3) bv Next(8) m']
    note a = step(3)
    have "extends_result (restore_bindings unif (cells m')) m' r" by (rule Next(6) [OF step(1,2)])
    then show ?thesis
      using extends_bind [of "restore_bindings unif (cells m)" a d m] step(4-6)
        restore_at [OF a, of "cells m"]
      unfolding m' cells_bind_cell restore_update [OF a]
      by (cases r) (auto simp: cell_ok_value)
  qed
next
  case (Visit m pt0 pt0_end pt1 to_visit unif d0 d1 d p n q r)
  note step = visit_step [OF Visit(6,1,2,3,4,7)]
  from Visit(5) [OF step(1,2), unfolded restore_visit]
  have "extends_result (restore_bindings unif (cells m)) (store_cell (pt0 + 1) d m) r" .
  then show ?case by (cases r) (simp_all add: extends_def)
next
  case (Pop m pt0 pt0_end pt1 start0 end0 start1 to_visit unif r)
  then show ?case by (simp add: loop_inv_pop)
next
  case (Done m pt0 pt0_end pt1 unif)
  from Done(2) show ?case by (simp add: extends_restored)
qed simp

section \<open>Every solution is kept\<close>

lemma models_restore:
  assumes "store_ok S" and "models \<rho> S"
    and "\<forall>(p, old) \<in> set unif. value_cell (S p) \<and> cell_ok S old \<and> \<rho> p = tree_of \<rho> S old"
  shows "models \<rho> (restore_bindings unif S)"
  using assms
proof (induction unif S rule: restore_bindings.induct)
  case (2 p old unif S)
  define S' where "S' = S(p := old)"
  have S': "store_ok S'" and shape: "same_shape S S'" and "models \<rho> S'"
    using 2(2-4) store_ok_update [of S p old] models_update [of S p old] by (auto simp: S'_def)
  moreover have "\<forall>(p, old) \<in> set unif. value_cell (S' p) \<and> cell_ok S' old \<and> \<rho> p = tree_of \<rho> S' old"
    using 2(4) by (auto simp: cell_ok_cong [OF shape] same_shape_value [OF shape] tree_of_cong [OF shape])
  ultimately show ?case using 2(1) by (simp flip: S'_def)
qed simp

definition records_hold :: "'f model \<Rightarrow> (nat \<Rightarrow> 'f hcell) \<Rightarrow> (nat \<times> 'f hcell) list \<Rightarrow> bool" where
  "records_hold \<rho> S unif \<longleftrightarrow> (\<forall>(p, old) \<in> set unif. \<rho> p = tree_of \<rho> S old)"

lemma records_hold_cong:
  assumes "same_shape S S'" and "\<forall>x \<in> set unif. cell_ok S (snd x)" and "records_hold \<rho> S unif"
  shows "records_hold \<rho> S' unif"
  using assms(2,3) by (simp add: records_hold_def case_prod_beta tree_of_cong [OF assms(1)])

lemma loop_inv_records: "loop_inv m pt0 pt0_end pt1 to_visit unif \<Longrightarrow> \<forall>x \<in> set unif. cell_ok (cells m) (snd x)"
  by (auto simp: loop_inv_def unif_ok_def)

fun models_result :: "'f model \<Rightarrow> 'f unified \<Rightarrow> bool" where
  "models_result \<rho> (TRUE m) = models \<rho> (cells m)"
| "models_result \<rho> (FALSE m) = False"
| "models_result \<rho> (Woken a m) = True"

text \<open>The facts a solution of the pending equations gives at one pair.\<close>

lemma pair_models:
  assumes "loop_inv m pt0 pt0_end pt1 to_visit unif" and "pt0 < pt0_end"
    and "Derefa (cells m) (pt0 + 1) = Some d0" and "Derefa (cells m) (pt1 + 1) = Some d1"
    and "models \<rho> (cells m)"
  shows "\<rho> (pt0 + 1) = tree_of \<rho> (cells m) d0" and "\<rho> (pt1 + 1) = tree_of \<rho> (cells m) d1"
  using pair_facts(5,6) [OF assms(1-4)] assms(5) by (blast intro: eq_upto_all models_upto)+

lemma bind_models:
  assumes "store_ok (cells m)" and "cells m a = RefC a" and "cell_ok (cells m) d"
    and "models \<rho> (cells m)" and "tree_of \<rho> (cells m) d0 = tree_of \<rho> (cells m) d1"
    and "bound_var d0 d1 a d"
  shows "models \<rho> (cells (bind_cell a d m))"
proof -
  have "\<rho> a = tree_of \<rho> (cells m) d" using assms(5,6) by (auto simp: bound_var_def)
  then show ?thesis unfolding cells_bind_cell using assms by (intro models_update) simp_all
qed

lemma visit_models:
  assumes "loop_inv m pt0 pt0_end pt1 to_visit unif" and "pt0 < pt0_end"
    and "Derefa (cells m) (pt0 + 1) = Some d0" and "Derefa (cells m) (pt1 + 1) = Some d1"
    and "unify_values E m d0 d1 = Descend d p n q" and "models \<rho> (cells m)"
    and "\<rho> (pt0 + 1) = \<rho> (pt1 + 1)"
  shows "models \<rho> (cells (store_cell (pt0 + 1) d m))"
    and "range_rel (\<lambda>a b. \<rho> a = \<rho> b) p (p + n) q"
    and "\<exists>l. \<rho> (pt0 + 1) = Node l (args_of \<rho> p n)"
proof -
  note facts = pair_facts [OF assms(1-4)] and tree = pair_models [OF assms(1-4,6)]
  note desc = unify_values_Descend [OF assms(5) facts(3,4)]
  have ok: "store_ok (cells m)" using assms(1) by (simp add: loop_inv_def)
  show "models \<rho> (cells (store_cell (pt0 + 1) d m))"
    unfolding cells_store_cell using ok facts(1,4) desc(1) assms(6,7) tree(2)
    by (intro models_update) simp_all
  from desc(5) obtain l where l: "tree_of \<rho> (cells m) d0 = Node l (args_of \<rho> p n)"
      "tree_of \<rho> (cells m) d1 = Node l (args_of \<rho> q n)" by blast
  with tree assms(7) have "args_of \<rho> p n = args_of \<rho> q n" by simp
  then show "range_rel (\<lambda>a b. \<rho> a = \<rho> b) p (p + n) q" by (simp add: range_rel_args list.rel_eq)
  from l tree show "\<exists>l. \<rho> (pt0 + 1) = Node l (args_of \<rho> p n)" by simp
qed

theorem IUnify_loop_complete:
  assumes "IUnify_loop E m pt0 pt0_end pt1 to_visit unif = Some r"
    and "loop_inv m pt0 pt0_end pt1 to_visit unif" and "boxes_ok E (cells m)"
    and "models \<rho> (cells m)" and "records_hold \<rho> (cells m) unif"
    and "pending (\<lambda>a b. \<rho> a = \<rho> b) pt0 pt0_end pt1 to_visit"
  shows "models_result \<rho> r"
  using assms
proof (induction rule: IUnify_loop_induct)
  case (Fails m pt0 pt0_end pt1 to_visit unif d0 d1)
  note facts = pair_facts [OF Fails(5,1,2,3)]
  have "tree_of \<rho> (cells m) d0 = tree_of \<rho> (cells m) d1"
    using pair_models [OF Fails(5,1,2,3,7)] Fails(9) by (simp add: pending_step [OF Fails(1)])
  with unify_values_Clash [OF Fails(4) facts(3,4) Fails(6)] show ?case by blast
next
  case (Next m pt0 pt0_end pt1 to_visit unif d0 d1 m' r)
  have pend: "pending (\<lambda>a b. \<rho> a = \<rho> b) (pt0 + 1) pt0_end (pt1 + 1) to_visit"
    and eq: "tree_of \<rho> (cells m) d0 = tree_of \<rho> (cells m) d1"
    using pair_models [OF Next(7,1,2,3,9)] Next(11) by (simp_all add: pending_step [OF Next(1)])
  from unify_values_Bound [OF Next(4,8)] show ?case
  proof (elim disjE exE conjE)
    assume "m' = m"
    with Next(6,8,9,10) pend loop_inv_same [OF Next(7,1)] show ?thesis by simp
  next
    fix a d
    assume m': "m' = bind_cell a d m" and bv: "bound_var d0 d1 a d"
    note step = bind_step [OF Next(7,1,2,3) bv Next(8) m']
    have "models \<rho> (cells m')"
      unfolding m' using step(4,5,8) Next(9) eq bv by (intro bind_models)
    moreover have "records_hold \<rho> (cells m') unif"
      using step(7) loop_inv_records [OF Next(7)] Next(10) by (rule records_hold_cong)
    ultimately show ?thesis using Next(6) step(1,2) pend by simp
  qed
next
  case (Visit m pt0 pt0_end pt1 to_visit unif d0 d1 d p n q r)
  have eq: "\<rho> (pt0 + 1) = \<rho> (pt1 + 1)"
    and pend: "pending (\<lambda>a b. \<rho> a = \<rho> b) (pt0 + 1) pt0_end (pt1 + 1) to_visit"
    using Visit(10) by (simp_all add: pending_step [OF Visit(1)])
  note step = visit_step [OF Visit(6,1,2,3,4,7)]
    and mod = visit_models [OF Visit(6,1,2,3,4,8) eq]
  have cell: "value_cell (cells m (pt0 + 1))" "cell_ok (cells m) (cells m (pt0 + 1))"
    using Visit(6) pair_facts(1) [OF Visit(6,1,2,3)] by (auto simp: loop_inv_def store_ok_def)
  have "records_hold \<rho> (cells m) ((pt0 + 1, cells m (pt0 + 1)) # unif)"
    using Visit(8,9) cell(1) by (simp add: records_hold_def models_def)
  then have "records_hold \<rho> (cells (store_cell (pt0 + 1) d m)) ((pt0 + 1, cells m (pt0 + 1)) # unif)"
    using cell(2) loop_inv_records [OF Visit(6)] by (intro records_hold_cong [OF step(3)]) simp_all
  moreover have "pending (\<lambda>a b. \<rho> a = \<rho> b) p (p + n) q ((pt0 + 1, pt0_end, pt1 + 1) # to_visit)"
    using mod(2) pend by (simp only: pending_push)
  ultimately show ?case by (rule Visit(5) [OF step(1,2) mod(1)])
next
  case (Pop m pt0 pt0_end pt1 start0 end0 start1 to_visit unif r)
  then show ?case by (simp add: loop_inv_pop pending_pop)
next
  case (Done m pt0 pt0_end pt1 unif)
  then have "models \<rho> (restore_bindings unif (cells m))"
    by (intro models_restore) (auto simp: loop_inv_def unif_ok_def records_hold_def)
  then show ?case by (simp add: restored_def)
qed simp

section \<open>Every solution of the result solves the equations\<close>

text \<open>
  On cyclic terms the loop relies on the cells it has overwritten: it takes two compound terms it is
  already visiting to be equal. The pairs \<open>X\<close> of trees it visited are therefore equal up to every depth,
  by induction on the depth: when they agree up to \<open>n\<close>, the overwritten store is a model up to \<open>n\<close>, so their
  arguments agree up to \<open>n\<close>.
\<close>

lemma bound_in_result:
  assumes "extends_result (restore_bindings unif (cells m')) m' (TRUE mf)"
    and "m' = bind_cell a d m" and "a \<notin> fst ` set unif" and "d \<noteq> RefC a"
    and "cell_ok (cells m) d" and "unif_ok (cells m') unif" and "store_ok (cells m')"
    and "same_shape (cells m) (cells m')" and "models \<rho> (cells mf)"
  shows "\<rho> a = tree_of \<rho> (cells m) d"
proof -
  let ?R = "restore_bindings unif (cells m')"
  have "?R a = d" using assms(2,3) by (simp add: restore_at)
  then have eq: "cells mf a = d" using assms(1,4) by (auto simp: extends_def)
  have "same_shape (cells m') ?R"
    using assms(6,7) by (intro restore_ok(2)) (auto simp: unif_ok_def)
  moreover have "same_shape ?R (cells mf)" using assms(1) by (simp add: extends_def)
  ultimately have shape: "same_shape (cells m) (cells mf)"
    using assms(8) same_shape_trans by blast
  have "value_cell (cells mf a)" using eq assms(5) by (simp add: cell_ok_value)
  with assms(9) eq have "\<rho> a = tree_of \<rho> (cells mf) d" by (auto simp: models_def)
  with tree_of_cong [OF shape assms(5)] show ?thesis by simp
qed

theorem IUnify_loop_sound:
  fixes \<rho> :: "'f model"
  assumes "IUnify_loop E m pt0 pt0_end pt1 to_visit unif = Some r"
    and "loop_inv m pt0 pt0_end pt1 to_visit unif" and "boxes_ok E (cells m)"
    and "r = TRUE mf" and "models \<rho> (cells mf)"
  shows "\<exists>X :: ('f lab tree \<times> 'f lab tree) set. \<forall>n. (\<forall>(s, t) \<in> X. eq_upto n s t) \<longrightarrow> models_upto n \<rho> (cells m) \<longrightarrow>
    pending (\<lambda>a b. eq_upto n (\<rho> a) (\<rho> b)) pt0 pt0_end pt1 to_visit
    \<and> (\<forall>(s, t) \<in> X. eq_upto (Suc n) s t)"
  using assms
proof (induction rule: IUnify_loop_induct)
  case (Next m pt0 pt0_end pt1 to_visit unif d0 d1 m' r)
  note facts = pair_facts [OF Next(7,1,2,3)]
  have pair: "eq_upto n (\<rho> (pt0 + 1)) (\<rho> (pt1 + 1))"
    if "eq_upto n (tree_of \<rho> (cells m) d0) (tree_of \<rho> (cells m) d1)" and "models_upto n \<rho> (cells m)" for n
    using that facts(5,6) [of n \<rho>] by (meson eq_upto_sym eq_upto_trans)
  from unify_values_Bound [OF Next(4,8)] show ?case
  proof (elim disjE exE conjE)
    assume m': "m' = m" and eq: "\<forall>\<rho>. tree_of \<rho> (cells m) d0 = tree_of \<rho> (cells m) d1"
    have "loop_inv m' (pt0 + 1) pt0_end (pt1 + 1) to_visit unif" and "boxes_ok E (cells m')"
      using loop_inv_same [OF Next(7,1)] Next(8) m' by simp_all
    from Next(6) [OF this Next(9,10)] obtain X :: "('f lab tree \<times> 'f lab tree) set" where
      "\<forall>n. (\<forall>(s, t) \<in> X. eq_upto n s t) \<longrightarrow> models_upto n \<rho> (cells m') \<longrightarrow>
        pending (\<lambda>a b. eq_upto n (\<rho> a) (\<rho> b)) (pt0 + 1) pt0_end (pt1 + 1) to_visit
        \<and> (\<forall>(s, t) \<in> X. eq_upto (Suc n) s t)" by (rule exE)
    note X = this [THEN spec, THEN mp, THEN mp]
    have "eq_upto n (\<rho> (pt0 + 1)) (\<rho> (pt1 + 1))" if "models_upto n \<rho> (cells m)" for n
      using pair [OF _ that] eq by simp
    note eqs = this
    show ?thesis
      unfolding pending_step [OF Next(1)]
    proof (rule exI [of _ X], intro allI impI)
      fix n
      assume "\<forall>(s, t) \<in> X. eq_upto n s t" and upto: "models_upto n \<rho> (cells m)"
      from X [OF this(1)] upto m' eqs [OF upto]
      show "(eq_upto n (\<rho> (pt0 + 1)) (\<rho> (pt1 + 1))
          \<and> pending (\<lambda>a b. eq_upto n (\<rho> a) (\<rho> b)) (pt0 + 1) pt0_end (pt1 + 1) to_visit)
          \<and> (\<forall>(s, t) \<in> X. eq_upto (Suc n) s t)" by simp
    qed
  next
    fix a d
    assume m': "m' = bind_cell a d m" and bv: "bound_var d0 d1 a d"
    note step = bind_step [OF Next(7,1,2,3) bv Next(8) m']
    have "extends_result (restore_bindings unif (cells m')) m' (TRUE mf)"
      using IUnify_loop_extends [OF Next(5) step(1,2)] Next(9) by simp
    moreover have "unif_ok (cells m') unif" and "store_ok (cells m')"
      using step(1) by (simp_all only: loop_inv_def)
    ultimately have val: "\<rho> a = tree_of \<rho> (cells m) d"
      using bound_in_result [OF _ m' step(3,6,5) _ _ step(7) Next(10)] by blast
    then have eq: "tree_of \<rho> (cells m) d0 = tree_of \<rho> (cells m) d1"
      using bv by (auto simp: bound_var_def)
    have upto: "models_upto n \<rho> (cells m')" if "models_upto n \<rho> (cells m)" for n
      unfolding m' cells_bind_cell using step(4,5,8) that val by (intro models_upto_update) simp_all
    from Next(6) [OF step(1,2) Next(9,10)] obtain X :: "('f lab tree \<times> 'f lab tree) set" where
      "\<forall>n. (\<forall>(s, t) \<in> X. eq_upto n s t) \<longrightarrow> models_upto n \<rho> (cells m') \<longrightarrow>
        pending (\<lambda>a b. eq_upto n (\<rho> a) (\<rho> b)) (pt0 + 1) pt0_end (pt1 + 1) to_visit
        \<and> (\<forall>(s, t) \<in> X. eq_upto (Suc n) s t)" by (rule exE)
    note X = this [THEN spec, THEN mp, THEN mp]
    show ?thesis
      unfolding pending_step [OF Next(1)] using X upto pair eq by (intro exI [of _ X]) simp
  qed
next
  case (Visit m pt0 pt0_end pt1 to_visit unif d0 d1 d p n q r)
  note facts = pair_facts [OF Visit(6,1,2,3)] and step = visit_step [OF Visit(6,1,2,3,4,7)]
  note desc = unify_values_Descend [OF Visit(4) facts(3,4)]
  let ?t0 = "tree_of \<rho> (cells m) d0" and ?t1 = "tree_of \<rho> (cells m) d1"
  define m' where "m' = store_cell (pt0 + 1) d m"
  have ok: "store_ok (cells m)" using Visit(6) by (simp add: loop_inv_def)
  from desc(5) obtain l where l: "?t0 = Node l (args_of \<rho> p n)" "?t1 = Node l (args_of \<rho> q n)"
    by blast
  from Visit(5) [OF step(1,2) Visit(8,9), folded m'_def]
  obtain X :: "('f lab tree \<times> 'f lab tree) set" where
    "\<forall>k. (\<forall>(s, t) \<in> X. eq_upto k s t) \<longrightarrow> models_upto k \<rho> (cells m') \<longrightarrow>
      pending (\<lambda>a b. eq_upto k (\<rho> a) (\<rho> b)) p (p + n) q ((pt0 + 1, pt0_end, pt1 + 1) # to_visit)
      \<and> (\<forall>(s, t) \<in> X. eq_upto (Suc k) s t)" by (rule exE)
  note X = this [THEN spec, THEN mp, THEN mp]
  have "pending (\<lambda>a b. eq_upto k (\<rho> a) (\<rho> b)) pt0 pt0_end pt1 to_visit
      \<and> (\<forall>(s, t) \<in> insert (?t0, ?t1) X. eq_upto (Suc k) s t)"
    if hyp: "\<forall>(s, t) \<in> insert (?t0, ?t1) X. eq_upto k s t" and upto: "models_upto k \<rho> (cells m)" for k
  proof -
    have eq: "eq_upto k (\<rho> (pt0 + 1)) ?t1"
      using hyp facts(5) [OF upto] by (auto intro: eq_upto_trans)
    then have "models_upto k \<rho> (cells m')"
      unfolding m'_def cells_store_cell using ok facts(1,4) upto desc(1)
      by (intro models_upto_update) simp_all
    with X [of k] hyp
    have range: "range_rel (\<lambda>a b. eq_upto k (\<rho> a) (\<rho> b)) p (p + n) q"
      and pend: "pending (\<lambda>a b. eq_upto k (\<rho> a) (\<rho> b)) (pt0 + 1) pt0_end (pt1 + 1) to_visit"
      and rest: "\<forall>(s, t) \<in> X. eq_upto (Suc k) s t" by (simp_all add: pending_push)
    have "eq_upto (Suc k) ?t0 ?t1" using l range by (simp add: range_rel_args)
    moreover have "eq_upto k (\<rho> (pt0 + 1)) (\<rho> (pt1 + 1))"
      using eq facts(6) [OF upto] by (meson eq_upto_sym eq_upto_trans)
    ultimately show ?thesis unfolding pending_step [OF Visit(1)] using pend rest by simp
  qed
  then show ?case by blast
next
  case (Pop m pt0 pt0_end pt1 start0 end0 start1 to_visit unif r)
  then show ?case by (simp add: loop_inv_pop pending_pop)
next
  case (Done m pt0 pt0_end pt1 unif)
  show ?case by (rule exI [of _ "{}"]) (simp add: pending_done [OF Done(1)])
qed simp_all

end
