(* ===== verification/YapUnifyEnds.thy ===== *)
theory YapUnifyEnds
  imports YapUnifyLoop
begin

text \<open>
  Where references lead and when unification ends. References go from younger to older variables, so
  dereferencing ends; the arguments of terms on the global stack stay on the global stack; and the loop
  of unification ends with success on terms that have a finite common instance.
\<close>

section \<open>References\<close>

text \<open>
  The rank of an address: global cells by address, local cells above them, the oldest (at the highest
  address) first. \<open>h\<close> is the top of the global stack and \<open>lcl0\<close> the base of the local stack.
\<close>

definition rank :: "nat \<Rightarrow> nat \<Rightarrow> nat \<Rightarrow> nat" where
  "rank h lcl0 p = (if p < h then p else h + (lcl0 - p))"

definition refs_ok :: "nat \<Rightarrow> nat \<Rightarrow> (nat \<Rightarrow> 'f hcell) \<Rightarrow> bool" where
  "refs_ok h lcl0 S \<longleftrightarrow> (\<forall>p q. S p = RefC q \<longrightarrow> q \<noteq> p \<longrightarrow> rank h lcl0 q < rank h lcl0 p)"

lemma Derefa_returns:
  assumes "refs_ok h lcl0 S"
  shows "\<exists>d. Derefa S p = Some d"
proof (induction "rank h lcl0 p" arbitrary: p rule: less_induct)
  case less
  show ?case
  proof (cases "\<exists>q. S p = RefC q \<and> q \<noteq> p")
    case True
    then obtain q where q: "S p = RefC q" "q \<noteq> p" by blast
    with assms have "rank h lcl0 q < rank h lcl0 p" by (simp add: refs_ok_def)
    from less [OF this] q show ?thesis by (simp add: Derefa.simps [of S p])
  next
    case False
    then show ?thesis by (simp add: Derefa.simps [of S p] split: hcell.split)
  qed
qed

lemma refs_ok_update:
  "refs_ok h lcl0 S \<Longrightarrow> (\<And>q. d = RefC q \<Longrightarrow> q \<noteq> a \<Longrightarrow> rank h lcl0 q < rank h lcl0 a) \<Longrightarrow>
    refs_ok h lcl0 (S(a := d))"
  by (simp add: refs_ok_def)

section \<open>The global stack\<close>

fun below :: "(nat \<Rightarrow> 'f hcell) \<Rightarrow> nat \<Rightarrow> 'f hcell \<Rightarrow> bool" where
  "below S h (RefC q) = (q < h)"
| "below S h (PairC p) = (p + 1 < h)"
| "below S h (ApplC p) = (case S p of FunC f n \<Rightarrow> p + n < h | _ \<Rightarrow> True)"
| "below S h d = True"

definition heap_closed :: "nat \<Rightarrow> (nat \<Rightarrow> 'f hcell) \<Rightarrow> bool" where
  "heap_closed h S \<longleftrightarrow> (\<forall>p < h. value_cell (S p) \<longrightarrow> below S h (S p))"

lemma below_cong:
  assumes "same_shape S S'" and "cell_ok S d"
  shows "below S' h d = below S h d"
proof (cases d)
  case (ApplC p)
  with assms(2) have "\<not> value_cell (S p)" by (cases "S p") simp_all
  then have "S' p = S p" by (rule same_shape_header [OF assms(1)])
  with ApplC show ?thesis by simp
qed simp_all

lemma heap_closed_update:
  assumes "heap_closed h S" and "store_ok S" and "value_cell (S a)" and "cell_ok S d" and "below S h d"
  shows "heap_closed h (S(a := d))"
  unfolding heap_closed_def
proof (intro allI impI)
  fix p
  define S' where "S' = S(a := d)"
  have shape: "same_shape S S'" unfolding S'_def by (rule store_ok_update(2) [OF assms(2-4)])
  assume "p < h" and v: "value_cell ((S(a := d)) p)"
  then have "cell_ok S (S' p)" and "below S h (S' p)"
    using assms by (cases "p = a"; simp add: S'_def store_ok_def heap_closed_def)+
  then show "below (S(a := d)) h ((S(a := d)) p)"
    using below_cong [OF shape] by (simp add: S'_def)
qed

lemma Derefa_below:
  assumes "Derefa S p = Some d" and "heap_closed h S" and "store_ok S" and "value_cell (S p)" and "p < h"
  shows "below S h d"
proof -
  have "heap_closed h S \<longrightarrow> store_ok S \<longrightarrow> value_cell (S p) \<longrightarrow> p < h \<longrightarrow> below S h d"
    using assms(1)
  proof (induction rule: Derefa.raw_induct [rotated, consumes 1, case_names step])
    case (step f S p d)
    show ?case
    proof (intro impI)
      assume *: "heap_closed h S" "store_ok S" "value_cell (S p)" "p < h"
      then have b: "below S h (S p)" and c: "cell_ok S (S p)"
        by (simp_all add: heap_closed_def store_ok_def)
      show "below S h d"
      proof (cases "\<exists>q. S p = RefC q \<and> q \<noteq> p")
        case True
        then obtain q where "S p = RefC q" "q \<noteq> p" by blast
        with step * b c show ?thesis by simp
      next
        case False
        with step(2) have "d = S p" by (auto split: hcell.splits if_splits)
        with b show ?thesis by simp
      qed
    qed
  qed
  with assms show ?thesis by blast
qed

text \<open>Argument cells of a term on the global stack.\<close>

lemma below_args:
  assumes "unify_values E m d0 d1 = Descend d p n q" and "cell_ok (cells m) d0" and "cell_ok (cells m) d1"
    and "below (cells m) h d0" and "below (cells m) h d1"
  shows "p + n < h" and "q + n < h"
proof -
  have "p + n < h \<and> q + n < h"
  proof (cases "\<exists>x y. d0 = PairC x \<and> d1 = PairC y")
    case True
    with assms show ?thesis by (auto simp: unify_values_def split: if_splits)
  next
    case False
    with assms(1) obtain x y where d: "d0 = ApplC x" "d1 = ApplC y"
      and u: "unify_functors E m x y = Descend d p n q"
      by (auto simp: unify_values_def split: hcell.splits if_splits)
    have "\<exists>f. cells m x = FunC f n \<and> functor_cell (cells m x) = functor_cell (cells m y)
        \<and> p = x \<and> q = y"
      using u unfolding unify_functors_def
      by (cases "cells m x") (auto split: if_splits hcell.splits)
    then obtain f where f: "cells m x = FunC f n"
        and "functor_cell (FunC f n) = functor_cell (cells m y)" and *: "p = x" "q = y"
      by auto
    from this(2) have "cells m y = FunC f n" by (rule functor_cell_eq)
    with f * d assms(4,5) show ?thesis by simp
  qed
  then show "p + n < h" and "q + n < h" by simp_all
qed

section \<open>Without attributed variables\<close>

lemma no_attvars_cong: "same_shape S S' \<Longrightarrow> no_attvars S \<Longrightarrow> no_attvars S'"
  unfolding no_attvars_def same_shape_def by (metis value_cell.simps(3))

lemma Bind_Global_plain:
  assumes "no_attvars (cells m)" and "d \<noteq> AttC"
  shows "Bind_Global a d m = Bound (bind_cell a d m)"
proof -
  have "no_attvars (cells (store_cell a d m))" using assms by (simp add: no_attvars_def)
  then show ?thesis by (simp add: Bind_Global_def bind_cell_def Let_def)
qed

lemma unify_values_plain:
  assumes "unify_values E m d0 d1 = Go b" and "no_attvars (cells m)" and "value_cell d0" and "value_cell d1"
  shows "b = Bound m \<or> (\<exists>a d. b = Bound (bind_cell a d m) \<and> bound_var d0 d1 a d
    \<and> (\<forall>q. d = RefC q \<longrightarrow> q < a))"
proof -
  have G: "Bind_Global a d m = Bound (bind_cell a d m)" if "value_cell d" for a d
    using that assms(2) by (intro Bind_Global_plain) auto
  show ?thesis
  proof (cases "\<exists>p q. d0 = RefC p \<and> d1 = RefC q")
    case True
    then obtain p q where "d0 = RefC p" "d1 = RefC q" by blast
    with assms show ?thesis
      by (cases p q rule: linorder_cases)
        (auto simp: unify_values_def UnifyGlobalCells_def bound_var_def G)
  next
    case False
    with assms G show ?thesis
      by (auto simp: unify_values_def unify_functors_def bound_var_def split: hcell.splits if_splits)
  qed
qed

section \<open>Runs on terms that have a finite common instance\<close>

text \<open>The nodes of the trees still to be visited; \<open>N\<close> bounds the height of all of them.\<close>

definition range_nodes :: "nat \<Rightarrow> 'f model \<Rightarrow> nat \<Rightarrow> nat \<Rightarrow> nat" where
  "range_nodes N \<rho> pt0 pt0_end = (\<Sum>a \<in> {Suc pt0..pt0_end}. nodes_above N (\<rho> a))"

definition pending_nodes :: "nat \<Rightarrow> 'f model \<Rightarrow> nat \<Rightarrow> nat \<Rightarrow> (nat \<times> nat \<times> nat) list \<Rightarrow> nat" where
  "pending_nodes N \<rho> pt0 pt0_end to_visit =
     range_nodes N \<rho> pt0 pt0_end + (\<Sum>(x, e, y) \<leftarrow> to_visit. range_nodes N \<rho> x e)"

lemma range_nodes_step:
  "pt0 < pt0_end \<Longrightarrow>
    range_nodes N \<rho> pt0 pt0_end = nodes_above N (\<rho> (pt0 + 1)) + range_nodes N \<rho> (pt0 + 1) pt0_end"
  by (simp add: range_nodes_def sum.atLeast_Suc_atMost)

lemma range_nodes_args:
  "range_nodes N \<rho> p (p + n) = sum_list (map (nodes_above N) (args_of \<rho> p n))"
proof -
  have "range_nodes N \<rho> p (p + n) = (\<Sum>i \<in> {1..<Suc n}. nodes_above N (\<rho> (p + i)))"
    unfolding range_nodes_def
    by (rule sum.reindex_bij_witness [of _ "\<lambda>i. p + i" "\<lambda>a. a - p"]) auto
  then show ?thesis
    by (simp add: args_of_def comp_def interv_sum_list_conv_sum_set_nat flip: atLeastLessThanSuc_atLeastAtMost
        del: upt_Suc)
qed

definition ends_inv :: "nat \<Rightarrow> 'f wam \<Rightarrow> nat \<Rightarrow> nat \<Rightarrow> nat \<Rightarrow> (nat \<times> nat \<times> nat) list \<Rightarrow> bool" where
  "ends_inv lcl0 m pt0 pt0_end pt1 to_visit \<longleftrightarrow> no_attvars (cells m) \<and> heap_closed (HR m) (cells m)
     \<and> refs_ok (HR m) lcl0 (cells m)
     \<and> pending (\<lambda>a b. a < HR m \<and> b < HR m) pt0 pt0_end pt1 to_visit"

lemma ends_pair:
  assumes "ends_inv lcl0 m pt0 pt0_end pt1 to_visit" and "loop_inv m pt0 pt0_end pt1 to_visit unif"
    and "pt0 < pt0_end"
  obtains d0 d1 where "Derefa (cells m) (pt0 + 1) = Some d0" and "Derefa (cells m) (pt1 + 1) = Some d1"
    and "below (cells m) (HR m) d0" and "below (cells m) (HR m) d1"
proof -
  have refs: "refs_ok (HR m) lcl0 (cells m)" and closed: "heap_closed (HR m) (cells m)"
    and lt: "pt0 + 1 < HR m" "pt1 + 1 < HR m"
    using assms(1,3) by (simp_all add: ends_inv_def pending_step)
  have ok: "store_ok (cells m)" and v: "value_cell (cells m (pt0 + 1))" "value_cell (cells m (pt1 + 1))"
    using assms(2,3) by (simp_all add: loop_inv_def pending_step)
  from Derefa_returns [OF refs] obtain d0 d1 where
    d: "Derefa (cells m) (pt0 + 1) = Some d0" "Derefa (cells m) (pt1 + 1) = Some d1" by blast
  with that Derefa_below [OF d(1) closed ok v(1) lt(1)] Derefa_below [OF d(2) closed ok v(2) lt(2)]
  show thesis by blast
qed

lemma ends_update:
  assumes "no_attvars (cells m)" and "heap_closed (HR m) (cells m)" and "refs_ok (HR m) lcl0 (cells m)"
    and "store_ok (cells m)" and "value_cell (cells m a)" and "cell_ok (cells m) d"
    and "below (cells m) (HR m) d" and "a < HR m" and "\<And>q. d = RefC q \<Longrightarrow> q < a"
  shows "no_attvars ((cells m)(a := d))" and "heap_closed (HR m) ((cells m)(a := d))"
    and "refs_ok (HR m) lcl0 ((cells m)(a := d))"
proof -
  show "no_attvars ((cells m)(a := d))"
    using no_attvars_cong [OF store_ok_update(2) [OF assms(4-6)] assms(1)] .
  show "heap_closed (HR m) ((cells m)(a := d))" using assms by (intro heap_closed_update)
  show "refs_ok (HR m) lcl0 ((cells m)(a := d))"
    using assms(3)
  proof (rule refs_ok_update)
    fix q
    assume "d = RefC q"
    with assms(9) have "q < a" by simp
    with assms(8) show "rank (HR m) lcl0 q < rank (HR m) lcl0 a" by (simp add: rank_def)
  qed
qed

theorem IUnify_loop_ends:
  assumes "loop_inv m pt0 pt0_end pt1 to_visit unif" and "boxes_ok E (cells m)"
    and "models \<rho> (cells m)" and "pending (\<lambda>a b. \<rho> a = \<rho> b) pt0 pt0_end pt1 to_visit"
    and "pending (\<lambda>a b. height_below N (\<rho> a)) pt0 pt0_end pt1 to_visit"
    and "ends_inv lcl0 m pt0 pt0_end pt1 to_visit"
  shows "\<exists>r. IUnify_loop E m pt0 pt0_end pt1 to_visit unif = Some r \<and> (\<forall>a m'. r \<noteq> Woken a m')"
  using assms
proof (induction "2 * pending_nodes N \<rho> pt0 pt0_end to_visit + length to_visit"
    arbitrary: m pt0 pt0_end pt1 to_visit unif rule: less_induct)
  case less
  note run = IUnify_loop.simps [of E m pt0 pt0_end pt1 to_visit unif]
  have ok: "store_ok (cells m)" using less(2) by (simp add: loop_inv_def)
  note env = less(7) [unfolded ends_inv_def]
  show ?case
  proof (cases "pt0 < pt0_end")
    case True
    from ends_pair [OF less(7,2) True] obtain d0 d1 where
      d: "Derefa (cells m) (pt0 + 1) = Some d0" "Derefa (cells m) (pt1 + 1) = Some d1"
      and b: "below (cells m) (HR m) d0" "below (cells m) (HR m) d1" by blast
    note facts = pair_facts [OF less(2) True d] and tree = pair_models [OF less(2) True d less(4)]
    have pend: "pending (\<lambda>a b. \<rho> a = \<rho> b) (pt0 + 1) pt0_end (pt1 + 1) to_visit"
      "pending (\<lambda>a b. height_below N (\<rho> a)) (pt0 + 1) pt0_end (pt1 + 1) to_visit"
      "pending (\<lambda>a b. a < HR m \<and> b < HR m) (pt0 + 1) pt0_end (pt1 + 1) to_visit"
      and eq: "\<rho> (pt0 + 1) = \<rho> (pt1 + 1)" and fin: "height_below N (\<rho> (pt0 + 1))"
      and lt: "pt0 + 1 < HR m" "pt1 + 1 < HR m"
      using less(5,6) env by (simp_all add: pending_step [OF True])
    have nodes: "pending_nodes N \<rho> pt0 pt0_end to_visit =
        nodes_above N (\<rho> (pt0 + 1)) + pending_nodes N \<rho> (pt0 + 1) pt0_end to_visit"
      by (simp add: pending_nodes_def range_nodes_step [OF True])
    note pos = nodes_above_pos [OF fin]
    show ?thesis
    proof (cases "unify_values E m d0 d1")
      case Clash
      with unify_values_Clash [OF Clash facts(3,4) less(3), of \<rho>] tree eq show ?thesis by simp
    next
      case (Go bnd)
      have "value_cell d0" "value_cell d1" using facts(3,4) cell_ok_value by blast+
      from unify_values_plain [OF Go _ this] env
      consider "bnd = Bound m" | a d' where "bnd = Bound (bind_cell a d' m)" "bound_var d0 d1 a d'"
          "\<forall>q. d' = RefC q \<longrightarrow> q < a" by blast
      then show ?thesis
      proof cases
        case 1
        have "ends_inv lcl0 m (pt0 + 1) pt0_end (pt1 + 1) to_visit"
          using env pend(3) by (simp add: ends_inv_def)
        from less(1) [OF _ loop_inv_same [OF less(2) True] less(3,4) pend(1,2) this] nodes pos
        show ?thesis using run True d Go 1 by simp
      next
        case 2
        note step = bind_step [OF less(2) True d 2(2) less(3) refl]
        have a: "a < HR m" and d': "below (cells m) (HR m) d'"
          using b 2(2) by (auto simp: bound_var_def)
        have v: "value_cell (cells m a)" using step(4) by simp
        note upd = ends_update [OF _ _ _ ok v step(5) d' a 2(3) [rule_format], of lcl0]
        have "ends_inv lcl0 (bind_cell a d' m) (pt0 + 1) pt0_end (pt1 + 1) to_visit"
          using env pend(3) upd by (simp add: ends_inv_def)
        moreover have "models \<rho> (cells (bind_cell a d' m))"
          using ok step(4,5) less(4) _ 2(2) by (rule bind_models) (use tree eq in simp)
        ultimately show ?thesis
          using less(1) [OF _ step(1,2) _ pend(1,2)] nodes pos run True d Go 2(1) by simp
      qed
    next
      case (Descend d p n q)
      note step = visit_step [OF less(2) True d Descend less(3)]
        and mod = visit_models [OF less(2) True d Descend less(4) eq]
        and desc = unify_values_Descend [OF Descend facts(3,4)]
        and args = below_args [OF Descend facts(3,4) b]
      define m' where "m' = store_cell (pt0 + 1) d m"
      let ?tv = "(pt0 + 1, pt0_end, pt1 + 1) # to_visit"
      from mod(3) obtain l where l: "\<rho> (pt0 + 1) = Node l (args_of \<rho> p n)" by blast
      have "\<forall>i \<in> {1..n}. height_below N (\<rho> (p + i))"
        using height_below_subs [OF fin] unfolding l by (auto simp: args_of_def simp del: upt_Suc)
      then have fin': "pending (\<lambda>a b. height_below N (\<rho> a)) p (p + n) q ?tv"
        using pend(2) by (simp add: pending_push range_rel_def)
      have eq': "pending (\<lambda>a b. \<rho> a = \<rho> b) p (p + n) q ?tv"
        using pend(1) mod(2) by (simp add: pending_push)
      have "nodes_above N (\<rho> (pt0 + 1)) = Suc (range_nodes N \<rho> p (p + n))"
        using nodes_above_subs [OF fin] unfolding l by (simp add: range_nodes_args)
      then have dec: "2 * pending_nodes N \<rho> p (p + n) ?tv + length ?tv
          < 2 * pending_nodes N \<rho> pt0 pt0_end to_visit + length to_visit"
        unfolding nodes by (simp add: pending_nodes_def)
      have "no_attvars (cells m')" "heap_closed (HR m) (cells m')" "refs_ok (HR m) lcl0 (cells m')"
        unfolding m'_def cells_store_cell
        using env ok facts(1,4) desc(1,2) b lt by (auto intro!: ends_update)
      moreover have "pending (\<lambda>a b. a < HR m \<and> b < HR m) p (p + n) q ?tv"
        using pend(3) args by (simp add: pending_push range_rel_def)
      ultimately have "ends_inv lcl0 m' p (p + n) q ?tv" by (simp add: ends_inv_def m'_def)
      from less(1) [OF dec step(1,2) mod(1) eq' fin', folded m'_def, OF this]
      show ?thesis using run True d Descend by (simp add: m'_def)
    qed
  next
    case False
    show ?thesis
    proof (cases to_visit)
      case Nil
      with False run show ?thesis by simp
    next
      case (Cons v to_visit')
      obtain x e y where v: "v = (x, e, y)" by (metis prod_cases3)
      have inv: "loop_inv m x e y to_visit' unif"
        using False less(2) unfolding Cons v by (rule loop_inv_pop)
      have ends: "ends_inv lcl0 m x e y to_visit'"
        using less(7) unfolding Cons v ends_inv_def pending_pop [OF False] .
      have pend: "pending (\<lambda>a b. \<rho> a = \<rho> b) x e y to_visit'"
        "pending (\<lambda>a b. height_below N (\<rho> a)) x e y to_visit'"
        using less(5,6) unfolding Cons v pending_pop [OF False] .
      have "2 * pending_nodes N \<rho> x e to_visit' + length to_visit'
          < 2 * pending_nodes N \<rho> pt0 pt0_end to_visit + length to_visit"
        unfolding Cons v by (simp add: pending_nodes_def)
      note IH = less(1) [OF this inv less(3,4) pend ends]
      have "IUnify_loop E m pt0 pt0_end pt1 to_visit unif = IUnify_loop E m x e y to_visit' unif"
        unfolding run using False by (simp only: Cons v if_False list.case prod.case)
      with IH show ?thesis by (simp only:)
    qed
  qed
qed

section \<open>The local stack is not touched\<close>

definition in_heap :: "'f wam \<Rightarrow> nat \<Rightarrow> nat \<Rightarrow> nat \<Rightarrow> (nat \<times> nat \<times> nat) list \<Rightarrow> bool" where
  "in_heap m pt0 pt0_end pt1 to_visit \<longleftrightarrow> heap_closed (HR m) (cells m)
     \<and> pending (\<lambda>a b. a < HR m \<and> b < HR m) pt0 pt0_end pt1 to_visit"

fun same_above :: "nat \<Rightarrow> (nat \<Rightarrow> 'f hcell) \<Rightarrow> 'f unified \<Rightarrow> bool" where
  "same_above h S (TRUE m') = (heap_closed h (cells m') \<and> (\<forall>p \<ge> h. cells m' p = S p))"
| "same_above h S (FALSE m') = (heap_closed h (cells m') \<and> (\<forall>p \<ge> h. cells m' p = S p))"
| "same_above h S (Woken a m') = True"

lemma in_heap_pair:
  assumes "in_heap m pt0 pt0_end pt1 to_visit" and "loop_inv m pt0 pt0_end pt1 to_visit unif"
    and "pt0 < pt0_end" and "Derefa (cells m) (pt0 + 1) = Some d0"
    and "Derefa (cells m) (pt1 + 1) = Some d1"
  shows "below (cells m) (HR m) d0" and "below (cells m) (HR m) d1"
proof -
  have closed: "heap_closed (HR m) (cells m)" and lt: "pt0 + 1 < HR m" "pt1 + 1 < HR m"
    using assms(1,3) by (simp_all add: in_heap_def pending_step)
  have ok: "store_ok (cells m)" and v: "value_cell (cells m (pt0 + 1))" "value_cell (cells m (pt1 + 1))"
    using assms(2,3) by (simp_all add: loop_inv_def pending_step)
  show "below (cells m) (HR m) d0" by (rule Derefa_below [OF assms(4) closed ok v(1) lt(1)])
  show "below (cells m) (HR m) d1" by (rule Derefa_below [OF assms(5) closed ok v(2) lt(2)])
qed

lemma restore_closed:
  assumes "store_ok S" and "heap_closed h S"
    and "\<forall>(p, old) \<in> set unif. value_cell (S p) \<and> cell_ok S old \<and> below S h old \<and> p < h"
  shows "heap_closed h (restore_bindings unif S) \<and> (\<forall>p \<ge> h. restore_bindings unif S p = S p)"
  using assms
proof (induction unif S rule: restore_bindings.induct)
  case (2 p old unif S)
  define S' where "S' = S(p := old)"
  have p: "value_cell (S p)" "cell_ok S old" "below S h old" "p < h" using 2(4) by auto
  have S': "store_ok S'" and shape: "same_shape S S'" and closed: "heap_closed h S'"
    unfolding S'_def using 2(2,3) p by (auto intro: store_ok_update heap_closed_update)
  have "\<forall>(p, old) \<in> set unif. value_cell (S' p) \<and> cell_ok S' old \<and> below S' h old \<and> p < h"
    using 2(4) by (auto simp: cell_ok_cong [OF shape] same_shape_value [OF shape] below_cong [OF shape])
  then have "heap_closed h (restore_bindings unif S') \<and> (\<forall>p \<ge> h. restore_bindings unif S' p = S' p)"
    using 2(1) S' closed by (simp flip: S'_def)
  then show ?case using p(4) by (simp add: S'_def)
qed simp

definition records_below :: "nat \<Rightarrow> (nat \<Rightarrow> 'f hcell) \<Rightarrow> (nat \<times> 'f hcell) list \<Rightarrow> bool" where
  "records_below h S unif \<longleftrightarrow> (\<forall>x \<in> set unif. below S h (snd x) \<and> fst x < h)"

lemma records_below_cong:
  assumes "same_shape S S'" and "\<forall>x \<in> set unif. cell_ok S (snd x)" and "records_below h S unif"
  shows "records_below h S' unif"
  using assms(2,3) by (simp add: records_below_def below_cong [OF assms(1)])

lemma restored_same_above:
  assumes "loop_inv m pt0 pt0_end pt1 to_visit unif" and "in_heap m pt0 pt0_end pt1 to_visit"
    and "records_below (HR m) (cells m) unif"
  shows "heap_closed (HR m) (restore_bindings unif (cells m))"
    and "\<forall>p \<ge> HR m. restore_bindings unif (cells m) p = cells m p"
proof -
  have "\<forall>(p, old) \<in> set unif. value_cell (cells m p) \<and> cell_ok (cells m) old
      \<and> below (cells m) (HR m) old \<and> p < HR m"
    using assms(1,3) by (fastforce simp: loop_inv_def records_below_def unif_ok_def)
  with assms(1,2) restore_closed [of "cells m" "HR m" unif]
  show "heap_closed (HR m) (restore_bindings unif (cells m))"
    and "\<forall>p \<ge> HR m. restore_bindings unif (cells m) p = cells m p"
    by (simp_all add: loop_inv_def in_heap_def)
qed

fun refs_result :: "nat \<Rightarrow> nat \<Rightarrow> 'f unified \<Rightarrow> bool" where
  "refs_result h lcl0 (TRUE m') = refs_ok h lcl0 (cells m')"
| "refs_result h lcl0 (FALSE m') = refs_ok h lcl0 (cells m')"
| "refs_result h lcl0 (Woken a m') = True"

lemma IUnify_loop_global:
  assumes "IUnify_loop E m pt0 pt0_end pt1 to_visit unif = Some r"
    and "loop_inv m pt0 pt0_end pt1 to_visit unif" and "boxes_ok E (cells m)"
    and "in_heap m pt0 pt0_end pt1 to_visit" and "records_below (HR m) (cells m) unif"
  shows "same_above (HR m) (cells m) r \<and>
    (no_attvars (cells m) \<longrightarrow> refs_ok (HR m) lcl0 (restore_bindings unif (cells m)) \<longrightarrow>
      refs_result (HR m) lcl0 r)"
  using assms
proof (induction rule: IUnify_loop_induct)
  case (Fails m pt0 pt0_end pt1 to_visit unif d0 d1)
  from restored_same_above [OF Fails(5,7,8)] show ?case by (simp add: restored_def)
next
  case (Next m pt0 pt0_end pt1 to_visit unif d0 d1 m' r)
  note b = in_heap_pair [OF Next(9,7,1,2,3)]
  from unify_values_Bound [OF Next(4,8)] show ?case
  proof (elim disjE exE conjE)
    assume "m' = m"
    moreover have "in_heap m (pt0 + 1) pt0_end (pt1 + 1) to_visit"
      using Next(9) by (simp add: in_heap_def pending_step [OF Next(1)])
    ultimately show ?thesis using Next(6,8,10) loop_inv_same [OF Next(7,1)] by simp
  next
    fix a d
    assume m': "m' = bind_cell a d m" and bv: "bound_var d0 d1 a d"
      and younger: "no_attvars (cells m) \<longrightarrow> (\<forall>q. d = RefC q \<longrightarrow> q < a)"
    note step = bind_step [OF Next(7,1,2,3) bv Next(8) m']
    have a: "a < HR m" and d: "below (cells m) (HR m) d" using b bv by (auto simp: bound_var_def)
    have v: "value_cell (cells m a)" using step(4) by simp
    have "in_heap m' (pt0 + 1) pt0_end (pt1 + 1) to_visit"
      using heap_closed_update [OF _ step(8) v step(5) d] Next(9)
      by (simp add: in_heap_def pending_step [OF Next(1)] m')
    moreover have "records_below (HR m') (cells m') unif"
      using records_below_cong [OF step(7) loop_inv_records [OF Next(7)] Next(10)] m' by simp
    ultimately have IH: "same_above (HR m') (cells m') r \<and>
        (no_attvars (cells m') \<longrightarrow> refs_ok (HR m') lcl0 (restore_bindings unif (cells m')) \<longrightarrow>
          refs_result (HR m') lcl0 r)" using Next(6) step(1,2) by blast
    have "refs_result (HR m) lcl0 r"
      if na: "no_attvars (cells m)" and refs: "refs_ok (HR m) lcl0 (restore_bindings unif (cells m))"
    proof -
      have "refs_ok (HR m) lcl0 ((restore_bindings unif (cells m))(a := d))"
        using refs
      proof (rule refs_ok_update)
        fix q
        assume "d = RefC q"
        with younger na have "q < a" by blast
        with a show "rank (HR m) lcl0 q < rank (HR m) lcl0 a" by (simp add: rank_def)
      qed
      moreover have "no_attvars (cells m')" using step(7) na by (rule no_attvars_cong)
      ultimately show ?thesis using IH unfolding m' cells_bind_cell restore_update [OF step(3)] by simp
    qed
    with IH show ?thesis using a m' by (cases r) auto
  qed
next
  case (Visit m pt0 pt0_end pt1 to_visit unif d0 d1 d p n q r)
  note b = in_heap_pair [OF Visit(8,6,1,2,3)] and facts = pair_facts [OF Visit(6,1,2,3)]
    and step = visit_step [OF Visit(6,1,2,3,4,7)]
  note desc = unify_values_Descend [OF Visit(4) facts(3,4)] and args = below_args [OF Visit(4) facts(3,4) b]
  define m' where "m' = store_cell (pt0 + 1) d m"
  have ok: "store_ok (cells m)" using Visit(6) by (simp add: loop_inv_def)
  have closed: "heap_closed (HR m) (cells m)" and lt: "pt0 + 1 < HR m"
    using Visit(1,8) by (simp_all add: in_heap_def pending_step)
  have "heap_closed (HR m) (cells m')"
    unfolding m'_def cells_store_cell using closed ok facts(1,4) b(2) desc(1)
    by (intro heap_closed_update) simp_all
  then have "in_heap m' p (p + n) q ((pt0 + 1, pt0_end, pt1 + 1) # to_visit)"
    using Visit(8) args
    by (simp add: in_heap_def m'_def pending_step [OF Visit(1)] pending_push range_rel_def)
  moreover have "records_below (HR m) (cells m) ((pt0 + 1, cells m (pt0 + 1)) # unif)"
    using Visit(9) closed lt facts(1) by (simp add: records_below_def heap_closed_def)
  then have "records_below (HR m') (cells m') ((pt0 + 1, cells m (pt0 + 1)) # unif)"
    unfolding m'_def regs_store_cell
    by (rule records_below_cong [OF step(3), rotated])
      (use loop_inv_records [OF Visit(6)] ok facts(1) in \<open>simp add: store_ok_def\<close>)
  ultimately have IH: "same_above (HR m') (cells m') r \<and> (no_attvars (cells m') \<longrightarrow>
      refs_ok (HR m') lcl0 (restore_bindings ((pt0 + 1, cells m (pt0 + 1)) # unif) (cells m')) \<longrightarrow>
      refs_result (HR m') lcl0 r)"
    using Visit(5) [OF step(1,2), folded m'_def] by blast
  have "no_attvars (cells m')" if "no_attvars (cells m)"
    using no_attvars_cong [OF step(3) that] by (simp only: m'_def)
  with IH have "same_above (HR m) (cells m') r \<and> (no_attvars (cells m) \<longrightarrow>
      refs_ok (HR m) lcl0 (restore_bindings unif (cells m)) \<longrightarrow> refs_result (HR m) lcl0 r)"
    unfolding m'_def restore_visit regs_store_cell by blast
  then show ?case using lt by (cases r) (auto simp: m'_def)
next
  case (Pop m pt0 pt0_end pt1 start0 end0 start1 to_visit unif r)
  have "in_heap m start0 end0 start1 to_visit"
    using Pop(5) by (simp add: in_heap_def pending_pop [OF Pop(1)])
  then show ?case using Pop(2) loop_inv_pop [OF Pop(1,3)] Pop(4,6) by blast
next
  case (Done m pt0 pt0_end pt1 unif)
  from restored_same_above [OF Done(2,4,5)] show ?case by (simp add: restored_def)
qed simp

end
