(* ===== verification/YapUnifyTop.thy ===== *)
theory YapUnifyTop
  imports YapUnifyEnds
begin

text \<open>
  \<open>Yap_IUnify\<close> from the loop: what it does to the two terms it is given, by cases, and the trail
  of both stacks.
\<close>

section \<open>Arguments of two compound terms\<close>

lemma initial_inv:
  assumes "store_ok (cells m)" and "args_ok (cells m) p n" and "args_ok (cells m) q n"
  shows "loop_inv m p (p + n) q [] []"
  using assms range_values [of "cells m" p n q]
  by (simp add: loop_inv_def unif_ok_def pending_def)

lemma extends_models:
  assumes "extends S m m'" and "store_ok S" and "models \<rho> (cells m')"
  shows "models \<rho> S"
  unfolding models_def
proof (intro allI impI)
  fix p
  assume v: "value_cell (S p)"
  have shape: "same_shape S (cells m')" using assms(1) by (simp add: extends_def)
  show "\<rho> p = tree_of \<rho> S (S p)"
  proof (cases "S p = RefC p")
    case False
    with assms(1) have eq: "cells m' p = S p" by (simp add: extends_def)
    with v assms(3) have "\<rho> p = tree_of \<rho> (cells m') (S p)" by (simp add: models_def)
    moreover have "cell_ok S (S p)" using v assms(2) by (simp add: store_ok_def)
    ultimately show ?thesis by (simp add: tree_of_cong [OF shape])
  qed simp
qed

lemma complex_sound:
  assumes "IUnify_loop E m p (p + n) q [] [] = Some (TRUE m')"
    and "store_ok (cells m)" and "args_ok (cells m) p n" and "args_ok (cells m) q n"
    and "boxes_ok E (cells m)" and "models \<rho> (cells m')"
  shows "args_of \<rho> p n = args_of \<rho> q n" and "models \<rho> (cells m)"
proof -
  note inv = initial_inv [OF assms(2-4)]
  have "extends (cells m) m m'" using IUnify_loop_extends [OF assms(1) inv assms(5)] by simp
  then show mod: "models \<rho> (cells m)" using assms(2,6) by (rule extends_models)
  from IUnify_loop_sound [OF assms(1) inv assms(5) refl assms(6)]
  obtain X :: "('a lab tree \<times> 'a lab tree) set" where
    "\<forall>k. (\<forall>(s, t) \<in> X. eq_upto k s t) \<longrightarrow> models_upto k \<rho> (cells m) \<longrightarrow>
      pending (\<lambda>a b. eq_upto k (\<rho> a) (\<rho> b)) p (p + n) q [] \<and> (\<forall>(s, t) \<in> X. eq_upto (Suc k) s t)"
    by (rule exE)
  note X = this [THEN spec, THEN mp, THEN mp]
  have all: "\<forall>(s, t) \<in> X. eq_upto k s t" for k
  proof (induction k)
    case (Suc k)
    with X [OF this models_upto [OF mod]] show ?case by blast
  qed simp
  have "range_rel (\<lambda>a b. eq_upto k (\<rho> a) (\<rho> b)) p (p + n) q" for k
    using X [OF all models_upto [OF mod], of k] by (simp add: pending_def)
  then have "\<rho> (p + i) = \<rho> (q + i)" if "i \<in> {1..n}" for i
    using that by (intro eq_upto_all) (simp add: range_rel_def)
  then show "args_of \<rho> p n = args_of \<rho> q n" by (auto simp: args_of_def simp del: upt_Suc)
qed

lemma complex_complete:
  assumes "IUnify_loop E m p (p + n) q [] [] = Some r"
    and "store_ok (cells m)" and "args_ok (cells m) p n" and "args_ok (cells m) q n"
    and "boxes_ok E (cells m)" and "models \<rho> (cells m)" and "args_of \<rho> p n = args_of \<rho> q n"
  shows "models_result \<rho> r"
proof -
  have "list_all2 (=) (args_of \<rho> p n) (args_of \<rho> q n)" using assms(7) by (simp add: list.rel_eq)
  then have "pending (\<lambda>a b. \<rho> a = \<rho> b) p (p + n) q []"
    unfolding pending_def range_rel_args [symmetric] by simp
  then show ?thesis
    using IUnify_loop_complete [OF assms(1) initial_inv [OF assms(2-4)] assms(5,6)]
    by (simp add: records_hold_def)
qed

section \<open>Bindings of both stacks\<close>

text \<open>The cells that existed when the latest choice point was made.\<close>

definition older :: "'f wam \<Rightarrow> nat \<Rightarrow> bool" where
  "older m p \<longleftrightarrow> (if p < HR m then p < HB m else Breg m < p)"

definition bind_any :: "nat \<Rightarrow> 'f hcell \<Rightarrow> 'f wam \<Rightarrow> 'f wam" where
  "bind_any a d m =
     (if older m a then DO_TRAIL (RefC a) (store_cell a d m) else store_cell a d m)"

lemma bind_any_simps [simp]:
  "cells (bind_any a d m) = (cells m)(a := d)" "HR (bind_any a d m) = HR m"
  "HB (bind_any a d m) = HB m" "Breg (bind_any a d m) = Breg m" "ASP (bind_any a d m) = ASP m"
  "TR (bind_any a d m) = (if older m a then RefC a # TR m else TR m)"
  by (simp_all add: bind_any_def store_defs)

lemma YapBind_Bound: "YapBind a d m = Bound m' \<Longrightarrow> m' = bind_any a d m"
  by (simp add: YapBind_def bind_any_def older_def store_defs split: if_splits)

lemma Bind_Local_any: "HR m \<le> a \<Longrightarrow> Bind_Local a d m = bind_any a d m"
  by (cases m) (simp add: bind_any_def older_def store_defs)

lemma bind_cell_any: "a < HR m \<Longrightarrow> bind_cell a d m = bind_any a d m"
  by (simp add: bind_cell_def bind_any_def older_def store_defs)

text \<open>The state between two calls.\<close>

definition wam_ok :: "nat \<Rightarrow> 'f wam \<Rightarrow> bool" where
  "wam_ok lcl0 m \<longleftrightarrow> store_ok (cells m) \<and> heap_closed (HR m) (cells m) \<and> refs_ok (HR m) lcl0 (cells m)
     \<and> HR m < ASP m \<and> (\<forall>p. cells m p = RefC p \<longrightarrow> p < HR m \<or> ASP m \<le> p \<and> p \<le> lcl0)"

text \<open>A variable is bound to an older one, and a global one never to a local one.\<close>

definition bound_down :: "nat \<Rightarrow> 'f wam \<Rightarrow> nat \<Rightarrow> 'f hcell \<Rightarrow> bool" where
  "bound_down lcl0 m a d \<longleftrightarrow> (\<forall>b. d = RefC b \<longrightarrow> (a < HR m \<longrightarrow> b < HR m)
     \<and> (no_attvars (cells m) \<longrightarrow> rank (HR m) lcl0 b < rank (HR m) lcl0 a))"

lemma UnifyCells_Bound:
  assumes "UnifyCells p q m = Bound m'" and "wam_ok lcl0 m"
    and "cells m p = RefC p" and "cells m q = RefC q"
  shows "m' = m \<and> p = q
    \<or> m' = bind_any p (RefC q) m \<and> p \<noteq> q \<and> bound_down lcl0 m p (RefC q)
    \<or> m' = bind_any q (RefC p) m \<and> p \<noteq> q \<and> bound_down lcl0 m q (RefC p)"
proof -
  have pq: "p < HR m \<or> HR m < p \<and> p \<le> lcl0" "q < HR m \<or> HR m < q \<and> q \<le> lcl0"
    using assms(2-4) by (fastforce simp: wam_ok_def)+
  show ?thesis
  proof (cases "p < HR m \<and> \<not> HR m < q")
    case True
    with assms(1) have "UnifyGlobalCells p q m = Bound m'" by (simp add: UnifyCells_def)
    from UnifyGlobalCells_cases [OF this] True pq show ?thesis
      by (auto simp: bound_down_def rank_def bind_cell_any)
  next
    case False
    with assms(1) pq show ?thesis
      by (auto simp: UnifyCells_def bound_down_def rank_def Bind_Local_any split: if_splits)
  qed
qed

lemma YapBind_Woken: "YapBind a d m = WakesUp b m' \<Longrightarrow> d \<noteq> AttC \<Longrightarrow> \<not> no_attvars (cells m)"
  by (auto simp: YapBind_def store_defs no_attvars_def GlobalIsAttVar_def split: if_splits hcell.splits)

lemma UnifyCells_Woken: "UnifyCells p q m = WakesUp b m' \<Longrightarrow> \<not> no_attvars (cells m)"
  by (auto simp: UnifyCells_def UnifyGlobalCells_def Bind_Global_plain split: if_splits)

section \<open>The cases of a call\<close>

text \<open>The code's comparison of the two terms, if both are boxes, is equality.\<close>

definition top_ok :: "'f env \<Rightarrow> (nat \<Rightarrow> 'f hcell) \<Rightarrow> 'f hcell \<Rightarrow> 'f hcell \<Rightarrow> bool" where
  "top_ok E S t0 t1 \<longleftrightarrow> (\<forall>p q s t. Deref S t0 = Some (ApplC p) \<longrightarrow> Deref S t1 = Some (ApplC q) \<longrightarrow>
     S p = BoxC s \<longrightarrow> S q = BoxC t \<longrightarrow> p \<noteq> q \<longrightarrow> box_type s = box_type t \<longrightarrow> unify_box E p q s t = (s = t))"

text \<open>A term handed to a builtin: well formed, and global if it is compound.\<close>

definition term_ok :: "'f wam \<Rightarrow> 'f hcell \<Rightarrow> bool" where
  "term_ok m t \<longleftrightarrow> cell_ok (cells m) t \<and> (\<forall>d. Deref (cells m) t = Some d \<longrightarrow>
     (\<forall>a. d \<noteq> RefC a) \<longrightarrow> below (cells m) (HR m) d)"

lemma Deref_facts:
  assumes "Deref S t = Some d" and "store_ok S" and "cell_ok S t"
  shows "cell_ok S d" and "\<And>a. d = RefC a \<Longrightarrow> S a = RefC a"
    and "\<And>\<rho>. models \<rho> S \<Longrightarrow> tree_of \<rho> S t = tree_of \<rho> S d"
proof -
  have "cell_ok S d \<and> (\<forall>a. d = RefC a \<longrightarrow> S a = RefC a)
    \<and> (\<forall>\<rho>. models \<rho> S \<longrightarrow> tree_of \<rho> S t = tree_of \<rho> S d)"
  proof (cases "\<exists>p. t = RefC p")
    case True
    then obtain p where p: "t = RefC p" by blast
    with assms(1) have d: "Derefa S p = Some d" by (simp add: Deref_def)
    have v: "value_cell (S p)" using assms(3) p by simp
    have "tree_of \<rho> S t = tree_of \<rho> S d" if "models \<rho> S" for \<rho>
      using Derefa_models [OF d assms(2) v that] p by simp
    with Derefa_ok(1,2) [OF d assms(2) v] show ?thesis by blast
  next
    case False
    with assms(1) have "d = t" by (auto simp: Deref_def split: hcell.splits)
    with False assms(3) show ?thesis by simp
  qed
  then show "cell_ok S d" and "\<And>a. d = RefC a \<Longrightarrow> S a = RefC a"
    and "\<And>\<rho>. models \<rho> S \<Longrightarrow> tree_of \<rho> S t = tree_of \<rho> S d" by auto
qed

text \<open>Two terms that are visited together have the same functor and \<open>n\<close> arguments.\<close>

definition same_functor ::
    "'f wam \<Rightarrow> 'f hcell \<Rightarrow> 'f hcell \<Rightarrow> nat \<Rightarrow> nat \<Rightarrow> nat \<Rightarrow> bool" where
  "same_functor m d0 d1 p n q \<longleftrightarrow> (\<forall>a. d0 \<noteq> RefC a \<and> d1 \<noteq> RefC a) \<and> args_ok (cells m) p n \<and> args_ok (cells m) q n
     \<and> (below (cells m) (HR m) d0 \<longrightarrow> below (cells m) (HR m) d1 \<longrightarrow> p + n < HR m \<and> q + n < HR m)
     \<and> (\<exists>l. \<forall>\<rho>. tree_of \<rho> (cells m) d0 = Node l (args_of \<rho> p n)
          \<and> tree_of \<rho> (cells m) d1 = Node l (args_of \<rho> q n))"

lemma IUnify_functors_cases:
  assumes "IUnify_functors E m p q = Some r" and "cell_ok (cells m) (ApplC p)"
    and "cell_ok (cells m) (ApplC q)" and "p \<noteq> q"
    and "\<And>s t. cells m p = BoxC s \<Longrightarrow> cells m q = BoxC t \<Longrightarrow> box_type s = box_type t \<Longrightarrow>
      unify_box E p q s t = (s = t)"
  shows "r = TRUE m \<and> (\<forall>\<rho>. tree_of \<rho> (cells m) (ApplC p) = tree_of \<rho> (cells m) (ApplC q))
    \<or> r = FALSE m \<and> (\<forall>\<rho>. tree_of \<rho> (cells m) (ApplC p) \<noteq> tree_of \<rho> (cells m) (ApplC q))
    \<or> (\<exists>n. same_functor m (ApplC p) (ApplC q) p n q \<and> IUnify_loop E m p (p + n) q [] [] = Some r)"
proof (cases "cells m p")
  case (FunC f n)
  show ?thesis
  proof (cases "cells m q = FunC f n")
    case True
    with FunC assms(1-3) show ?thesis
      by (auto simp: IUnify_functors_def IUnify_complex_def same_functor_def)
  next
    case False
    then have "functor_cell (FunC f n) \<noteq> functor_cell (cells m q)" using functor_cell_eq by metis
    with FunC assms(1) have "r = FALSE m" by (simp add: IUnify_functors_def truth_def)
    with False FunC assms(3) show ?thesis by (auto split: hcell.splits)
  qed
next
  case (BoxC s)
  with assms show ?thesis
    by (cases "cells m q") (auto simp: IUnify_functors_def truth_def split: if_splits)
qed (use assms(2) in simp_all)

lemma IUnify_values_cases:
  assumes "IUnify_values E m d0 d1 = Some r" and "wam_ok lcl0 m"
    and "cell_ok (cells m) d0" and "cell_ok (cells m) d1"
    and "\<And>a. d0 = RefC a \<Longrightarrow> cells m a = RefC a" and "\<And>a. d1 = RefC a \<Longrightarrow> cells m a = RefC a"
    and "\<And>p q s t. d0 = ApplC p \<Longrightarrow> d1 = ApplC q \<Longrightarrow> p \<noteq> q \<Longrightarrow> cells m p = BoxC s \<Longrightarrow>
      cells m q = BoxC t \<Longrightarrow> box_type s = box_type t \<Longrightarrow> unify_box E p q s t = (s = t)"
  shows "r = TRUE m \<and> (\<forall>\<rho>. tree_of \<rho> (cells m) d0 = tree_of \<rho> (cells m) d1)
    \<or> r = FALSE m \<and> (\<forall>\<rho>. tree_of \<rho> (cells m) d0 \<noteq> tree_of \<rho> (cells m) d1)
    \<or> (\<exists>a d. r = TRUE (bind_any a d m) \<and> bound_var d0 d1 a d
        \<and> bound_down lcl0 m a d)
    \<or> (\<exists>p n q. same_functor m d0 d1 p n q \<and> IUnify_loop E m p (p + n) q [] [] = Some r)
    \<or> (\<exists>a m'. r = Woken a m' \<and> \<not> no_attvars (cells m))"
  (is "?same \<or> ?clash \<or> ?bind \<or> ?visit \<or> ?wake")
proof (cases "(\<exists>p. d0 = RefC p) \<or> (\<exists>q. d1 = RefC q)")
  case True
  then consider p q where "d0 = RefC p" "d1 = RefC q"
    | a d b where "bound_var d0 d1 a d" "\<And>c. d \<noteq> RefC c" "r = of_bound b" "YapBind a d m = b"
        "value_cell d"
    using assms(1) cell_ok_value [OF assms(3)] cell_ok_value [OF assms(4)]
    by (cases d0; cases d1) (auto simp: IUnify_values_def bound_var_def)
  then show ?thesis
  proof cases
    case 1
    with assms(1) have r: "r = of_bound (UnifyCells p q m)" by (simp add: IUnify_values_def)
    show ?thesis
    proof (cases "UnifyCells p q m")
      case (Bound m')
      from UnifyCells_Bound [OF this assms(2)] 1 assms(5,6) r Bound show ?thesis
        by (fastforce simp: bound_var_def)
    next
      case (WakesUp a m')
      with UnifyCells_Woken [OF WakesUp] r show ?thesis by simp
    qed
  next
    case 2
    show ?thesis
    proof (cases b)
      case (Bound m')
      with 2 YapBind_Bound [of a d m m'] have "r = TRUE (bind_any a d m)" by simp
      moreover have "bound_down lcl0 m a d" using 2(2) by (simp add: bound_down_def)
      ultimately show ?thesis using 2(1) by blast
    next
      case (WakesUp c m')
      moreover have "d \<noteq> AttC" using 2(5) by auto
      ultimately show ?thesis using 2 YapBind_Woken [of a d m c m'] by auto
    qed
  qed
next
  case False
  show ?thesis
  proof (cases "\<exists>p q. d0 = ApplC p \<and> d1 = ApplC q \<and> p \<noteq> q")
    case True
    then obtain p q where d: "d0 = ApplC p" "d1 = ApplC q" "p \<noteq> q" by blast
    with assms(1) have "IUnify_functors E m p q = Some r" by (simp add: IUnify_values_def)
    from IUnify_functors_cases [OF this _ _ d(3)] assms(3,4,7) d show ?thesis by blast
  next
    case neq: False
    show ?thesis
    proof (cases "\<exists>p q. d0 = PairC p \<and> d1 = PairC q \<and> p \<noteq> q")
      case True
      then obtain p q where d: "d0 = PairC p" "d1 = PairC q" "p \<noteq> q" by blast
      with assms(3,4) have p: "p + 1 = (p - 1) + 2" "0 < q" by simp_all
      have "same_functor m d0 d1 (p - 1) 2 (q - 1)"
        using d assms(3,4) by (auto simp: same_functor_def)
      moreover have "IUnify_loop E m (p - 1) ((p - 1) + 2) (q - 1) [] [] = Some r"
        using assms(1) d unfolding p(1) [symmetric] by (simp add: IUnify_values_def IUnify_complex_def)
      ultimately show ?thesis by blast
    next
      case neq2: False
      show ?thesis
      proof (cases "d0 = d1")
        case True
        with False assms(1) have "r = TRUE m"
          by (auto simp: IUnify_values_def truth_def split: hcell.splits)
        with True show ?thesis by simp
      next
        case ne: False
        with False neq neq2 assms(1) have "r = FALSE m"
          by (auto simp: IUnify_values_def truth_def split: hcell.splits)
        moreover have "tree_of \<rho> (cells m) d0 \<noteq> tree_of \<rho> (cells m) d1" for \<rho>
          using False neq neq2 ne assms(3,4) by (cases d0; cases d1) (auto split: hcell.splits)
        ultimately show ?thesis by blast
      qed
    qed
  qed
qed

text \<open>What holds of the dereferenced terms, and how a call ends.\<close>

definition call_facts :: "'f wam \<Rightarrow> 'f hcell \<Rightarrow> 'f hcell \<Rightarrow> 'f hcell \<Rightarrow> 'f hcell \<Rightarrow> bool" where
  "call_facts m t0 t1 d0 d1 \<longleftrightarrow> Deref (cells m) t0 = Some d0 \<and> Deref (cells m) t1 = Some d1
     \<and> (\<forall>\<rho>. models \<rho> (cells m) \<longrightarrow> tree_of \<rho> (cells m) t0 = tree_of \<rho> (cells m) d0
        \<and> tree_of \<rho> (cells m) t1 = tree_of \<rho> (cells m) d1)
     \<and> (\<forall>a d. bound_var d0 d1 a d \<longrightarrow> cells m a = RefC a \<and> cell_ok (cells m) d \<and> d \<noteq> RefC a
        \<and> ((\<forall>b. d \<noteq> RefC b) \<longrightarrow> below (cells m) (HR m) d))
     \<and> (\<forall>p n q. same_functor m d0 d1 p n q \<longrightarrow> p + n < HR m \<and> q + n < HR m)"

definition call_result :: "'f env \<Rightarrow> nat \<Rightarrow> 'f wam \<Rightarrow> 'f hcell \<Rightarrow> 'f hcell \<Rightarrow> 'f unified \<Rightarrow> bool" where
  "call_result E lcl0 m d0 d1 r \<longleftrightarrow>
     r = TRUE m \<and> (\<forall>\<rho>. tree_of \<rho> (cells m) d0 = tree_of \<rho> (cells m) d1)
     \<or> r = FALSE m \<and> (\<forall>\<rho>. tree_of \<rho> (cells m) d0 \<noteq> tree_of \<rho> (cells m) d1)
     \<or> (\<exists>a d. r = TRUE (bind_any a d m) \<and> bound_var d0 d1 a d \<and> bound_down lcl0 m a d)
     \<or> (\<exists>p n q. same_functor m d0 d1 p n q \<and> IUnify_loop E m p (p + n) q [] [] = Some r)
     \<or> (\<exists>a m'. r = Woken a m' \<and> \<not> no_attvars (cells m))"

lemma call_facts_tree:
  assumes "call_facts m t0 t1 d0 d1" and "models \<rho> (cells m)"
  shows "tree_of \<rho> (cells m) t0 = tree_of \<rho> (cells m) d0" and "tree_of \<rho> (cells m) t1 = tree_of \<rho> (cells m) d1"
  using assms by (simp_all add: call_facts_def)

lemma call_facts_bind:
  assumes "call_facts m t0 t1 d0 d1" and "bound_var d0 d1 a d"
  shows "cells m a = RefC a" and "cell_ok (cells m) d" and "d \<noteq> RefC a"
    and "(\<forall>b. d \<noteq> RefC b) \<longrightarrow> below (cells m) (HR m) d"
  using assms by (simp_all add: call_facts_def)

lemma Yap_IUnify_cases:
  assumes "Yap_IUnify E m t0 t1 = Some r" and "wam_ok lcl0 m"
    and "term_ok m t0" and "term_ok m t1" and "top_ok E (cells m) t0 t1"
  shows "\<exists>d0 d1. call_facts m t0 t1 d0 d1 \<and> call_result E lcl0 m d0 d1 r"
proof -
  from assms(1) obtain d0 d1 where d: "Deref (cells m) t0 = Some d0" "Deref (cells m) t1 = Some d1"
    and r: "IUnify_values E m d0 d1 = Some r"
    by (auto simp: Yap_IUnify_def split: bind_splits)
  have ok: "store_ok (cells m)" using assms(2) by (simp add: wam_ok_def)
  have t: "cell_ok (cells m) t0" "cell_ok (cells m) t1" using assms(3,4) by (simp_all add: term_ok_def)
  note D0 = Deref_facts [OF d(1) ok t(1)] and D1 = Deref_facts [OF d(2) ok t(2)]
  have b: "(\<forall>a. d0 \<noteq> RefC a) \<Longrightarrow> below (cells m) (HR m) d0" "(\<forall>a. d1 \<noteq> RefC a) \<Longrightarrow> below (cells m) (HR m) d1"
    using assms(3,4) d by (auto simp: term_ok_def)
  have top: "unify_box E p q s t = (s = t)" if "d0 = ApplC p" "d1 = ApplC q" "p \<noteq> q" "cells m p = BoxC s"
    "cells m q = BoxC t" "box_type s = box_type t" for p q s t
    using assms(5) d that by (auto simp: top_ok_def)
  have "\<forall>a d. bound_var d0 d1 a d \<longrightarrow> cells m a = RefC a \<and> cell_ok (cells m) d \<and> d \<noteq> RefC a
      \<and> ((\<forall>b. d \<noteq> RefC b) \<longrightarrow> below (cells m) (HR m) d)"
    using D0(1,2) D1(1,2) b by (auto simp: bound_var_def)
  moreover have "p + n < HR m \<and> q + n < HR m" if "same_functor m d0 d1 p n q" for p n q
  proof -
    have "\<forall>a. d0 \<noteq> RefC a" "\<forall>a. d1 \<noteq> RefC a" using that by (simp_all add: same_functor_def)
    with that b show ?thesis by (simp add: same_functor_def)
  qed
  ultimately have "call_facts m t0 t1 d0 d1" using d D0(3) D1(3) unfolding call_facts_def by blast
  moreover have "call_result E lcl0 m d0 d1 r"
    unfolding call_result_def by (rule IUnify_values_cases [OF r assms(2) D0(1) D1(1) D0(2) D1(2) top])
  ultimately show ?thesis by blast
qed

section \<open>Solutions\<close>

lemma bind_any_models:
  assumes "store_ok (cells m)" and "cells m a = RefC a" and "cell_ok (cells m) d" and "d \<noteq> RefC a"
  shows "models \<rho> (cells (bind_any a d m)) \<longleftrightarrow> models \<rho> (cells m) \<and> \<rho> a = tree_of \<rho> (cells m) d"
proof -
  have v: "value_cell (cells m a)" using assms(2) by simp
  note upd = store_ok_update [OF assms(1) v assms(3)]
  define S where "S = (cells m)(a := d)"
  have shape: "same_shape (cells m) S" using upd(2) by (simp only: S_def)
  have "extends (cells m) m (m\<lparr>cells := S, TR := [RefC a] @ TR m\<rparr>)"
    using assms(2) upd by (auto simp: extends_def trailed_def S_def)
  then have "models \<rho> (cells m)" if "models \<rho> S"
    using extends_models [of "cells m" m] assms(1) that by fastforce
  moreover have "\<rho> a = tree_of \<rho> (cells m) d" if "models \<rho> S"
  proof -
    have "value_cell (S a)" using assms(3) by (simp add: S_def cell_ok_value)
    with that have "\<rho> a = tree_of \<rho> S (S a)" by (simp add: models_def)
    then show ?thesis using tree_of_cong [OF shape assms(3)] by (simp add: S_def)
  qed
  moreover have "models \<rho> S" if "models \<rho> (cells m)" "\<rho> a = tree_of \<rho> (cells m) d"
    unfolding S_def using assms(1) v assms(3) that by (rule models_update)
  ultimately show ?thesis unfolding bind_any_simps S_def by blast
qed

lemma Yap_IUnify_TRUE:
  assumes "Yap_IUnify E m t0 t1 = Some (TRUE m')" and "wam_ok lcl0 m"
    and "term_ok m t0" and "term_ok m t1" and "boxes_ok E (cells m)" and "top_ok E (cells m) t0 t1"
  shows "models \<rho> (cells m') \<longleftrightarrow>
    models \<rho> (cells m) \<and> tree_of \<rho> (cells m) t0 = tree_of \<rho> (cells m) t1"
proof -
  from Yap_IUnify_cases [OF assms(1-4,6)] obtain d0 d1
    where facts: "call_facts m t0 t1 d0 d1" and res: "call_result E lcl0 m d0 d1 (TRUE m')" by blast
  note tree = call_facts_tree [OF facts]
  have ok: "store_ok (cells m)" using assms(2) by (simp add: wam_ok_def)
  consider "m' = m" "\<forall>\<rho>. tree_of \<rho> (cells m) d0 = tree_of \<rho> (cells m) d1"
    | a d where "m' = bind_any a d m" "bound_var d0 d1 a d"
    | p n q where "same_functor m d0 d1 p n q" "IUnify_loop E m p (p + n) q [] [] = Some (TRUE m')"
    using res by (auto simp: call_result_def)
  then show ?thesis
  proof cases
    case 1
    with tree show ?thesis by auto
  next
    case 2
    have "\<rho> a = tree_of \<rho> (cells m) d \<longleftrightarrow> tree_of \<rho> (cells m) d0 = tree_of \<rho> (cells m) d1"
      using 2(2) by (auto simp: bound_var_def)
    with bind_any_models [OF ok call_facts_bind(1-3) [OF facts 2(2)], of \<rho>] tree [of \<rho>] 2(1)
    show ?thesis by auto
  next
    case 3
    from 3(1) obtain l where args: "args_ok (cells m) p n" "args_ok (cells m) q n"
      and l: "\<And>\<rho>. tree_of \<rho> (cells m) d0 = Node l (args_of \<rho> p n)"
        "\<And>\<rho>. tree_of \<rho> (cells m) d1 = Node l (args_of \<rho> q n)"
      by (auto simp: same_functor_def)
    have "models \<rho> (cells m) \<and> args_of \<rho> p n = args_of \<rho> q n" if "models \<rho> (cells m')"
      using complex_sound [OF 3(2) ok args assms(5) that] by simp
    moreover have "models \<rho> (cells m')" if "models \<rho> (cells m)" "args_of \<rho> p n = args_of \<rho> q n"
      using complex_complete [OF 3(2) ok args assms(5) that] by simp
    ultimately show ?thesis using tree l by auto
  qed
qed

lemma Yap_IUnify_FALSE:
  assumes "Yap_IUnify E m t0 t1 = Some (FALSE m')" and "wam_ok lcl0 m"
    and "term_ok m t0" and "term_ok m t1" and "boxes_ok E (cells m)" and "top_ok E (cells m) t0 t1"
    and "models \<rho> (cells m)"
  shows "tree_of \<rho> (cells m) t0 \<noteq> tree_of \<rho> (cells m) t1"
proof -
  from Yap_IUnify_cases [OF assms(1-4,6)] obtain d0 d1
    where facts: "call_facts m t0 t1 d0 d1" and res: "call_result E lcl0 m d0 d1 (FALSE m')" by blast
  note tree = call_facts_tree [OF facts]
  have ok: "store_ok (cells m)" using assms(2) by (simp add: wam_ok_def)
  have "tree_of \<rho> (cells m) d0 \<noteq> tree_of \<rho> (cells m) d1"
  proof (cases "\<exists>p n q. same_functor m d0 d1 p n q \<and> IUnify_loop E m p (p + n) q [] [] = Some (FALSE m')")
    case True
    then obtain p n q l where args: "args_ok (cells m) p n" "args_ok (cells m) q n"
      and l: "\<And>\<rho>. tree_of \<rho> (cells m) d0 = Node l (args_of \<rho> p n)"
        "\<And>\<rho>. tree_of \<rho> (cells m) d1 = Node l (args_of \<rho> q n)"
      and run: "IUnify_loop E m p (p + n) q [] [] = Some (FALSE m')"
      by (auto simp: same_functor_def)
    from complex_complete [OF run ok args assms(5,7)] l show ?thesis by auto
  next
    case False
    with res show ?thesis by (auto simp: call_result_def)
  qed
  with tree [OF assms(7)] show ?thesis by simp
qed

section \<open>State\<close>

fun result_wam :: "'f unified \<Rightarrow> 'f wam option" where
  "result_wam (TRUE m) = Some m"
| "result_wam (FALSE m) = Some m"
| "result_wam (Woken a m) = None"

definition only_binds :: "nat \<Rightarrow> 'f wam \<Rightarrow> 'f wam \<Rightarrow> bool" where
  "only_binds lcl0 m m' \<longleftrightarrow> store_ok (cells m') \<and> heap_closed (HR m) (cells m')
     \<and> same_shape (cells m) (cells m') \<and> (\<forall>p. cells m p \<noteq> RefC p \<longrightarrow> cells m' p = cells m p)
     \<and> HR m' = HR m \<and> HB m' = HB m \<and> Breg m' = Breg m \<and> ASP m' = ASP m
     \<and> trailed (older m) (cells m) (TR m) m'
     \<and> (no_attvars (cells m) \<longrightarrow> refs_ok (HR m) lcl0 (cells m'))"

lemma only_binds_refl: "wam_ok lcl0 m \<Longrightarrow> only_binds lcl0 m m"
  by (simp add: only_binds_def wam_ok_def trailed_def)

lemma only_binds_bind:
  assumes "wam_ok lcl0 m" and "cells m a = RefC a" and "cell_ok (cells m) d" and "d \<noteq> RefC a"
    and "a < HR m \<longrightarrow> below (cells m) (HR m) d" and "bound_down lcl0 m a d"
  shows "only_binds lcl0 m (bind_any a d m)"
proof -
  have ok: "store_ok (cells m)" and closed: "heap_closed (HR m) (cells m)"
    and refs: "refs_ok (HR m) lcl0 (cells m)" using assms(1) by (simp_all add: wam_ok_def)
  have v: "value_cell (cells m a)" using assms(2) by simp
  note upd = store_ok_update [OF ok v assms(3)]
  have "heap_closed (HR m) ((cells m)(a := d))"
  proof (cases "a < HR m")
    case True
    with assms(5) show ?thesis using closed ok v assms(3) by (intro heap_closed_update) simp_all
  next
    case False
    define S where "S = (cells m)(a := d)"
    have shape: "same_shape (cells m) S" using upd(2) by (simp only: S_def)
    have "below S (HR m) (S p)" if "p < HR m" "value_cell (S p)" for p
    proof -
      have "S p = cells m p" using that False by (auto simp: S_def)
      with that closed ok have "below (cells m) (HR m) (S p)" "cell_ok (cells m) (S p)"
        by (simp_all add: heap_closed_def store_ok_def)
      then show ?thesis by (simp add: below_cong [OF shape])
    qed
    then show ?thesis by (simp add: heap_closed_def flip: S_def)
  qed
  moreover have "refs_ok (HR m) lcl0 ((cells m)(a := d))" if "no_attvars (cells m)"
    using refs by (rule refs_ok_update) (use assms(6) that in \<open>simp add: bound_down_def\<close>)
  moreover have "trailed (older m) (cells m) (TR m) (bind_any a d m)"
    unfolding trailed_def using assms(2)
    by (intro exI [of _ "if older m a then [RefC a] else []"]) auto
  ultimately show ?thesis using upd assms(2) by (auto simp: only_binds_def)
qed

lemma Yap_IUnify_state:
  assumes "Yap_IUnify E m t0 t1 = Some r" and "wam_ok lcl0 m"
    and "term_ok m t0" and "term_ok m t1" and "boxes_ok E (cells m)" and "result_wam r = Some m'"
  shows "only_binds lcl0 m m'"
proof (cases "top_ok E (cells m) t0 t1")
  case False
  then have "r = TRUE m \<or> r = FALSE m"
    using assms(1) by (auto simp: top_ok_def Yap_IUnify_def IUnify_values_def IUnify_functors_def truth_def split: if_splits)
  with assms(6) only_binds_refl [OF assms(2)] show ?thesis by auto
next
  case True
  from Yap_IUnify_cases [OF assms(1-4) True] obtain d0 d1
    where facts: "call_facts m t0 t1 d0 d1" and res: "call_result E lcl0 m d0 d1 r" by blast
  have ok: "store_ok (cells m)" and closed: "heap_closed (HR m) (cells m)"
    and refs: "refs_ok (HR m) lcl0 (cells m)" using assms(2) by (simp_all add: wam_ok_def)
  consider "m' = m" | a d where "m' = bind_any a d m" "bound_var d0 d1 a d" "bound_down lcl0 m a d"
    | p n q where "same_functor m d0 d1 p n q" "IUnify_loop E m p (p + n) q [] [] = Some r"
    using res assms(6) by (auto simp: call_result_def)
  then show ?thesis
  proof cases
    case 1
    with only_binds_refl [OF assms(2)] show ?thesis by simp
  next
    case 2
    have "below (cells m) (HR m) d" if "a < HR m"
      using 2(3) call_facts_bind(4) [OF facts 2(2)] that by (cases "\<exists>b. d = RefC b") (auto simp: bound_down_def)
    with only_binds_bind [OF assms(2) call_facts_bind(1-3) [OF facts 2(2)]] 2(1,3)
    show ?thesis by blast
  next
    case 3
    have args: "args_ok (cells m) p n" "args_ok (cells m) q n" using 3(1) by (simp_all add: same_functor_def)
    have lt: "p + n < HR m" "q + n < HR m" using facts 3(1) by (auto simp: call_facts_def)
    note inv = initial_inv [OF ok args]
    have ext: "extends (cells m) m m'"
      using IUnify_loop_extends [OF 3(2) inv assms(5)] assms(6) by (cases r) auto
    have "in_heap m p (p + n) q []"
      using closed lt by (auto simp: in_heap_def pending_def range_rel_def)
    then have "same_above (HR m) (cells m) r \<and> (no_attvars (cells m) \<longrightarrow> refs_result (HR m) lcl0 r)"
      using IUnify_loop_global [OF 3(2) inv assms(5), of lcl0] refs by (simp add: records_below_def)
    then have glob: "heap_closed (HR m) (cells m')" "\<forall>p \<ge> HR m. cells m' p = cells m p"
      "no_attvars (cells m) \<longrightarrow> refs_ok (HR m) lcl0 (cells m')"
      using assms(6) by (cases r; auto)+
    have "older m p \<Longrightarrow> p < HR m \<Longrightarrow> p < HB m" for p by (simp add: older_def)
    then have "trailed (older m) (cells m) (TR m) m'"
      using ext glob(2) unfolding extends_def trailed_def by (meson not_less)
    with ext glob show ?thesis by (auto simp: extends_def only_binds_def)
  qed
qed

lemma reset_vars:
  assumes "\<And>t. t \<in> set tr \<Longrightarrow> \<exists>a. t = RefC a"
  shows "reset_trail tr S p = (if RefC p \<in> set tr then RefC p else S p)"
  using assms
proof (induction tr arbitrary: S)
  case (Cons t tr)
  then obtain a where "t = RefC a" by auto
  with Cons show ?case by (auto simp: RESET_VARIABLE_def)
qed simp

lemma undo_trailed:
  assumes "trailed old S (TR m) m'" and "old p"
  shows "cells (undo_to (TR m) m') p = S p" and "TR (undo_to (TR m) m') = TR m"
proof -
  obtain new where new: "TR m' = new @ TR m" "\<And>t. t \<in> set new \<Longrightarrow> \<exists>a. t = RefC a \<and> S a = RefC a"
    "\<And>p. old p \<Longrightarrow> cells m' p \<noteq> S p \<Longrightarrow> RefC p \<in> set new"
    using assms(1) by (auto simp: trailed_def)
  have "\<exists>a. t = RefC a" if "t \<in> set new" for t using new(2) [OF that] by blast
  from reset_vars [OF this, of new "cells m'" p]
  show "cells (undo_to (TR m) m') p = S p"
    using new(1) new(2) [of "RefC p"] new(3) [OF assms(2)] by (auto simp: undo_to_def split: if_splits)
  show "TR (undo_to (TR m) m') = TR m" using new(1) by (simp add: undo_to_def)
qed

section \<open>Termination\<close>

lemma Deref_returns:
  assumes "refs_ok h lcl0 S"
  shows "\<exists>d. Deref S t = Some d"
  using Derefa_returns [OF assms] by (cases t) (simp_all add: Deref_def)

lemma IUnify_values_returns:
  assumes "\<And>p n q. same_functor m d0 d1 p n q \<Longrightarrow> \<exists>r. IUnify_loop E m p (p + n) q [] [] = Some r"
    and "cell_ok (cells m) d0" and "cell_ok (cells m) d1"
  shows "\<exists>r. IUnify_values E m d0 d1 = Some r"
proof (cases "(\<exists>p q. d0 = ApplC p \<and> d1 = ApplC q \<and> p \<noteq> q) \<or> (\<exists>p q. d0 = PairC p \<and> d1 = PairC q \<and> p \<noteq> q)")
  case True
  then show ?thesis
  proof (elim disjE exE conjE)
    fix p q
    assume d: "d0 = ApplC p" "d1 = ApplC q" "p \<noteq> q"
    show ?thesis
    proof (cases "\<exists>f n. cells m p = FunC f n \<and> cells m q = FunC f n")
      case True
      then obtain f n where f: "cells m p = FunC f n" "cells m q = FunC f n" by blast
      have "same_functor m d0 d1 p n q" using d f assms(2,3) by (auto simp: same_functor_def)
      from assms(1) [OF this] show ?thesis
        using d f by (simp add: IUnify_values_def IUnify_functors_def IUnify_complex_def)
    next
      case False
      have "IUnify_functors E m p q \<noteq> None"
      proof (cases "cells m p")
        case (FunC f n)
        with False have "functor_cell (cells m p) \<noteq> functor_cell (cells m q)"
          using functor_cell_eq [of f n "cells m q"] by auto
        then show ?thesis by (simp add: IUnify_functors_def truth_def)
      qed (simp_all add: IUnify_functors_def truth_def split: hcell.split)
      with d show ?thesis by (auto simp: IUnify_values_def)
    qed
  next
    fix p q
    assume d: "d0 = PairC p" "d1 = PairC q" "p \<noteq> q"
    with assms(2,3) have p: "p + 1 = (p - 1) + 2" by simp
    have "same_functor m d0 d1 (p - 1) 2 (q - 1)" using d assms(2,3) by (auto simp: same_functor_def)
    from assms(1) [OF this] show ?thesis
      using d unfolding p [symmetric] by (simp add: IUnify_values_def IUnify_complex_def)
  qed
next
  case False
  then show ?thesis by (cases d0; cases d1) (auto simp: IUnify_values_def truth_def)
qed

lemma Yap_IUnify_ends:
  assumes "wam_ok lcl0 m" and "term_ok m t0" and "term_ok m t1" and "boxes_ok E (cells m)"
    and "top_ok E (cells m) t0 t1" and "no_attvars (cells m)" and "models \<rho> (cells m)"
    and "tree_of \<rho> (cells m) t0 = tree_of \<rho> (cells m) t1" and "finite_tree (tree_of \<rho> (cells m) t0)"
  shows "\<exists>m'. Yap_IUnify E m t0 t1 = Some (TRUE m')"
proof -
  have ok: "store_ok (cells m)" and closed: "heap_closed (HR m) (cells m)"
    and refs: "refs_ok (HR m) lcl0 (cells m)" using assms(1) by (simp_all add: wam_ok_def)
  have t: "cell_ok (cells m) t0" "cell_ok (cells m) t1" using assms(2,3) by (simp_all add: term_ok_def)
  from Deref_returns [OF refs] obtain d0 d1
    where d: "Deref (cells m) t0 = Some d0" "Deref (cells m) t1 = Some d1" by metis
  note D0 = Deref_facts [OF d(1) ok t(1)] and D1 = Deref_facts [OF d(2) ok t(2)]
  obtain N where N: "height_below N (tree_of \<rho> (cells m) d0)"
    using assms(7,9) D0(3) by (auto simp: finite_tree_def)
  have eq: "tree_of \<rho> (cells m) d0 = tree_of \<rho> (cells m) d1" using assms(7,8) D0(3) D1(3) by simp
  have run: "\<exists>r. IUnify_loop E m p (p + n) q [] [] = Some r \<and> (\<forall>a m'. r \<noteq> Woken a m')"
    if sf: "same_functor m d0 d1 p n q" for p n q
  proof -
    from sf obtain l where args: "args_ok (cells m) p n" "args_ok (cells m) q n"
      and l: "tree_of \<rho> (cells m) d0 = Node l (args_of \<rho> p n)"
        "tree_of \<rho> (cells m) d1 = Node l (args_of \<rho> q n)"
      by (auto simp: same_functor_def)
    have "below (cells m) (HR m) d0" "below (cells m) (HR m) d1"
      using sf assms(2,3) d by (auto simp: term_ok_def same_functor_def)
    then have lt: "p + n < HR m" "q + n < HR m" using sf by (auto simp: same_functor_def)
    have "list_all2 (=) (args_of \<rho> p n) (args_of \<rho> q n)" using eq l by (simp add: list.rel_eq)
    then have "pending (\<lambda>a b. \<rho> a = \<rho> b) p (p + n) q []"
      unfolding pending_def range_rel_args [symmetric] by simp
    moreover have "pending (\<lambda>a b. height_below N (\<rho> a)) p (p + n) q []"
      using height_below_subs [OF N] unfolding l(1)
      by (auto simp: pending_def range_rel_def args_of_def simp del: upt_Suc)
    moreover have "ends_inv lcl0 m p (p + n) q []"
      using assms(6) closed refs lt by (auto simp: ends_inv_def pending_def range_rel_def)
    ultimately show ?thesis
      by (rule IUnify_loop_ends [OF initial_inv [OF ok args] assms(4,7)])
  qed
  have "\<exists>r. IUnify_values E m d0 d1 = Some r"
    by (rule IUnify_values_returns [OF _ D0(1) D1(1)]) (use run in blast)
  then obtain r where r: "Yap_IUnify E m t0 t1 = Some r" using d by (auto simp: Yap_IUnify_def)
  show ?thesis
  proof (cases r)
    case (FALSE m')
    with r Yap_IUnify_FALSE [OF _ assms(1-5,7)] assms(8) show ?thesis by blast
  next
    case (Woken a m')
    from Yap_IUnify_cases [OF r assms(1-3,5)] obtain e0 e1
      where "call_facts m t0 t1 e0 e1" and res: "call_result E lcl0 m e0 e1 r" by blast
    then have [simp]: "e0 = d0" "e1 = d1" using d by (simp_all add: call_facts_def)
    from res Woken assms(6) obtain p n q where "same_functor m d0 d1 p n q"
      and "IUnify_loop E m p (p + n) q [] [] = Some (Woken a m')"
      by (auto simp: call_result_def)
    with run [of p n q] show ?thesis by auto
  qed (use r in blast)
qed

end
