(* ===== verification/YapUnifyProps.thy ===== *)
theory YapUnifyProps
  imports YapUnifyTop YapCompareCorrect
begin

text \<open>
  The properties of unification. A box must hold a number or a string or be a database reference;
  GMP compares numbers as documented. \<open>top_boxes\<close> excludes two kinds of pairs of terms, outside compound
  terms: bignums or rationals, all of which the code takes to be equal, and doubles that C compares
  otherwise than by their bits (a NaN, zeros of different signs).
\<close>

fun box_at :: "nat \<Rightarrow> 'f trm \<Rightarrow> bool" where
  "box_at p (FltT d) = True"
| "box_at p (LongT i) = True"
| "box_at p (BigT z) = True"
| "box_at p (RatT r) = True"
| "box_at p (StrT s) = True"
| "box_at p (DBRefT r) = (unat r = p)"
| "box_at p _ = False"

definition boxes_at :: "(nat \<Rightarrow> 'f hcell) \<Rightarrow> bool" where
  "boxes_at S \<longleftrightarrow> (\<forall>p t. S p = BoxC t \<longrightarrow> box_at p t)"

lemma big_big_eq_0:
  assumes "gmp E"
  shows "Yap_gmp_tcmp_big_big E (BigT x) (BigT y) = 0 \<longleftrightarrow> x = y"
    and "Yap_gmp_tcmp_big_big E (RatT p) (RatT q) = 0 \<longleftrightarrow> p = q"
    and "Yap_gmp_tcmp_big_big E (BigT x) (RatT q) \<noteq> 0"
    and "Yap_gmp_tcmp_big_big E (RatT q) (BigT x) \<noteq> 0"
proof -
  note big = gmp.tcmp_big_big [OF assms]
  show "Yap_gmp_tcmp_big_big E (BigT x) (BigT y) = 0 \<longleftrightarrow> x = y"
    using big(1) [of x y] by (metis eq_iff_diff_eq_0 sgn_0_0)
  show "Yap_gmp_tcmp_big_big E (RatT p) (RatT q) = 0 \<longleftrightarrow> p = q"
    using big(2) [of p q] by (auto simp: sgn_0_0 split: if_splits)
  show "Yap_gmp_tcmp_big_big E (BigT x) (RatT q) \<noteq> 0" "Yap_gmp_tcmp_big_big E (RatT q) (BigT x) \<noteq> 0"
    using big(3,4) by simp_all
qed

lemma boxes_at_ok:
  assumes "gmp E" and "boxes_at S"
  shows "boxes_ok E S"
  unfolding boxes_ok_def
proof (intro allI impI)
  fix p q s t
  assume b: "S p = BoxC s" "S q = BoxC t" "p \<noteq> q" "box_type s = box_type t"
  with assms(2) have "box_at p s" "box_at q t" by (simp_all add: boxes_at_def)
  then show "unify_extension E p q s t = (s = t)"
    using b(3,4) big_big_eq_0 [OF assms(1)]
    by (cases s; cases t) (auto simp: unify_extension_def strcmp_sg sg_iff)
qed

text \<open>
  Two boxes of one type that are handed to \<open>Yap_IUnify\<close> themselves: no bignums or rationals, and
  doubles only if \<open>==\<close> of C says whether they are the same double.
\<close>

fun comparable :: "'f env \<Rightarrow> 'f trm \<Rightarrow> 'f trm \<Rightarrow> bool" where
  "comparable E (FltT x) (FltT y) \<longleftrightarrow> f_eq E x y = (x = y)"
| "comparable E s t \<longleftrightarrow> \<not> IsBigIntTerm s"

definition top_boxes :: "'f env \<Rightarrow> (nat \<Rightarrow> 'f hcell) \<Rightarrow> 'f hcell \<Rightarrow> 'f hcell \<Rightarrow> bool" where
  "top_boxes E S t0 t1 \<longleftrightarrow> (\<forall>p q s t. Deref S t0 = Some (ApplC p) \<longrightarrow> Deref S t1 = Some (ApplC q) \<longrightarrow>
     S p = BoxC s \<longrightarrow> S q = BoxC t \<longrightarrow> p \<noteq> q \<longrightarrow> box_type s = box_type t \<longrightarrow> comparable E s t)"

lemma top_boxes_ok:
  assumes "boxes_at S" and "top_boxes E S t0 t1"
  shows "top_ok E S t0 t1"
  unfolding top_ok_def
proof (intro allI impI)
  fix p q s t
  assume d: "Deref S t0 = Some (ApplC p)" "Deref S t1 = Some (ApplC q)"
    and b: "S p = BoxC s" "S q = BoxC t" "p \<noteq> q" "box_type s = box_type t"
  with assms have "box_at p s" "box_at q t" "comparable E s t"
    by (simp_all add: boxes_at_def top_boxes_def)
  then show "unify_box E p q s t = (s = t)"
    using b(3,4) by (cases s; cases t) (auto simp: unify_box_def strcmp_sg sg_iff)
qed

section \<open>Example\<close>

text \<open>The terms \<open>f(X, b)\<close> at 1, \<open>f(a, Y)\<close> at 4 and \<open>f(c, c)\<close> at 7.\<close>

definition ex_store :: "nat \<Rightarrow> rat hcell" where
  "ex_store = (\<lambda>_. AtmC ''a'')(1 := FunC ''f'' 2, 2 := RefC 2, 3 := AtmC ''b'', 4 := FunC ''f'' 2,
     6 := RefC 6, 7 := FunC ''f'' 2, 8 := AtmC ''c'', 9 := AtmC ''c'')"

definition ex_wam :: "rat wam" where
  "ex_wam = \<lparr>cells = ex_store, TR = [], HR = 10, HB = 10, Breg = 30, ASP = 20\<rparr>"

lemma ex_ok:
  "wam_ok 30 ex_wam" "term_ok ex_wam (ApplC 1)" "term_ok ex_wam (ApplC 4)" "term_ok ex_wam (ApplC 7)"
  "boxes_at (cells ex_wam)" "no_attvars (cells ex_wam)"
  "top_boxes ref_env (cells ex_wam) (ApplC 1) (ApplC 4)" "top_boxes ref_env (cells ex_wam) (ApplC 1) (ApplC 7)"
proof -
  have two: "{Suc 0..2} = {1, 2 :: nat}" by auto
  show "wam_ok 30 ex_wam"
    by (simp add: wam_ok_def ex_wam_def ex_store_def store_ok_def heap_closed_def refs_ok_def)
  show "term_ok ex_wam (ApplC 1)" "term_ok ex_wam (ApplC 4)" "term_ok ex_wam (ApplC 7)"
    by (simp_all add: term_ok_def ex_wam_def ex_store_def args_ok_def Deref_def two)
  show "boxes_at (cells ex_wam)" by (simp add: boxes_at_def ex_wam_def ex_store_def)
  show "no_attvars (cells ex_wam)" by (simp add: no_attvars_def ex_wam_def ex_store_def)
  show "top_boxes ref_env (cells ex_wam) (ApplC 1) (ApplC 4)" "top_boxes ref_env (cells ex_wam) (ApplC 1) (ApplC 7)"
    by (simp_all add: top_boxes_def Deref_def ex_wam_def ex_store_def)
qed

definition ex_model :: "rat model" where
  "ex_model p = Node (LAtm (if p = 3 \<or> p = 6 then ''b'' else if p = 8 \<or> p = 9 then ''c'' else ''a'')) []"

lemma ex_models: "models ex_model (cells ex_wam)"
  by (simp add: models_def ex_model_def ex_wam_def ex_store_def)

lemma ex_trees:
  "tree_of ex_model (cells ex_wam) (ApplC 1) = tree_of ex_model (cells ex_wam) (ApplC 4)"
  "finite_tree (tree_of ex_model (cells ex_wam) (ApplC 1))"
proof -
  have upt: "[1..<Suc 2] = [1, 2]" by (simp add: upt_rec)
  show "tree_of ex_model (cells ex_wam) (ApplC 1) = tree_of ex_model (cells ex_wam) (ApplC 4)"
    by (simp add: ex_wam_def ex_store_def args_of_def upt ex_model_def del: upt_Suc)
  have "height_below 2 (tree_of ex_model (cells ex_wam) (ApplC 1))"
    by (simp add: ex_wam_def ex_store_def args_of_def upt ex_model_def numeral_2_eq_2 del: upt_Suc)
  then show "finite_tree (tree_of ex_model (cells ex_wam) (ApplC 1))" by (auto simp: finite_tree_def)
qed

lemma ex_succeeds: "case Yap_IUnify ref_env ex_wam (ApplC 1) (ApplC 4) of
    Some (TRUE m) \<Rightarrow> cells m 2 = AtmC ''a'' \<and> cells m 6 = AtmC ''b'' | _ \<Rightarrow> False"
  by code_simp

lemma ex_fails: "case Yap_IUnify ref_env ex_wam (ApplC 1) (ApplC 7) of
    Some (FALSE m) \<Rightarrow> cells m 2 = AtmC ''c'' | _ \<Rightarrow> False"
  by code_simp

lemma ex_runs:
  obtains m where "Yap_IUnify ref_env ex_wam (ApplC 1) (ApplC 4) = Some (TRUE m)" and "cells m 2 = AtmC ''a''"
  using ex_succeeds by (auto split: option.splits unified.splits)

lemma ex_runs_fail:
  obtains m where "Yap_IUnify ref_env ex_wam (ApplC 1) (ApplC 7) = Some (FALSE m)" and "cells m 2 = AtmC ''c''"
  using ex_fails by (auto split: option.splits unified.splits)

section \<open>Properties\<close>

text \<open>
  C3: unification computes a most general unifier. When \<open>Yap_IUnify\<close> succeeds on two terms of a well formed
  memory that are not themselves bignums, rationals, NaNs or zeros of different signs, the solutions of
  the new store are exactly the solutions of the old one that give the two terms the same tree. The
  store is read as a system of equations between possibly infinite trees, so this covers cyclic terms,
  where the loop relies on the argument cells it has overwritten.
\<close>

theorem unify_solves:
  assumes "gmp E" and "wam_ok lcl0 m" and "term_ok m t0" and "term_ok m t1"
    and "boxes_at (cells m)" and "top_boxes E (cells m) t0 t1"
    and "Yap_IUnify E m t0 t1 = Some (TRUE m')"
  shows "models \<rho> (cells m') \<longleftrightarrow>
    models \<rho> (cells m) \<and> tree_of \<rho> (cells m) t0 = tree_of \<rho> (cells m) t1"
  using Yap_IUnify_TRUE [OF assms(7,2-4) boxes_at_ok [OF assms(1,5)] top_boxes_ok [OF assms(5,6)]] .

theorem unify_solves_witness:
  "\<exists>m'. Yap_IUnify ref_env ex_wam (ApplC 1) (ApplC 4) = Some (TRUE m') \<and> (\<forall>\<rho>. models \<rho> (cells m') \<longleftrightarrow>
    models \<rho> (cells ex_wam) \<and> tree_of \<rho> (cells ex_wam) (ApplC 1) = tree_of \<rho> (cells ex_wam) (ApplC 4))"
proof -
  obtain m where "Yap_IUnify ref_env ex_wam (ApplC 1) (ApplC 4) = Some (TRUE m)" by (rule ex_runs)
  with unify_solves [OF ref.gmp_axioms ex_ok(1,2,3,5,7) this] show ?thesis by blast
qed

text \<open>
  C25: unification fails only when it must. When \<open>Yap_IUnify\<close> fails on two terms of a well formed memory
  that are not themselves bignums, rationals, NaNs or zeros of different signs, no solution of the
  store gives the two terms the same tree, finite or infinite.
\<close>

theorem unify_failure:
  assumes "gmp E" and "wam_ok lcl0 m" and "term_ok m t0" and "term_ok m t1"
    and "boxes_at (cells m)" and "top_boxes E (cells m) t0 t1"
    and "Yap_IUnify E m t0 t1 = Some (FALSE m')" and "models \<rho> (cells m)"
  shows "tree_of \<rho> (cells m) t0 \<noteq> tree_of \<rho> (cells m) t1"
  using Yap_IUnify_FALSE [OF assms(7,2-4) boxes_at_ok [OF assms(1,5)] top_boxes_ok [OF assms(5,6)] assms(8)] .

theorem unify_failure_witness:
  "tree_of ex_model (cells ex_wam) (ApplC 1) \<noteq> tree_of ex_model (cells ex_wam) (ApplC 7)"
proof -
  obtain m where "Yap_IUnify ref_env ex_wam (ApplC 1) (ApplC 7) = Some (FALSE m)" by (rule ex_runs_fail)
  from unify_failure [OF ref.gmp_axioms ex_ok(1,2,4,5,8) this ex_models] show ?thesis .
qed

text \<open>
  C8: unification ends. In a well formed memory without attributed variables, if some solution of the
  store gives two terms the same finite tree (they have a common instance), and they are not themselves
  bignums, rationals, NaNs or zeros of different signs, \<open>Yap_IUnify\<close> returns, with success.
\<close>

theorem unify_ends:
  assumes "gmp E" and "wam_ok lcl0 m" and "term_ok m t0" and "term_ok m t1"
    and "boxes_at (cells m)" and "top_boxes E (cells m) t0 t1" and "no_attvars (cells m)"
    and "models \<rho> (cells m)" and "tree_of \<rho> (cells m) t0 = tree_of \<rho> (cells m) t1"
    and "finite_tree (tree_of \<rho> (cells m) t0)"
  shows "\<exists>m'. Yap_IUnify E m t0 t1 = Some (TRUE m')"
  using Yap_IUnify_ends [OF assms(2-4) boxes_at_ok [OF assms(1,5)] top_boxes_ok [OF assms(5,6)] assms(7-10)] .

theorem unify_ends_witness: "\<exists>m'. Yap_IUnify ref_env ex_wam (ApplC 1) (ApplC 4) = Some (TRUE m')"
  by (rule unify_ends [OF ref.gmp_axioms ex_ok(1,2,3,5,7,6) ex_models ex_trees])

text \<open>
  C26: backtracking undoes unification. Whether a call succeeds or fails, undoing the trail entries made
  since the call gives every cell older than the latest choice point the contents it had, on both stacks,
  and the trail its former top. A binding of an older cell that is not trailed, or one trailed that was not
  a variable, would break this.
\<close>

theorem unify_undone:
  assumes "gmp E" and "wam_ok lcl0 m" and "term_ok m t0" and "term_ok m t1"
    and "boxes_at (cells m)" and "Yap_IUnify E m t0 t1 = Some r" and "result_wam r = Some m'"
    and "older m p"
  shows "cells (undo_to (TR m) m') p = cells m p \<and> TR (undo_to (TR m) m') = TR m"
proof -
  have "trailed (older m) (cells m) (TR m) m'"
    using Yap_IUnify_state [OF assms(6,2-4) boxes_at_ok [OF assms(1,5)] assms(7)]
    by (simp add: only_binds_def)
  from undo_trailed [OF this assms(8)]
  show ?thesis by simp
qed

theorem unify_undone_witness:
  "\<exists>m. Yap_IUnify ref_env ex_wam (ApplC 1) (ApplC 7) = Some (FALSE m) \<and> cells m 2 = AtmC ''c''
    \<and> cells (undo_to [] m) 2 = RefC 2"
proof -
  obtain m where m: "Yap_IUnify ref_env ex_wam (ApplC 1) (ApplC 7) = Some (FALSE m)" "cells m 2 = AtmC ''c''"
    by (rule ex_runs_fail)
  have "result_wam (FALSE m) = Some m" and "older ex_wam 2" by (simp_all add: older_def ex_wam_def)
  from unify_undone [OF ref.gmp_axioms ex_ok(1,2,4,5) m(1) this]
  have "cells (undo_to [] m) 2 = RefC 2" by (simp add: ex_wam_def ex_store_def)
  with m show ?thesis by blast
qed

text \<open>
  C27: unification keeps the memory well formed and changes nothing but unbound variables. The cells that
  the loop overwrites are all restored, references go from younger to older cells, no cell of the global
  stack refers to the local stack, and the registers other than the trail's top are unchanged.
\<close>

theorem unify_keeps_state:
  assumes "gmp E" and "wam_ok lcl0 m" and "term_ok m t0" and "term_ok m t1"
    and "boxes_at (cells m)" and "no_attvars (cells m)"
    and "Yap_IUnify E m t0 t1 = Some r" and "result_wam r = Some m'"
  shows "wam_ok lcl0 m' \<and> (\<forall>p. cells m p \<noteq> RefC p \<longrightarrow> cells m' p = cells m p)
    \<and> HR m' = HR m \<and> HB m' = HB m \<and> Breg m' = Breg m \<and> ASP m' = ASP m"
proof -
  have b: "only_binds lcl0 m m'"
    using Yap_IUnify_state [OF assms(7,2-4) boxes_at_ok [OF assms(1,5)] assms(8)] .
  have "p < HR m \<or> ASP m \<le> p \<and> p \<le> lcl0" if "cells m' p = RefC p" for p
  proof -
    have "cells m p = RefC p" using b that by (metis only_binds_def)
    with assms(2) show ?thesis by (simp add: wam_ok_def)
  qed
  with b assms(2,6) show ?thesis by (simp add: only_binds_def wam_ok_def)
qed

theorem unify_keeps_state_witness:
  "\<exists>m. Yap_IUnify ref_env ex_wam (ApplC 1) (ApplC 4) = Some (TRUE m) \<and> wam_ok 30 m \<and> cells m 3 = AtmC ''b''"
proof -
  obtain m where m: "Yap_IUnify ref_env ex_wam (ApplC 1) (ApplC 4) = Some (TRUE m)" by (rule ex_runs)
  have "result_wam (TRUE m) = Some m" by simp
  from unify_keeps_state [OF ref.gmp_axioms ex_ok(1,2,3,5,6) m this]
  have "wam_ok 30 m" and "cells m 3 = cells ex_wam 3" by (auto simp: ex_wam_def ex_store_def)
  with m show ?thesis by (auto simp: ex_wam_def ex_store_def)
qed

text \<open>
  C28: two bignums unify, whatever their values: outside compound terms the code compares the first box
  with itself. As arguments of compound terms the same two boxes do not unify.
\<close>

theorem bignums_unify:
  assumes "gmp E" and "cells m p = BoxC (BigT a)" and "cells m q = BoxC (BigT b)" and "p \<noteq> q" and "a \<noteq> b"
  shows "Yap_IUnify E m (ApplC p) (ApplC q) = Some (TRUE m)
    \<and> unify_values E m (ApplC p) (ApplC q) = Clash"
proof

  have "Yap_gmp_tcmp_big_big E (BigT a) (BigT a) = 0" using big_big_eq_0(1) [OF assms(1)] by simp
  with assms(2-4) show "Yap_IUnify E m (ApplC p) (ApplC q) = Some (TRUE m)"
    by (simp add: Yap_IUnify_def Deref_def IUnify_values_def IUnify_functors_def unify_box_def truth_def)
  have "Yap_gmp_tcmp_big_big E (BigT a) (BigT b) \<noteq> 0" using big_big_eq_0(1) [OF assms(1)] assms(5) by simp
  with assms(2-4) show "unify_values E m (ApplC p) (ApplC q) = Clash"
    by (simp add: unify_values_def unify_functors_def unify_extension_def)
qed

theorem bignums_unify_witness:
  "let m = ex_wam\<lparr>cells := ex_store(2 := BoxC (BigT (2 ^ 70)), 6 := BoxC (BigT (3 ^ 70)))\<rparr> in
    Yap_IUnify ref_env m (ApplC 2) (ApplC 6) = Some (TRUE m)"
  unfolding Let_def
  by (rule bignums_unify [OF ref.gmp_axioms, where a = "2 ^ 70" and b = "3 ^ 70", THEN conjunct1])
    simp_all

end
