(* ===== verification/YapOps.thy ===== *)
theory YapOps
  imports YapTerm
begin

unbundle bit_operations_syntax

text \<open>
  Operators: the entries that op/3 makes (\<open>OpDec\<close>, C/init.c), how they are found
  (\<open>Yap_GetOpProp\<close>, C/adtdefs.c) and read (\<open>IsPrefixOp\<close>, \<open>IsInfixOp\<close>, \<open>IsPosfixOp\<close>, C/parser.c), and
  the operators YAP starts with. An atom is its name; its property list is modelled by the operator
  entries on it, the latest first. The module \<open>None\<close> is \<open>PROLOG_MODULE\<close>, the null term.
\<close>

section \<open>Entries\<close>

type_synonym module_term = "string option"

record op_entry =
  OpModule :: module_term
  Prefix :: "16 word"
  Infix :: "16 word"
  Posfix :: "16 word"

type_synonym op_table = "string \<Rightarrow> op_entry list"

datatype op_type = INFIX_OP | POSFIX_OP | PREFIX_OP

definition MaskPrio :: "16 word" where
  "MaskPrio = 0x0fff"

definition DcrlpFlag :: "16 word" where
  "DcrlpFlag = 0x1000"

definition DcrrpFlag :: "16 word" where
  "DcrrpFlag = 0x2000"

definition optypes :: "string list" where
  "optypes = ['''', ''xfx'', ''xfy'', ''yfx'', ''xf'', ''yf'', ''fx'', ''fy'']"

definition Yap_IsOpType :: "string \<Rightarrow> bool" where
  "Yap_IsOpType type \<longleftrightarrow> (\<exists>i \<in> set [1..<8]. type = optypes ! i)"

section \<open>Looking an operator up\<close>

text \<open>An entry of the current module is taken at once, one of the system only if no such follows.\<close>

fun prio_field :: "op_type \<Rightarrow> op_entry \<Rightarrow> 16 word" where
  "prio_field INFIX_OP info = Infix info"
| "prio_field POSFIX_OP info = Posfix info"
| "prio_field PREFIX_OP info = Prefix info"

fun GetOpProp_loop ::
    "op_type \<Rightarrow> module_term \<Rightarrow> op_entry option \<Rightarrow> op_entry list \<Rightarrow> op_entry option" where
  "GetOpProp_loop type cur_mod oinfo [] = oinfo"
| "GetOpProp_loop type cur_mod oinfo (info # pp) =
    (if OpModule info \<noteq> cur_mod \<and> OpModule info \<noteq> None then GetOpProp_loop type cur_mod oinfo pp
     else if prio_field type info = 0 then GetOpProp_loop type cur_mod oinfo pp
     else if OpModule info = None then GetOpProp_loop type cur_mod (Some info) pp
     else Some info)"

definition Yap_GetOpProp :: "op_table \<Rightarrow> string \<Rightarrow> op_type \<Rightarrow> module_term \<Rightarrow> op_entry option" where
  "Yap_GetOpProp ops a type cur_mod = GetOpProp_loop type cur_mod None (ops a)"

definition Yap_HasOp :: "op_table \<Rightarrow> string \<Rightarrow> bool" where
  "Yap_HasOp ops a \<longleftrightarrow> ops a \<noteq> []"

definition prio_of :: "16 word \<Rightarrow> nat" where
  "prio_of p = unat (p AND MaskPrio)"

definition right_of :: "16 word \<Rightarrow> nat" where
  "right_of p = (if p AND DcrrpFlag \<noteq> 0 then prio_of p - 1 else prio_of p)"

definition left_of :: "16 word \<Rightarrow> nat" where
  "left_of p = (if p AND DcrlpFlag \<noteq> 0 then prio_of p - 1 else prio_of p)"

text \<open>The results are the values of the pointer arguments: the priority, then left and right.\<close>

definition IsPrefixOp :: "op_table \<Rightarrow> module_term \<Rightarrow> string \<Rightarrow> (nat \<times> nat) option" where
  "IsPrefixOp ops cur_mod a = (case Yap_GetOpProp ops a PREFIX_OP cur_mod of
      None \<Rightarrow> None
    | Some opp \<Rightarrow>
        if OpModule opp \<noteq> None \<and> OpModule opp \<noteq> cur_mod then None
        else if Prefix opp \<noteq> 0 then Some (prio_of (Prefix opp), right_of (Prefix opp))
        else None)"

definition IsInfixOp :: "op_table \<Rightarrow> module_term \<Rightarrow> string \<Rightarrow> (nat \<times> nat \<times> nat) option" where
  "IsInfixOp ops cur_mod a = (case Yap_GetOpProp ops a INFIX_OP cur_mod of
      None \<Rightarrow> None
    | Some opp \<Rightarrow>
        if OpModule opp \<noteq> None \<and> OpModule opp \<noteq> cur_mod then None
        else if Infix opp \<noteq> 0
        then Some (prio_of (Infix opp), left_of (Infix opp), right_of (Infix opp))
        else None)"

definition IsPosfixOp :: "op_table \<Rightarrow> module_term \<Rightarrow> string \<Rightarrow> (nat \<times> nat) option" where
  "IsPosfixOp ops cur_mod a = (case Yap_GetOpProp ops a POSFIX_OP cur_mod of
      None \<Rightarrow> None
    | Some opp \<Rightarrow>
        if OpModule opp \<noteq> None \<and> OpModule opp \<noteq> cur_mod then None
        else if Posfix opp \<noteq> 0 then Some (prio_of (Posfix opp), left_of (Posfix opp))
        else None)"

section \<open>Declaring an operator\<close>

datatype op_error = DOMAIN_ERROR_OPERATOR_SPECIFIER | PERMISSION_ERROR_CREATE_OPERATOR

text \<open>The position of a type among \<open>optypes\<close>; 8 is what the loop ends with when there is none.\<close>

definition type_index :: "string \<Rightarrow> nat" where
  "type_index type = (case filter (\<lambda>i. type = optypes ! i) [1..<8] of [] \<Rightarrow> 8 | i # _ \<Rightarrow> i)"

text \<open>The priority with the flags of its type; an \<open>int\<close>, stored in 16 bits.\<close>

definition flagged :: "nat \<Rightarrow> 32 word \<Rightarrow> 16 word" where
  "flagged i p =
    (if p = 0 then 0
     else ucast p OR (if i \<in> {1, 2, 4} then DcrlpFlag else 0)
       OR (if i \<in> {1, 3, 6} then DcrrpFlag else 0))"

definition has_entry :: "module_term \<Rightarrow> op_entry list \<Rightarrow> bool" where
  "has_entry m pp \<longleftrightarrow> m \<in> set (map OpModule pp)"

definition find_entry :: "module_term \<Rightarrow> op_entry list \<Rightarrow> op_entry" where
  "find_entry m pp = hd (filter (\<lambda>info. OpModule info = m) pp)"

text \<open>The entry of a module is unique on an atom, so the one found is the one changed.\<close>

definition store_entry :: "op_entry \<Rightarrow> op_entry list \<Rightarrow> op_entry list" where
  "store_entry info pp = map (\<lambda>i. if OpModule i = OpModule info then info else i) pp"

definition set_prio :: "bool \<Rightarrow> nat \<Rightarrow> 16 word \<Rightarrow> op_entry \<Rightarrow> op_error + op_entry" where
  "set_prio iso_mode i p info =
    (if i \<le> 3 then
       if iso_mode \<and> Posfix info \<noteq> 0 then Inl PERMISSION_ERROR_CREATE_OPERATOR
       else Inr (info\<lparr>Infix := p\<rparr>)
     else if i \<le> 5 then
       if iso_mode \<and> Infix info \<noteq> 0 then Inl PERMISSION_ERROR_CREATE_OPERATOR
       else Inr (info\<lparr>Posfix := p\<rparr>)
     else Inr (info\<lparr>Prefix := p\<rparr>))"

text \<open>
  The module is \<open>PROLOG_MODULE\<close> for the modules \<open>prolog\<close> and \<open>user\<close>. A new entry stays on the atom
  when the declaration is then refused, and the atom counts as an operator from then on.
\<close>

definition OpDec :: "bool \<Rightarrow> 32 word \<Rightarrow> string \<Rightarrow> string \<Rightarrow> module_term \<Rightarrow> op_table
    \<Rightarrow> (op_error + unit) \<times> op_table" where
  "OpDec iso_mode p type a m ops =
    (let m = (if m = Some ''prolog'' \<or> m = Some ''user'' then None else m);
         i = type_index type
     in if 7 < i then (Inl DOMAIN_ERROR_OPERATOR_SPECIFIER, ops)
        else
          let pp = (if has_entry m (ops a) then ops a
              else \<lparr>OpModule = m, Prefix = 0, Infix = 0, Posfix = 0\<rparr> # ops a)
          in (case set_prio iso_mode i (flagged i p) (find_entry m pp) of
                Inl e \<Rightarrow> (Inl e, ops(a := pp))
              | Inr info \<Rightarrow> (Inr (), ops(a := store_entry info pp))))"

text \<open>An operator's entry copied for another module.\<close>

definition Yap_dup_op :: "string \<Rightarrow> op_entry \<Rightarrow> string \<Rightarrow> op_table \<Rightarrow> op_table" where
  "Yap_dup_op a info she ops = ops(a := info\<lparr>OpModule := Some she\<rparr> # ops a)"

text \<open>Priority and type of an entry, for current_op/3; \<open>fix\<close> is 0, 1 or 2 as in the code.\<close>

definition Yap_GetOp :: "op_entry \<Rightarrow> nat \<Rightarrow> nat \<times> string" where
  "Yap_GetOp pp fix =
    (if fix = 0 then
       let p = Prefix pp in
       if p AND DcrrpFlag \<noteq> 0 then (unat (p XOR DcrrpFlag), optypes ! 6) else (unat p, optypes ! 7)
     else if fix = 1 then
       let p = Posfix pp in
       if p AND DcrlpFlag \<noteq> 0 then (unat (p XOR DcrlpFlag), optypes ! 4) else (unat p, optypes ! 5)
     else
       let p = Infix pp in
       if p AND DcrrpFlag \<noteq> 0 \<and> p AND DcrlpFlag \<noteq> 0
       then (unat (p XOR (DcrrpFlag OR DcrlpFlag)), optypes ! 1)
       else if p AND DcrrpFlag \<noteq> 0 then (unat (p XOR DcrrpFlag), optypes ! 3)
       else if p AND DcrlpFlag \<noteq> 0 then (unat (p XOR DcrlpFlag), optypes ! 2)
       else (unat p, optypes ! 4))"

section \<open>The operators at the start\<close>

definition Ops :: "(string \<times> string \<times> 32 word) list" where
  "Ops =
    [('':-'', ''xfx'', 1200), (''-->'', ''xfx'', 1200), (''?-'', ''fx'', 1200), ('':-'', ''fx'', 1200),
     (''dynamic'', ''fx'', 1150), (''thread_local'', ''fx'', 1150), (''initialization'', ''fx'', 1150),
     (''volatile'', ''fx'', 1150), (''mode'', ''fx'', 1150), (''public'', ''fx'', 1150),
     (''multifile'', ''fx'', 1150), (''meta_predicate'', ''fx'', 1150),
     (''module_transparent'', ''fx'', 1150), (''discontiguous'', ''fx'', 1150), (''table'', ''fx'', 1150),
     (''uncutable'', ''fx'', 1150), (''|'', ''xfy'', 1105), ('';'', ''xfy'', 1100), (''->'', ''xfy'', 1050),
     (''*->'', ''xfy'', 1050), ('','', ''xfy'', 1000), (''.'', ''xfy'', 999), (CHR 0x5C # ''+'', ''fy'', 900),
     (''not'', ''fy'', 900), (''='', ''xfx'', 700), (CHR 0x5C # ''='', ''xfx'', 700), (''is'', ''xfx'', 700),
     (''=..'', ''xfx'', 700), (''=='', ''xfx'', 700), (CHR 0x5C # ''=='', ''xfx'', 700), (''@<'', ''xfx'', 700),
     (''@>'', ''xfx'', 700), (''@=<'', ''xfx'', 700), (''@>='', ''xfx'', 700), (''=@='', ''xfx'', 700),
     (CHR 0x5C # ''=@='', ''xfx'', 700), (''=:='', ''xfx'', 700), (''='' @ CHR 0x5C # ''='', ''xfx'', 700), (''<'', ''xfx'', 700),
     (''>'', ''xfx'', 700), (''=<'', ''xfx'', 700), (''>='', ''xfx'', 700), (''as'', ''xfx'', 600),
     ('':'', ''xfy'', 600), (''+'', ''yfx'', 500), (''-'', ''yfx'', 500), (''/'' @ [CHR 0x5C], ''yfx'', 500),
     (CHR 0x5C # ''/'', ''yfx'', 500), (''><'', ''yfx'', 500), (''#'', ''yfx'', 500), (''rdiv'', ''yfx'', 400),
     (''div'', ''yfx'', 400), (''xor'', ''yfx'', 400), (''*'', ''yfx'', 400), (''/'', ''yfx'', 400),
     (''//'', ''yfx'', 400), (''<<'', ''yfx'', 400), (''>>'', ''yfx'', 400), (''mod'', ''yfx'', 400),
     (''rem'', ''yfx'', 400), (''+'', ''fy'', 200), (''-'', ''fy'', 200), ([CHR 0x5C], ''fy'', 200),
     (''//'', ''yfx'', 400), (''**'', ''xfx'', 200), (''^'', ''xfy'', 200)]"

text \<open>The build is one with tabling and without or-parallelism.\<close>

definition InitOps :: op_table where
  "InitOps = fold (\<lambda>(a, type, p) ops. snd (OpDec False p type a None ops)) Ops (\<lambda>_. [])"

end
