(* ===== verification/YapParser.thy ===== *)
theory YapParser
  imports YapOps YapGmp
begin

text \<open>
  The reader's parser (C/parser.c): from the list of tokens of a clause to a term. A state is the rest
  of the tokens (\<open>LOCAL_tokptr\<close>) and the number of arguments on the parser's stack
  (\<open>LOCAL_ParserAuxSp - LOCAL_ParserAuxBase\<close>). A jump to the latest \<open>FailBuff\<close> is the result \<open>Failed\<close>
  with the state at the jump; \<open>TRY\<close> and \<open>TRY3\<close> go back to the saved token, but not to the saved stack.

  The functions recurse on fuel, and \<open>Yap_Parse\<close> supplies enough of it for the tokens at hand. The cell of a
  variable is part of its token: the code makes it at the first occurrence and keeps it in the entry
  of the variable. Terms have room on the global stack, and the texts of messages are left out.
\<close>

section \<open>Tokens\<close>

datatype 'f token =
    Name_tok string
  | Number_tok "'f trm"
  | Var_tok cell
  | String_tok "'f trm"
  | BQString_tok "'f trm"
  | Ponctuation_tok string
  | Error_tok string
  | QuasiQuotes_tok
  | eot_tok

type_synonym 'f tokens = "'f token list"

record 'f parser_state =
  tokptr :: "'f tokens"
  aux_sp :: nat
  shrunk :: bool

fun tok_of :: "'f tokens \<Rightarrow> 'f token" where
  "tok_of [] = eot_tok"
| "tok_of (x # _) = x"

abbreviation tok :: "'f parser_state \<Rightarrow> 'f token" where
  "tok st \<equiv> tok_of (tokptr st)"

definition GNextToken :: "'f parser_state \<Rightarrow> 'f parser_state" where
  "GNextToken st = (if tok st = eot_tok then st else st\<lparr>tokptr := tl (tokptr st)\<rparr>)"

fun is_number :: "'f token \<Rightarrow> bool" where
  "is_number (Number_tok _) = True"
| "is_number _ = False"

section \<open>Results\<close>

datatype ('a, 'f) parsed =
    Parsed 'a "'f parser_state"
  | Failed "'f parser_state"
  | Thrown yap_error
  | Unfinished

fun bindP :: "('a, 'f) parsed \<Rightarrow> ('a \<Rightarrow> 'f parser_state \<Rightarrow> ('b, 'f) parsed) \<Rightarrow> ('b, 'f) parsed" where
  "bindP (Parsed x st) f = f x st"
| "bindP (Failed st) f = Failed st"
| "bindP (Thrown e) f = Thrown e"
| "bindP Unfinished f = Unfinished"

text \<open>\<open>TRY saved S P F\<close>: \<open>F\<close> goes on from the saved token when \<open>S\<close> has failed.\<close>

fun TRY :: "'f parser_state \<Rightarrow> ('a, 'f) parsed \<Rightarrow> ('a \<Rightarrow> 'f parser_state \<Rightarrow> ('b, 'f) parsed)
    \<Rightarrow> ('f parser_state \<Rightarrow> ('b, 'f) parsed) \<Rightarrow> ('b, 'f) parsed" where
  "TRY saved (Parsed x st) P F = P x st"
| "TRY saved (Failed st) P F = F (st\<lparr>tokptr := tokptr saved\<rparr>)"
| "TRY saved (Thrown e) P F = Thrown e"
| "TRY saved Unfinished P F = Unfinished"

definition checkfor :: "string \<Rightarrow> 'f parser_state \<Rightarrow> (unit, 'f) parsed" where
  "checkfor c st =
    (if tok st = Ponctuation_tok c then Parsed () (GNextToken st) else Failed st)"

section \<open>Building terms\<close>

text \<open>
  The operators, the current module, the addresses of atoms, and the atoms with a property that is no
  operator but has the bits of the prolog module where an operator has its module.
\<close>

record reader =
  ops :: op_table
  cur_mod :: module_term
  atom_addr :: "string \<Rightarrow> cell"
  stray_prop :: "string \<Rightarrow> bool"

abbreviation pre_op :: "reader \<Rightarrow> string \<Rightarrow> (nat \<times> nat) option" where
  "pre_op R \<equiv> IsPrefixOp (ops R) (cur_mod R)"

abbreviation in_op :: "reader \<Rightarrow> string \<Rightarrow> (nat \<times> nat \<times> nat) option" where
  "in_op R \<equiv> IsInfixOp (ops R) (cur_mod R)"

abbreviation post_op :: "reader \<Rightarrow> string \<Rightarrow> (nat \<times> nat) option" where
  "post_op R \<equiv> IsPosfixOp (ops R) (cur_mod R)"

definition GLOBAL_MaxPriority :: nat where
  "GLOBAL_MaxPriority = 1200"

text \<open>A functor of \<open>k\<close> arguments; the caller gives \<open>n\<close> arguments, and the term is made of the first \<open>k\<close>.\<close>

definition Yap_MkApplTerm :: "string \<Rightarrow> nat \<Rightarrow> 'f trm list \<Rightarrow> 'f trm" where
  "Yap_MkApplTerm f k args =
    (if args = [] then AtmT f
     else if f = ''.'' \<and> k = 2 then PairT (args ! 0) (args ! 1)
     else ApplT f (take k args))"

text \<open>The functor \<open>FunctorBraces\<close> has one argument, and two are given.\<close>

definition MakeAccessor :: "'f trm list \<Rightarrow> string \<Rightarrow> nat \<Rightarrow> 'f trm" where
  "MakeAccessor args f k = Yap_MkApplTerm f k [foldr PairT (tl args) TermNil, hd args]"

text \<open>The number after a minus sign.\<close>

definition neg_number :: "'f env \<Rightarrow> 'f trm \<Rightarrow> 'f res" where
  "neg_number E t =
    (if IsInt_trm t then Inr (mkInt (- IntegerOfTerm t))
     else if IsFloatTerm t then Inr (FltT (f_neg E (FloatOfTerm t)))
     else if IsBigIntTerm t then Yap_gmp_neg_big E t
     else Inr (LongT (- IntegerOfTerm t)))"

text \<open>Signs before the atoms of infinity and not-a-number, read only where the sign is a prefix operator.\<close>

definition signed_constant :: "'f env \<Rightarrow> string \<Rightarrow> 'f token \<Rightarrow> 'f trm option" where
  "signed_constant E a t =
    (if a = ''+'' then
       if t = Name_tok ''inf'' then Some (FltT (f_inf E))
       else if t = Name_tok ''nan'' then Some (FltT (f_nan E)) else None
     else if a = ''-'' then
       if t = Name_tok ''inf'' then Some (FltT (f_neg E (f_inf E)))
       else if t = Name_tok ''nan'' then Some (FltT (f_nan E)) else None
     else None)"

definition AtomDBref :: string where
  "AtomDBref = ''$dbref''"

text \<open>The term of the arguments \<open>args\<close> read between brackets.\<close>

definition args_term :: "string \<Rightarrow> 'f trm list \<Rightarrow> 'f trm" where
  "args_term a args =
    (if a = AtomDBref \<and> length args = 2 then DBRefT (IntegerOfTerm (hd args))
     else Yap_MkApplTerm a (length args) args)"

text \<open>
  The comparison of a token with the closing brace casts the token's cell to \<open>int\<close>, so it fails for an
  atom above the first two gigabytes.
\<close>

definition closes_braces :: "reader \<Rightarrow> 'f token \<Rightarrow> bool" where
  "closes_braces R t =
    (case t of Ponctuation_tok c \<Rightarrow>
        scast (ucast (MkAtomTerm (atom_addr R c)) :: 32 word) = MkAtomTerm (atom_addr R ''}'')
      | _ \<Rightarrow> False)"

text \<open>
  The stack of arguments has 4096 cells; \<open>aux_sp\<close> are in use. To grow it the code asks for 8192 bytes,
  which leaves 1024 cells (\<open>shrunk\<close>), but takes its limit to be 8192 cells. A cell is written only when
  its argument has been read, through the pointer taken before: that is beyond the memory
  if the stack was moved meanwhile, or if it has shrunk below that cell.
\<close>

definition ParserAuxMax :: nat where
  "ParserAuxMax = 4096"

definition ShrunkAuxMax :: nat where
  "ShrunkAuxMax = 1024"

definition grow_aux :: "'f parser_state \<Rightarrow> 'f parser_state" where
  "grow_aux st = (if \<not> shrunk st \<and> ParserAuxMax \<le> aux_sp st + 1 then st\<lparr>shrunk := True\<rparr> else st)"

lemma tokptr_grow_aux [simp]: "tokptr (grow_aux st) = tokptr st"
  by (simp add: grow_aux_def)

definition aux_lost :: "'f parser_state \<Rightarrow> 'f parser_state \<Rightarrow> bool" where
  "aux_lost st st' \<longleftrightarrow> shrunk st' \<and> (\<not> shrunk st \<or> ShrunkAuxMax \<le> aux_sp st)"

section \<open>The parser\<close>

text \<open>
  The branches of \<open>ParseTerm\<close>, with the functions they call as arguments. First the switch on the
  current token, which gives a primary and its priority \<open>curprio\<close>.
\<close>

type_synonym 'f term_parser = "nat \<Rightarrow> 'f parser_state \<Rightarrow> ('f trm, 'f) parsed"
type_synonym 'f args_parser = "string \<Rightarrow> 'f trm option \<Rightarrow> 'f parser_state \<Rightarrow> ('f trm list, 'f) parsed"
type_synonym 'f list_parser = "'f parser_state \<Rightarrow> ('f trm, 'f) parsed"
type_synonym 'f rest_parser = "nat \<Rightarrow> nat \<Rightarrow> 'f trm \<Rightarrow> 'f parser_state \<Rightarrow> ('f trm, 'f) parsed"

text \<open>An atom that is no prefix operator here, or a compound term.\<close>

definition atom_or_compound ::
    "'f args_parser \<Rightarrow> string \<Rightarrow> 'f parser_state \<Rightarrow> ('f trm \<times> nat, 'f) parsed" where
  "atom_or_compound ParseArgs a st =
    (if tok st = Ponctuation_tok ''l''
     then bindP (ParseArgs '')'' None st) (\<lambda>args. Parsed (args_term a args, 0))
     else Parsed (AtmT a, 0) st)"

definition prefix_operator :: "'f env \<Rightarrow> reader \<Rightarrow> 'f term_parser \<Rightarrow> 'f args_parser \<Rightarrow> nat \<Rightarrow> string
    \<Rightarrow> 'f parser_state \<Rightarrow> ('f trm \<times> nat, 'f) parsed" where
  "prefix_operator E R ParseTerm ParseArgs prio a st =
    (case (if tok st \<noteq> Ponctuation_tok ''l'' then pre_op R a else None) of
       None \<Rightarrow> atom_or_compound ParseArgs a st
     | Some (opprio, oprprio) \<Rightarrow> (case signed_constant E a (tok st) of
           Some t \<Rightarrow> Parsed (t, 0) (GNextToken st)
         | None \<Rightarrow>
             if opprio \<le> prio then
               TRY st (ParseTerm oprprio st)
                 (\<lambda>t. Parsed (Yap_MkApplTerm a 1 [t], opprio)) (atom_or_compound ParseArgs a)
             else atom_or_compound ParseArgs a st))"

definition name_primary :: "'f env \<Rightarrow> reader \<Rightarrow> 'f term_parser \<Rightarrow> 'f args_parser \<Rightarrow> nat \<Rightarrow> string
    \<Rightarrow> 'f parser_state \<Rightarrow> ('f trm \<times> nat, 'f) parsed" where
  "name_primary E R ParseTerm ParseArgs prio a st =
    (case tok st of
       Number_tok t \<Rightarrow>
         if a = ''-'' then (case neg_number E t of
             Inl (e, _) \<Rightarrow> Thrown e
           | Inr t' \<Rightarrow> Parsed (t', 0) (GNextToken st))
         else prefix_operator E R ParseTerm ParseArgs prio a st
     | _ \<Rightarrow> prefix_operator E R ParseTerm ParseArgs prio a st)"

definition bracketed :: "'f term_parser \<Rightarrow> string \<Rightarrow> ('f trm \<Rightarrow> 'f trm) \<Rightarrow> 'f parser_state
    \<Rightarrow> ('f trm \<times> nat, 'f) parsed" where
  "bracketed ParseTerm close f st =
    bindP (ParseTerm GLOBAL_MaxPriority st) (\<lambda>t st.
      bindP (checkfor close st) (\<lambda>_. Parsed (f t, 0)))"

definition ponctuation_primary :: "reader \<Rightarrow> 'f term_parser \<Rightarrow> 'f list_parser \<Rightarrow> string
    \<Rightarrow> 'f parser_state \<Rightarrow> ('f trm \<times> nat, 'f) parsed" where
  "ponctuation_primary R ParseTerm ParseList c st =
    (if take 1 c = ''('' \<or> take 1 c = ''l'' then bracketed ParseTerm '')'' id (GNextToken st)
     else if take 1 c = ''['' then
       let st = GNextToken st in
       if tok st = Ponctuation_tok '']'' then Parsed (TermNil, 0) (GNextToken st)
       else bindP (ParseList st) (\<lambda>t st. bindP (checkfor '']'' st) (\<lambda>_. Parsed (t, 0)))
     else if take 1 c = ''{'' then
       let st = GNextToken st in
       if closes_braces R (tok st) then Parsed (AtmT ''{}'', 0) (GNextToken st)
       else bracketed ParseTerm ''}'' (\<lambda>t. Yap_MkApplTerm ''{}'' 1 [t]) st
     else Failed st)"

definition primary :: "'f env \<Rightarrow> reader \<Rightarrow> 'f term_parser \<Rightarrow> 'f args_parser \<Rightarrow> 'f list_parser \<Rightarrow> nat
    \<Rightarrow> 'f parser_state \<Rightarrow> ('f trm \<times> nat, 'f) parsed" where
  "primary E R ParseTerm ParseArgs ParseList prio st = (case tok st of
      Name_tok a \<Rightarrow> name_primary E R ParseTerm ParseArgs prio a (GNextToken st)
    | Number_tok t \<Rightarrow> Parsed (t, 0) (GNextToken st)
    | String_tok t \<Rightarrow> Parsed (t, 0) (GNextToken st)
    | Var_tok p \<Rightarrow> Parsed (VarT p, 0) (GNextToken st)
    | Ponctuation_tok c \<Rightarrow> ponctuation_primary R ParseTerm ParseList c st
    | _ \<Rightarrow> Failed st)"

text \<open>Then the loop over the operators that follow. \<open>Rest\<close> is the next round of the loop.\<close>

definition posfix_rest :: "reader \<Rightarrow> 'f rest_parser \<Rightarrow> nat \<Rightarrow> nat \<Rightarrow> 'f trm \<Rightarrow> string
    \<Rightarrow> 'f parser_state \<Rightarrow> ('f trm, 'f) parsed" where
  "posfix_rest R Rest prio curprio t a st = (case post_op R a of
      Some (opprio, oplprio) \<Rightarrow>
        if opprio \<le> prio \<and> curprio \<le> oplprio
        then Rest prio opprio (Yap_MkApplTerm a 1 [t]) (GNextToken st)
        else Parsed t st
    | None \<Rightarrow> Parsed t st)"

definition name_rest :: "reader \<Rightarrow> 'f term_parser \<Rightarrow> 'f rest_parser \<Rightarrow> nat \<Rightarrow> nat \<Rightarrow> 'f trm \<Rightarrow> string
    \<Rightarrow> 'f parser_state \<Rightarrow> ('f trm, 'f) parsed" where
  "name_rest R ParseTerm Rest prio curprio t a st =
    (if Yap_HasOp (ops R) a then
       (case in_op R a of
          Some (opprio, oplprio, oprprio) \<Rightarrow>
            if opprio \<le> prio \<and> curprio \<le> oplprio then
              TRY st (ParseTerm oprprio (GNextToken st))
                (\<lambda>t2. Rest prio opprio (Yap_MkApplTerm a 2 [t, t2])) (posfix_rest R Rest prio curprio t a)
            else posfix_rest R Rest prio curprio t a st
        | None \<Rightarrow> posfix_rest R Rest prio curprio t a st)
     else Failed st)"

text \<open>Brackets after a term: arguments of the operator \<open>a\<close>, of which \<open>f\<close> makes a term.\<close>

definition brackets_rest :: "reader \<Rightarrow> 'f args_parser \<Rightarrow> 'f rest_parser \<Rightarrow> nat \<Rightarrow> nat \<Rightarrow> 'f trm \<Rightarrow> string
    \<Rightarrow> string \<Rightarrow> ('f trm list \<Rightarrow> 'f trm) \<Rightarrow> 'f parser_state \<Rightarrow> ('f trm, 'f) parsed" where
  "brackets_rest R ParseArgs Rest prio curprio t a close f st = (case post_op R a of
      Some (opprio, oplprio) \<Rightarrow>
        if opprio \<le> prio \<and> curprio \<le> oplprio
        then bindP (ParseArgs close (Some t) st) (\<lambda>args. Rest prio opprio (f args))
        else Parsed t st
    | None \<Rightarrow> Parsed t st)"

definition ponctuation_rest :: "reader \<Rightarrow> 'f term_parser \<Rightarrow> 'f args_parser \<Rightarrow> 'f rest_parser \<Rightarrow> nat
    \<Rightarrow> nat \<Rightarrow> 'f trm \<Rightarrow> string \<Rightarrow> 'f parser_state \<Rightarrow> ('f trm, 'f) parsed" where
  "ponctuation_rest R ParseTerm ParseArgs Rest prio curprio t c st =
    (if c = '','' \<and> 1000 \<le> prio \<and> curprio \<le> 999 then
       bindP (ParseTerm 1000 (GNextToken st)) (\<lambda>t2. Rest prio 1000 (Yap_MkApplTerm '','' 2 [t, t2]))
     else if c = ''|'' then (case in_op R ''|'' of
         Some (opprio, oplprio, oprprio) \<Rightarrow>
           if opprio \<le> prio \<and> curprio \<le> oplprio then
             bindP (ParseTerm oprprio (GNextToken st)) (\<lambda>t2.
               Rest prio opprio (Yap_MkApplTerm ''|'' 2 [t, t2]))
           else Parsed t st
       | None \<Rightarrow> Parsed t st)
     else if c = ''('' then
       brackets_rest R ParseArgs Rest prio curprio t ''()'' '')'' (args_term ''()'') st
     else if c = ''['' then
       brackets_rest R ParseArgs Rest prio curprio t ''[]'' '']'' (\<lambda>args. MakeAccessor args ''[]'' 2) st
     else if c = ''{'' then
       brackets_rest R ParseArgs Rest prio curprio t ''{}'' ''}'' (\<lambda>args. MakeAccessor args ''{}'' 1) st
     else Parsed t st)"

definition term_rest :: "reader \<Rightarrow> 'f term_parser \<Rightarrow> 'f args_parser \<Rightarrow> 'f rest_parser \<Rightarrow> nat \<Rightarrow> nat
    \<Rightarrow> 'f trm \<Rightarrow> 'f parser_state \<Rightarrow> ('f trm, 'f) parsed" where
  "term_rest R ParseTerm ParseArgs Rest prio curprio t st = (case tok st of
      Name_tok a \<Rightarrow> name_rest R ParseTerm Rest prio curprio t a st
    | Ponctuation_tok c \<Rightarrow> ponctuation_rest R ParseTerm ParseArgs Rest prio curprio t c st
    | Number_tok _ \<Rightarrow> Failed st
    | Var_tok _ \<Rightarrow> Failed st
    | String_tok _ \<Rightarrow> Failed st
    | _ \<Rightarrow> Parsed t st)"

text \<open>
  Arguments: \<open>p\<close> is the height of the stack at the start, \<open>Loop\<close> the next round of the loop, with the
  arguments read so far.
\<close>

definition args_start :: "(nat \<Rightarrow> 'f trm list \<Rightarrow> 'f parser_state \<Rightarrow> ('f trm list, 'f) parsed)
    \<Rightarrow> string \<Rightarrow> 'f trm option \<Rightarrow> 'f parser_state \<Rightarrow> ('f trm list, 'f) parsed" where
  "args_start Loop close arg1 st =
    (let p = aux_sp st; st = GNextToken st in
     case arg1 of
       None \<Rightarrow> Loop p [] st
     | Some t \<Rightarrow>
         if aux_lost st st \<or> tok st = Ponctuation_tok close then Thrown UNDEFINED_BEHAVIOUR
         else Loop p [t] (st\<lparr>aux_sp := p + 1\<rparr>))"

definition args_round :: "'f term_parser \<Rightarrow> ('f trm list \<Rightarrow> 'f parser_state \<Rightarrow> ('f trm list, 'f) parsed)
    \<Rightarrow> string \<Rightarrow> nat \<Rightarrow> 'f trm list \<Rightarrow> 'f parser_state \<Rightarrow> ('f trm list, 'f) parsed" where
  "args_round ParseTerm Loop close p args st =
    bindP (ParseTerm 999 (grow_aux st)) (\<lambda>t st'.
      if aux_lost st st' then Thrown UNDEFINED_BEHAVIOUR
      else if tok st' = Ponctuation_tok '',''
      then Loop (args @ [t]) (GNextToken (st'\<lparr>aux_sp := aux_sp st + 1\<rparr>))
      else bindP (checkfor close (st'\<lparr>aux_sp := p\<rparr>)) (\<lambda>_. Parsed (args @ [t])))"

definition list_round :: "'f term_parser \<Rightarrow> 'f list_parser \<Rightarrow> 'f parser_state \<Rightarrow> ('f trm, 'f) parsed" where
  "list_round ParseTerm Loop st =
    bindP (ParseTerm 999 st) (\<lambda>t st. case tok st of
        Ponctuation_tok c \<Rightarrow>
          (if c = '','' then bindP (Loop (GNextToken st)) (\<lambda>t2. Parsed (PairT t t2))
           else if c = ''|'' then bindP (ParseTerm 999 (GNextToken st)) (\<lambda>t2. Parsed (PairT t t2))
           else Parsed (PairT t TermNil) st)
      | _ \<Rightarrow> Failed st)"

text \<open>The functions themselves.\<close>

function (sequential) ParseTerm :: "'f env \<Rightarrow> reader \<Rightarrow> nat \<Rightarrow> 'f term_parser"
  and ParseRest :: "'f env \<Rightarrow> reader \<Rightarrow> nat \<Rightarrow> 'f rest_parser"
  and ParseArgs :: "'f env \<Rightarrow> reader \<Rightarrow> nat \<Rightarrow> 'f args_parser"
  and ParseArgs_loop :: "'f env \<Rightarrow> reader \<Rightarrow> nat \<Rightarrow> string \<Rightarrow> nat \<Rightarrow> 'f trm list \<Rightarrow> 'f parser_state
    \<Rightarrow> ('f trm list, 'f) parsed"
  and ParseList :: "'f env \<Rightarrow> reader \<Rightarrow> nat \<Rightarrow> 'f list_parser" where
  "ParseTerm E R 0 prio st = Unfinished"
| "ParseTerm E R (Suc n) prio st =
    bindP (primary E R (ParseTerm E R n) (ParseArgs E R n) (ParseList E R n) prio st)
      (\<lambda>(t, curprio). ParseRest E R n prio curprio t)"
| "ParseRest E R 0 prio curprio t st = Unfinished"
| "ParseRest E R (Suc n) prio curprio t st =
    term_rest R (ParseTerm E R n) (ParseArgs E R n) (ParseRest E R n) prio curprio t st"
| "ParseArgs E R 0 close arg1 st = Unfinished"
| "ParseArgs E R (Suc n) close arg1 st = args_start (ParseArgs_loop E R n close) close arg1 st"
| "ParseArgs_loop E R 0 close p args st = Unfinished"
| "ParseArgs_loop E R (Suc n) close p args st =
    args_round (ParseTerm E R n) (ParseArgs_loop E R n close p) close p args st"
| "ParseList E R 0 st = Unfinished"
| "ParseList E R (Suc n) st = list_round (ParseTerm E R n) (ParseList E R n) st"
  by pat_completeness auto

termination
  by (relation "measure (\<lambda>x. case x of
      Inl (Inl (E, R, n, _)) \<Rightarrow> n
    | Inl (Inr (E, R, n, _)) \<Rightarrow> n
    | Inr (Inl (E, R, n, _)) \<Rightarrow> n
    | Inr (Inr (Inl (E, R, n, _))) \<Rightarrow> n
    | Inr (Inr (Inr (E, R, n, _))) \<Rightarrow> n)") auto

section \<open>Reading a clause\<close>

text \<open>The term, a syntax error with its message, or the null term without an error being set.\<close>

datatype 'f answer =
    Term_read "'f trm"
  | Syntax_error string
  | Null_term
  | Stopped yap_error
  | Out_of_fuel

definition enough_fuel :: "'f tokens \<Rightarrow> nat" where
  "enough_fuel toks = 4 * length toks + 4"

definition after_parse :: "'f answer \<Rightarrow> 'f parser_state \<Rightarrow> 'f answer" where
  "after_parse r st =
    (if tok st = eot_tok then r
     else if length (tokptr st) > 1 then Syntax_error ''bracket or operator expected.''
     else Syntax_error ''term  must end with . or EOF.'')"

definition Yap_Parse :: "'f env \<Rightarrow> reader \<Rightarrow> nat \<Rightarrow> 'f tokens \<Rightarrow> 'f answer" where
  "Yap_Parse E R prio toks = (case ParseTerm E R (enough_fuel toks) prio \<lparr>tokptr = toks, aux_sp = 0, shrunk = False\<rparr> of
      Parsed t st \<Rightarrow> after_parse (Term_read t) st
    | Failed st \<Rightarrow> after_parse Null_term st
    | Thrown e \<Rightarrow> Stopped e
    | Unfinished \<Rightarrow> Out_of_fuel)"

end
