(* ===== verification/YapParserEnds.thy ===== *)
theory YapParserEnds
  imports YapParser
begin

text \<open>
  The parser returns. A call consumes tokens, and the fuel that \<open>Yap_Parse\<close> gives is never used up; so
  the functions with that fuel, \<open>parse_term\<close> and its companions, satisfy the equations of the code
  without any fuel.
\<close>

lemmas parser_bodies = primary_def name_primary_def prefix_operator_def atom_or_compound_def
  ponctuation_primary_def bracketed_def term_rest_def name_rest_def posfix_rest_def ponctuation_rest_def
  brackets_rest_def args_start_def args_round_def list_round_def

section \<open>What a result satisfies\<close>

definition post :: "('a \<Rightarrow> 'f parser_state \<Rightarrow> bool) \<Rightarrow> ('a, 'f) parsed \<Rightarrow> bool" where
  "post P r = (case r of Parsed x st \<Rightarrow> P x st | _ \<Rightarrow> True)"

lemma post_simps [simp]:
  "post P (Parsed x st) = P x st"
  "post P (Failed st)"
  "post P (Thrown e)"
  "post P Unfinished"
  by (simp_all add: post_def)

lemma postD: "post P r \<Longrightarrow> r = Parsed x st \<Longrightarrow> P x st"
  by simp

lemma post_bind:
  assumes "post P p" and "\<And>x st. P x st \<Longrightarrow> post Q (f x st)"
  shows "post Q (bindP p f)"
  using assms by (cases p) auto

lemma state_eta: "st\<lparr>tokptr := ts\<rparr> = \<lparr>tokptr = ts, aux_sp = aux_sp st, shrunk = shrunk st\<rparr>"
  by simp

lemma state_collapse [simp]: "\<lparr>tokptr = tokptr st, aux_sp = aux_sp st, shrunk = shrunk st\<rparr> = st"
  by (cases st) simp

lemma post_TRY:
  assumes "post P p" and "\<And>x st. P x st \<Longrightarrow> post Q (f x st)" and "\<And>sp b. post Q (g \<lparr>tokptr = tokptr saved, aux_sp = sp, shrunk = b\<rparr>)"
  shows "post Q (TRY saved p f g)"
  using assms(1,2) assms(3) [of "aux_sp st'" "shrunk st'" for st'] by (cases p) (auto simp: state_eta)

lemma post_checkfor: "post (\<lambda>_ s. tok st = Ponctuation_tok c \<and> s = GNextToken st) (checkfor c st)"
  by (simp add: checkfor_def)

lemma post_mono: "post P r \<Longrightarrow> (\<And>x st. P x st \<Longrightarrow> Q x st) \<Longrightarrow> post Q r"
  by (cases r) auto

section \<open>Tokens are consumed\<close>

abbreviation len :: "'f parser_state \<Rightarrow> nat" where
  "len st \<equiv> length (tokptr st)"

lemma len_next_le [simp]: "len (GNextToken st) \<le> len st"
  by (simp add: GNextToken_def)

lemma len_next_less [simp]: "tok st \<noteq> eot_tok \<Longrightarrow> len (GNextToken st) < len st"
  by (cases "tokptr st") (auto simp: GNextToken_def)

lemma len_next_trans:
  "len st \<le> k \<Longrightarrow> len (GNextToken st) \<le> k"
  "len st < k \<Longrightarrow> len (GNextToken st) \<le> k"
  "len st < k \<Longrightarrow> len (GNextToken st) < k"
  using len_next_le [of st] by linarith+

lemma below_next:
  "len st' < len (GNextToken st) \<Longrightarrow> len st' < len st"
  "len st' \<le> len (GNextToken st) \<Longrightarrow> len st' \<le> len st"
  "len st' \<le> len (GNextToken st) \<Longrightarrow> tok st \<noteq> eot_tok \<Longrightarrow> len st' < len st"
  using len_next_le [of st] len_next_less [of st] by linarith+

definition shorter :: "'f parser_state \<Rightarrow> 'a \<Rightarrow> 'f parser_state \<Rightarrow> bool" where
  "shorter st x st' \<longleftrightarrow> len st' < len st"

definition not_longer :: "'f parser_state \<Rightarrow> 'a \<Rightarrow> 'f parser_state \<Rightarrow> bool" where
  "not_longer st x st' \<longleftrightarrow> len st' \<le> len st"

lemmas shorter_defs = shorter_def not_longer_def

text \<open>The branches, for functions that consume tokens.\<close>

locale consuming =
  fixes PT :: "'f term_parser" and PA :: "'f args_parser" and PL :: "'f list_parser"
    and PR :: "'f rest_parser"
  assumes PT: "post (shorter st) (PT q st)"
    and PA: "post (shorter st) (PA c a st)"
    and PL: "post (shorter st) (PL st)"
    and PR: "post (not_longer st) (PR q p t st)"
begin

lemma atom_or_compound: "post (not_longer st) (atom_or_compound PA a st)"
  unfolding atom_or_compound_def
  by (auto intro!: post_bind [OF PA] simp: shorter_defs)

lemma prefix_operator: "post (not_longer st) (prefix_operator E R PT PA prio a st)"
proof -
  have "post (not_longer st) (atom_or_compound PA a \<lparr>tokptr = tokptr st, aux_sp = sp, shrunk = b\<rparr>)" for sp b
    by (rule post_mono [OF atom_or_compound]) (simp add: shorter_defs)
  then show ?thesis
    unfolding prefix_operator_def
    by (auto intro!: post_TRY [OF PT] atom_or_compound simp: shorter_defs split: option.split)
qed

lemma name_primary: "post (not_longer st) (name_primary E R PT PA prio a st)"
  unfolding name_primary_def
  by (auto intro!: prefix_operator simp: shorter_defs split: token.split sum.split)

lemma bracketed: "post (not_longer st) (bracketed PT close f st)"
  unfolding bracketed_def
  by (auto intro!: post_bind [OF PT] post_bind [OF post_checkfor] simp: shorter_defs len_next_trans)

lemma ponctuation_primary:
  assumes "tok st \<noteq> eot_tok"
  shows "post (shorter st) (ponctuation_primary R PT PL c st)"
proof -
  have less: "len (GNextToken st) < len st" using assms by simp
  have b: "post (shorter st) (bracketed PT close f (GNextToken st))" for close f
    by (rule post_mono [OF bracketed]) (use less in \<open>simp add: shorter_defs\<close>)
  have l: "post (shorter st) (bindP (PL (GNextToken st)) (\<lambda>t st. bindP (checkfor '']'' st) (\<lambda>_. Parsed (t, 0))))"
    using less by (auto intro!: post_bind [OF PL] post_bind [OF post_checkfor] simp: shorter_defs len_next_trans)
  have n: "len (GNextToken (GNextToken st)) < len st" using less by (rule len_next_trans)
  show ?thesis
    unfolding ponctuation_primary_def using n b l by (auto simp: Let_def shorter_def)
qed

lemma primary: "post (shorter st) (primary E R PT PA PL prio st)"
proof (cases "tok st")
  case (Name_tok a)
  have "post (shorter st) (name_primary E R PT PA prio a (GNextToken st))"
    by (rule post_mono [OF name_primary]) (auto simp: shorter_defs Name_tok intro: below_next)
  with Name_tok show ?thesis by (simp add: primary_def)
qed (auto simp: primary_def shorter_defs ponctuation_primary)

lemma posfix_rest: "post (not_longer st) (posfix_rest R PR prio curprio t a st)"
  unfolding posfix_rest_def
  by (auto simp: not_longer_def split: option.split intro!: post_mono [OF PR] dest: below_next)

lemma after_term:
  "post (not_longer st) (bindP (PT q (GNextToken st)) (\<lambda>t2. PR q' p (f t2)))"
  by (rule post_bind [OF PT])
     (auto simp: shorter_defs dest: below_next intro!: post_mono [OF PR])

lemma after_args:
  "post (not_longer st) (bindP (PA c a st) (\<lambda>args. PR q' p (f args)))"
  by (rule post_bind [OF PA]) (auto simp: shorter_defs intro!: post_mono [OF PR])

lemma rest: "post (not_longer st) (term_rest R PT PA PR prio curprio t st)"
proof -
  have p: "post (not_longer st) (posfix_rest R PR prio curprio t a \<lparr>tokptr = tokptr st, aux_sp = sp, shrunk = b\<rparr>)" for a sp b
    by (rule post_mono [OF posfix_rest]) (simp add: shorter_defs)
  have t: "post (not_longer st) (TRY st (PT q (GNextToken st)) (\<lambda>t2. PR q' p (f t2))
      (posfix_rest R PR prio curprio t a))" for q q' p f a
    by (rule post_TRY [OF PT])
       (auto simp: shorter_defs dest: below_next intro!: p post_mono [OF PR])
  have b: "post (not_longer st) (brackets_rest R PA PR prio curprio t a c f st)" for a c f
    unfolding brackets_rest_def by (auto intro!: after_args simp: shorter_defs split: option.split)
  have self: "post (not_longer st) (Parsed t st)" by (simp add: not_longer_def)
  have "post (not_longer st) (name_rest R PT PR prio curprio t a st)" for a
    unfolding name_rest_def using t posfix_rest by (simp split: option.split)
  moreover have "post (not_longer st) (ponctuation_rest R PT PA PR prio curprio t c st)" for c
    unfolding ponctuation_rest_def using b self after_term by (simp split: option.split)
  ultimately show ?thesis
    unfolding term_rest_def using self by (simp split: token.split)
qed

end

lemma args_start_shorter:
  assumes "\<And>p args st. post (shorter st) (L p args st)"
  shows "post (shorter st) (args_start L close arg1 st)"
  unfolding args_start_def Let_def
  by (auto split: option.split intro!: post_mono [OF assms] simp: shorter_def dest: below_next)

lemma args_round_shorter:
  assumes "\<And>q st. post (shorter st) (PT q st)" and "\<And>args st. post (shorter st) (L args st)"
  shows "post (shorter st) (args_round PT L close p args st)"
proof -
  have "post (shorter st) (if tok st' = Ponctuation_tok '','' then L as (GNextToken (st'\<lparr>aux_sp := i\<rparr>))
      else bindP (checkfor close (st'\<lparr>aux_sp := j\<rparr>)) (\<lambda>_. Parsed bs))"
    if "len st' < len st" for st' as bs i j
    using that len_next_le [of "st'\<lparr>aux_sp := i\<rparr>"] len_next_le [of "st'\<lparr>aux_sp := j\<rparr>"]
    by (auto intro!: post_mono [OF assms(2)] post_bind [OF post_checkfor] simp: shorter_def)
  then show ?thesis
    unfolding args_round_def by (auto intro!: post_bind [OF assms(1)] simp: shorter_def)
qed

lemma list_round_shorter:
  assumes "\<And>q st. post (shorter st) (PT q st)" and "\<And>st. post (shorter st) (L st)"
  shows "post (shorter st) (list_round PT L st)"
proof -
  have "post (shorter st) (bindP (L (GNextToken st')) (\<lambda>t2. Parsed (PairT t t2)))"
    and "post (shorter st) (bindP (PT 999 (GNextToken st')) (\<lambda>t2. Parsed (PairT t t2)))"
    if "len st' < len st" for st' t
    using that
    by (auto intro!: post_bind [OF assms(1)] post_bind [OF assms(2)] simp: shorter_def dest!: below_next(1))
  then show ?thesis
    unfolding list_round_def
    by (auto intro!: post_bind [OF assms(1)] simp: shorter_def split: token.split)
qed

lemma parser_shorter:
  "(\<forall>q st. post (shorter st) (ParseTerm E R n q st))
    \<and> (\<forall>q c t st. post (not_longer st) (ParseRest E R n q c t st))
    \<and> (\<forall>c a st. post (shorter st) (ParseArgs E R n c a st))
    \<and> (\<forall>c p args st. post (shorter st) (ParseArgs_loop E R n c p args st))
    \<and> (\<forall>st. post (shorter st) (ParseList E R n st))"
proof (induction n)
  case 0
  show ?case by simp
next
  case (Suc n)
  have C: "consuming (ParseTerm E R n) (ParseArgs E R n) (ParseList E R n) (ParseRest E R n)"
    using Suc by unfold_locales blast+
  have "post (shorter st) (ParseTerm E R (Suc n) q st)" for q st
    by (auto intro!: post_bind [OF consuming.primary [OF C]] post_mono [OF consuming.PR [OF C]]
        simp: shorter_defs)
  moreover have "post (not_longer st) (ParseRest E R (Suc n) q c t st)" for q c t st
    using consuming.rest [OF C] by simp
  moreover have "post (shorter st) (ParseArgs E R (Suc n) c a st)" for c a st
    using args_start_shorter [of "ParseArgs_loop E R n c"] Suc by simp
  moreover have "post (shorter st) (ParseArgs_loop E R (Suc n) c p args st)" for c p args st
    using args_round_shorter [of "ParseTerm E R n" "ParseArgs_loop E R n c p"] Suc by simp
  moreover have "post (shorter st) (ParseList E R (Suc n) st)" for st
    using list_round_shorter [of "ParseTerm E R n" "ParseList E R n"] Suc by simp
  ultimately show ?case by blast
qed

interpretation consume: consuming "ParseTerm E R n" "ParseArgs E R n" "ParseList E R n" "ParseRest E R n"
  for E R n
  using parser_shorter [of E R n] by unfold_locales blast+

section \<open>The fuel is enough\<close>

lemma bind_finished:
  assumes "post P p" and "p \<noteq> Unfinished" and "\<And>x st. P x st \<Longrightarrow> f x st \<noteq> Unfinished"
  shows "bindP p f \<noteq> Unfinished"
  using assms by (cases p) auto

lemma TRY_finished:
  assumes "post P p" and "p \<noteq> Unfinished" and "\<And>x st. P x st \<Longrightarrow> f x st \<noteq> Unfinished"
    and "\<And>sp b. g \<lparr>tokptr = tokptr saved, aux_sp = sp, shrunk = b\<rparr> \<noteq> Unfinished"
  shows "TRY saved p f g \<noteq> Unfinished"
  using assms(1-3) assms(4) [of "aux_sp st'" "shrunk st'" for st'] by (cases p) (auto simp: state_eta)

lemma checkfor_finished [simp]: "checkfor c st \<noteq> Unfinished"
  by (simp add: checkfor_def)

lemma bind_checkfor_finished [simp]: "bindP (checkfor c st) (\<lambda>_. Parsed x) \<noteq> Unfinished"
  by (simp add: checkfor_def)

text \<open>The branches finish when the functions finish on the shorter states that they are called with.\<close>

lemma atom_or_compound_finished:
  assumes "\<And>c a. PA c a st \<noteq> Unfinished"
  shows "atom_or_compound PA a st \<noteq> Unfinished"
  using assms by (cases "PA '')'' None st") (auto simp: atom_or_compound_def)

lemma primary_finished:
  assumes "\<And>q st'. len st' < len st \<Longrightarrow> PT q st' \<noteq> Unfinished"
    and "\<And>c a st'. len st' < len st \<Longrightarrow> PA c a st' \<noteq> Unfinished"
    and "\<And>st'. len st' < len st \<Longrightarrow> PL st' \<noteq> Unfinished"
  shows "primary E R PT PA PL prio st \<noteq> Unfinished"
proof (cases "tok st")
  case (Name_tok a)
  let ?st = "GNextToken st"
  have less: "len ?st < len st" using Name_tok by simp
  have alone: "atom_or_compound PA a \<lparr>tokptr = tokptr ?st, aux_sp = sp, shrunk = b\<rparr> \<noteq> Unfinished" for sp b
    using less by (intro atom_or_compound_finished assms(2)) simp
  have "TRY ?st (PT q ?st) (\<lambda>t. Parsed (g t)) (atom_or_compound PA a) \<noteq> Unfinished" for q g
    by (rule TRY_finished [where P = "\<lambda>_ _. True"]) (use assms(1) [OF less] alone in \<open>auto simp: post_def split: parsed.split\<close>)
  then have "prefix_operator E R PT PA prio a ?st \<noteq> Unfinished"
    using alone [of "aux_sp ?st" "shrunk ?st"] by (simp add: prefix_operator_def split: option.split)
  then show ?thesis
    by (simp add: Name_tok primary_def name_primary_def split: token.split sum.split)
next
  case (Ponctuation_tok c)
  let ?st = "GNextToken st"
  have less: "len ?st < len st" using Ponctuation_tok by simp
  have "bracketed PT close f ?st \<noteq> Unfinished" for close f
    using assms(1) [OF less, of GLOBAL_MaxPriority]
    by (cases "PT GLOBAL_MaxPriority ?st") (auto simp: bracketed_def)
  moreover have "bindP (PL ?st) (\<lambda>t st. bindP (checkfor '']'' st) (\<lambda>_. Parsed (t, 0 :: nat))) \<noteq> Unfinished"
    using assms(3) [OF less] by (cases "PL ?st") auto
  ultimately show ?thesis
    by (simp add: Ponctuation_tok primary_def ponctuation_primary_def Let_def)
qed (auto simp: primary_def)

lemma rest_finished:
  assumes "\<And>q st'. len st' < len st \<Longrightarrow> PT q st' \<noteq> Unfinished"
    and "\<And>q p t st'. len st' < len st \<Longrightarrow> PR q p t st' \<noteq> Unfinished"
    and "\<And>c a. PA c a st \<noteq> Unfinished"
    and "\<And>q st. post (shorter st) (PT q st)" and "\<And>c a st. post (shorter st) (PA c a st)"
  shows "term_rest R PT PA PR prio curprio t st \<noteq> Unfinished"
proof (cases "tok st")
  case (Name_tok a)
  have nx: "len (GNextToken \<lparr>tokptr = tokptr st, aux_sp = sp, shrunk = b\<rparr>) < len st" for sp b
    using Name_tok len_next_less [of "\<lparr>tokptr = tokptr st, aux_sp = sp, shrunk = b\<rparr>"] by simp
  then have post: "posfix_rest R PR prio curprio t a \<lparr>tokptr = tokptr st, aux_sp = sp, shrunk = b\<rparr> \<noteq> Unfinished" for sp b
    using assms(2) by (simp add: posfix_rest_def split: option.split)
  have "TRY st (PT q (GNextToken st)) (\<lambda>t2. PR q' p (f t2)) (posfix_rest R PR prio curprio t a) \<noteq> Unfinished"
    for q q' p f
    by (rule TRY_finished [OF assms(4)])
       (use nx [of "aux_sp st" "shrunk st"] assms(1,2) post in \<open>auto simp: shorter_def\<close>)
  then show ?thesis
    using post [of "aux_sp st" "shrunk st"] by (simp add: Name_tok term_rest_def name_rest_def split: option.split)
next
  case (Ponctuation_tok c)
  have nx: "len (GNextToken st) < len st" using Ponctuation_tok by simp
  have "bindP (PT q (GNextToken st)) (\<lambda>t2. PR q' p (f t2)) \<noteq> Unfinished" for q q' p f
    by (rule bind_finished [OF assms(4)]) (use nx assms(1,2) in \<open>auto simp: shorter_def\<close>)
  moreover have "bindP (PA c a st) (\<lambda>t2. PR q' p (f t2)) \<noteq> Unfinished" for c a q' p f
    by (rule bind_finished [OF assms(5)]) (use nx assms(2,3) in \<open>auto simp: shorter_def\<close>)
  ultimately show ?thesis
    by (simp add: Ponctuation_tok term_rest_def ponctuation_rest_def brackets_rest_def split: option.split)
qed (auto simp: term_rest_def)

lemma args_round_finished:
  assumes "\<And>q st'. len st' \<le> len st \<Longrightarrow> PT q st' \<noteq> Unfinished" and "\<And>as st'. len st' < len st \<Longrightarrow> L as st' \<noteq> Unfinished"
    and "\<And>q st. post (shorter st) (PT q st)"
  shows "args_round PT L close p args st \<noteq> Unfinished"
proof -
  have "(if tok st' = Ponctuation_tok '','' then L as (GNextToken (st'\<lparr>aux_sp := i\<rparr>))
      else bindP (checkfor close (st'\<lparr>aux_sp := j\<rparr>)) (\<lambda>_. Parsed bs)) \<noteq> Unfinished"
    if "len st' < len st" for st' as bs i j
    using that len_next_le [of "st'\<lparr>aux_sp := i\<rparr>"] by (simp add: assms(2))
  then show ?thesis
    unfolding args_round_def by (intro bind_finished [OF assms(3,1)]) (auto simp: shorter_def)
qed

lemma list_round_finished:
  assumes "\<And>q st'. len st' \<le> len st \<Longrightarrow> PT q st' \<noteq> Unfinished"
    and "\<And>st'. len st' < len st \<Longrightarrow> L st' \<noteq> Unfinished"
    and "\<And>q st. post (shorter st) (PT q st)"
  shows "list_round PT L st \<noteq> Unfinished"
proof -
  have cons: "p \<noteq> Unfinished \<Longrightarrow> bindP p (\<lambda>t2. Parsed (PairT t t2)) \<noteq> Unfinished"
    for p :: "('b trm, 'b) parsed" and t
    by (cases p) auto
  have "bindP (L (GNextToken st')) (\<lambda>t2. Parsed (PairT t t2)) \<noteq> Unfinished"
    and "bindP (PT 999 (GNextToken st')) (\<lambda>t2. Parsed (PairT t t2)) \<noteq> Unfinished"
    if "len st' < len st" for st' t
    using that by (auto intro!: cons assms(1,2) len_next_trans)
  then show ?thesis
    unfolding list_round_def
    by (intro bind_finished [OF assms(3)] assms(1)) (simp_all add: shorter_def split: token.split)
qed

lemma parser_finished:
  "(\<forall>q st. 4 * len st + 1 \<le> n \<longrightarrow> ParseTerm E R n q st \<noteq> Unfinished)
    \<and> (\<forall>q c t st. 4 * len st + 4 \<le> n \<longrightarrow> ParseRest E R n q c t st \<noteq> Unfinished)
    \<and> (\<forall>c a st. 4 * len st + 3 \<le> n \<longrightarrow> ParseArgs E R n c a st \<noteq> Unfinished)
    \<and> (\<forall>c p args st. 4 * len st + 2 \<le> n \<longrightarrow> ParseArgs_loop E R n c p args st \<noteq> Unfinished)
    \<and> (\<forall>st. 4 * len st + 2 \<le> n \<longrightarrow> ParseList E R n st \<noteq> Unfinished)"
proof (induction n)
  case 0
  show ?case by simp
next
  case (Suc n)
  have "ParseTerm E R (Suc n) q st \<noteq> Unfinished" if "4 * len st + 1 \<le> Suc n" for q st
  proof -
    have "primary E R (ParseTerm E R n) (ParseArgs E R n) (ParseList E R n) q st \<noteq> Unfinished"
      by (rule primary_finished) (use Suc that in auto)
    then have "bindP (primary E R (ParseTerm E R n) (ParseArgs E R n) (ParseList E R n) q st)
        (\<lambda>(t, curprio). ParseRest E R n q curprio t) \<noteq> Unfinished"
      by (rule bind_finished [OF consume.primary]) (use Suc that in \<open>auto simp: shorter_def\<close>)
    then show ?thesis by simp
  qed
  moreover have "ParseRest E R (Suc n) q c t st \<noteq> Unfinished" if "4 * len st + 4 \<le> Suc n" for q c t st
  proof -
    have "term_rest R (ParseTerm E R n) (ParseArgs E R n) (ParseRest E R n) q c t st \<noteq> Unfinished"
      by (rule rest_finished) (use Suc that consume.PT consume.PA in auto)
    then show ?thesis by simp
  qed
  moreover have "ParseArgs E R (Suc n) c a st \<noteq> Unfinished" if "4 * len st + 3 \<le> Suc n" for c a st
  proof -
    have "4 * len (GNextToken st) + 2 \<le> n" using that len_next_le [of st] by linarith
    then show ?thesis using Suc by (simp add: args_start_def Let_def split: option.split)
  qed
  moreover have "ParseArgs_loop E R (Suc n) c p args st \<noteq> Unfinished" if "4 * len st + 2 \<le> Suc n"
    for c p args st
  proof -
    have "args_round (ParseTerm E R n) (ParseArgs_loop E R n c p) c p args st \<noteq> Unfinished"
      by (rule args_round_finished) (use Suc that consume.PT in auto)
    then show ?thesis by simp
  qed
  moreover have "ParseList E R (Suc n) st \<noteq> Unfinished" if "4 * len st + 2 \<le> Suc n" for st
  proof -
    have "list_round (ParseTerm E R n) (ParseList E R n) st \<noteq> Unfinished"
      by (rule list_round_finished) (use Suc that consume.PT in auto)
    then show ?thesis by simp
  qed
  ultimately show ?case by blast
qed

section \<open>More fuel changes nothing\<close>

definition refined_by :: "('a, 'f) parsed \<Rightarrow> ('a, 'f) parsed \<Rightarrow> bool" where
  "refined_by p q \<longleftrightarrow> p = Unfinished \<or> p = q"

lemma refined_by_refl [simp]: "refined_by p p"
  by (simp add: refined_by_def)

lemma refined_by_Unfinished [simp]: "refined_by Unfinished p"
  by (simp add: refined_by_def)

lemma refined_byD: "refined_by p q \<Longrightarrow> p \<noteq> Unfinished \<Longrightarrow> q = p"
  by (simp add: refined_by_def)

lemma refined_bind:
  assumes "refined_by p q" and "\<And>x st. refined_by (f x st) (g x st)"
  shows "refined_by (bindP p f) (bindP q g)"
proof (cases p)
  case (Parsed x st)
  then show ?thesis using assms(1) assms(2) [of x st] by (auto simp: refined_by_def)
qed (use assms(1) in \<open>auto simp: refined_by_def\<close>)

lemma refined_TRY:
  assumes "refined_by p q" and "\<And>x st. refined_by (f x st) (f' x st)" and "\<And>st. refined_by (g st) (g' st)"
  shows "refined_by (TRY saved p f g) (TRY saved q f' g')"
proof (cases p)
  case (Parsed x st)
  then show ?thesis using assms(1) assms(2) [of x st] by (auto simp: refined_by_def)
next
  case (Failed st)
  then show ?thesis using assms(1) assms(3) [of "st\<lparr>tokptr := tokptr saved\<rparr>"] by (auto simp: refined_by_def)
qed (use assms(1) in \<open>auto simp: refined_by_def\<close>)

text \<open>The branches, for functions that are refined by others.\<close>

locale refining =
  fixes PT PT' :: "'f term_parser" and PA PA' :: "'f args_parser" and PL PL' :: "'f list_parser"
    and PR PR' :: "'f rest_parser"
  assumes PT: "refined_by (PT q st) (PT' q st)"
    and PA: "refined_by (PA c a st) (PA' c a st)"
    and PL: "refined_by (PL st) (PL' st)"
    and PR: "refined_by (PR q p t st) (PR' q p t st)"
begin

lemma atom_or_compound: "refined_by (atom_or_compound PA a st) (atom_or_compound PA' a st)"
  unfolding atom_or_compound_def by (auto intro!: refined_bind PA)

lemma prefix_operator:
  "refined_by (prefix_operator E R PT PA prio a st) (prefix_operator E R PT' PA' prio a st)"
  unfolding prefix_operator_def
  by (auto intro!: refined_TRY PT atom_or_compound split: option.split)

lemma bracketed: "refined_by (bracketed PT c f st) (bracketed PT' c f st)"
  unfolding bracketed_def by (auto intro!: refined_bind PT)

lemma primary:
  "refined_by (primary E R PT PA PL prio st) (primary E R PT' PA' PL' prio st)"
proof -
  have "refined_by (name_primary E R PT PA prio a st) (name_primary E R PT' PA' prio a st)" for a st
    unfolding name_primary_def using prefix_operator by (simp split: token.split sum.split)
  moreover have "refined_by (ponctuation_primary R PT PL c st) (ponctuation_primary R PT' PL' c st)" for c st
    unfolding ponctuation_primary_def Let_def by (auto intro!: bracketed refined_bind PL)
  ultimately show ?thesis unfolding primary_def by (simp split: token.split)
qed

lemma posfix_rest: "refined_by (posfix_rest R PR prio p t a st) (posfix_rest R PR' prio p t a st)"
  unfolding posfix_rest_def by (simp add: PR split: option.split)

lemma rest: "refined_by (term_rest R PT PA PR prio p t st) (term_rest R PT' PA' PR' prio p t st)"
proof -
  have "refined_by (name_rest R PT PR prio p t a st) (name_rest R PT' PR' prio p t a st)" for a
    unfolding name_rest_def
    by (auto intro!: refined_TRY posfix_rest PT PR split: option.split)
  moreover have "refined_by (brackets_rest R PA PR prio p t a c f st) (brackets_rest R PA' PR' prio p t a c f st)"
    for a c f
    unfolding brackets_rest_def by (auto intro!: refined_bind PA PR split: option.split)
  moreover have "refined_by (bindP (PT q (GNextToken st)) (\<lambda>t2. PR q' p' (g t2)))
      (bindP (PT' q (GNextToken st)) (\<lambda>t2. PR' q' p' (g t2)))" for q q' p' g
    by (intro refined_bind PT PR)
  ultimately show ?thesis
    unfolding term_rest_def ponctuation_rest_def by (auto split: token.split option.split)
qed

end

lemma args_start_refined:
  assumes "\<And>p args st. refined_by (L p args st) (L' p args st)"
  shows "refined_by (args_start L c a st) (args_start L' c a st)"
  using assms by (simp add: args_start_def Let_def split: option.split)

lemma args_round_refined:
  assumes "\<And>q st. refined_by (PT q st) (PT' q st)" and "\<And>args st. refined_by (L args st) (L' args st)"
  shows "refined_by (args_round PT L c p args st) (args_round PT' L' c p args st)"
  unfolding args_round_def by (auto intro!: refined_bind assms)

lemma list_round_refined:
  assumes "\<And>q st. refined_by (PT q st) (PT' q st)" and "\<And>st. refined_by (L st) (L' st)"
  shows "refined_by (list_round PT L st) (list_round PT' L' st)"
  unfolding list_round_def by (auto intro!: refined_bind assms split: token.split)

lemma parser_refined_Suc:
  "(\<forall>q st. refined_by (ParseTerm E R n q st) (ParseTerm E R (Suc n) q st))
    \<and> (\<forall>q c t st. refined_by (ParseRest E R n q c t st) (ParseRest E R (Suc n) q c t st))
    \<and> (\<forall>c a st. refined_by (ParseArgs E R n c a st) (ParseArgs E R (Suc n) c a st))
    \<and> (\<forall>c p args st. refined_by (ParseArgs_loop E R n c p args st) (ParseArgs_loop E R (Suc n) c p args st))
    \<and> (\<forall>st. refined_by (ParseList E R n st) (ParseList E R (Suc n) st))"
proof (induction n)
  case 0
  show ?case by (simp del: ParseTerm.simps(2) ParseRest.simps(2) ParseArgs.simps(2)
      ParseArgs_loop.simps(2) ParseList.simps(2))
next
  case (Suc n)
  have R: "refining (ParseTerm E R n) (ParseTerm E R (Suc n)) (ParseArgs E R n) (ParseArgs E R (Suc n))
      (ParseList E R n) (ParseList E R (Suc n)) (ParseRest E R n) (ParseRest E R (Suc n))"
    using Suc by unfold_locales blast+
  have "refined_by (ParseTerm E R (Suc n) q st) (ParseTerm E R (Suc (Suc n)) q st)" for q st
    unfolding ParseTerm.simps(2) [of E R "Suc n" q st] ParseTerm.simps(2) [of E R n q st]
    by (rule refined_bind [OF refining.primary [OF R]]) (simp add: refining.PR [OF R] del: ParseRest.simps split: prod.split)
  moreover have "refined_by (ParseRest E R (Suc n) q c t st) (ParseRest E R (Suc (Suc n)) q c t st)" for q c t st
    unfolding ParseRest.simps(2) [of E R "Suc n" q c t st] ParseRest.simps(2) [of E R n q c t st] by (rule refining.rest [OF R])
  moreover have "refined_by (ParseArgs E R (Suc n) c a st) (ParseArgs E R (Suc (Suc n)) c a st)" for c a st
    unfolding ParseArgs.simps(2) [of E R "Suc n" c a st] ParseArgs.simps(2) [of E R n c a st]
    by (rule args_start_refined) (use Suc in blast)
  moreover have "refined_by (ParseArgs_loop E R (Suc n) c p args st) (ParseArgs_loop E R (Suc (Suc n)) c p args st)"
    for c p args st
    unfolding ParseArgs_loop.simps(2) [of E R "Suc n" c p args st] ParseArgs_loop.simps(2) [of E R n c p args st]
    by (rule args_round_refined) (use Suc in blast)+
  moreover have "refined_by (ParseList E R (Suc n) st) (ParseList E R (Suc (Suc n)) st)" for st
    unfolding ParseList.simps(2) [of E R "Suc n" st] ParseList.simps(2) [of E R n st]
    by (rule list_round_refined) (use Suc in blast)+
  ultimately show ?case by blast
qed

lemma refined_by_trans: "refined_by p q \<Longrightarrow> refined_by q r \<Longrightarrow> refined_by p r"
  by (auto simp: refined_by_def)

lemma parser_refined:
  assumes "n \<le> m"
  shows "refined_by (ParseTerm E R n q st) (ParseTerm E R m q st)
    \<and> refined_by (ParseRest E R n q c t st) (ParseRest E R m q c t st)
    \<and> refined_by (ParseArgs E R n cl a st) (ParseArgs E R m cl a st)
    \<and> refined_by (ParseArgs_loop E R n cl p args st) (ParseArgs_loop E R m cl p args st)
    \<and> refined_by (ParseList E R n st) (ParseList E R m st)"
  using assms
proof (induction m rule: dec_induct)
  case base
  show ?case by simp
next
  case (step k)
  then show ?case using parser_refined_Suc [of E R k] by (blast intro: refined_by_trans)
qed

section \<open>The functions without fuel\<close>

definition parse_term :: "'f env \<Rightarrow> reader \<Rightarrow> 'f term_parser" where
  "parse_term E R q st = ParseTerm E R (enough_fuel (tokptr st)) q st"

definition parse_rest :: "'f env \<Rightarrow> reader \<Rightarrow> 'f rest_parser" where
  "parse_rest E R q c t st = ParseRest E R (enough_fuel (tokptr st)) q c t st"

definition parse_args :: "'f env \<Rightarrow> reader \<Rightarrow> 'f args_parser" where
  "parse_args E R c a st = ParseArgs E R (enough_fuel (tokptr st)) c a st"

definition parse_args_loop ::
    "'f env \<Rightarrow> reader \<Rightarrow> string \<Rightarrow> nat \<Rightarrow> 'f trm list \<Rightarrow> 'f parser_state \<Rightarrow> ('f trm list, 'f) parsed" where
  "parse_args_loop E R c p args st = ParseArgs_loop E R (enough_fuel (tokptr st)) c p args st"

definition parse_list :: "'f env \<Rightarrow> reader \<Rightarrow> 'f list_parser" where
  "parse_list E R st = ParseList E R (enough_fuel (tokptr st)) st"

lemmas parse_defs = parse_term_def parse_rest_def parse_args_def parse_args_loop_def parse_list_def

lemma parse_finished [simp]:
  "parse_term E R q st \<noteq> Unfinished"
  "parse_rest E R q c t st \<noteq> Unfinished"
  "parse_args E R cl a st \<noteq> Unfinished"
  "parse_args_loop E R cl p args st \<noteq> Unfinished"
  "parse_list E R st \<noteq> Unfinished"
  by (simp_all add: parse_defs enough_fuel_def parser_finished)

lemma refined_fuel:
  "n \<le> m \<Longrightarrow> refined_by (ParseTerm E R n q st) (ParseTerm E R m q st)"
  "n \<le> m \<Longrightarrow> refined_by (ParseRest E R n q c t st) (ParseRest E R m q c t st)"
  "n \<le> m \<Longrightarrow> refined_by (ParseArgs E R n cl a st) (ParseArgs E R m cl a st)"
  "n \<le> m \<Longrightarrow> refined_by (ParseArgs_loop E R n cl p args st) (ParseArgs_loop E R m cl p args st)"
  "n \<le> m \<Longrightarrow> refined_by (ParseList E R n st) (ParseList E R m st)"
  by (simp_all add: parser_refined)

lemma parse_eq:
  "enough_fuel (tokptr st) \<le> n \<Longrightarrow> ParseTerm E R n q st = parse_term E R q st"
  "enough_fuel (tokptr st) \<le> n \<Longrightarrow> ParseRest E R n q c t st = parse_rest E R q c t st"
  "enough_fuel (tokptr st) \<le> n \<Longrightarrow> ParseArgs E R n cl a st = parse_args E R cl a st"
  "enough_fuel (tokptr st) \<le> n \<Longrightarrow> ParseArgs_loop E R n cl p args st = parse_args_loop E R cl p args st"
  "enough_fuel (tokptr st) \<le> n \<Longrightarrow> ParseList E R n st = parse_list E R st"
  unfolding parse_defs
  by (erule refined_byD [OF refined_fuel(1)] refined_byD [OF refined_fuel(2)] refined_byD [OF refined_fuel(3)]
      refined_byD [OF refined_fuel(4)] refined_byD [OF refined_fuel(5)],
      rule parse_finished [unfolded parse_defs])+

lemma parse_refines:
  "refined_by (ParseTerm E R n q st) (parse_term E R q st)"
  "refined_by (ParseRest E R n q c t st) (parse_rest E R q c t st)"
  "refined_by (ParseArgs E R n cl a st) (parse_args E R cl a st)"
  "refined_by (ParseArgs_loop E R n cl p args st) (parse_args_loop E R cl p args st)"
  "refined_by (ParseList E R n st) (parse_list E R st)"
proof -
  let ?k = "enough_fuel (tokptr st)"
  have "n \<le> ?k \<Longrightarrow> refined_by (ParseTerm E R n q st) (parse_term E R q st)"
    "n \<le> ?k \<Longrightarrow> refined_by (ParseRest E R n q c t st) (parse_rest E R q c t st)"
    "n \<le> ?k \<Longrightarrow> refined_by (ParseArgs E R n cl a st) (parse_args E R cl a st)"
    "n \<le> ?k \<Longrightarrow> refined_by (ParseArgs_loop E R n cl p args st) (parse_args_loop E R cl p args st)"
    "n \<le> ?k \<Longrightarrow> refined_by (ParseList E R n st) (parse_list E R st)"
    unfolding parse_defs by (rule refined_fuel; assumption)+
  then show "refined_by (ParseTerm E R n q st) (parse_term E R q st)"
    "refined_by (ParseRest E R n q c t st) (parse_rest E R q c t st)"
    "refined_by (ParseArgs E R n cl a st) (parse_args E R cl a st)"
    "refined_by (ParseArgs_loop E R n cl p args st) (parse_args_loop E R cl p args st)"
    "refined_by (ParseList E R n st) (parse_list E R st)"
    by (cases "n \<le> ?k"; simp add: parse_eq)+
qed

interpretation full: refining "ParseTerm E R n" "parse_term E R" "ParseArgs E R n" "parse_args E R"
    "ParseList E R n" "parse_list E R" "ParseRest E R n" "parse_rest E R"
  for E R n
  by unfold_locales (rule parse_refines)+

lemma parse_equation:
  assumes "\<And>n. n \<ge> k \<Longrightarrow> X n = Y" and "\<And>n. refined_by (X (Suc n)) Z" and "Y \<noteq> Unfinished"
  shows "Y = Z"
  using assms(1) [of "Suc k"] assms(2) [of k] assms(3) by (simp add: refined_by_def)

lemma parse_term_eq: "parse_term E R q st =
  bindP (primary E R (parse_term E R) (parse_args E R) (parse_list E R) q st) (\<lambda>(t, c). parse_rest E R q c t)"
proof (rule parse_equation [where X = "\<lambda>n. ParseTerm E R n q st", OF parse_eq(1)])
  show "refined_by (ParseTerm E R (Suc n) q st) (bindP (primary E R (parse_term E R) (parse_args E R)
      (parse_list E R) q st) (\<lambda>(t, c). parse_rest E R q c t))" for n
    unfolding ParseTerm.simps(2) [of E R n q st]
    by (rule refined_bind [OF full.primary]) (simp add: full.PR split: prod.split)
qed simp_all

lemma parse_rest_eq: "parse_rest E R q c t st =
  term_rest R (parse_term E R) (parse_args E R) (parse_rest E R) q c t st"
proof (rule parse_equation [where X = "\<lambda>n. ParseRest E R n q c t st", OF parse_eq(2)])
  show "refined_by (ParseRest E R (Suc n) q c t st)
      (term_rest R (parse_term E R) (parse_args E R) (parse_rest E R) q c t st)" for n
    unfolding ParseRest.simps(2) [of E R n q c t st] by (rule full.rest)
qed simp_all

lemma parse_args_eq: "parse_args E R cl a st = args_start (parse_args_loop E R cl) cl a st"
proof (rule parse_equation [where X = "\<lambda>n. ParseArgs E R n cl a st", OF parse_eq(3)])
  show "refined_by (ParseArgs E R (Suc n) cl a st) (args_start (parse_args_loop E R cl) cl a st)" for n
    unfolding ParseArgs.simps(2) [of E R n cl a st] by (rule args_start_refined) (rule parse_refines)
qed simp_all

lemma parse_args_loop_eq: "parse_args_loop E R cl p args st =
  args_round (parse_term E R) (parse_args_loop E R cl p) cl p args st"
proof (rule parse_equation [where X = "\<lambda>n. ParseArgs_loop E R n cl p args st", OF parse_eq(4)])
  show "refined_by (ParseArgs_loop E R (Suc n) cl p args st)
      (args_round (parse_term E R) (parse_args_loop E R cl p) cl p args st)" for n
    unfolding ParseArgs_loop.simps(2) [of E R n cl p args st] by (rule args_round_refined) (rule parse_refines)+
qed simp_all

lemma parse_list_eq: "parse_list E R st = list_round (parse_term E R) (parse_list E R) st"
proof (rule parse_equation [where X = "\<lambda>n. ParseList E R n st", OF parse_eq(5)])
  show "refined_by (ParseList E R (Suc n) st) (list_round (parse_term E R) (parse_list E R) st)" for n
    unfolding ParseList.simps(2) [of E R n st] by (rule list_round_refined) (rule parse_refines)+
qed simp_all

end
