(* ===== verification/YapGrammar.thy ===== *)
theory YapGrammar
  imports YapParserEnds
begin

text \<open>
  What a list of tokens means: the grammar of terms with operators, as rules. \<open>phrase E R ts t p\<close> says that
  the tokens \<open>ts\<close> are a text of the term \<open>t\<close> of priority \<open>p\<close>. An operand has at most the priority that its
  operator allows at its side, an argument at most 999, and a term in brackets has priority 0; an
  atom has priority 0 even if it is an operator. The parser is proved sound for these rules.
\<close>

section \<open>The grammar\<close>

inductive phrase :: "'f env \<Rightarrow> reader \<Rightarrow> 'f tokens \<Rightarrow> 'f trm \<Rightarrow> nat \<Rightarrow> bool"
  and arguments :: "'f env \<Rightarrow> reader \<Rightarrow> 'f tokens \<Rightarrow> 'f trm list \<Rightarrow> bool"
  and elements :: "'f env \<Rightarrow> reader \<Rightarrow> 'f tokens \<Rightarrow> 'f trm \<Rightarrow> bool"
  for E :: "'f env" and R :: reader where
  atom: "phrase E R [Name_tok a] (AtmT a) 0"
| number: "phrase E R [Number_tok t] t 0"
| strng: "phrase E R [String_tok t] t 0"
| variable: "phrase E R [Var_tok p] (VarT p) 0"
| minus: "neg_number E t = Inr t' \<Longrightarrow> phrase E R [Name_tok ''-'', Number_tok t] t' 0"
| signed: "pre_op R a \<noteq> None \<Longrightarrow> signed_constant E a x = Some t \<Longrightarrow> phrase E R [Name_tok a, x] t 0"
| compound: "arguments E R ts args \<Longrightarrow>
    phrase E R (Name_tok a # Ponctuation_tok ''l'' # ts @ [Ponctuation_tok '')'']) (args_term a args) 0"
| brackets: "take 1 c = ''('' \<or> take 1 c = ''l'' \<Longrightarrow> phrase E R ts t p \<Longrightarrow> p \<le> GLOBAL_MaxPriority \<Longrightarrow>
    phrase E R (Ponctuation_tok c # ts @ [Ponctuation_tok '')'']) t 0"
| empty_list: "take 1 c = ''['' \<Longrightarrow> phrase E R [Ponctuation_tok c, Ponctuation_tok '']''] TermNil 0"
| list: "take 1 c = ''['' \<Longrightarrow> elements E R ts t \<Longrightarrow>
    phrase E R (Ponctuation_tok c # ts @ [Ponctuation_tok '']'']) t 0"
| empty_braces: "take 1 c = ''{'' \<Longrightarrow> closes_braces R x \<Longrightarrow>
    phrase E R [Ponctuation_tok c, x] (AtmT ''{}'') 0"
| braces: "take 1 c = ''{'' \<Longrightarrow> phrase E R ts t p \<Longrightarrow> p \<le> GLOBAL_MaxPriority \<Longrightarrow>
    phrase E R (Ponctuation_tok c # ts @ [Ponctuation_tok ''}'']) (Yap_MkApplTerm ''{}'' 1 [t]) 0"
| prefix: "pre_op R a = Some (opprio, rprio) \<Longrightarrow> phrase E R ts t p \<Longrightarrow> p \<le> rprio \<Longrightarrow>
    phrase E R (Name_tok a # ts) (Yap_MkApplTerm a 1 [t]) opprio"
| between: "in_op R a = Some (opprio, lprio, rprio) \<Longrightarrow> phrase E R ts1 t1 p1 \<Longrightarrow> p1 \<le> lprio \<Longrightarrow>
    phrase E R ts2 t2 p2 \<Longrightarrow> p2 \<le> rprio \<Longrightarrow>
    phrase E R (ts1 @ Name_tok a # ts2) (Yap_MkApplTerm a 2 [t1, t2]) opprio"
| postfix: "post_op R a = Some (opprio, lprio) \<Longrightarrow> phrase E R ts t p \<Longrightarrow> p \<le> lprio \<Longrightarrow>
    phrase E R (ts @ [Name_tok a]) (Yap_MkApplTerm a 1 [t]) opprio"
| comma: "phrase E R ts1 t1 p1 \<Longrightarrow> p1 \<le> 999 \<Longrightarrow> phrase E R ts2 t2 p2 \<Longrightarrow> p2 \<le> 1000 \<Longrightarrow>
    phrase E R (ts1 @ Ponctuation_tok '','' # ts2) (Yap_MkApplTerm '','' 2 [t1, t2]) 1000"
| bar: "in_op R ''|'' = Some (opprio, lprio, rprio) \<Longrightarrow> phrase E R ts1 t1 p1 \<Longrightarrow> p1 \<le> lprio \<Longrightarrow>
    phrase E R ts2 t2 p2 \<Longrightarrow> p2 \<le> rprio \<Longrightarrow>
    phrase E R (ts1 @ Ponctuation_tok ''|'' # ts2) (Yap_MkApplTerm ''|'' 2 [t1, t2]) opprio"
| applied: "post_op R ''()'' = Some (opprio, lprio) \<Longrightarrow> phrase E R ts t p \<Longrightarrow> p \<le> lprio \<Longrightarrow>
    arguments E R ts2 args \<Longrightarrow>
    phrase E R (ts @ Ponctuation_tok ''('' # ts2 @ [Ponctuation_tok '')'']) (args_term ''()'' (t # args)) opprio"
| indexed: "post_op R ''[]'' = Some (opprio, lprio) \<Longrightarrow> phrase E R ts t p \<Longrightarrow> p \<le> lprio \<Longrightarrow>
    arguments E R ts2 args \<Longrightarrow>
    phrase E R (ts @ Ponctuation_tok ''['' # ts2 @ [Ponctuation_tok '']'']) (MakeAccessor (t # args) ''[]'' 2) opprio"
| braced: "post_op R ''{}'' = Some (opprio, lprio) \<Longrightarrow> phrase E R ts t p \<Longrightarrow> p \<le> lprio \<Longrightarrow>
    arguments E R ts2 args \<Longrightarrow>
    phrase E R (ts @ Ponctuation_tok ''{'' # ts2 @ [Ponctuation_tok ''}'']) (MakeAccessor (t # args) ''{}'' 1) opprio"
| argument: "phrase E R ts t p \<Longrightarrow> p \<le> 999 \<Longrightarrow> arguments E R ts [t]"
| more_arguments: "phrase E R ts t p \<Longrightarrow> p \<le> 999 \<Longrightarrow> arguments E R ts' args \<Longrightarrow>
    arguments E R (ts @ Ponctuation_tok '','' # ts') (t # args)"
| element: "phrase E R ts t p \<Longrightarrow> p \<le> 999 \<Longrightarrow> elements E R ts (PairT t TermNil)"
| tail: "phrase E R ts t p \<Longrightarrow> p \<le> 999 \<Longrightarrow> phrase E R ts' t' p' \<Longrightarrow> p' \<le> 999 \<Longrightarrow>
    elements E R (ts @ Ponctuation_tok ''|'' # ts') (PairT t t')"
| more_elements: "phrase E R ts t p \<Longrightarrow> p \<le> 999 \<Longrightarrow> elements E R ts' t' \<Longrightarrow>
    elements E R (ts @ Ponctuation_tok '','' # ts') (PairT t t')"

section \<open>What the functions consume\<close>

lemma tokens_next: "tok st = x \<Longrightarrow> x \<noteq> eot_tok \<Longrightarrow> tokptr st = x # tokptr (GNextToken st)"
  by (cases "tokptr st") (auto simp: GNextToken_def)

lemma GNextToken_aux [simp]: "tokptr (GNextToken (st\<lparr>aux_sp := i\<rparr>)) = tokptr (GNextToken st)"
  by (simp add: GNextToken_def)

definition reads_term :: "'f env \<Rightarrow> reader \<Rightarrow> nat \<Rightarrow> 'f parser_state \<Rightarrow> 'f trm \<Rightarrow> 'f parser_state \<Rightarrow> bool" where
  "reads_term E R q st t st' \<longleftrightarrow> (\<exists>us p. tokptr st = us @ tokptr st' \<and> phrase E R us t p \<and> p \<le> q)"

definition reads_primary ::
    "'f env \<Rightarrow> reader \<Rightarrow> nat \<Rightarrow> 'f parser_state \<Rightarrow> 'f trm \<times> nat \<Rightarrow> 'f parser_state \<Rightarrow> bool" where
  "reads_primary E R q st r st' \<longleftrightarrow>
    (\<exists>us. tokptr st = us @ tokptr st' \<and> phrase E R us (fst r) (snd r) \<and> snd r \<le> q)"

definition reads_args :: "'f env \<Rightarrow> reader \<Rightarrow> string \<Rightarrow> 'f parser_state \<Rightarrow> 'f trm list \<Rightarrow> 'f parser_state \<Rightarrow> bool" where
  "reads_args E R cl st args st' \<longleftrightarrow>
    (\<exists>us. tokptr st = us @ Ponctuation_tok cl # tokptr st' \<and> arguments E R us args)"

definition reads_list :: "'f env \<Rightarrow> reader \<Rightarrow> 'f parser_state \<Rightarrow> 'f trm \<Rightarrow> 'f parser_state \<Rightarrow> bool" where
  "reads_list E R st t st' \<longleftrightarrow> (\<exists>us. tokptr st = us @ tokptr st' \<and> elements E R us t)"

text \<open>The loop goes on from a phrase \<open>vs\<close> of the term at hand.\<close>

definition reads_rest ::
    "'f env \<Rightarrow> reader \<Rightarrow> nat \<Rightarrow> 'f tokens \<Rightarrow> 'f parser_state \<Rightarrow> 'f trm \<Rightarrow> 'f parser_state \<Rightarrow> bool" where
  "reads_rest E R q vs st t st' \<longleftrightarrow>
    (\<exists>us p. tokptr st = us @ tokptr st' \<and> phrase E R (vs @ us) t p \<and> p \<le> q)"

text \<open>The contract of the functions.\<close>

locale sound_parsers =
  fixes E :: "'f env" and R :: reader
    and PT :: "'f term_parser" and PA :: "'f args_parser" and PL :: "'f list_parser" and PR :: "'f rest_parser"
  assumes PT: "post (reads_term E R q st) (PT q st)"
    and PA: "tok st \<noteq> eot_tok \<Longrightarrow> post (\<lambda>as st'. \<exists>bs. reads_args E R cl (GNextToken st) bs st' \<and>
        as = (case arg of None \<Rightarrow> bs | Some t \<Rightarrow> t # bs)) (PA cl arg st)"
    and PL: "post (reads_list E R st) (PL st)"
    and PR: "phrase E R vs t c \<Longrightarrow> c \<le> q \<Longrightarrow> post (reads_rest E R q vs st) (PR q c t st)"
begin

lemma PA_None: "tok st \<noteq> eot_tok \<Longrightarrow> post (reads_args E R cl (GNextToken st)) (PA cl None st)"
  using PA [of st cl None] by (rule post_mono) auto

lemma PA_Some:
  "tok st \<noteq> eot_tok \<Longrightarrow> post (\<lambda>as st'. \<exists>bs. reads_args E R cl (GNextToken st) bs st' \<and> as = t # bs) (PA cl (Some t) st)"
  using PA [of st cl "Some t"] by (rule post_mono) auto

text \<open>A name has been read; \<open>st\<close> is the state after it.\<close>

definition reads_name :: "nat \<Rightarrow> string \<Rightarrow> 'f parser_state \<Rightarrow> 'f trm \<times> nat \<Rightarrow> 'f parser_state \<Rightarrow> bool" where
  "reads_name q a st r st' \<longleftrightarrow>
    (\<exists>us. tokptr st = us @ tokptr st' \<and> phrase E R (Name_tok a # us) (fst r) (snd r) \<and> snd r \<le> q)"

lemma atom_or_compound: "post (reads_name q a st) (atom_or_compound PA a st)"
proof (cases "tok st = Ponctuation_tok ''l''")
  case True
  then have ne: "tok st \<noteq> eot_tok" by simp
  have "reads_name q a st (args_term a args, 0) st'" if "reads_args E R '')'' (GNextToken st) args st'" for args st'
  proof -
    from that obtain us where "tokptr (GNextToken st) = us @ Ponctuation_tok '')'' # tokptr st'"
      and "arguments E R us args" by (auto simp: reads_args_def)
    then show ?thesis
      using tokens_next [OF True] compound [of E R us args a]
      by (auto simp: reads_name_def intro!: exI [of _ "Ponctuation_tok ''l'' # us @ [Ponctuation_tok '')'']"])
  qed
  then show ?thesis
    using True by (auto simp: atom_or_compound_def intro!: post_bind [OF PA_None [OF ne]])
qed (simp add: atom_or_compound_def reads_name_def atom)

lemma prefix_operator: "post (reads_name q a st) (prefix_operator E R PT PA q a st)"
proof -
  have alone: "post (reads_name q a st) (atom_or_compound PA a \<lparr>tokptr = tokptr st, aux_sp = sp, shrunk = b\<rparr>)" for sp b
    by (rule post_mono [OF atom_or_compound [of q]]) (simp add: reads_name_def)
  have const: "reads_name q a st (t, 0) (GNextToken st)"
    if "signed_constant E a (tok st) = Some t" "pre_op R a \<noteq> None" for t
  proof -
    have "tok st \<noteq> eot_tok" using that(1) by (auto simp: signed_constant_def split: if_splits)
    then have "tokptr st = [tok st] @ tokptr (GNextToken st)" using tokens_next [OF refl, of st] by simp
    with signed [OF that(2,1)] show ?thesis unfolding reads_name_def by fastforce
  qed
  have op: "reads_name q a st (Yap_MkApplTerm a 1 [t], opprio) st'"
    if "reads_term E R rprio st t st'" "pre_op R a = Some (opprio, rprio)" "opprio \<le> q" for t st' opprio rprio
    using that prefix [OF that(2)] by (fastforce simp: reads_term_def reads_name_def)
  have TRY: "post (reads_name q a st) (TRY st (PT rprio st) (\<lambda>t. Parsed (Yap_MkApplTerm a 1 [t], opprio))
      (atom_or_compound PA a))" if "pre_op R a = Some (opprio, rprio)" "opprio \<le> q" for opprio rprio
    by (rule post_TRY [OF PT]) (use op that alone in auto)
  show ?thesis
    unfolding prefix_operator_def
    using alone [of "aux_sp st" "shrunk st"] const TRY by (auto split: option.split)
qed

lemma name_primary:
  assumes "tok st = Name_tok a"
  shows "post (reads_primary E R q st) (name_primary E R PT PA q a (GNextToken st))"
proof -
  let ?st = "GNextToken st"
  have lift: "reads_name q a ?st r st' \<Longrightarrow> reads_primary E R q st r st'" for r st'
    using tokens_next [OF assms] by (fastforce simp: reads_name_def reads_primary_def)
  have op: "post (reads_primary E R q st) (prefix_operator E R PT PA q a ?st)"
    by (rule post_mono [OF prefix_operator]) (rule lift)
  have "reads_primary E R q st (t', 0) (GNextToken ?st)"
    if "tok ?st = Number_tok t" "a = ''-''" "neg_number E t = Inr t'" for t t'
    using tokens_next [OF assms] tokens_next [OF that(1)] minus [OF that(3)] that(2)
    by (auto simp: reads_primary_def)
  with op show ?thesis
    by (auto simp: name_primary_def split: token.split sum.split)
qed

lemma bracketed:
  assumes "tok st = x" and "x \<noteq> eot_tok"
    and "\<And>us t p. phrase E R us t p \<Longrightarrow> p \<le> GLOBAL_MaxPriority \<Longrightarrow>
      phrase E R (x # us @ [Ponctuation_tok cl]) (f t) 0"
  shows "post (reads_primary E R q st) (bracketed PT cl f (GNextToken st))"
  unfolding bracketed_def
proof (rule post_bind [OF PT], rule post_bind [OF post_checkfor])
  fix t st1 u st2
  assume "reads_term E R GLOBAL_MaxPriority (GNextToken st) t st1"
    and "tok st1 = Ponctuation_tok cl \<and> st2 = GNextToken st1"
  then show "post (reads_primary E R q st) (Parsed (f t, 0) st2)"
    using tokens_next [OF assms(1,2)] assms(3) tokens_next [of st1 "Ponctuation_tok cl"]
    by (fastforce simp: reads_term_def reads_primary_def)
qed

lemma ponctuation_primary:
  assumes "tok st = Ponctuation_tok c"
  shows "post (reads_primary E R q st) (ponctuation_primary R PT PL c st)"
proof -
  let ?st = "GNextToken st"
  note n = tokens_next [OF assms]
  have b: "take 1 c = ''('' \<or> take 1 c = ''l'' \<Longrightarrow> post (reads_primary E R q st) (bracketed PT '')'' id ?st)"
    by (rule bracketed [OF assms]) (auto intro: brackets)
  have b': "take 1 c = ''{'' \<Longrightarrow> post (reads_primary E R q st) (bracketed PT ''}'' (\<lambda>t. Yap_MkApplTerm ''{}'' 1 [t]) ?st)"
    by (rule bracketed [OF assms]) (auto intro: braces simp del: One_nat_def)
  have l: "post (reads_primary E R q st) (bindP (PL ?st) (\<lambda>t st. bindP (checkfor '']'' st) (\<lambda>_. Parsed (t, 0))))"
    if "take 1 c = ''[''"
  proof (rule post_bind [OF PL], rule post_bind [OF post_checkfor])
    fix t st1 u st2
    assume "reads_list E R ?st t st1" and "tok st1 = Ponctuation_tok '']'' \<and> st2 = GNextToken st1"
    then show "post (reads_primary E R q st) (Parsed (t, 0) st2)"
      using n list [OF that] tokens_next [of st1 "Ponctuation_tok '']''"]
      by (fastforce simp: reads_list_def reads_primary_def)
  qed
  have nil: "reads_primary E R q st (TermNil, 0) (GNextToken ?st)"
    if "take 1 c = ''[''" "tok ?st = Ponctuation_tok '']''"
    using n tokens_next [OF that(2)] empty_list [OF that(1)] by (auto simp: reads_primary_def)
  have nob: "reads_primary E R q st (AtmT ''{}'', 0) (GNextToken ?st)"
    if "take 1 c = ''{''" "closes_braces R (tok ?st)"
  proof -
    have "tok ?st \<noteq> eot_tok" using that(2) by (auto simp: closes_braces_def)
    then have "tokptr st = [Ponctuation_tok c, tok ?st] @ tokptr (GNextToken ?st)"
      using n tokens_next [OF refl, of ?st] by simp
    with empty_braces [OF that] show ?thesis unfolding reads_primary_def by fastforce
  qed
  show ?thesis
    unfolding ponctuation_primary_def Let_def using b b' l nil nob by simp
qed

lemma primary: "post (reads_primary E R q st) (primary E R PT PA PL q st)"
proof (cases "tok st")
  case (Name_tok a)
  then show ?thesis using name_primary by (simp add: primary_def)
next
  case (Ponctuation_tok c)
  then show ?thesis using ponctuation_primary by (simp add: primary_def)
next
  case (Number_tok t)
  then show ?thesis using tokens_next [OF Number_tok] number by (fastforce simp: primary_def reads_primary_def)
next
  case (String_tok t)
  then show ?thesis using tokens_next [OF String_tok] strng by (fastforce simp: primary_def reads_primary_def)
next
  case (Var_tok p)
  then show ?thesis using tokens_next [OF Var_tok] variable by (fastforce simp: primary_def reads_primary_def)
qed (simp_all add: primary_def)

text \<open>The loop: a longer phrase of a larger term.\<close>

lemma stop: "phrase E R vs t c \<Longrightarrow> c \<le> q \<Longrightarrow> reads_rest E R q vs st t st"
  by (auto simp: reads_rest_def)

lemma go_on:
  assumes "tokptr st = us @ tokptr st1" and "phrase E R (vs @ us) t c" and "c \<le> q"
  shows "post (reads_rest E R q vs st) (PR q c t st1)"
  by (rule post_mono [OF PR [OF assms(2,3)]]) (use assms(1) in \<open>auto simp: reads_rest_def\<close>)

lemma go_on_term:
  assumes "tok st = x" and "x \<noteq> eot_tok" and "d \<le> q"
    and "\<And>us t2 p. phrase E R us t2 p \<Longrightarrow> p \<le> r \<Longrightarrow> phrase E R (vs @ x # us) (f t2) d"
    and "reads_term E R r (GNextToken st) t2 st1"
  shows "post (reads_rest E R q vs st) (PR q d (f t2) st1)"
proof -
  from assms(5) obtain us p where "tokptr (GNextToken st) = us @ tokptr st1" "phrase E R us t2 p" "p \<le> r"
    by (auto simp: reads_term_def)
  then show ?thesis
    using tokens_next [OF assms(1,2)] assms(3,4) by (intro go_on [of st "x # us"]) auto
qed

lemma posfix_rest:
  assumes "tok st = Name_tok a" and "phrase E R vs t c" and "c \<le> q"
  shows "post (reads_rest E R q vs st) (posfix_rest R PR q c t a st)"
proof -
  have "post (reads_rest E R q vs st) (PR q opprio (Yap_MkApplTerm a 1 [t]) (GNextToken st))"
    if "post_op R a = Some (opprio, lprio)" "opprio \<le> q" "c \<le> lprio" for opprio lprio
    using tokens_next [OF assms(1)] postfix [OF that(1) assms(2) that(3)] that(2)
    by (intro go_on [of st "[Name_tok a]"]) simp_all
  then show ?thesis
    using stop [OF assms(2,3)] by (auto simp: posfix_rest_def split: option.split)
qed

lemma name_rest:
  assumes "tok st = Name_tok a" and "phrase E R vs t c" and "c \<le> q"
  shows "post (reads_rest E R q vs st) (name_rest R PT PR q c t a st)"
proof -
  have pf: "post (reads_rest E R q vs st) (posfix_rest R PR q c t a \<lparr>tokptr = tokptr st, aux_sp = sp, shrunk = b\<rparr>)" for sp b
    by (rule post_mono [OF posfix_rest [OF _ assms(2,3)]]) (use assms(1) in \<open>auto simp: reads_rest_def\<close>)
  have "post (reads_rest E R q vs st) (TRY st (PT rprio (GNextToken st))
      (\<lambda>t2. PR q opprio (Yap_MkApplTerm a 2 [t, t2])) (posfix_rest R PR q c t a))"
    if "in_op R a = Some (opprio, lprio, rprio)" "opprio \<le> q" "c \<le> lprio" for opprio lprio rprio
    by (rule post_TRY [OF PT], rule go_on_term [OF assms(1) _ that(2)])
      (auto intro: between [OF that(1) assms(2) that(3)] pf)
  then show ?thesis
    using pf [of "aux_sp st" "shrunk st"] by (auto simp: name_rest_def split: option.split)
qed

lemma brackets_rest:
  assumes "tok st = Ponctuation_tok b" and "phrase E R vs t c" and "c \<le> q"
    and "\<And>opprio lprio us args. post_op R a = Some (opprio, lprio) \<Longrightarrow> c \<le> lprio \<Longrightarrow> arguments E R us args \<Longrightarrow>
      phrase E R (vs @ Ponctuation_tok b # us @ [Ponctuation_tok cl]) (f (t # args)) opprio"
  shows "post (reads_rest E R q vs st) (brackets_rest R PA PR q c t a cl f st)"
proof -
  have ne: "tok st \<noteq> eot_tok" using assms(1) by simp
  have "post (reads_rest E R q vs st) (PR q opprio (f as) st1)"
    if "post_op R a = Some (opprio, lprio)" "opprio \<le> q" "c \<le> lprio"
      "\<exists>bs. reads_args E R cl (GNextToken st) bs st1 \<and> as = t # bs" for opprio lprio as st1
  proof -
    from that(4) obtain bs us where "tokptr (GNextToken st) = us @ Ponctuation_tok cl # tokptr st1"
      and "arguments E R us bs" and "as = t # bs" by (auto simp: reads_args_def)
    then show ?thesis
      using tokens_next [OF assms(1)] assms(4) [OF that(1,3)] that(2)
      by (intro go_on [of st "Ponctuation_tok b # us @ [Ponctuation_tok cl]"]) auto
  qed
  then show ?thesis
    using stop [OF assms(2,3)]
    by (auto simp: brackets_rest_def split: option.split intro!: post_bind [OF PA_Some [OF ne]])
qed

lemma rest:
  assumes "phrase E R vs t c" and "c \<le> q"
  shows "post (reads_rest E R q vs st) (term_rest R PT PA PR q c t st)"
proof (cases "tok st")
  case (Name_tok a)
  then show ?thesis using name_rest [OF _ assms] by (simp add: term_rest_def)
next
  case (Ponctuation_tok b)
  have comma: "post (reads_rest E R q vs st) (bindP (PT 1000 (GNextToken st)) (\<lambda>t2. PR q 1000 (Yap_MkApplTerm '','' 2 [t, t2])))"
    if "b = '',''" "1000 \<le> q" "c \<le> 999"
    by (rule post_bind [OF PT], rule go_on_term [OF Ponctuation_tok _ that(2)])
      (auto simp: that(1) intro: comma [OF assms(1) that(3)])
  have bar: "post (reads_rest E R q vs st) (bindP (PT rprio (GNextToken st)) (\<lambda>t2. PR q opprio (Yap_MkApplTerm ''|'' 2 [t, t2])))"
    if "in_op R ''|'' = Some (opprio, lprio, rprio)" "b = ''|''" "opprio \<le> q" "c \<le> lprio" for opprio lprio rprio
    by (rule post_bind [OF PT], rule go_on_term [OF Ponctuation_tok _ that(3)])
      (auto simp: that(2) intro: bar [OF that(1) assms(1) that(4)])
  have "post (reads_rest E R q vs st) (brackets_rest R PA PR q c t ''()'' '')'' (args_term ''()'') st)" if "b = ''(''"
    by (rule brackets_rest [OF Ponctuation_tok assms]) (simp add: that applied [OF _ assms(1)])
  moreover have "post (reads_rest E R q vs st)
      (brackets_rest R PA PR q c t ''[]'' '']'' (\<lambda>args. MakeAccessor args ''[]'' 2) st)" if "b = ''[''"
    by (rule brackets_rest [OF Ponctuation_tok assms]) (simp add: that indexed [OF _ assms(1)])
  moreover have "post (reads_rest E R q vs st)
      (brackets_rest R PA PR q c t ''{}'' ''}'' (\<lambda>args. MakeAccessor args ''{}'' 1) st)" if "b = ''{''"
    by (rule brackets_rest [OF Ponctuation_tok assms]) (simp add: that braced [OF _ assms(1), simplified])
  ultimately have "post (reads_rest E R q vs st) (ponctuation_rest R PT PA PR q c t b st)"
    using stop [OF assms] comma bar by (auto simp: ponctuation_rest_def split: option.split)
  with Ponctuation_tok show ?thesis by (simp add: term_rest_def)
qed (simp_all add: term_rest_def stop [OF assms])

end

text \<open>Arguments and elements. The loop of \<open>ParseArgs\<close> adds to the arguments it is given.\<close>

definition reads_more :: "'f env \<Rightarrow> reader \<Rightarrow> string \<Rightarrow> 'f trm list \<Rightarrow> 'f parser_state \<Rightarrow> 'f trm list
    \<Rightarrow> 'f parser_state \<Rightarrow> bool" where
  "reads_more E R cl args st args' st' \<longleftrightarrow> (\<exists>bs. reads_args E R cl st bs st' \<and> args' = args @ bs)"

lemma args_start_sound:
  assumes "\<And>p args st. post (reads_more E R cl args st) (L p args st)"
  shows "post (\<lambda>as st'. \<exists>bs. reads_args E R cl (GNextToken st) bs st' \<and>
    as = (case arg of None \<Rightarrow> bs | Some t \<Rightarrow> t # bs)) (args_start L cl arg st)"
proof (cases arg)
  case None
  then show ?thesis
    by (auto simp: args_start_def Let_def reads_more_def intro!: post_mono [OF assms])
next
  case (Some t)
  have "post (\<lambda>as st'. \<exists>bs. reads_args E R cl (GNextToken st) bs st' \<and> as = t # bs)
      (L p [t] (GNextToken st\<lparr>aux_sp := i\<rparr>))" for p i
    by (rule post_mono [OF assms]) (simp add: reads_more_def reads_args_def)
  with Some show ?thesis by (simp add: args_start_def Let_def)
qed

lemma reads_term_grow_aux [simp]: "reads_term E R q (grow_aux st) = reads_term E R q st"
  by (simp add: reads_term_def fun_eq_iff)

lemma args_round_sound:
  assumes "\<And>q st. post (reads_term E R q st) (PT q st)"
    and "\<And>args st. post (reads_more E R cl args st) (L args st)"
  shows "post (reads_more E R cl args st) (args_round PT L cl p args st)"
proof -
  have "post (reads_more E R cl args st)
      (if tok st1 = Ponctuation_tok '','' then L (args @ [t]) (GNextToken (st1\<lparr>aux_sp := i\<rparr>))
       else bindP (checkfor cl (st1\<lparr>aux_sp := j\<rparr>)) (\<lambda>_. Parsed (args @ [t])))"
    if r: "reads_term E R 999 st t st1" for t st1 i j
  proof -
    from r obtain us c where us: "tokptr st = us @ tokptr st1" "phrase E R us t c" "c \<le> 999"
      by (auto simp: reads_term_def)
    have more: "reads_more E R cl args st args' st'"
      if "tok st1 = Ponctuation_tok '',''" "reads_more E R cl (args @ [t]) (GNextToken (st1\<lparr>aux_sp := i\<rparr>)) args' st'"
      for args' st'
    proof -
      from that(2) obtain vs bs where "tokptr (GNextToken st1) = vs @ Ponctuation_tok cl # tokptr st'"
        and "arguments E R vs bs" and "args' = (args @ [t]) @ bs"
        by (auto simp: reads_more_def reads_args_def)
      then show ?thesis
        using us tokens_next [OF that(1)] more_arguments [OF us(2,3)]
        by (auto simp: reads_more_def reads_args_def intro!: exI [of _ "us @ Ponctuation_tok '','' # vs"])
    qed
    have last: "reads_more E R cl args st (args @ [t]) (GNextToken (st1\<lparr>aux_sp := j\<rparr>))"
      if "tok st1 = Ponctuation_tok cl"
      using us tokens_next [OF that] argument [OF us(2,3)] by (auto simp: reads_more_def reads_args_def)
    show ?thesis
      using more last by (auto intro!: post_mono [OF assms(2)] post_bind [OF post_checkfor])
  qed
  then show ?thesis
    unfolding args_round_def by (auto intro!: post_bind [OF assms(1) [of 999 "grow_aux st"]])
qed

lemma list_round_sound:
  assumes "\<And>q st. post (reads_term E R q st) (PT q st)" and "\<And>st. post (reads_list E R st) (L st)"
  shows "post (reads_list E R st) (list_round PT L st)"
  unfolding list_round_def
proof (rule post_bind [OF assms(1)])
  fix t st1
  assume "reads_term E R 999 st t st1"
  then obtain us c where us: "tokptr st = us @ tokptr st1" "phrase E R us t c" "c \<le> 999"
    by (auto simp: reads_term_def)
  have more: "post (reads_list E R st) (bindP (L (GNextToken st1)) (\<lambda>t2. Parsed (PairT t t2)))"
    if "tok st1 = Ponctuation_tok '',''"
    by (rule post_bind [OF assms(2)])
      (use us tokens_next [OF that] more_elements [OF us(2,3)] in \<open>fastforce simp: reads_list_def\<close>)
  have tail: "post (reads_list E R st) (bindP (PT 999 (GNextToken st1)) (\<lambda>t2. Parsed (PairT t t2)))"
    if "tok st1 = Ponctuation_tok ''|''"
    by (rule post_bind [OF assms(1)])
      (use us tokens_next [OF that] tail [OF us(2,3)] in \<open>fastforce simp: reads_list_def reads_term_def\<close>)
  have last: "reads_list E R st (PairT t TermNil) st1"
    using us element [OF us(2,3)] by (auto simp: reads_list_def)
  show "post (reads_list E R st) (case tok st1 of
        Ponctuation_tok c \<Rightarrow>
          (if c = '','' then bindP (L (GNextToken st1)) (\<lambda>t2. Parsed (PairT t t2))
           else if c = ''|'' then bindP (PT 999 (GNextToken st1)) (\<lambda>t2. Parsed (PairT t t2))
           else Parsed (PairT t TermNil) st1)
      | _ \<Rightarrow> Failed st1)"
    using more tail last by (auto split: token.split)
qed

section \<open>The parser is sound\<close>

lemma parser_sound:
  "(\<forall>q st. post (reads_term E R q st) (ParseTerm E R n q st))
    \<and> (\<forall>vs q c t st. phrase E R vs t c \<longrightarrow> c \<le> q \<longrightarrow> post (reads_rest E R q vs st) (ParseRest E R n q c t st))
    \<and> (\<forall>cl a st. post (\<lambda>as st'. \<exists>bs. reads_args E R cl (GNextToken st) bs st' \<and>
        as = (case a of None \<Rightarrow> bs | Some t \<Rightarrow> t # bs)) (ParseArgs E R n cl a st))
    \<and> (\<forall>cl p args st. post (reads_more E R cl args st) (ParseArgs_loop E R n cl p args st))
    \<and> (\<forall>st. post (reads_list E R st) (ParseList E R n st))"
proof (induction n)
  case 0
  show ?case by simp
next
  case (Suc n)
  have S: "sound_parsers E R (ParseTerm E R n) (ParseArgs E R n) (ParseList E R n) (ParseRest E R n)"
    using Suc by unfold_locales blast+
  have "post (reads_term E R q st) (ParseTerm E R (Suc n) q st)" for q st
    unfolding ParseTerm.simps(2) [of E R n q st]
  proof (rule post_bind [OF sound_parsers.primary [OF S, of q st]])
    fix r st1
    assume "reads_primary E R q st r st1"
    then obtain us where us: "tokptr st = us @ tokptr st1" "phrase E R us (fst r) (snd r)" "snd r \<le> q"
      by (auto simp: reads_primary_def)
    show "post (reads_term E R q st) ((case r of (t, c) \<Rightarrow> ParseRest E R n q c t) st1)"
      using post_mono [OF sound_parsers.PR [OF S us(2,3), of st1], of "reads_term E R q st"] us(1)
      by (fastforce simp: reads_rest_def reads_term_def split: prod.split)
  qed
  moreover have "post (reads_rest E R q vs st) (ParseRest E R (Suc n) q c t st)"
    if "phrase E R vs t c" "c \<le> q" for vs q c t st
    unfolding ParseRest.simps(2) [of E R n q c t st] by (rule sound_parsers.rest [OF S that])
  moreover have "post (\<lambda>as st'. \<exists>bs. reads_args E R cl (GNextToken st) bs st' \<and>
        as = (case a of None \<Rightarrow> bs | Some t \<Rightarrow> t # bs)) (ParseArgs E R (Suc n) cl a st)" for cl a st
    unfolding ParseArgs.simps(2) [of E R n cl a st] by (rule args_start_sound) (use Suc in blast)
  moreover have "post (reads_more E R cl args st) (ParseArgs_loop E R (Suc n) cl p args st)" for cl p args st
    unfolding ParseArgs_loop.simps(2) [of E R n cl p args st] by (rule args_round_sound) (use Suc in blast)+
  moreover have "post (reads_list E R st) (ParseList E R (Suc n) st)" for st
    unfolding ParseList.simps(2) [of E R n st] by (rule list_round_sound) (use Suc in blast)+
  ultimately show ?case by blast
qed

interpretation sound: sound_parsers E R "ParseTerm E R n" "ParseArgs E R n" "ParseList E R n" "ParseRest E R n"
  for E R n
  using parser_sound [of E R n] by unfold_locales blast+

lemma parse_term_sound:
  assumes "parse_term E R q st = Parsed t st'"
  shows "reads_term E R q st t st'"
  using sound.PT [of E R q st "enough_fuel (tokptr st)"] assms by (simp add: parse_term_def)

end
