(* ===== verification/YapReadable.thy ===== *)
theory YapReadable
  imports YapGrammar
begin

text \<open>
  Which texts the parser reads back. \<open>readable\<close> says of a list of tokens that the parser takes it for a
  term, whatever follows it in the input as long as that may follow a term of its priority; the lemmas
  build readable texts for every form of a term. They hold for operators that are \<open>clear\<close>: no atom is an
  infix and a postfix operator, and no operator that takes its own priority on the right has the
  priority of an infix operator that takes its own on the left. No other atom's address ends in the 32
  bits of the address of the closing brace, with which the code compares.
\<close>

section \<open>Clear operators\<close>

locale clear_ops =
  fixes R :: reader
  assumes in_bounds: "in_op R a = Some (p, l, r) \<Longrightarrow> l \<le> p \<and> r \<le> p \<and> p \<le> 1200"
    and pre_bounds: "pre_op R a = Some (p, r) \<Longrightarrow> r \<le> p \<and> p \<le> 1200"
    and in_has: "in_op R a \<noteq> None \<Longrightarrow> Yap_HasOp (ops R) a"
    and pre_has: "pre_op R a \<noteq> None \<Longrightarrow> Yap_HasOp (ops R) a"
    and no_post: "in_op R a \<noteq> None \<Longrightarrow> post_op R a = None"
    and in_clash: "in_op R a = Some (p, l, p) \<Longrightarrow> in_op R b \<noteq> Some (p, p, r)"
    and pre_clash: "pre_op R a = Some (p, p) \<Longrightarrow> in_op R b \<noteq> Some (p, p, r)"
    and comma: "in_op R '','' = Some (1000, 999, 1000)"
    and bar: "in_op R ''|'' = Some (p, l, r) \<Longrightarrow> 999 < p \<and> 999 \<le> l"
    and no_alias: "scast (ucast (MkAtomTerm (atom_addr R c)) :: 32 word) = MkAtomTerm (atom_addr R ''}'') \<Longrightarrow>
      c = ''}''"

definition bar_left :: "reader \<Rightarrow> nat" where
  "bar_left R = (case in_op R ''|'' of Some (_, l, _) \<Rightarrow> l | None \<Rightarrow> 999)"

text \<open>The tokens that may come after a term of priority \<open>c\<close>; infix operators only when \<open>any\<close> is set.\<close>

definition closing :: "'f token \<Rightarrow> bool" where
  "closing x \<longleftrightarrow> x \<in> {eot_tok, Ponctuation_tok '')'', Ponctuation_tok '']'', Ponctuation_tok ''}''}"

definition follows :: "reader \<Rightarrow> bool \<Rightarrow> nat \<Rightarrow> 'f tokens \<Rightarrow> bool" where
  "follows R any c rest \<longleftrightarrow> closing (tok_of rest)
    \<or> tok_of rest = Ponctuation_tok '','' \<and> c \<le> 999
    \<or> tok_of rest = Ponctuation_tok ''|'' \<and> c \<le> bar_left R
    \<or> any \<and> (\<exists>a p l r. tok_of rest = Name_tok a \<and> in_op R a = Some (p, l, r) \<and> c \<le> l)"

lemma follows_mono: "follows R any c rest \<Longrightarrow> c' \<le> c \<Longrightarrow> follows R any' c' rest \<or> any"
  by (auto simp: follows_def)

lemma follows_le: "follows R any c rest \<Longrightarrow> c' \<le> c \<Longrightarrow> follows R True c' rest"
  by (fastforce simp: follows_def)

lemma GNextToken_Cons [simp]:
  "tokptr st = x # ts \<Longrightarrow> x \<noteq> eot_tok \<Longrightarrow> GNextToken st = st\<lparr>tokptr := ts\<rparr>"
  by (simp add: GNextToken_def)

text \<open>The stack of arguments has its first size, and room for \<open>n\<close> arguments.\<close>

abbreviation aux_room :: "'f parser_state \<Rightarrow> nat \<Rightarrow> bool" where
  "aux_room st n \<equiv> \<not> shrunk st \<and> aux_sp st + n < 4095"

lemma grow_aux_room [simp]: "aux_sp st + 1 < 4096 \<Longrightarrow> grow_aux st = st"
  by (simp add: grow_aux_def ParserAuxMax_def)

lemma aux_lost_room [simp]: "\<not> shrunk st' \<Longrightarrow> \<not> aux_lost st st'"
  by (simp add: aux_lost_def)

definition readable :: "'f env \<Rightarrow> reader \<Rightarrow> bool \<Rightarrow> 'f tokens \<Rightarrow> 'f trm \<Rightarrow> nat \<Rightarrow> bool" where
  "readable E R any ts t c \<longleftrightarrow> (\<forall>q st rest. c \<le> q \<longrightarrow> follows R any c rest \<longrightarrow> tokptr st = ts @ rest \<longrightarrow>
    aux_room st (length ts) \<longrightarrow>
    parse_term E R q st = parse_rest E R q c t (st\<lparr>tokptr := rest\<rparr>))"

lemma readableD:
  assumes "readable E R any ts t c" and "c \<le> q" and "follows R any c rest" and "tokptr st = ts @ rest"
    and "aux_room st (length ts)"
  shows "parse_term E R q st = parse_rest E R q c t (st\<lparr>tokptr := rest\<rparr>)"
  using assms by (simp add: readable_def)

lemma readable_weaken: "readable E R True ts t c \<Longrightarrow> readable E R any ts t c"
  unfolding readable_def using follows_le [of R any c _ c] by blast

text \<open>A text that is a primary is readable.\<close>

lemma readable_primary:
  assumes "\<And>q st rest. follows R any 0 rest \<Longrightarrow> tokptr st = ts @ rest \<Longrightarrow> aux_room st (length ts) \<Longrightarrow>
    primary E R (parse_term E R) (parse_args E R) (parse_list E R) q st = Parsed (t, 0) (st\<lparr>tokptr := rest\<rparr>)"
  shows "readable E R any ts t 0"
  unfolding readable_def by (simp add: parse_term_eq assms)

section \<open>Where the loop stops\<close>

lemma rest_closing:
  assumes "closing (tok st)"
  shows "parse_rest E R q c t st = Parsed t st"
  using assms by (auto simp: parse_rest_eq closing_def term_rest_def ponctuation_rest_def)

context clear_ops
begin

lemma bar_left: "999 \<le> bar_left R"
  using bar by (auto simp: bar_left_def split: option.split)

lemma rest_argument:
  assumes "tok st = Ponctuation_tok '','' \<or> tok st = Ponctuation_tok ''|''" and "q \<le> 999"
  shows "parse_rest E R q c t st = Parsed t st"
  using assms bar by (fastforce simp: parse_rest_eq term_rest_def ponctuation_rest_def split: option.split)

text \<open>After a right operand of priority \<open>c1\<close>, where at most \<open>r\<close> is allowed by an operator of priority \<open>c0\<close>.\<close>

lemma rest_operand:
  assumes "follows R True c0 (tokptr st)" and "r \<le> c0"
    and "r = c0 \<Longrightarrow> (\<And>b r'. in_op R b \<noteq> Some (c0, c0, r'))"
  shows "parse_rest E R r c1 t st = Parsed t st"
proof -
  have less: "r < p" if "in_op R b = Some (p, l, r')" "c0 \<le> l" for b p l r'
  proof (rule ccontr)
    assume "\<not> r < p"
    with in_bounds [OF that(1)] that(2) assms(2) have "p = c0 \<and> l = c0 \<and> r = c0" by linarith
    with that(1) assms(3) show False by blast
  qed
  from assms(1) consider "closing (tok st)" | "tok st = Ponctuation_tok '',''" "c0 \<le> 999"
    | "tok st = Ponctuation_tok ''|''" "c0 \<le> bar_left R"
    | a p l r' where "tok st = Name_tok a" "in_op R a = Some (p, l, r')" "c0 \<le> l"
    by (auto simp: follows_def)
  then show ?thesis
  proof cases
    case 1
    then show ?thesis by (rule rest_closing)
  next
    case 2
    then show ?thesis using assms(2) by (intro rest_argument) auto
  next
    case 3
    then show ?thesis
      using less [of "''|''"] by (fastforce simp: parse_rest_eq term_rest_def ponctuation_rest_def bar_left_def split: option.split)
  next
    case 4
    have "r < p" by (rule less [OF 4(2,3)])
    moreover have "Yap_HasOp (ops R) a" "post_op R a = None" using in_has no_post 4(2) by simp_all
    ultimately show ?thesis
      using 4 by (simp add: parse_rest_eq term_rest_def name_rest_def posfix_rest_def)
  qed
qed

section \<open>Readable texts\<close>

lemma readable_number: "readable E R any [Number_tok t] t 0"
  by (rule readable_primary) (simp add: primary_def)

lemma readable_var: "readable E R any [Var_tok p] (VarT p) 0"
  by (rule readable_primary) (simp add: primary_def)

lemma readable_string: "readable E R any [String_tok t] t 0"
  by (rule readable_primary) (simp add: primary_def)

lemma readable_minus:
  assumes "neg_number E t = Inr t'"
  shows "readable E R any [Name_tok ''-'', Number_tok t] t' 0"
  by (rule readable_primary) (simp add: primary_def name_primary_def assms)

text \<open>An atom that is no operator may be followed by an infix operator.\<close>

lemma readable_plain_atom:
  fixes E :: "'f env"
  assumes "pre_op R a = None"
  shows "readable E R any [Name_tok a] (AtmT a) 0"
proof (rule readable_primary)
  fix q rest and st :: "'f parser_state"
  assume f: "follows R any 0 rest" and st: "tokptr st = [Name_tok a] @ rest"
  have "tok_of rest \<noteq> Ponctuation_tok ''l''" "\<not> is_number (tok_of rest)"
    using f by (auto simp: follows_def closing_def)
  then show "primary E R (parse_term E R) (parse_args E R) (parse_list E R) q st =
      Parsed (AtmT a, 0) (st\<lparr>tokptr := rest\<rparr>)"
    using st assms
    by (auto simp: primary_def name_primary_def prefix_operator_def atom_or_compound_def split: token.split)
qed

lemma primary_fails:
  assumes "closing (tok st) \<or> tok st = Ponctuation_tok '','' \<or> tok st = Ponctuation_tok ''|''"
  shows "parse_term E R q st = Failed st"
  using assms by (auto simp: parse_term_eq primary_def closing_def ponctuation_primary_def)

text \<open>An operator as an atom: the parser tries it as a prefix operator and falls back.\<close>

lemma readable_atom: "readable (E :: 'f env) R False [Name_tok a] (AtmT a) 0"
proof (rule readable_primary)
  fix q rest and st :: "'f parser_state"
  assume f: "follows R False 0 rest" and st: "tokptr st = [Name_tok a] @ rest"
  let ?st = "st\<lparr>tokptr := rest\<rparr>"
  have c: "closing (tok_of rest) \<or> tok_of rest = Ponctuation_tok '','' \<or> tok_of rest = Ponctuation_tok ''|''"
    using f by (auto simp: follows_def)
  then have fails: "parse_term E R q' ?st = Failed ?st" for q' by (intro primary_fails) simp
  from c have "tok_of rest \<noteq> Ponctuation_tok ''l''" "\<not> is_number (tok_of rest)"
      "\<And>b. tok_of rest \<noteq> Name_tok b" by (auto simp: closing_def)
  then show "primary E R (parse_term E R) (parse_args E R) (parse_list E R) q st = Parsed (AtmT a, 0) ?st"
    using st fails
    by (auto simp: primary_def name_primary_def prefix_operator_def atom_or_compound_def signed_constant_def
        split: token.split option.split)
qed

lemma readable_brackets:
  fixes E :: "'f env"
  assumes "readable E R False ts t c" and "c \<le> 1200" and "b = ''('' \<or> b = ''l''"
  shows "readable E R any (Ponctuation_tok b # ts @ [Ponctuation_tok '')'']) t 0"
proof (rule readable_primary)
  fix q rest and st :: "'f parser_state"
  assume st: "tokptr st = (Ponctuation_tok b # ts @ [Ponctuation_tok '')'']) @ rest"
    and sp: "aux_room st (length (Ponctuation_tok b # ts @ [Ponctuation_tok '')'']))"
  let ?st = "st\<lparr>tokptr := ts @ Ponctuation_tok '')'' # rest\<rparr>"
    and ?st' = "st\<lparr>tokptr := Ponctuation_tok '')'' # rest\<rparr>"
  have "parse_term E R 1200 ?st = parse_rest E R 1200 c t ?st'"
    using readableD [OF assms(1,2), of "Ponctuation_tok '')'' # rest" ?st] sp
    by (simp add: follows_def closing_def)
  also have "\<dots> = Parsed t ?st'" by (rule rest_closing) (simp add: closing_def)
  finally have "parse_term E R 1200 ?st = Parsed t ?st'" .
  then show "primary E R (parse_term E R) (parse_args E R) (parse_list E R) q st = Parsed (t, 0) (st\<lparr>tokptr := rest\<rparr>)"
    using st assms(3)
    by (auto simp: primary_def ponctuation_primary_def bracketed_def GLOBAL_MaxPriority_def checkfor_def)
qed

lemma readable_hd:
  assumes "readable E R any ts t c" and "length ts < 4095"
  shows "ts \<noteq> [] \<and> \<not> closing (hd ts)"
proof (rule ccontr)
  assume "\<not> (ts \<noteq> [] \<and> \<not> closing (hd ts))"
  then have "closing (tok \<lparr>tokptr = ts @ [eot_tok], aux_sp = 0, shrunk = False\<rparr>)" by (cases ts) (auto simp: closing_def)
  then have "parse_term E R c \<lparr>tokptr = ts @ [eot_tok], aux_sp = 0, shrunk = False\<rparr> = Failed \<lparr>tokptr = ts @ [eot_tok], aux_sp = 0, shrunk = False\<rparr>"
    by (intro primary_fails) simp
  moreover have "parse_term E R c \<lparr>tokptr = ts @ [eot_tok], aux_sp = 0, shrunk = False\<rparr> =
      parse_rest E R c c t \<lparr>tokptr = [eot_tok], aux_sp = 0, shrunk = False\<rparr>"
    using readableD [OF assms(1), of c "[eot_tok]" "\<lparr>tokptr = ts @ [eot_tok], aux_sp = 0, shrunk = False\<rparr>"] assms(2)
    by (simp add: follows_def closing_def)
  ultimately show False by (simp add: rest_closing closing_def)
qed

lemma closes_braces_closing: "closes_braces R x \<Longrightarrow> closing x"
  using no_alias by (auto simp: closes_braces_def closing_def split: token.splits)

lemma readable_braces:
  fixes E :: "'f env"
  assumes "readable E R False ts t c" and "c \<le> 1200"
  shows "readable E R any (Ponctuation_tok ''{'' # ts @ [Ponctuation_tok ''}'']) (ApplT ''{}'' [t]) 0"
proof (rule readable_primary)
  fix q rest and st :: "'f parser_state"
  assume st: "tokptr st = (Ponctuation_tok ''{'' # ts @ [Ponctuation_tok ''}'']) @ rest"
    and sp: "aux_room st (length (Ponctuation_tok ''{'' # ts @ [Ponctuation_tok ''}'']))"
  let ?st = "st\<lparr>tokptr := ts @ Ponctuation_tok ''}'' # rest\<rparr>"
    and ?st' = "st\<lparr>tokptr := Ponctuation_tok ''}'' # rest\<rparr>"
  have "parse_term E R 1200 ?st = parse_rest E R 1200 c t ?st'"
    using readableD [OF assms(1,2), of "Ponctuation_tok ''}'' # rest" ?st] sp
    by (simp add: follows_def closing_def)
  also have "\<dots> = Parsed t ?st'" by (rule rest_closing) (simp add: closing_def)
  finally have "parse_term E R 1200 ?st = Parsed t ?st'" .
  moreover have "ts \<noteq> [] \<and> \<not> closing (hd ts)" using readable_hd [OF assms(1)] sp by simp
  then have "\<not> closes_braces R (tok ?st)" using closes_braces_closing by (cases ts) auto
  ultimately show "primary E R (parse_term E R) (parse_args E R) (parse_list E R) q st =
      Parsed (ApplT ''{}'' [t], 0) (st\<lparr>tokptr := rest\<rparr>)"
    using st
    by (auto simp: primary_def ponctuation_primary_def bracketed_def GLOBAL_MaxPriority_def checkfor_def
        Let_def Yap_MkApplTerm_def)
qed

section \<open>Operators\<close>

lemma readable_prefix:
  fixes E :: "'f env"
  assumes op: "pre_op R a = Some (p, r)" and t: "readable E R True ts t c" and "c \<le> r"
    and "hd ts \<noteq> Ponctuation_tok ''l''" and "\<not> (a = ''-'' \<and> is_number (hd ts))"
    and "signed_constant E a (hd ts) = None"
  shows "readable E R any (Name_tok a # ts) (ApplT a [t]) p"
  unfolding readable_def
proof (intro allI impI)
  fix q rest and st :: "'f parser_state"
  assume q: "p \<le> q" and f: "follows R any p rest" and st: "tokptr st = (Name_tok a # ts) @ rest"
    and sp: "aux_room st (length (Name_tok a # ts))"
  let ?st = "st\<lparr>tokptr := ts @ rest\<rparr>" and ?st' = "st\<lparr>tokptr := rest\<rparr>"
  have f': "follows R True c' rest" if "c' \<le> p" for c' using follows_le [OF f that] .
  have r: "r \<le> p" using pre_bounds [OF op] by simp
  have "parse_term E R r ?st = parse_rest E R r c t ?st'"
    using readableD [OF t \<open>c \<le> r\<close> f', of ?st] \<open>c \<le> r\<close> r sp by simp
  also have "\<dots> = Parsed t ?st'"
  proof (rule rest_operand)
    show "follows R True p (tokptr ?st')" using f' [of p] by simp
    show "r \<le> p" by (rule r)
    show "r = p \<Longrightarrow> in_op R b \<noteq> Some (p, p, r')" for b r' using pre_clash op by blast
  qed
  finally have 1: "parse_term E R r ?st = Parsed t ?st'" .
  have "ts \<noteq> []" using readable_hd [OF t] sp by simp
  then have hd: "tok ?st = hd ts" by (cases ts) auto
  have "primary E R (parse_term E R) (parse_args E R) (parse_list E R) q st = Parsed (ApplT a [t], p) ?st'"
  proof -
    have "prefix_operator E R (parse_term E R) (parse_args E R) q a ?st = Parsed (ApplT a [t], p) ?st'"
      using op assms(4,6) 1 q hd by (simp add: prefix_operator_def Yap_MkApplTerm_def)
    then show ?thesis
      using st hd assms(5) by (auto simp: primary_def name_primary_def split: token.split)
  qed
  then show "parse_term E R q st = parse_rest E R q p (ApplT a [t]) ?st'" by (simp add: parse_term_eq)
qed

text \<open>Two operands with an operator token between them, which the loop takes when its priority fits.\<close>

lemma readable_operator:
  fixes E :: "'f env"
  assumes t1: "readable E R True ts1 t1 c1" and "c1 \<le> l" and t2: "readable E R True ts2 t2 c2" and "c2 \<le> r"
    and "l \<le> p" and "r \<le> p" and clash: "r = p \<Longrightarrow> (\<And>b r'. in_op R b \<noteq> Some (p, p, r'))"
    and x: "\<And>rest. follows R True l (x # rest)" "x \<noteq> eot_tok"
    and step: "\<And>q (st :: 'f parser_state) st'. p \<le> q \<Longrightarrow> tok st = x \<Longrightarrow>
      parse_term E R r (GNextToken st) = Parsed t2 st' \<Longrightarrow>
      parse_rest E R q c1 t1 st = parse_rest E R q p u st'"
  shows "readable E R any (ts1 @ x # ts2) u p"
  unfolding readable_def
proof (intro allI impI)
  fix q rest and st :: "'f parser_state"
  assume q: "p \<le> q" and f: "follows R any p rest" and st: "tokptr st = (ts1 @ x # ts2) @ rest"
    and sp: "aux_room st (length (ts1 @ x # ts2))"
  let ?st1 = "st\<lparr>tokptr := x # ts2 @ rest\<rparr>" and ?st2 = "st\<lparr>tokptr := ts2 @ rest\<rparr>"
    and ?st' = "st\<lparr>tokptr := rest\<rparr>"
  have f': "follows R True c' rest" if "c' \<le> p" for c' using follows_le [OF f that] .
  have "follows R True c1 (x # ts2 @ rest)" using follows_le [OF x(1) \<open>c1 \<le> l\<close>] .
  then have 1: "parse_term E R q st = parse_rest E R q c1 t1 ?st1"
    using readableD [OF t1, of q _ st] st sp q assms(2,5) by simp
  have "parse_term E R r ?st2 = parse_rest E R r c2 t2 ?st'"
    using readableD [OF t2 \<open>c2 \<le> r\<close> f', of ?st2] sp assms(4,6) by simp
  also have "\<dots> = Parsed t2 ?st'"
    by (rule rest_operand [OF _ assms(6) clash]) (use f' [of p] in auto)
  finally have "parse_term E R r (GNextToken ?st1) = Parsed t2 ?st'" using x(2) by simp
  with 1 step [OF q, of ?st1] show "parse_term E R q st = parse_rest E R q p u ?st'" by simp
qed

lemma readable_between:
  fixes E :: "'f env"
  assumes op: "in_op R a = Some (p, l, r)" and t1: "readable E R True ts1 t1 c1" and "c1 \<le> l"
    and t2: "readable E R True ts2 t2 c2" and "c2 \<le> r" and "a \<noteq> ''.''"
  shows "readable E R any (ts1 @ Name_tok a # ts2) (ApplT a [t1, t2]) p"
proof (rule readable_operator [OF t1 \<open>c1 \<le> l\<close> t2 \<open>c2 \<le> r\<close>])
  show "l \<le> p" "r \<le> p" using in_bounds [OF op] by simp_all
  show "r = p \<Longrightarrow> in_op R b \<noteq> Some (p, p, r')" for b r' using in_clash op by blast
  show "follows R True l (Name_tok a # rest)" for rest :: "'f tokens" using op by (auto simp: follows_def)
  show "parse_rest E R q c1 t1 st = parse_rest E R q p (ApplT a [t1, t2]) st'"
    if "p \<le> q" "tok st = Name_tok a" "parse_term E R r (GNextToken st) = Parsed t2 st'" for q st st'
    using that op in_has [of a] \<open>c1 \<le> l\<close> \<open>a \<noteq> ''.''\<close>
    by (simp add: parse_rest_eq [of _ _ q c1] term_rest_def name_rest_def Yap_MkApplTerm_def)
qed simp

lemma readable_comma:
  fixes E :: "'f env"
  assumes t1: "readable E R True ts1 t1 c1" and "c1 \<le> 999" and t2: "readable E R True ts2 t2 c2" and "c2 \<le> 1000"
  shows "readable E R any (ts1 @ Ponctuation_tok '','' # ts2) (ApplT '','' [t1, t2]) 1000"
proof (rule readable_operator [OF t1 \<open>c1 \<le> 999\<close> t2 \<open>c2 \<le> 1000\<close>])
  show "in_op R b \<noteq> Some (1000, 1000, r')" for b r' using in_clash comma by blast
  show "follows R True 999 (Ponctuation_tok '','' # rest)" for rest :: "'f tokens" by (simp add: follows_def)
  show "parse_rest E R q c1 t1 st = parse_rest E R q 1000 (ApplT '','' [t1, t2]) st'"
    if "1000 \<le> q" "tok st = Ponctuation_tok '',''" "parse_term E R 1000 (GNextToken st) = Parsed t2 st'" for q st st'
    using that \<open>c1 \<le> 999\<close>
    by (simp add: parse_rest_eq [of _ _ q c1] term_rest_def ponctuation_rest_def Yap_MkApplTerm_def)
qed simp_all

lemma readable_bar:
  fixes E :: "'f env"
  assumes op: "in_op R ''|'' = Some (p, l, r)" and t1: "readable E R True ts1 t1 c1" and "c1 \<le> l"
    and t2: "readable E R True ts2 t2 c2" and "c2 \<le> r"
  shows "readable E R any (ts1 @ Ponctuation_tok ''|'' # ts2) (ApplT ''|'' [t1, t2]) p"
proof (rule readable_operator [OF t1 \<open>c1 \<le> l\<close> t2 \<open>c2 \<le> r\<close>])
  show "l \<le> p" "r \<le> p" using in_bounds [OF op] by simp_all
  show "r = p \<Longrightarrow> in_op R b \<noteq> Some (p, p, r')" for b r' using in_clash op by blast
  show "follows R True l (Ponctuation_tok ''|'' # rest)" for rest :: "'f tokens"
    using op by (simp add: follows_def bar_left_def)
  show "parse_rest E R q c1 t1 st = parse_rest E R q p (ApplT ''|'' [t1, t2]) st'"
    if "p \<le> q" "tok st = Ponctuation_tok ''|''" "parse_term E R r (GNextToken st) = Parsed t2 st'" for q st st'
    using that op \<open>c1 \<le> l\<close>
    by (simp add: parse_rest_eq [of _ _ q c1] term_rest_def ponctuation_rest_def Yap_MkApplTerm_def)
qed simp

section \<open>Arguments and lists\<close>

fun join :: "'f tokens list \<Rightarrow> 'f tokens" where
  "join [] = []"
| "join [ts] = ts"
| "join (ts # tss) = ts @ Ponctuation_tok '','' # join tss"

text \<open>Texts of arguments and elements, of priority 999 at most.\<close>

definition arg_text :: "'f env \<Rightarrow> 'f tokens \<Rightarrow> 'f trm \<Rightarrow> bool" where
  "arg_text E ts t \<longleftrightarrow> (\<exists>c \<le> 999. readable E R False ts t c)"

lemma parse_arg:
  assumes "arg_text E ts t" and "tokptr st = ts @ rest" and "aux_room st (length ts)"
    and "closing (tok_of rest) \<or> tok_of rest = Ponctuation_tok '','' \<or> tok_of rest = Ponctuation_tok ''|''"
  shows "parse_term E R 999 st = Parsed t (st\<lparr>tokptr := rest\<rparr>)"
proof -
  from assms(1) obtain c where c: "c \<le> 999" "readable E R False ts t c" by (auto simp: arg_text_def)
  have "follows R False c rest" using assms(4) c(1) bar_left by (auto simp: follows_def)
  from readableD [OF c(2,1) this assms(2,3)]
  have "parse_term E R 999 st = parse_rest E R 999 c t (st\<lparr>tokptr := rest\<rparr>)" .
  also have "\<dots> = Parsed t (st\<lparr>tokptr := rest\<rparr>)"
    using assms(4) by (elim disjE) (simp_all add: rest_closing rest_argument)
  finally show ?thesis .
qed

lemma parse_arguments:
  fixes E :: "'f env"
  assumes "list_all2 (arg_text E) tss ts" and "tss \<noteq> []" and "closing (Ponctuation_tok cl :: 'f token)"
    and "tokptr st = join tss @ Ponctuation_tok cl # rest" and "aux_room st (length (join tss))"
  shows "parse_args_loop E R cl p args st = Parsed (args @ ts) (st\<lparr>tokptr := rest, aux_sp := p\<rparr>)"
  using assms
proof (induction tss arbitrary: ts args st rule: join.induct)
  case 1
  then show ?case by simp
next
  case (2 us)
  then obtain t where t: "ts = [t]" "arg_text E us t" by (auto simp: list_all2_Cons1)
  have "parse_term E R 999 st = Parsed t (st\<lparr>tokptr := Ponctuation_tok cl # rest\<rparr>)"
    using 2 by (intro parse_arg [OF t(2)]) auto
  then show ?case
    using 2 t(1) by (auto simp: parse_args_loop_eq args_round_def checkfor_def closing_def)
next
  case (3 us vs tss)
  then obtain t ts' where t: "ts = t # ts'" "arg_text E us t" "list_all2 (arg_text E) (vs # tss) ts'"
    by (auto simp: list_all2_Cons1)
  let ?st = "st\<lparr>tokptr := Ponctuation_tok '','' # join (vs # tss) @ Ponctuation_tok cl # rest\<rparr>"
    and ?st' = "st\<lparr>tokptr := join (vs # tss) @ Ponctuation_tok cl # rest, aux_sp := aux_sp st + 1\<rparr>"
  have 1: "parse_term E R 999 st = Parsed t ?st"
    using 3 by (intro parse_arg [OF t(2)]) auto
  have 2: "parse_args_loop E R cl p (args @ [t]) ?st' = Parsed ((args @ [t]) @ ts') (?st'\<lparr>tokptr := rest, aux_sp := p\<rparr>)"
    using 3 t(3) by (intro "3.IH") auto
  show ?case
    using 1 2 3(5,6) t(1)
    by (cases st) (simp add: parse_args_loop_eq [of _ _ _ _ args] args_round_def)
qed

lemma readable_compound:
  fixes E :: "'f env"
  assumes "list_all2 (arg_text E) tss ts" and "tss \<noteq> []" and "a \<noteq> AtomDBref" and "a = ''.'' \<Longrightarrow> length ts \<noteq> 2"
  shows "readable E R any (Name_tok a # Ponctuation_tok ''l'' # join tss @ [Ponctuation_tok '')'']) (ApplT a ts) 0"
proof (rule readable_primary)
  fix q rest and st :: "'f parser_state"
  assume st: "tokptr st = (Name_tok a # Ponctuation_tok ''l'' # join tss @ [Ponctuation_tok '')'']) @ rest"
    and sp: "aux_room st (length (Name_tok a # Ponctuation_tok ''l'' # join tss @ [Ponctuation_tok '')'']))"
  let ?st = "st\<lparr>tokptr := join tss @ Ponctuation_tok '')'' # rest\<rparr>"
  have "parse_args_loop E R '')'' (aux_sp st) [] ?st = Parsed ([] @ ts) (?st\<lparr>tokptr := rest, aux_sp := aux_sp st\<rparr>)"
    using sp by (intro parse_arguments [OF assms(1,2)]) (simp_all add: closing_def)
  moreover have "ts \<noteq> []" using assms(1,2) by auto
  ultimately show "primary E R (parse_term E R) (parse_args E R) (parse_list E R) q st =
      Parsed (ApplT a ts, 0) (st\<lparr>tokptr := rest\<rparr>)"
    using st assms(3,4)
    by (simp add: primary_def name_primary_def prefix_operator_def atom_or_compound_def parse_args_eq
        args_start_def args_term_def Yap_MkApplTerm_def)
qed

text \<open>The elements of a list, up to the closing bracket.\<close>

definition list_text :: "'f env \<Rightarrow> 'f tokens \<Rightarrow> 'f trm \<Rightarrow> bool" where
  "list_text E us t \<longleftrightarrow> (\<forall>st rest. tokptr st = us @ Ponctuation_tok '']'' # rest \<longrightarrow>
    aux_room st (length us) \<longrightarrow> tok st \<noteq> Ponctuation_tok '']'' \<and>
    parse_list E R st = Parsed t (st\<lparr>tokptr := Ponctuation_tok '']'' # rest\<rparr>))"

lemma arg_text_hd:
  assumes "arg_text E ts t" and "length ts < 4095"
  shows "ts \<noteq> [] \<and> \<not> closing (hd ts)"
proof -
  from assms(1) obtain c where "readable E R False ts t c" by (auto simp: arg_text_def)
  from readable_hd [OF this assms(2)] show ?thesis .
qed

lemma list_text_start:
  assumes "arg_text E ts t" and "tokptr st = ts @ rest" and "aux_room st (length ts)"
  shows "tok st \<noteq> Ponctuation_tok '']''"
  using arg_text_hd [OF assms(1)] assms(2,3) by (cases ts) (auto simp: closing_def)

lemma list_text_last:
  assumes "arg_text E ts t"
  shows "list_text E ts (PairT t TermNil)"
  unfolding list_text_def
  using parse_arg [OF assms] list_text_start [OF assms]
  by (simp add: parse_list_eq list_round_def closing_def)

lemma list_text_tail:
  assumes "arg_text E ts t" and "arg_text E us u"
  shows "list_text E (ts @ Ponctuation_tok ''|'' # us) (PairT t u)"
  unfolding list_text_def
  using parse_arg [OF assms(1)] parse_arg [OF assms(2)] list_text_start [OF assms(1)]
  by (simp add: parse_list_eq list_round_def closing_def)

lemma list_text_more:
  assumes "arg_text E ts t" and "list_text E us u"
  shows "list_text E (ts @ Ponctuation_tok '','' # us) (PairT t u)"
  using parse_arg [OF assms(1)] assms(2) list_text_start [OF assms(1)]
  by (simp add: list_text_def parse_list_eq [of E R st for st] list_round_def)

lemma readable_list:
  fixes E :: "'f env"
  assumes "list_text E us t"
  shows "readable E R any (Ponctuation_tok ''['' # us @ [Ponctuation_tok '']'']) t 0"
proof (rule readable_primary)
  fix q rest and st :: "'f parser_state"
  assume st: "tokptr st = (Ponctuation_tok ''['' # us @ [Ponctuation_tok '']'']) @ rest"
    and sp: "aux_room st (length (Ponctuation_tok ''['' # us @ [Ponctuation_tok '']'']))"
  let ?st = "st\<lparr>tokptr := us @ Ponctuation_tok '']'' # rest\<rparr>"
  have "tok ?st \<noteq> Ponctuation_tok '']'' \<and>
      parse_list E R ?st = Parsed t (?st\<lparr>tokptr := Ponctuation_tok '']'' # rest\<rparr>)"
    using assms [unfolded list_text_def, rule_format, of ?st rest] sp by simp
  then show "primary E R (parse_term E R) (parse_args E R) (parse_list E R) q st = Parsed (t, 0) (st\<lparr>tokptr := rest\<rparr>)"
    using st by (simp add: primary_def ponctuation_primary_def Let_def checkfor_def)
qed

end

end
