(* ===== verification/YapOpsCorrect.thy ===== *)
theory YapOpsCorrect
  imports YapOps
begin

text \<open>
  What the operator table holds. \<open>field_in\<close> is the priority word that a module gives an atom;
  \<open>op_word\<close> is the one that counts in a module, its own or else the system's. The three tests read
  it, and \<open>OpDec\<close> changes one field of one module. An atom has one entry per module.
\<close>

section \<open>Reading\<close>

definition field_in :: "op_type \<Rightarrow> module_term \<Rightarrow> op_entry list \<Rightarrow> 16 word" where
  "field_in type m pp = (case find (\<lambda>i. OpModule i = m) pp of None \<Rightarrow> 0 | Some i \<Rightarrow> prio_field type i)"

definition op_word :: "op_table \<Rightarrow> op_type \<Rightarrow> module_term \<Rightarrow> string \<Rightarrow> 16 word" where
  "op_word ops type m a =
    (let w = field_in type m (ops a) in if w \<noteq> 0 then w else field_in type None (ops a))"

definition entries_ok :: "op_table \<Rightarrow> bool" where
  "entries_ok ops \<longleftrightarrow> (\<forall>a. distinct (map OpModule (ops a)))"

lemma field_in_simps [simp]:
  "field_in type m [] = 0"
  "field_in type m (i # pp) = (if OpModule i = m then prio_field type i else field_in type m pp)"
  by (simp_all add: field_in_def)

lemma field_in_no_entry: "m \<notin> OpModule ` set pp \<Longrightarrow> field_in type m pp = 0"
  by (induction pp) auto

text \<open>The loop's result, by its priority word and its module.\<close>

lemma GetOpProp_loop_eq:
  assumes "distinct (map OpModule pp)"
  shows "map_option (prio_field type) (GetOpProp_loop type m oinfo pp) =
    (if field_in type m pp \<noteq> 0 then Some (field_in type m pp)
     else if field_in type None pp \<noteq> 0 then Some (field_in type None pp)
     else map_option (prio_field type) oinfo)"
  using assms
proof (induction pp arbitrary: oinfo)
  case (Cons i pp)
  then have IH: "map_option (prio_field type) (GetOpProp_loop type m j pp) =
    (if field_in type m pp \<noteq> 0 then Some (field_in type m pp)
     else if field_in type None pp \<noteq> 0 then Some (field_in type None pp)
     else map_option (prio_field type) j)" for j
    by simp
  have none: "OpModule i = k \<Longrightarrow> field_in type k pp = 0" for k
    using Cons.prems by (auto simp: field_in_no_entry)
  show ?case
    using IH [of oinfo] IH [of "Some i"] none [of m] none [of None]
    by (cases "m = None"; cases "OpModule i = m"; cases "OpModule i = None")
      (auto simp del: map_option_eq_Some)
qed simp

lemma GetOpProp_loop_module:
  assumes "GetOpProp_loop type m oinfo pp = Some i"
    and "\<And>j. oinfo = Some j \<Longrightarrow> OpModule j \<in> {None, m} \<and> prio_field type j \<noteq> 0"
  shows "OpModule i \<in> {None, m} \<and> prio_field type i \<noteq> 0"
  using assms by (induction type m oinfo pp rule: GetOpProp_loop.induct) (auto split: if_splits)

lemma GetOpProp_word:
  assumes "entries_ok ops"
  shows "map_option (prio_field type) (Yap_GetOpProp ops a type m) =
    (if op_word ops type m a \<noteq> 0 then Some (op_word ops type m a) else None)"
  using assms GetOpProp_loop_eq [of "ops a" type m None]
  by (simp add: Yap_GetOpProp_def op_word_def entries_ok_def Let_def)

lemma GetOpProp_cases:
  assumes "entries_ok ops"
  obtains "Yap_GetOpProp ops a type m = None" "op_word ops type m a = 0"
  | i where "Yap_GetOpProp ops a type m = Some i" "op_word ops type m a = prio_field type i"
      "prio_field type i \<noteq> 0" "OpModule i \<in> {None, m}"
proof (cases "Yap_GetOpProp ops a type m")
  case None
  then show ?thesis using that(1) GetOpProp_word [OF assms, of type a m] by (simp split: if_splits)
next
  case (Some i)
  then have "OpModule i \<in> {None, m} \<and> prio_field type i \<noteq> 0"
    using GetOpProp_loop_module [of type m None "ops a" i] by (simp add: Yap_GetOpProp_def)
  with Some show ?thesis
    using that(2) [of i] GetOpProp_word [OF assms, of type a m] by (simp split: if_splits)
qed

text \<open>The test for a foreign module in the three functions never holds.\<close>

lemma IsOp_word:
  assumes "entries_ok ops"
  shows "IsPrefixOp ops m a = (let w = op_word ops PREFIX_OP m a in
      if w = 0 then None else Some (prio_of w, right_of w))"
    and "IsInfixOp ops m a = (let w = op_word ops INFIX_OP m a in
      if w = 0 then None else Some (prio_of w, left_of w, right_of w))"
    and "IsPosfixOp ops m a = (let w = op_word ops POSFIX_OP m a in
      if w = 0 then None else Some (prio_of w, left_of w))"
proof -
  show "IsPrefixOp ops m a = (let w = op_word ops PREFIX_OP m a in
      if w = 0 then None else Some (prio_of w, right_of w))"
    by (rule GetOpProp_cases [OF assms, of a PREFIX_OP m]) (auto simp: IsPrefixOp_def Let_def)
  show "IsInfixOp ops m a = (let w = op_word ops INFIX_OP m a in
      if w = 0 then None else Some (prio_of w, left_of w, right_of w))"
    by (rule GetOpProp_cases [OF assms, of a INFIX_OP m]) (auto simp: IsInfixOp_def Let_def)
  show "IsPosfixOp ops m a = (let w = op_word ops POSFIX_OP m a in
      if w = 0 then None else Some (prio_of w, left_of w))"
    by (rule GetOpProp_cases [OF assms, of a POSFIX_OP m]) (auto simp: IsPosfixOp_def Let_def)
qed

lemma HasOp_word: "op_word ops type m a \<noteq> 0 \<Longrightarrow> Yap_HasOp ops a"
  by (auto simp: op_word_def Yap_HasOp_def Let_def split: if_splits)

lemma right_of_le: "right_of w \<le> prio_of w"
  and left_of_le: "left_of w \<le> prio_of w"
  by (simp_all add: right_of_def left_of_def)

section \<open>Declaring\<close>

text \<open>The field a type sets, and the module a declaration is for.\<close>

definition kind :: "nat \<Rightarrow> op_type" where
  "kind i = (if i \<le> 3 then INFIX_OP else if i \<le> 5 then POSFIX_OP else PREFIX_OP)"

definition home :: "module_term \<Rightarrow> module_term" where
  "home m = (if m = Some ''prolog'' \<or> m = Some ''user'' then None else m)"

lemma type_index_optypes: "i \<in> {1, 2, 3, 4, 5, 6, 7} \<Longrightarrow> type_index (optypes ! i) = i"
  by (elim insertE; simp add: type_index_def optypes_def upt_rec)

lemma find_map_same:
  assumes "\<And>i. P (f i) = P i"
  shows "find P (map f xs) = map_option f (find P xs)"
  by (induction xs) (auto simp: assms)

lemma find_entry_find: "has_entry m pp \<Longrightarrow> find (\<lambda>i. OpModule i = m) pp = Some (find_entry m pp)"
  by (induction pp) (auto simp: has_entry_def find_entry_def)

lemma OpModule_find_entry: "has_entry m pp \<Longrightarrow> OpModule (find_entry m pp) = m"
  by (drule find_entry_find) (auto simp: find_Some_iff)

lemma field_in_store:
  assumes "has_entry m pp" and "OpModule info = m"
  shows "field_in type k (store_entry info pp) =
    (if k = m then prio_field type info else field_in type k pp)"
proof -
  have "find (\<lambda>i. OpModule i = k) (store_entry info pp) =
      map_option (\<lambda>i. if OpModule i = OpModule info then info else i) (find (\<lambda>i. OpModule i = k) pp)"
    unfolding store_entry_def by (rule find_map_same) auto
  then have f: "find (\<lambda>i. OpModule i = k) (store_entry info pp) =
      map_option (\<lambda>i. if OpModule i = m then info else i) (find (\<lambda>i. OpModule i = k) pp)"
    by (simp add: assms(2))
  show ?thesis
  proof (cases "k = m")
    case True
    then show ?thesis
      using f find_entry_find [OF assms(1)] OpModule_find_entry [OF assms(1)] by (simp add: field_in_def)
  next
    case False
    then have "OpModule i \<noteq> m" if "find (\<lambda>i. OpModule i = k) pp = Some i" for i
      using that by (auto simp: find_Some_iff)
    with f False show ?thesis by (simp add: field_in_def split: option.split)
  qed
qed

lemma map_OpModule_store [simp]: "map OpModule (store_entry info pp) = map OpModule pp"
  by (simp add: store_entry_def)

lemma set_prio_fields:
  assumes "set_prio iso_mode i p info = Inr info'"
  shows "OpModule info' = OpModule info"
    and "prio_field type info' = (if type = kind i then p else prio_field type info)"
  using assms by (cases type; auto simp: set_prio_def kind_def split: if_splits)+

definition with_entry :: "module_term \<Rightarrow> op_entry list \<Rightarrow> op_entry list" where
  "with_entry m pp =
    (if has_entry m pp then pp else \<lparr>OpModule = m, Prefix = 0, Infix = 0, Posfix = 0\<rparr> # pp)"

lemma with_entry [simp]:
  "has_entry m (with_entry m pp)"
  "field_in type k (with_entry m pp) = field_in type k pp"
  "distinct (map OpModule pp) \<Longrightarrow> distinct (map OpModule (with_entry m pp))"
proof -
  show "has_entry m (with_entry m pp)" by (simp add: with_entry_def has_entry_def)
  show "field_in type k (with_entry m pp) = field_in type k pp"
    by (cases type) (auto simp: with_entry_def has_entry_def field_in_no_entry)
  show "distinct (map OpModule pp) \<Longrightarrow> distinct (map OpModule (with_entry m pp))"
    by (simp add: with_entry_def has_entry_def)
qed

lemma OpDec_eq:
  assumes "type_index type \<le> 7"
  shows "OpDec iso_mode p type a m ops =
    (let pp = with_entry (home m) (ops a) in
     case set_prio iso_mode (type_index type) (flagged (type_index type) p) (find_entry (home m) pp) of
       Inl e \<Rightarrow> (Inl e, ops(a := pp))
     | Inr info \<Rightarrow> (Inr (), ops(a := store_entry info pp)))"
  using assms by (simp add: OpDec_def with_entry_def home_def Let_def)

lemma OpDec_fields:
  assumes "type_index type \<le> 7" and "OpDec iso_mode p type a m ops = (Inr (), ops')"
  shows "field_in t k (ops' b) =
    (if b = a \<and> t = kind (type_index type) \<and> k = home m then flagged (type_index type) p
     else field_in t k (ops b))"
proof -
  let ?i = "type_index type" and ?pp = "with_entry (home m) (ops a)"
  obtain info where info: "set_prio iso_mode ?i (flagged ?i p) (find_entry (home m) ?pp) = Inr info"
    and ops': "ops' = ops(a := store_entry info ?pp)"
    using assms by (auto simp: OpDec_eq Let_def split: sum.splits)
  have mod: "OpModule info = home m" using set_prio_fields(1) [OF info] OpModule_find_entry by simp
  have f: "find (\<lambda>i. OpModule i = home m) ?pp = Some (find_entry (home m) ?pp)"
    by (rule find_entry_find) simp
  then have "field_in t (home m) ?pp = prio_field t (find_entry (home m) ?pp)"
    by (simp add: field_in_def)
  then have old: "field_in t (home m) (ops a) = prio_field t (find_entry (home m) ?pp)" by simp
  show ?thesis
    using field_in_store [OF _ mod, of ?pp t k] set_prio_fields(2) [OF info, of t] old
    by (auto simp: ops')
qed

lemma OpDec_entries_ok:
  assumes "entries_ok ops"
  shows "entries_ok (snd (OpDec iso_mode p type a m ops))"
proof (cases "type_index type \<le> 7")
  case True
  with assms show ?thesis
    by (auto simp: OpDec_eq Let_def entries_ok_def split: sum.splits)
next
  case False
  with assms show ?thesis by (simp add: OpDec_def Let_def)
qed

lemma and_single_bit:
  fixes v w :: "16 word"
  assumes "\<And>k. bit v k \<longleftrightarrow> k = n"
  shows "w AND v \<noteq> 0 \<longleftrightarrow> bit w n"
proof -
  have "w AND v = (if bit w n then v else 0)"
    by (rule bit_eqI) (auto simp: bit_and_iff assms)
  moreover have "v \<noteq> 0" using assms [of n] by auto
  ultimately show ?thesis by simp
qed

lemma prio_of_flagged:
  assumes "i \<in> {1, 2, 3, 4, 5, 6, 7}" and "0 < p" and "p < 0x1000"
  shows "prio_of (flagged i p) = unat p \<and> flagged i p \<noteq> 0
    \<and> left_of (flagged i p) = (if i \<in> {1, 2, 4} then unat p - 1 else unat p)
    \<and> right_of (flagged i p) = (if i \<in> {1, 3, 6} then unat p - 1 else unat p)"
proof -
  define q :: "16 word" where "q = ucast p"
  have p: "unat p < 2 ^ 12" "0 < unat p"
    using assms(2,3) by (simp_all add: word_less_nat_alt)
  then have uq: "unat q = unat p" by (simp add: q_def unsigned_ucast_eq take_bit_eq_mod)
  have mask: "MaskPrio = mask 12" by (simp add: MaskPrio_def mask_eq_exp_minus_1)
  have q_bits: "\<not> bit q n" if "12 \<le> n" for n
  proof -
    have "q = take_bit 12 q" using p uq by (simp add: word_unat_eq_iff unsigned_take_bit_eq take_bit_nat_eq_self)
    then have "bit q n = bit (take_bit 12 q) n" by metis
    then show ?thesis using that by (simp add: bit_take_bit_iff)
  qed
  have l: "bit DcrlpFlag n \<longleftrightarrow> n = 12" for n
    using bit_exp_iff [where 'a = "16 word", of 12 n] by (auto simp: DcrlpFlag_def)
  have r: "bit DcrrpFlag n \<longleftrightarrow> n = 13" for n
    using bit_exp_iff [where 'a = "16 word", of 13 n] by (auto simp: DcrrpFlag_def)
  have bits: "bit (flagged i p) n \<longleftrightarrow>
      bit q n \<or> (i \<in> {1, 2, 4} \<and> n = 12) \<or> (i \<in> {1, 3, 6} \<and> n = 13)" for n
    using assms(2) by (auto simp: flagged_def q_def [symmetric] bit_or_iff l r)
  have "flagged i p AND MaskPrio = q"
    using q_bits by (intro bit_eqI) (auto simp: bit_and_iff bits mask bit_mask_iff simp flip: not_le)
  then have prio: "prio_of (flagged i p) = unat p" by (simp add: prio_of_def uq)
  have "flagged i p AND DcrlpFlag \<noteq> 0 \<longleftrightarrow> bit (flagged i p) 12"
    using l by (rule and_single_bit)
  then have left: "flagged i p AND DcrlpFlag \<noteq> 0 \<longleftrightarrow> i \<in> {1, 2, 4}"
    using bits [of 12] q_bits [of 12] by simp
  have "flagged i p AND DcrrpFlag \<noteq> 0 \<longleftrightarrow> bit (flagged i p) 13"
    using r by (rule and_single_bit)
  then have right: "flagged i p AND DcrrpFlag \<noteq> 0 \<longleftrightarrow> i \<in> {1, 3, 6}"
    using bits [of 13] q_bits [of 13] by simp
  have "flagged i p \<noteq> 0" using prio p by (auto simp: prio_of_def)
  with prio left right show ?thesis by (auto simp: left_of_def right_of_def)
qed

end
