(* ===== verification/YapInitOps.thy ===== *)
theory YapInitOps
  imports YapReadable YapOpsCorrect
begin

text \<open>
  The operators YAP starts with are clear in the sense of \<open>clear_ops\<close>. A table made by declarations for
  the system has for every atom and type the word of the last declaration.
\<close>

section \<open>Tables of declarations\<close>

definition declare_op :: "string \<times> string \<times> 32 word \<Rightarrow> op_table \<Rightarrow> op_table" where
  "declare_op d tab = snd (OpDec False (snd (snd d)) (fst (snd d)) (fst d) None tab)"

definition decl_word :: "op_type \<Rightarrow> string \<Rightarrow> (string \<times> string \<times> 32 word) list \<Rightarrow> 16 word \<Rightarrow> 16 word" where
  "decl_word t b = fold (\<lambda>d w.
     if fst d = b \<and> kind (type_index (fst (snd d))) = t then flagged (type_index (fst (snd d))) (snd (snd d)) else w)"

lemma InitOps_declare: "InitOps = fold declare_op Ops (\<lambda>_. [])"
  unfolding InitOps_def by (rule fold_cong) (auto simp: declare_op_def)

lemma OpDec_succeeds:
  assumes "type_index type \<le> 7"
  shows "fst (OpDec False p type a m tab) = Inr ()"
  using assms by (auto simp: OpDec_eq Let_def set_prio_def split: sum.splits if_splits)

lemma declare_op_fields:
  assumes "type_index (fst (snd d)) \<le> 7"
  shows "field_in t None (declare_op d tab b) =
    (if b = fst d \<and> t = kind (type_index (fst (snd d))) then flagged (type_index (fst (snd d))) (snd (snd d))
     else field_in t None (tab b))"
    and "field_in t (Some m) (declare_op d tab b) = field_in t (Some m) (tab b)"
proof -
  have "OpDec False (snd (snd d)) (fst (snd d)) (fst d) None tab = (Inr (), declare_op d tab)"
    using OpDec_succeeds [OF assms, of "snd (snd d)" "fst d" None tab]
    by (simp add: declare_op_def prod_eq_iff)
  note OpDec_fields [OF assms this]
  then show "field_in t None (declare_op d tab b) =
    (if b = fst d \<and> t = kind (type_index (fst (snd d))) then flagged (type_index (fst (snd d))) (snd (snd d))
     else field_in t None (tab b))"
    and "field_in t (Some m) (declare_op d tab b) = field_in t (Some m) (tab b)"
    by (simp_all add: home_def)
qed

lemma declared_fields:
  assumes "list_all (\<lambda>d. type_index (fst (snd d)) \<le> 7) ds"
  shows "field_in t None (fold declare_op ds tab b) = decl_word t b ds (field_in t None (tab b))"
    and "field_in t (Some m) (fold declare_op ds tab b) = field_in t (Some m) (tab b)"
  using assms by (induction ds arbitrary: tab) (auto simp: declare_op_fields decl_word_def)

lemma declared_entries_ok: "entries_ok tab \<Longrightarrow> entries_ok (fold declare_op ds tab)"
  by (induction ds arbitrary: tab) (auto simp: declare_op_def OpDec_entries_ok)

text \<open>A word comes from a declaration.\<close>

lemma decl_word_from:
  "decl_word t b ds w = w \<or> (\<exists>type p. (b, type, p) \<in> set ds \<and> kind (type_index type) = t
    \<and> decl_word t b ds w = flagged (type_index type) p)"
proof (induction ds arbitrary: w)
  case (Cons d ds)
  then show ?case by (cases d) (fastforce simp: decl_word_def)
qed (simp add: decl_word_def)

section \<open>The initial operators\<close>

definition decl_ok :: "string \<times> string \<times> 32 word \<Rightarrow> bool" where
  "decl_ok d \<longleftrightarrow> (case d of (a, type, p) \<Rightarrow>
     0 < p \<and> p \<le> 1200 \<and> type \<in> {''xfx'', ''xfy'', ''yfx'', ''fx'', ''fy''} \<and> (type = ''yfx'' \<longleftrightarrow> p = 400 \<or> p = 500))"

lemma Ops_ok: "list_all decl_ok Ops"
  by (simp add: Ops_def decl_ok_def)

lemma type_index_names [simp]:
  "type_index ''xfx'' = 1" "type_index ''xfy'' = 2" "type_index ''yfx'' = 3"
  "type_index ''xf'' = 4" "type_index ''yf'' = 5" "type_index ''fx'' = 6" "type_index ''fy'' = 7"
  by (simp_all add: type_index_def optypes_def upt_rec)

lemma op_word_InitOps: "op_word InitOps t m b = decl_word t b Ops 0"
proof -
  have ok: "list_all (\<lambda>d. type_index (fst (snd d)) \<le> 7) Ops"
    using Ops_ok by (rule list.pred_mono_strong) (auto simp: decl_ok_def)
  show ?thesis
    using declared_fields(1) [OF ok, of t "\<lambda>_. []" b] declared_fields(2) [OF ok, of t _ "\<lambda>_. []" b]
    by (cases m) (simp_all add: op_word_def InitOps_declare Let_def)
qed

lemma entries_ok_InitOps: "entries_ok InitOps"
  unfolding InitOps_declare by (rule declared_entries_ok) (simp add: entries_ok_def)

text \<open>An operator of the table: its declaration, and what the tests give for it.\<close>

lemma InitOps_word:
  assumes "op_word InitOps t m b \<noteq> 0"
  obtains type p where "decl_ok (b, type, p)" "kind (type_index type) = t"
    "op_word InitOps t m b = flagged (type_index type) p"
proof -
  from decl_word_from [of t b Ops 0] assms obtain type p where *: "(b, type, p) \<in> set Ops"
    "kind (type_index type) = t" "op_word InitOps t m b = flagged (type_index type) p"
    by (auto simp: op_word_InitOps)
  moreover have "decl_ok (b, type, p)" using Ops_ok *(1) by (auto simp: list_all_iff)
  ultimately show ?thesis using that by blast
qed

lemma InitOps_fields:
  assumes "decl_ok (b, type, p)" and "w = flagged (type_index type) p"
  shows "prio_of w = unat p \<and> 0 < unat p \<and> unat p \<le> 1200 \<and> w \<noteq> 0
    \<and> left_of w = (if type \<in> {''xfx'', ''xfy''} then unat p - 1 else unat p)
    \<and> right_of w = (if type \<in> {''xfx'', ''yfx'', ''fx''} then unat p - 1 else unat p)
    \<and> (type = ''yfx'' \<longleftrightarrow> unat p = 400 \<or> unat p = 500)"
proof -
  have p: "0 < p" "p \<le> 1200" "type \<in> {''xfx'', ''xfy'', ''yfx'', ''fx'', ''fy''}"
    "type = ''yfx'' \<longleftrightarrow> p = 400 \<or> p = 500"
    using assms(1) unfolding decl_ok_def prod.case by blast+
  have u: "0 < unat p" "unat p \<le> 1200" "p < 0x1000" "p = 400 \<or> p = 500 \<longleftrightarrow> unat p = 400 \<or> unat p = 500"
    using p(1,2) by (simp_all add: word_less_nat_alt word_le_nat_alt word_unat_eq_iff)
  have i: "type_index type \<in> {1, 2, 3, 4, 5, 6, 7}" using p(3) by (elim insertE) simp_all
  have "left_of w = (if type_index type \<in> {1, 2, 4} then unat p - 1 else unat p)"
    "right_of w = (if type_index type \<in> {1, 3, 6} then unat p - 1 else unat p)" "prio_of w = unat p" "w \<noteq> 0"
    unfolding assms(2) using prio_of_flagged [OF i p(1) u(3)] by blast+
  moreover have "type_index type \<in> {1, 2, 4} \<longleftrightarrow> type \<in> {''xfx'', ''xfy''}"
    "type_index type \<in> {1, 3, 6} \<longleftrightarrow> type \<in> {''xfx'', ''yfx'', ''fx''}"
    using p(3) by (elim insertE; simp)+
  ultimately show ?thesis using p(4) u by simp
qed

definition init_reader :: "(string \<Rightarrow> cell) \<Rightarrow> reader" where
  "init_reader addr = \<lparr>ops = InitOps, cur_mod = Some ''user'', atom_addr = addr, stray_prop = (\<lambda>_. False)\<rparr>"

lemma init_in_op:
  assumes "in_op (init_reader addr) b = Some (p, l, r)"
  shows "\<exists>type. type \<in> {''xfx'', ''xfy'', ''yfx''} \<and> 0 < p \<and> p \<le> 1200
    \<and> l = (if type \<in> {''xfx'', ''xfy''} then p - 1 else p)
    \<and> r = (if type \<in> {''xfx'', ''yfx''} then p - 1 else p) \<and> (type = ''yfx'' \<longleftrightarrow> p = 400 \<or> p = 500)
    \<and> op_word InitOps INFIX_OP (Some ''user'') b \<noteq> 0"
proof -
  let ?w = "op_word InitOps INFIX_OP (Some ''user'') b"
  have w: "?w \<noteq> 0" "p = prio_of ?w" "l = left_of ?w" "r = right_of ?w"
    using assms IsOp_word(2) [OF entries_ok_InitOps] by (auto simp: init_reader_def Let_def split: if_splits)
  from InitOps_word [OF w(1)] obtain type q where q: "decl_ok (b, type, q)" "kind (type_index type) = INFIX_OP"
    "?w = flagged (type_index type) q" .
  then have type: "type \<in> {''xfx'', ''xfy'', ''yfx''}"
    unfolding decl_ok_def prod.case by (elim conjE insertE) (simp_all add: kind_def)
  show ?thesis
    using InitOps_fields [OF q(1,3)] w type by (intro exI [of _ type]) (elim insertE; simp)
qed

lemma init_pre_op:
  assumes "pre_op (init_reader addr) b = Some (p, r)"
  shows "p \<le> 1200 \<and> r \<le> p \<and> (r = p \<longrightarrow> p \<noteq> 400 \<and> p \<noteq> 500) \<and> op_word InitOps PREFIX_OP (Some ''user'') b \<noteq> 0"
proof -
  let ?w = "op_word InitOps PREFIX_OP (Some ''user'') b"
  have w: "?w \<noteq> 0" "p = prio_of ?w" "r = right_of ?w"
    using assms IsOp_word(1) [OF entries_ok_InitOps] by (auto simp: init_reader_def Let_def split: if_splits)
  from InitOps_word [OF w(1)] obtain type q where q: "decl_ok (b, type, q)" "kind (type_index type) = PREFIX_OP"
    "?w = flagged (type_index type) q" .
  then have type: "type \<in> {''fx'', ''fy''}"
    unfolding decl_ok_def prod.case by (elim conjE insertE) (simp_all add: kind_def)
  show ?thesis
    using InitOps_fields [OF q(1,3)] w type by (elim insertE) auto
qed

lemma init_post_op: "post_op (init_reader addr) b = None"
proof -
  have "op_word InitOps POSFIX_OP (Some ''user'') b = 0"
  proof (rule ccontr)
    assume "op_word InitOps POSFIX_OP (Some ''user'') b \<noteq> 0"
    from InitOps_word [OF this] obtain type q where "decl_ok (b, type, q)"
      "kind (type_index type) = POSFIX_OP" by metis
    then show False
      unfolding decl_ok_def prod.case by (elim conjE insertE) (simp_all add: kind_def)
  qed
  then show ?thesis using IsOp_word(3) [OF entries_ok_InitOps] by (simp add: init_reader_def Let_def)
qed

lemma decl_word_comma: "decl_word INFIX_OP '','' Ops 0 = flagged 2 1000"
  and decl_word_bar: "decl_word INFIX_OP ''|'' Ops 0 = flagged 2 1105"
  by (simp_all add: decl_word_def Ops_def kind_def)

lemma init_comma_bar:
  "in_op (init_reader addr) '','' = Some (1000, 999, 1000)"
  "in_op (init_reader addr) ''|'' = Some (1105, 1104, 1105)"
  using prio_of_flagged [of 2 1000] prio_of_flagged [of 2 1105]
  by (simp_all add: init_reader_def IsOp_word(2) [OF entries_ok_InitOps] op_word_InitOps decl_word_comma
      decl_word_bar Let_def)

text \<open>Addresses that stay apart in their low 32 bits, below 2 GB: the closing brace is told from other atoms.\<close>

definition low_addresses :: "(string \<Rightarrow> cell) \<Rightarrow> bool" where
  "low_addresses addr \<longleftrightarrow> (\<forall>c.
     scast (ucast (MkAtomTerm (addr c)) :: 32 word) = MkAtomTerm (addr ''}'') \<longrightarrow> c = ''}'')"

lemma init_clear_ops:
  assumes "low_addresses addr"
  shows "clear_ops (init_reader addr)"
proof
  let ?R = "init_reader addr"
  show "l \<le> p \<and> r \<le> p \<and> p \<le> 1200" if "in_op ?R a = Some (p, l, r)" for a p l r
    using init_in_op [OF that] by auto
  show "r \<le> p \<and> p \<le> 1200" if "pre_op ?R a = Some (p, r)" for a p r
    using init_pre_op [OF that] by simp
  show "Yap_HasOp (ops ?R) a" if "in_op ?R a \<noteq> None" for a
    using that init_in_op HasOp_word by (fastforce simp: init_reader_def)
  show "Yap_HasOp (ops ?R) a" if "pre_op ?R a \<noteq> None" for a
    using that init_pre_op HasOp_word by (fastforce simp: init_reader_def)
  show "post_op ?R a = None" for a by (rule init_post_op)
  show "in_op ?R b \<noteq> Some (p, p, r)" if "in_op ?R a = Some (p, l, p)" for a b p l r
    using init_in_op [OF that] init_in_op [of addr b p p r] by (auto split: if_splits)
  show "in_op ?R b \<noteq> Some (p, p, r)" if "pre_op ?R a = Some (p, p)" for a b p r
    using init_pre_op [OF that] init_in_op [of addr b p p r] by (auto split: if_splits)
  show "in_op ?R '','' = Some (1000, 999, 1000)" by (rule init_comma_bar)
  show "999 < p \<and> 999 \<le> l" if "in_op ?R ''|'' = Some (p, l, r)" for p l r
    using that by (simp add: init_comma_bar)
  show "c = ''}''" if "scast (ucast (MkAtomTerm (atom_addr ?R c)) :: 32 word) = MkAtomTerm (atom_addr ?R ''}'')" for c
    using assms that by (simp add: low_addresses_def init_reader_def)
qed

text \<open>An instance: the closing brace is at address 16 and every other atom at 32.\<close>

definition two_addresses :: "string \<Rightarrow> cell" where
  "two_addresses c = (if c = ''}'' then 16 else 32)"

interpretation init: clear_ops "init_reader two_addresses"
proof (rule init_clear_ops)
  show "low_addresses two_addresses"
    by (simp add: low_addresses_def two_addresses_def MkAtomTerm_def TAGGEDA_def AtomTag_def MKTAG_def)
qed

end
