(* ===== verification/YapChars.thy ===== *)
theory YapChars
  imports Main
begin

text \<open>
  Characters for the reader and the writer: their kinds (\<open>Yap_chtype0\<close>, C/scanner.c), the atoms that
  need no quotes and the way a character is written between quotes (C/write.c). A text is a list of
  characters of one byte. The code works on UTF-8; on ASCII a character is its byte, and the
  theorems are about ASCII.
\<close>

section \<open>Kinds of characters\<close>

datatype char_kind = BG | UC | UL | LC | NU | QT | DC | SY | SL | BK | BS | EF | CC

text \<open>The table from the character 0 on, as runs of one kind.\<close>

definition Yap_chtype0 :: "(char_kind \<times> nat) list" where
  "Yap_chtype0 =
    [(BS, 33), (SL, 1), (DC, 1), (SY, 2), (CC, 1), (SY, 1), (QT, 1), (BK, 2), (SY, 2), (BK, 1), (SY, 3),
     (NU, 10), (SY, 1), (SL, 1), (SY, 5), (UC, 26), (BK, 1), (SY, 1), (BK, 1), (SY, 1), (UL, 1), (SY, 1),
     (LC, 26), (BK, 3), (SY, 1), (BS, 34),
     (SY, 9), (LC, 1), (SY, 7), (LC, 2), (SY, 5), (LC, 2), (SY, 5), (UC, 23), (SY, 1), (UC, 7), (LC, 24),
     (SY, 1), (LC, 8)]"

fun kind_at :: "(char_kind \<times> nat) list \<Rightarrow> nat \<Rightarrow> char_kind" where
  "kind_at [] i = BG"
| "kind_at ((k, n) # ks) i = (if i < n then k else kind_at ks (i - n))"

definition chtype :: "char \<Rightarrow> char_kind" where
  "chtype c = kind_at Yap_chtype0 (of_char c)"

text \<open>The kinds up to \<open>NU\<close> in the enumeration: the characters of names.\<close>

definition alnum :: "char \<Rightarrow> bool" where
  "alnum c \<longleftrightarrow> chtype c \<in> {BG, UC, UL, LC, NU}"

definition my_isupper :: "char \<Rightarrow> bool" where
  "my_isupper c \<longleftrightarrow> 65 \<le> (of_char c :: nat) \<and> (of_char c :: nat) \<le> 90"

section \<open>Atoms\<close>

text \<open>Does the text read as an atom without quotes?\<close>

definition legalAtom :: "string \<Rightarrow> bool" where
  "legalAtom s = (case s of
      [] \<Rightarrow> False
    | ch # rest \<Rightarrow>
        if chtype ch \<noteq> LC then
          if ch = CHR ''['' then rest = '']''
          else if ch = CHR ''{'' then rest = ''}''
          else if chtype ch = SL then rest = []
          else if ch = CHR 0x60 then False
          else if (ch = CHR '','' \<or> ch = CHR ''.'') \<and> rest = [] then False
          else if ch = CHR ''/'' \<and> take 1 rest = ''*'' then False
          else list_all (\<lambda>c. chtype c = SY) s
        else list_all alnum rest)"

datatype wtype = start | separator | alphanum | symbol

text \<open>Is the atom formed by symbols only?\<close>

definition AtomIsSymbols :: "string \<Rightarrow> wtype" where
  "AtomIsSymbols s =
    (if s \<noteq> [] \<and> chtype (hd s) = SL \<and> tl s = [] then separator
     else if list_all (\<lambda>c. chtype c = SY) s then symbol else alphanum)"

section \<open>Quoted text\<close>

definition octal_digit :: "nat \<Rightarrow> char" where
  "octal_digit n = char_of (48 + n mod 8)"

definition octal_escape :: "char \<Rightarrow> string" where
  "octal_escape ch = (let n = of_char ch :: nat in
    [CHR 0x5C, octal_digit (n div 64), octal_digit (n div 8), octal_digit n, CHR 0x5C])"

text \<open>With \<open>M_CHARESCAPE\<close> unset in the module, a single quote is doubled and nothing else is done.\<close>

definition write_quoted :: "bool \<Rightarrow> char \<Rightarrow> char \<Rightarrow> string" where
  "write_quoted escapes quote ch =
    (if \<not> escapes then (if ch = CHR 0x27 then [ch, CHR 0x27] else [ch])
     else if \<not> ((of_char ch :: nat) < 0xff \<and> chtype ch = BS) \<and> ch \<noteq> CHR 0x27 \<and> ch \<noteq> CHR 0x5C \<and> ch \<noteq> CHR 0x60
     then [ch]
     else if ch = CHR 0x5C then [CHR 0x5C, CHR 0x5C]
     else if ch = CHR 0x27 then (if ch = quote then [CHR 0x5C, ch] else [ch])
     else if ch = CHR 0x22 then (if ch = quote then [CHR 0x5C, ch] else [ch])
     else if ch = CHR 0x60 then (if ch = quote then [CHR 0x60, ch] else [ch])
     else if ch = CHR 0x07 then [CHR 0x5C, CHR ''a'']
     else if ch = CHR 0x08 then [CHR 0x5C, CHR ''b'']
     else if ch = CHR 0x09 then [CHR 0x5C, CHR ''t'']
     else if ch = CHR 0x20 \<or> ch = CHR 0xA0 then [CHR 0x20]
     else if ch = CHR 0x0A then [CHR 0x5C, CHR ''n'']
     else if ch = CHR 0x0B then [CHR 0x5C, CHR ''v'']
     else if ch = CHR 0x0D then [CHR 0x5C, CHR ''r'']
     else if ch = CHR 0x0C then [CHR 0x5C, CHR ''f'']
     else octal_escape ch)"

definition quoted :: "bool \<Rightarrow> char \<Rightarrow> string \<Rightarrow> string" where
  "quoted escapes q s = q # concat (map (write_quoted escapes q) s) @ [q]"

text \<open>The text that \<open>putAtom\<close> writes.\<close>

definition atom_text :: "bool \<Rightarrow> bool \<Rightarrow> string \<Rightarrow> string" where
  "atom_text escapes Quote_illegal s =
    (if Quote_illegal \<and> \<not> legalAtom s then quoted escapes (CHR 0x27) s else s)"

end
