(* ===== verification/YapWriter.thy ===== *)
theory YapWriter
  imports YapChars YapParser
begin

text \<open>
  The writer (C/write.c). A state has the pieces of text written so far, the kind \<open>lw\<close> of the
  last one, the flag that it was a prefix minus, and the options. The text is the concatenation of the
  pieces. Portraying, attributed variables and blobs are left out.
\<close>

section \<open>State\<close>

text \<open>
  A piece is what one statement of the code puts out: characters, an atom, with the flag to quote it,
  the digits of an integer, the name of a variable, a double, a quoted string, or what the cells behind
  the end of a term make the code write.
\<close>

datatype 'f piece =
    Chars string
  | Atom_piece bool string
  | Int_piece cint
  | Big_piece int
  | Var_piece cint
  | Float_piece 'f
  | Quoted_piece char string
  | Beyond

record 'f wglbs =
  stream :: "'f piece list"
  Quote_illegal :: bool
  Ignore_ops :: bool
  Handle_vars :: bool
  Write_strings :: bool
  last_minus :: bool
  lw :: wtype
  MaxArgs :: nat

text \<open>What the writer takes from the rest of the system.\<close>

record 'f writer =
  H0 :: cell
  write_strings_flag :: bool
  charescape :: bool
  printf_p :: "cell \<Rightarrow> string"
  printf_float :: "'f \<Rightarrow> string"
  OpaqueHandlers :: "cell \<Rightarrow> (cell \<Rightarrow> string) option"

definition wrputs :: "string \<Rightarrow> 'f wglbs \<Rightarrow> 'f wglbs" where
  "wrputs s g = g\<lparr>stream := stream g @ [Chars s]\<rparr>"

definition wrput :: "'f piece \<Rightarrow> 'f wglbs \<Rightarrow> 'f wglbs" where
  "wrput x g = g\<lparr>stream := stream g @ [x]\<rparr>"

definition set_lw :: "wtype \<Rightarrow> 'f wglbs \<Rightarrow> 'f wglbs" where
  "set_lw w g = g\<lparr>lw := w\<rparr>"

definition space_if :: "bool \<Rightarrow> 'f wglbs \<Rightarrow> 'f wglbs" where
  "space_if b g = (if b then wrputs '' '' g else g)"

section \<open>Pieces of text\<close>

definition wropen_bracket :: "bool \<Rightarrow> 'f wglbs \<Rightarrow> 'f wglbs" where
  "wropen_bracket protect g =
    set_lw separator (wrputs ''('' (space_if (lw g \<noteq> separator \<and> protect) g))"

definition wrclose_bracket :: "'f wglbs \<Rightarrow> 'f wglbs" where
  "wrclose_bracket g = set_lw separator (wrputs '')'' g)"

definition open_if :: "bool \<Rightarrow> 'f wglbs \<Rightarrow> 'f wglbs" where
  "open_if b g = (if b then wropen_bracket True g else g)"

definition close_if :: "bool \<Rightarrow> 'f wglbs \<Rightarrow> 'f wglbs" where
  "close_if b g = (if b then wrclose_bracket g else g)"

definition protect_open_number :: "bool \<Rightarrow> bool \<Rightarrow> 'f wglbs \<Rightarrow> bool \<times> 'f wglbs" where
  "protect_open_number lm minus_required g =
    (if lw g = symbol \<and> lm \<and> \<not> minus_required then (True, wropen_bracket True g)
     else (False, space_if (lw g = alphanum \<or> lw g = symbol \<and> minus_required) g))"

definition protect_close_number :: "bool \<Rightarrow> 'f wglbs \<Rightarrow> 'f wglbs" where
  "protect_close_number used_bracket g =
    (if used_bracket then wrclose_bracket g else set_lw alphanum g)\<lparr>last_minus := False\<rparr>"

definition wrputn :: "cint \<Rightarrow> 'f wglbs \<Rightarrow> 'f wglbs" where
  "wrputn n g =
    (let (ob, g) = protect_open_number (last_minus g) (c_less n 0) g
     in protect_close_number ob (wrput (Int_piece n) g))"

text \<open>The sign of a bignum is asked for with \<open>mpz_sgn\<close>, which is not zero for a positive one.\<close>

definition write_mpint :: "'f env \<Rightarrow> int \<Rightarrow> 'f wglbs \<Rightarrow> 'f wglbs" where
  "write_mpint E big g =
    (let (ob, g) = protect_open_number (last_minus g) (mpz_sgn E big \<noteq> 0) g
     in protect_close_number ob (wrput (Big_piece big) g))"

text \<open>The build without threads.\<close>

definition wrputf :: "'f env \<Rightarrow> 'f \<Rightarrow> 'f wglbs \<Rightarrow> 'f wglbs" where
  "wrputf E f g =
    (if f_isnan E f then set_lw separator (wrputs ''(nan)'' g)
     else let sgn = f_less E f (f_of_Int E 0) in
       if f_isinf E f then
         set_lw separator (wrputs (if sgn then ''(-inf)'' else ''(+inf)'') g)
       else let (ob, g) = protect_open_number (last_minus g) sgn g
         in protect_close_number ob (wrput (Float_piece f) (space_if (lw g = symbol \<or> lw g = alphanum) g)))"

definition putAtom :: "bool \<Rightarrow> string \<Rightarrow> 'f wglbs \<Rightarrow> 'f wglbs" where
  "putAtom quote s g =
    (if s = [] then (if quote then wrputs [CHR 0x27, CHR 0x27] g else g)
     else let g = g\<lparr>last_minus := False\<rparr>; w = AtomIsSymbols s
       in wrput (Atom_piece quote s) (set_lw w (space_if (lw g = w \<and> w \<noteq> separator) g)))"

definition write_string :: "string \<Rightarrow> 'f wglbs \<Rightarrow> 'f wglbs" where
  "write_string s g = wrput (Quoted_piece (if Write_strings g then CHR 0x60 else CHR 0x22) s) g"

definition wrputref :: "'f writer \<Rightarrow> cell \<Rightarrow> 'f wglbs \<Rightarrow> 'f wglbs" where
  "wrputref W ref g =
    set_lw alphanum (wrputs (''('' @ printf_p W ref @ '')'') (putAtom (Quote_illegal g) AtomDBref g))"

text \<open>The name of a variable is its distance from the bottom of the global stack, in cells.\<close>

definition write_var :: "'f writer \<Rightarrow> cell \<Rightarrow> 'f wglbs \<Rightarrow> 'f wglbs" where
  "write_var W p g =
    (wrput (Var_piece (signed_drop_bit 3 (p - H0 W))) (space_if (lw g = alphanum) g))\<lparr>lw := alphanum, last_minus := False\<rparr>"

text \<open>Lists of character codes.\<close>

fun IsCodesTerm :: "'f trm \<Rightarrow> bool" where
  "IsCodesTerm (PairT t u) =
    (case t of
       IntT n \<Rightarrow>
         (let ch = sint (ucast n :: 32 word) in
          \<not> ((ch < 32 \<or> 255 < ch) \<and> ch \<noteq> 10 \<and> ch \<noteq> 9) \<and> (u = TermNil \<or> IsCodesTerm u))
     | _ \<Rightarrow> False)"
| "IsCodesTerm _ = False"

fun codes :: "'f trm \<Rightarrow> string" where
  "codes (PairT (IntT ch) u) = char_of (unat ch) # codes u"
| "codes _ = []"

definition putString :: "'f trm \<Rightarrow> 'f wglbs \<Rightarrow> 'f wglbs" where
  "putString t g = set_lw alphanum (wrput (Quoted_piece (CHR 0x22) (codes t)) g)"

definition putUnquotedString :: "'f trm \<Rightarrow> 'f wglbs \<Rightarrow> 'f wglbs" where
  "putUnquotedString t g = set_lw alphanum (wrputs (codes t) g)"

section \<open>Boxed numbers and blobs\<close>

definition ARRAY_INT :: cell where
  "ARRAY_INT = 0x21"

definition ARRAY_FLOAT :: cell where
  "ARRAY_FLOAT = 0x22"

text \<open>A rational is written as a term, whose two integers the code makes anew.\<close>

definition Yap_RatTermToApplTerm :: "'f env \<Rightarrow> rat \<Rightarrow> 'f trm" where
  "Yap_RatTermToApplTerm E q =
    ApplT ''rdiv'' [Yap_MkBigIntTerm E (mpq_numref E q), Yap_MkBigIntTerm E (mpq_denref E q)]"

definition writeblob :: "'f writer \<Rightarrow> cell \<Rightarrow> cell \<Rightarrow> 'f wglbs \<Rightarrow> 'f wglbs" where
  "writeblob W tag p g =
    (if tag = ARRAY_INT \<or> tag = ARRAY_FLOAT then set_lw separator (wrputs ''{...}'' g)
     else case (if 0x100 \<le> tag \<and> tag < 0x200 then OpaqueHandlers W tag else None) of
         Some f \<Rightarrow> wrputs (f p) g
       | None \<Rightarrow> wrputs ''0'' g)"

section \<open>Terms\<close>

fun Yap_IsListTerm :: "'f trm \<Rightarrow> bool" where
  "Yap_IsListTerm (PairT t u) = Yap_IsListTerm u"
| "Yap_IsListTerm t \<longleftrightarrow> t = TermNil"

text \<open>An atom that is an operator is put between brackets when it is an operand.\<close>

text \<open>
  \<open>NextOp\<close> goes through all properties of the atom and stops at an operator. It tests the module also of the
  other properties, and in the module prolog stops at one that has the bits of that module there.
\<close>

definition Yap_IsOp :: "reader \<Rightarrow> string \<Rightarrow> bool" where
  "Yap_IsOp R a \<longleftrightarrow> Yap_HasOp (ops R) a \<or> cur_mod R = None \<and> stray_prop R a"

definition bracket_operand :: "reader \<Rightarrow> 'f trm \<Rightarrow> bool" where
  "bracket_operand R t = (case t of AtmT a \<Rightarrow> Yap_IsOp R a | _ \<Rightarrow> False)"

definition accessor :: "string \<Rightarrow> string \<times> string" where
  "accessor f = (if f = ''()'' then (''('', '')'') else if f = ''[]'' then (''['', '']'') else (''{'', ''}''))"

definition write_infix_name :: "string \<Rightarrow> 'f wglbs \<Rightarrow> 'f wglbs" where
  "write_infix_name a g =
    (if a = '','' then set_lw separator (wrputs '','' g)
     else if a = ''|'' then
       set_lw separator (wrputs ''|'' (space_if (lw g = symbol \<or> lw g = separator) g))
     else putAtom (Quote_illegal g) a g)"

text \<open>A term \<open>'$VAR'(ti)\<close> that stands for a variable.\<close>

definition write_dollar_var :: "'f trm \<Rightarrow> 'f wglbs \<Rightarrow> 'f wglbs" where
  "write_dollar_var ti g = (case ti of
      IntT k \<Rightarrow>
        let (k, g) = (if c_less k (- 1) then (- k - 1, wrputs ''_'' g) else (k, g)) in
        if k = - 1 then set_lw alphanum (wrputs ''_'' g)
        else
          let g = wrputs [char_of (65 + nat (sint (c_mod k 26)))] g in
          if c_le 26 k then wrputn (c_div k 26) (set_lw separator g) else set_lw alphanum g
    | AtmT a \<Rightarrow> putAtom False a g
    | StrT s \<Rightarrow> wrput Beyond g
    | _ \<Rightarrow> putUnquotedString ti g)"

definition is_var_name :: "'f trm \<Rightarrow> bool" where
  "is_var_name ti \<longleftrightarrow> IsInt_trm ti \<or> IsCodesTerm ti \<or> IsAtom_trm ti \<or> IsStringTerm ti"

text \<open>The arguments are numbered from 1.\<close>

definition ArgOfTerm :: "nat \<Rightarrow> 'f trm list \<Rightarrow> 'f trm" where
  "ArgOfTerm i args = (if i - 1 < length args then args ! (i - 1) else null_trm)"

text \<open>The number of arguments that are written, and whether this goes beyond the end of the term.\<close>

definition args_written :: "bool \<Rightarrow> string \<Rightarrow> 'f trm list \<Rightarrow> nat \<times> bool" where
  "args_written ignore_ops f args =
    (if \<not> ignore_ops \<and> f = ''__YAP_heap__'' then
       let n = 3 + 2 * sint (IntegerOfTerm (ArgOfTerm 1 args))
       in (if n \<le> 1 then 1 else nat n, int (length args) < n)
     else (length args, False))"

text \<open>The size of a term, with room for a rational's.\<close>

fun wsize :: "'f trm \<Rightarrow> nat" where
  "wsize (PairT t u) = wsize t + wsize u + 2"
| "wsize (ApplT f ts) = sum_list (map wsize ts) + 4"
| "wsize (RatT q) = 10"
| "wsize t = 1"

lemma wsize_MkBigIntTerm: "wsize (Yap_MkBigIntTerm E z) = 1"
  by (simp add: Yap_MkBigIntTerm_def MkIntegerTerm_def mkInt_def TermNil_def)

lemma wsize_pos [simp]: "0 < wsize t"
  by (cases t) auto

lemma wsize_ArgOfTerm [simp]:
  "2 * wsize (ArgOfTerm i args) < 7 + 2 * sum_list (map wsize args)"
  "2 * wsize (ArgOfTerm i args) < 8 + 2 * sum_list (map wsize args)"
proof -
  have "wsize (ArgOfTerm i args) \<le> sum_list (map wsize args) + 1"
  proof (cases "i - 1 < length args")
    case True
    then have "wsize (args ! (i - 1)) \<le> sum_list (map wsize args)"
      by (intro member_le_sum_list) auto
    with True show ?thesis by (simp add: ArgOfTerm_def)
  qed (auto simp: ArgOfTerm_def)
  then show "2 * wsize (ArgOfTerm i args) < 7 + 2 * sum_list (map wsize args)"
    "2 * wsize (ArgOfTerm i args) < 8 + 2 * sum_list (map wsize args)" by simp_all
qed

lemma wsize_take [simp]: "2 * sum_list (map wsize (take n ts)) < 6 + 2 * sum_list (map wsize ts)"
proof -
  have "sum_list (map wsize (take n ts)) \<le> sum_list (map wsize ts)"
    by (metis append_take_drop_id le_add1 map_append sum_list_append)
  then show ?thesis by simp
qed

text \<open>How a compound term is written.\<close>

datatype form =
    Prefix_form nat nat
  | Posfix_form nat nat
  | Accessor_form nat nat
  | Infix_form nat nat nat
  | Var_form
  | Braces_form
  | Array_form
  | Plain_form

definition form_of :: "reader \<Rightarrow> bool \<Rightarrow> string \<Rightarrow> 'f trm list \<Rightarrow> form" where
  "form_of R ignore_ops f args =
    (case (if \<not> ignore_ops \<and> length args = 1 then pre_op R f else None) of
       Some (opp, rp) \<Rightarrow> Prefix_form opp rp
     | None \<Rightarrow> (case (if \<not> ignore_ops \<and> (length args = 1
           \<or> f \<in> {''()'', ''{}'', ''[]''} \<and> Yap_IsListTerm (ArgOfTerm 1 args)) then post_op R f else None) of
       Some (opp, lp) \<Rightarrow> if length args = 1 then Posfix_form opp lp else Accessor_form opp lp
     | None \<Rightarrow> (case (if \<not> ignore_ops \<and> length args = 2 then in_op R f else None) of
       Some (opp, lp, rp) \<Rightarrow> Infix_form opp lp rp
     | None \<Rightarrow>
         if f = ''$VAR'' \<and> length args = 1 then Var_form
         else if \<not> ignore_ops \<and> f = ''{}'' \<and> length args = 1 then Braces_form
         else if f = ''$array'' then Array_form
         else Plain_form)))"

text \<open>What comes before and between the operands of an operator of priority \<open>opp\<close>, where \<open>p\<close> is allowed.\<close>

definition prefix_start :: "reader \<Rightarrow> string \<Rightarrow> 'f trm \<Rightarrow> bool \<Rightarrow> 'f wglbs \<Rightarrow> 'f wglbs" where
  "prefix_start R f arg1 paren g =
    (let br = bracket_operand R arg1;
         g = open_if br (putAtom (Quote_illegal g) f (open_if paren g))
     in if \<not> br \<and> f = ''-'' then g\<lparr>last_minus := True\<rparr> else g)"

definition left_start :: "reader \<Rightarrow> 'f trm \<Rightarrow> bool \<Rightarrow> 'f wglbs \<Rightarrow> 'f wglbs" where
  "left_start R arg paren g = open_if (bracket_operand R arg) (open_if paren g)"

definition right_start :: "reader \<Rightarrow> string \<Rightarrow> 'f trm \<Rightarrow> 'f trm \<Rightarrow> 'f wglbs \<Rightarrow> 'f wglbs" where
  "right_start R f arg1 arg2 g =
    open_if (bracket_operand R arg2) (write_infix_name f (close_if (bracket_operand R arg1) g))"

definition operand_end :: "reader \<Rightarrow> 'f trm \<Rightarrow> bool \<Rightarrow> 'f wglbs \<Rightarrow> 'f wglbs" where
  "operand_end R arg paren g = close_if paren (close_if (bracket_operand R arg) g)"

definition posfix_end :: "reader \<Rightarrow> string \<Rightarrow> 'f trm \<Rightarrow> bool \<Rightarrow> 'f wglbs \<Rightarrow> 'f wglbs" where
  "posfix_end R f arg1 paren g =
    (let g = close_if (bracket_operand R arg1) g in close_if paren (putAtom (Quote_illegal g) f g))"

text \<open>Characters that leave the writer after a separator.\<close>

definition wrmark :: "string \<Rightarrow> 'f wglbs \<Rightarrow> 'f wglbs" where
  "wrmark s g = set_lw separator (wrputs s g)"

definition list_tail_start :: "'f wglbs \<Rightarrow> 'f wglbs" where
  "list_tail_start g = wrputs ''|'' (space_if (lw g = symbol \<or> lw g = separator) g)"

text \<open>
  The depth \<open>d\<close> counts down and 0 means no limit. Of a long list the rest is cut off; a deep term is cut at its
  subterms.
\<close>

function (sequential) writeTerm :: "'f env \<Rightarrow> reader \<Rightarrow> 'f writer \<Rightarrow> 'f trm \<Rightarrow> nat \<Rightarrow> nat \<Rightarrow> 'f wglbs \<Rightarrow> 'f wglbs"
  and write_compound :: "'f env \<Rightarrow> reader \<Rightarrow> 'f writer \<Rightarrow> string \<Rightarrow> 'f trm list \<Rightarrow> nat \<Rightarrow> nat \<Rightarrow> 'f wglbs \<Rightarrow> 'f wglbs"
  and write_list :: "'f env \<Rightarrow> reader \<Rightarrow> 'f writer \<Rightarrow> 'f trm \<Rightarrow> nat \<Rightarrow> 'f wglbs \<Rightarrow> 'f wglbs"
  and write_args :: "'f env \<Rightarrow> reader \<Rightarrow> 'f writer \<Rightarrow> bool \<Rightarrow> nat \<Rightarrow> 'f trm list \<Rightarrow> nat \<Rightarrow> 'f wglbs \<Rightarrow> 'f wglbs"
  and write_array :: "'f env \<Rightarrow> reader \<Rightarrow> 'f writer \<Rightarrow> nat \<Rightarrow> 'f trm list \<Rightarrow> nat \<Rightarrow> 'f wglbs \<Rightarrow> 'f wglbs"
  where
  "writeTerm E R W t p d g =
    (if d = 1 then putAtom (Quote_illegal g) ''...'' g
     else case t of
        VarT v \<Rightarrow> write_var W v g
      | IntT n \<Rightarrow> wrputn n g
      | AtmT a \<Rightarrow> putAtom (Quote_illegal g) a g
      | PairT _ _ \<Rightarrow>
          if write_strings_flag W \<and> IsCodesTerm t then putString t g
          else wrmark '']'' (write_list E R W t (d - 1) (wrmark ''['' g))
      | FltT f \<Rightarrow> wrputf E f g
      | StrT s \<Rightarrow> write_string s g
      | DBRefT ref \<Rightarrow> wrputref W ref g
      | LongT n \<Rightarrow> wrputn n g
      | BigT z \<Rightarrow> write_mpint E z g
      | RatT q \<Rightarrow> writeTerm E R W (Yap_RatTermToApplTerm E q) p (d - 1) g
      | BlobT tag b \<Rightarrow> writeblob W tag b g
      | ApplT f args \<Rightarrow> write_compound E R W f args p (d - 1) g)"
| "write_compound E R W f args p d g =
    (case form_of R (Ignore_ops g) f args of
       Prefix_form opp rp \<Rightarrow>
         operand_end R (ArgOfTerm 1 args) (opp > p)
           (writeTerm E R W (ArgOfTerm 1 args) rp d (prefix_start R f (ArgOfTerm 1 args) (opp > p) g))
     | Posfix_form opp lp \<Rightarrow>
         posfix_end R f (ArgOfTerm 1 args) (opp > p)
           (writeTerm E R W (ArgOfTerm 1 args) lp d (left_start R (ArgOfTerm 1 args) (opp > p) g))
     | Accessor_form opp lp \<Rightarrow>
         close_if (opp > p) (wrmark (snd (accessor f))
           (write_list E R W (ArgOfTerm 1 args) d (wrmark (fst (accessor f))
             (close_if (bracket_operand R (ArgOfTerm 1 args))
               (writeTerm E R W (ArgOfTerm 2 args) lp d (left_start R (ArgOfTerm 1 args) (opp > p) g))))))
     | Infix_form opp lp rp \<Rightarrow>
         operand_end R (ArgOfTerm 2 args) (opp > p)
           (writeTerm E R W (ArgOfTerm 2 args) rp d (right_start R f (ArgOfTerm 1 args) (ArgOfTerm 2 args)
             (writeTerm E R W (ArgOfTerm 1 args) lp d (left_start R (ArgOfTerm 1 args) (opp > p) g))))
     | Var_form \<Rightarrow>
         if Handle_vars g \<and> is_var_name (ArgOfTerm 1 args)
         then write_dollar_var (ArgOfTerm 1 args) (space_if (lw g = alphanum) g)
         else wrclose_bracket (writeTerm E R W (ArgOfTerm 1 args) 999 d
           (wrmark (CHR 0x27 # ''$VAR'' @ CHR 0x27 # ''('') (space_if (lw g = alphanum) g)))
     | Braces_form \<Rightarrow>
         wrmark ''}'' (writeTerm E R W (ArgOfTerm 1 args) GLOBAL_MaxPriority d (wrmark ''{'' g))
     | Array_form \<Rightarrow>
         wrmark ''}'' (write_array E R W 1 args d (wrmark ''{'' g))
     | Plain_form \<Rightarrow>
         wrclose_bracket (write_args E R W (snd (args_written (Ignore_ops g) f args)) 1
           (take (fst (args_written (Ignore_ops g) f args)) args) d
           (wropen_bracket False (set_lw separator (putAtom (Quote_illegal g) f g)))))"
| "write_list E R W t d g = (case t of
       PairT t u \<Rightarrow>
         if d = 1 then putAtom (Quote_illegal g) ''...'' (list_tail_start g)
         else if IsPair_trm u
         then write_list E R W u (d - 1) (wrputs '','' (set_lw separator (writeTerm E R W t 999 (d - 1) g)))
         else if u = TermNil then writeTerm E R W t 999 (d - 1) g
         else writeTerm E R W u 999 (d - 1) (set_lw separator (list_tail_start (writeTerm E R W t 999 (d - 1) g)))
     | _ \<Rightarrow> wrput Beyond g)"
| "write_args E R W beyond i [] d g = wrput Beyond g"
| "write_args E R W beyond i (t # ts) d g =
    (if ts = [] \<and> \<not> beyond then writeTerm E R W t 999 d g
     else if i = MaxArgs g then writeTerm E R W t 999 d (wrputs ''...'' g)
     else write_args E R W beyond (i + 1) ts d (set_lw separator (wrputs '','' (writeTerm E R W t 999 d g))))"
| "write_array E R W i [] d g = wrput Beyond g"
| "write_array E R W i (t # ts) d g =
    (if i = MaxArgs g then writeTerm E R W t 999 d (wrputs ''...'' g)
     else if ts = [] then write_array E R W (i + 1) [] d (writeTerm E R W t 999 d g)
     else write_array E R W (i + 1) ts d (set_lw separator (wrputs '',''
       (writeTerm E R W t 999 d (writeTerm E R W t 999 d g)))))"
  by pat_completeness auto

termination
  by (relation "measure (\<lambda>x. case x of
      Inl (Inl (E, R, W, t, _)) \<Rightarrow> 2 * wsize t + 1
    | Inl (Inr (E, R, W, f, ts, _)) \<Rightarrow> 2 * sum_list (map wsize ts) + 8
    | Inr (Inl (E, R, W, t, _)) \<Rightarrow> 2 * wsize t
    | Inr (Inr (Inl (E, R, W, beyond, i, ts, _))) \<Rightarrow> 2 * sum_list (map wsize ts) + 2
    | Inr (Inr (Inr (E, R, W, i, ts, _))) \<Rightarrow> 2 * sum_list (map wsize ts) + 2)")
   (simp_all add: Yap_RatTermToApplTerm_def wsize_MkBigIntTerm add.commute [of _ 8])

text \<open>The equations are applied by hand; \<open>writeTerm\<close> and \<open>write_list\<close> would unfold without end.\<close>

declare writeTerm.simps [simp del] write_compound.simps [simp del] write_list.simps [simp del]
  write_args.simps [simp del] write_array.simps [simp del]

section \<open>Writing a term\<close>

text \<open>The text of a piece. \<open>snprintf\<close> and GMP write the decimal digits.\<close>

fun piece_text :: "'f env \<Rightarrow> 'f writer \<Rightarrow> 'f piece \<Rightarrow> string" where
  "piece_text E W (Chars s) = s"
| "piece_text E W (Atom_piece quote s) = atom_text (charescape W) quote s"
| "piece_text E W (Int_piece n) = sprintf_lld n"
| "piece_text E W (Big_piece z) = mpz_get_str E 10 z"
| "piece_text E W (Var_piece n) = CHR ''_'' # sprintf_lld n"
| "piece_text E W (Float_piece f) = printf_float W f"
| "piece_text E W (Quoted_piece q s) = quoted (charescape W) q s"
| "piece_text E W Beyond = []"

definition pieces_text :: "'f env \<Rightarrow> 'f writer \<Rightarrow> 'f piece list \<Rightarrow> string" where
  "pieces_text E W xs = concat (map (piece_text E W) xs)"

record write_flags =
  Quote_illegal_f :: bool
  Ignore_ops_f :: bool
  Handle_vars_f :: bool
  BackQuote_String_f :: bool
  Fullstop_f :: bool
  New_Line_f :: bool

text \<open>Two fields are never set: \<open>max_args\<close> and \<open>minus0\<close> are what the stack happens to hold.\<close>

definition write_start :: "write_flags \<Rightarrow> nat \<Rightarrow> bool \<Rightarrow> 'f wglbs" where
  "write_start flags max_args minus0 =
    \<lparr>stream = [], Quote_illegal = Quote_illegal_f flags, Ignore_ops = Ignore_ops_f flags,
     Handle_vars = Handle_vars_f flags, Write_strings = BackQuote_String_f flags, last_minus = minus0,
     lw = separator, MaxArgs = max_args\<rparr>"

definition LOCAL_max_depth :: nat where
  "LOCAL_max_depth = 200"

definition write_end :: "write_flags \<Rightarrow> string" where
  "write_end flags =
    (if New_Line_f flags then (if Fullstop_f flags then [CHR ''.'', CHR 0x0A] else [CHR 0x0A])
     else if Fullstop_f flags then ''. '' else [])"

text \<open>
  The limit on the depth is the constant, whatever the argument \<open>max_depth\<close> says. The option
  \<open>priority\<close> is \<open>prio\<close>.
\<close>

definition Yap_plwrite :: "'f env \<Rightarrow> reader \<Rightarrow> 'f writer \<Rightarrow> write_flags \<Rightarrow> nat \<Rightarrow> bool \<Rightarrow> nat option
    \<Rightarrow> 'f trm \<Rightarrow> string" where
  "Yap_plwrite E R W flags max_args minus0 prio t =
    (let p = (case prio of None \<Rightarrow> GLOBAL_MaxPriority | Some p \<Rightarrow> p);
         g = writeTerm E R W t p LOCAL_max_depth (write_start flags max_args minus0)
     in pieces_text E W (stream g) @ write_end flags)"

end
