(* ===== verification/YapPieces.thy ===== *)
theory YapPieces
  imports YapWriter YapGmpCorrect
begin

text \<open>
  What the reader sees of a text the writer has put together: the tokens of a list of pieces. Blanks
  vanish; a bracket right behind an atom opens arguments (the token \<open>l\<close>). The tokenizer keeps a flag for
  this, which the atoms \<open>[]\<close> and \<open>{}\<close> clear and only an opening bracket or a symbol atom sets again, so that a
  bracket later in the text may be taken for one that opens arguments.
\<close>

section \<open>Tokens of pieces\<close>

record scan_state =
  solo :: bool
  adj :: bool

text \<open>The token of a bracket in a state.\<close>

definition bracket_tok :: "scan_state \<Rightarrow> 'f token" where
  "bracket_tok s = Ponctuation_tok (if solo s \<and> \<not> adj s then ''('' else ''l'')"

definition number_toks :: "int \<Rightarrow> 'f tokens" where
  "number_toks z = (if z < 0 then [Name_tok ''-'', Number_tok (int_term (- z))] else [Number_tok (int_term z)])"

fun piece_toks :: "(cint \<Rightarrow> cell) \<Rightarrow> scan_state \<Rightarrow> 'f piece \<Rightarrow> 'f tokens" where
  "piece_toks vc s (Chars c) =
    (if c = '' '' then []
     else if c = ''('' then [bracket_tok s]
     else if c = CHR 0x27 # ''$VAR'' @ CHR 0x27 # ''('' then [Name_tok ''$VAR'', Ponctuation_tok ''l'']
     else [Ponctuation_tok c])"
| "piece_toks vc s (Atom_piece q a) = [Name_tok a]"
| "piece_toks vc s (Int_piece n) = number_toks (sint n)"
| "piece_toks vc s (Big_piece z) = number_toks z"
| "piece_toks vc s (Var_piece n) = [Var_tok (vc n)]"
| "piece_toks vc s _ = [Error_tok []]"

definition symbol_name :: "string \<Rightarrow> bool" where
  "symbol_name a \<longleftrightarrow> legalAtom a \<and> AtomIsSymbols a = symbol"

definition empty_name :: "string \<Rightarrow> bool" where
  "empty_name a \<longleftrightarrow> a = ''[]'' \<or> a = ''{}''"

fun piece_after :: "scan_state \<Rightarrow> 'f piece \<Rightarrow> scan_state" where
  "piece_after s (Chars c) =
    (if c = ''('' \<or> c = CHR 0x27 # ''$VAR'' @ CHR 0x27 # ''('' then \<lparr>solo = True, adj = False\<rparr>
     else s\<lparr>adj := False\<rparr>)"
| "piece_after s (Atom_piece q a) =
    \<lparr>solo = (if symbol_name a then True else if empty_name a then False else solo s), adj = True\<rparr>"
| "piece_after s (Int_piece n) = \<lparr>solo = (sint n < 0 \<or> solo s), adj = False\<rparr>"
| "piece_after s (Big_piece z) = \<lparr>solo = (z < 0 \<or> solo s), adj = False\<rparr>"
| "piece_after s _ = s\<lparr>adj := False\<rparr>"

fun toks :: "(cint \<Rightarrow> cell) \<Rightarrow> scan_state \<Rightarrow> 'f piece list \<Rightarrow> 'f tokens" where
  "toks vc s [] = []"
| "toks vc s (x # xs) = piece_toks vc s x @ toks vc (piece_after s x) xs"

definition scan_end :: "scan_state \<Rightarrow> 'f piece list \<Rightarrow> scan_state" where
  "scan_end s xs = foldl piece_after s xs"

lemma scan_end_simps [simp]:
  "scan_end s [] = s"
  "scan_end s (x # xs) = scan_end (piece_after s x) xs"
  "scan_end s (xs @ ys) = scan_end (scan_end s xs) ys"
  by (simp_all add: scan_end_def)

lemma toks_append [simp]: "toks vc s (xs @ ys) = toks vc s xs @ toks vc (scan_end s xs) ys"
  by (induction xs arbitrary: s) auto

section \<open>What the writer appends\<close>

definition written :: "'f wglbs \<Rightarrow> 'f piece list \<Rightarrow> 'f wglbs \<Rightarrow> bool" where
  "written g xs g' \<longleftrightarrow> stream g' = stream g @ xs \<and> Quote_illegal g' = Quote_illegal g
    \<and> Ignore_ops g' = Ignore_ops g \<and> Handle_vars g' = Handle_vars g \<and> MaxArgs g' = MaxArgs g"

lemma written_trans: "written g xs g' \<Longrightarrow> written g' ys g'' \<Longrightarrow> written g (xs @ ys) g''"
  by (simp add: written_def)

definition blank :: "bool \<Rightarrow> 'f piece list" where
  "blank b = (if b then [Chars '' ''] else [])"

lemma toks_blank [simp]: "toks vc s (blank b) = []"
  and scan_end_blank [simp]: "scan_end s (blank b) = (if b then s\<lparr>adj := False\<rparr> else s)"
  by (simp_all add: blank_def)

lemma written_open: "written g (blank (lw g \<noteq> separator) @ [Chars ''('']) (wropen_bracket True g)"
  by (simp add: written_def wropen_bracket_def space_if_def blank_def set_lw_def wrputs_def)

lemma written_close: "written g [Chars '')''] (wrclose_bracket g)"
  by (simp add: written_def wrclose_bracket_def set_lw_def wrputs_def)

lemma written_mark: "written g [Chars c] (wrmark c g)"
  by (simp add: written_def wrmark_def set_lw_def wrputs_def)

lemma written_atom: "a \<noteq> [] \<Longrightarrow>
    written g (blank (lw g = AtomIsSymbols a \<and> AtomIsSymbols a \<noteq> separator) @ [Atom_piece q a]) (putAtom q a g)"
  by (simp add: written_def putAtom_def space_if_def blank_def set_lw_def wrputs_def wrput_def Let_def)

lemma lw_simps [simp]:
  "lw (wropen_bracket b g) = separator" "lw (wrclose_bracket g) = separator" "lw (wrmark c g) = separator"
  "lw (set_lw w g) = w" "a \<noteq> [] \<Longrightarrow> lw (putAtom q a g) = AtomIsSymbols a"
  by (simp_all add: wropen_bracket_def wrclose_bracket_def wrmark_def set_lw_def putAtom_def wrput_def Let_def)

lemma last_minus_putAtom [simp]: "a \<noteq> [] \<Longrightarrow> last_minus (putAtom q a g) = False"
  by (simp add: putAtom_def set_lw_def wrput_def wrputs_def space_if_def Let_def)

section \<open>Pieces that are read back\<close>

lemma pieces_text_simps [simp]:
  "pieces_text E W [] = []"
  "pieces_text E W (x # xs) = piece_text E W x @ pieces_text E W xs"
  "pieces_text E W (xs @ ys) = pieces_text E W xs @ pieces_text E W ys"
  by (simp_all add: pieces_text_def)

text \<open>Atoms of ASCII characters that the reader does not confuse; the buffer of the tokenizer has 1024 bytes.\<close>

definition ascii :: "char \<Rightarrow> bool" where
  "ascii c \<longleftrightarrow> 0 < (of_char c :: nat) \<and> (of_char c :: nat) < 128"

definition good_atom :: "string \<Rightarrow> bool" where
  "good_atom a \<longleftrightarrow> a \<noteq> [] \<and> list_all ascii a \<and> hd a \<noteq> CHR ''.'' \<and> length a < 1024
    \<and> (AtomIsSymbols a = symbol \<longrightarrow> legalAtom a)"

definition readable_int :: "'f env \<Rightarrow> int \<Rightarrow> bool" where
  "readable_int E z \<longleftrightarrow> \<not> tag_gap z \<and> z \<noteq> - (2 ^ 57) \<and> (fits_Int z \<or> limbs_fit E z)
    \<and> (fits_Int (- z) \<or> limbs_fit E (- z)) \<and> length (dec_digits (nat \<bar>z\<bar>)) < 1000"

fun good_piece :: "'f env \<Rightarrow> 'f piece \<Rightarrow> bool" where
  "good_piece E (Chars c) \<longleftrightarrow>
    c \<in> {'' '', ''('', '')'', ''['', '']'', ''{'', ''}'', '','', ''|'', CHR 0x27 # ''$VAR'' @ CHR 0x27 # ''(''}"
| "good_piece E (Atom_piece q a) \<longleftrightarrow> q \<and> good_atom a"
| "good_piece E (Int_piece n) \<longleftrightarrow> readable_int E (sint n)"
| "good_piece E (Big_piece z) \<longleftrightarrow> readable_int E z"
| "good_piece E (Var_piece n) \<longleftrightarrow> 0 \<le> sint n"
| "good_piece E _ \<longleftrightarrow> False"

section \<open>The text of a number\<close>

locale gmp_text = gmp +
  assumes get_str: "mpz_get_str E 10 z =
    (if z < 0 then CHR ''-'' # dec_digits (nat (- z)) else dec_digits (nat z))"

end
