(* ===== verification/YapWriteRead.thy ===== *)
theory YapWriteRead
  imports YapInitOps YapPieces YapGmpRef
begin

text \<open>
  Reading what has been written: the tokens of the pieces that \<open>writeTerm\<close> appends are a text that the parser
  takes for the term. The induction follows the writer's calls; \<open>reads\<close> is what it shows of each of
  them. A written variable is read as the one its name stands for, so the term read is the
  one written with its variables renamed.
\<close>

section \<open>The terms that are read back\<close>

fun rename :: "(cell \<Rightarrow> cell) \<Rightarrow> 'f trm \<Rightarrow> 'f trm" where
  "rename r (VarT p) = VarT (r p)"
| "rename r (PairT t u) = PairT (rename r t) (rename r u)"
| "rename r (ApplT f ts) = ApplT f (map (rename r) ts)"
| "rename r t = t"

text \<open>The number of an integer term, and how deep a term is for the limit of the writer.\<close>

fun need :: "'f trm \<Rightarrow> nat" where
  "need (PairT t u) = 2 + max (need t)
    (if IsPair_trm u then need u - 1 else if u = TermNil then 0 else need u)"
| "need (ApplT f ts) = Suc (foldr (\<lambda>t n. max (need t) n) ts 1)"
| "need t = 2"

text \<open>The leftmost subterm that is written first, without the brackets.\<close>

fun lead :: "reader \<Rightarrow> bool \<Rightarrow> 'f trm \<Rightarrow> 'f trm" where
  "lead R ign (ApplT f [t, u]) = (if \<not> ign \<and> in_op R f \<noteq> None then lead R ign t else ApplT f [t, u])"
| "lead R ign t = t"

fun name_of :: "'f trm \<Rightarrow> string" where
  "name_of (AtmT a) = a"
| "name_of (ApplT f _) = f"
| "name_of _ = []"

fun positive_big :: "'f trm \<Rightarrow> bool" where
  "positive_big (BigT z) \<longleftrightarrow> 0 < z"
| "positive_big _ \<longleftrightarrow> False"

text \<open>
  A prefix operator's operand: a minus must not stand before a positive bignum, and a sign not before
  a constant.
\<close>

definition sign_ok :: "string \<Rightarrow> 'f trm \<Rightarrow> bool" where
  "sign_ok f l \<longleftrightarrow> (f = ''-'' \<longrightarrow> \<not> positive_big l)
    \<and> (f = ''-'' \<or> f = ''+'' \<longrightarrow> name_of l \<noteq> ''inf'' \<and> name_of l \<noteq> ''nan'')"

text \<open>
  The options are \<open>ign\<close> (\<open>Ignore_ops\<close>) and \<open>hv\<close> (\<open>Handle_vars\<close>). When \<open>ne\<close> is set no atom \<open>[]\<close> or \<open>{}\<close> is
  written (the end of a list does not count); otherwise every prefix operator is a symbol atom.
\<close>

definition good_form :: "reader \<Rightarrow> bool \<Rightarrow> bool \<Rightarrow> bool \<Rightarrow> string \<Rightarrow> 'f trm list \<Rightarrow> bool" where
  "good_form R ign hv ne f args = (case form_of R ign f args of
      Prefix_form _ _ \<Rightarrow>
        (symbol_name f \<or> ne \<and> AtomIsSymbols f = alphanum) \<and> sign_ok f (lead R ign (ArgOfTerm 1 args))
        \<and> (ne \<longrightarrow> \<not> empty_name f)
    | Infix_form _ _ _ \<Rightarrow> ne \<longrightarrow> \<not> empty_name f
    | Var_form \<Rightarrow> \<not> (hv \<and> is_var_name (ArgOfTerm 1 args))
    | Braces_form \<Rightarrow> True
    | Plain_form \<Rightarrow> ne \<longrightarrow> \<not> empty_name f
    | _ \<Rightarrow> False)"

fun writable :: "'f env \<Rightarrow> reader \<Rightarrow> bool \<Rightarrow> bool \<Rightarrow> bool \<Rightarrow> 'f trm \<Rightarrow> bool" where
  "writable E R ign hv ne (VarT p) \<longleftrightarrow> True"
| "writable E R ign hv ne (AtmT a) \<longleftrightarrow> good_atom a \<and> (ne \<longrightarrow> \<not> empty_name a)"
| "writable E R ign hv ne (IntT n) \<longleftrightarrow> canonical (IntT n :: 'f trm) \<and> readable_int E (sint n)"
| "writable E R ign hv ne (LongT n) \<longleftrightarrow> canonical (LongT n :: 'f trm) \<and> readable_int E (sint n)"
| "writable E R ign hv ne (BigT z) \<longleftrightarrow> canonical (BigT z :: 'f trm) \<and> readable_int E z \<and> readable_int E (- z)"
| "writable E R ign hv ne (PairT t u) \<longleftrightarrow> writable E R ign hv ne t \<and> (u = TermNil \<or> writable E R ign hv ne u)"
| "writable E R ign hv ne (ApplT f ts) \<longleftrightarrow> ts \<noteq> [] \<and> good_atom f \<and> f \<noteq> AtomDBref \<and> (f = ''.'' \<longrightarrow> length ts \<noteq> 2)
    \<and> f \<noteq> ''__YAP_heap__'' \<and> good_form R ign hv ne f ts \<and> list_all (writable E R ign hv ne) ts"
| "writable E R ign hv ne t \<longleftrightarrow> False"

section \<open>What is shown of a call\<close>

locale printing = clear_ops R + gmp E for R :: reader and E :: "'f env" +
  fixes W :: "'f writer" and vc :: "cint \<Rightarrow> cell" and ign hv ne :: bool
  assumes no_strings: "\<not> write_strings_flag W"
begin

text \<open>The options and the renaming of variables.\<close>

definition opts :: "'f wglbs \<Rightarrow> bool" where
  "opts g \<longleftrightarrow> Quote_illegal g \<and> Ignore_ops g = ign \<and> Handle_vars g = hv \<and> MaxArgs g = 0"

definition ren :: "cell \<Rightarrow> cell" where
  "ren p = vc (signed_drop_bit 3 (p - H0 W))"

definition flag_ok :: "scan_state \<Rightarrow> bool" where
  "flag_ok s \<longleftrightarrow> (ne \<longrightarrow> solo s)"

text \<open>
  The text \<open>xs\<close> of the term \<open>t\<close> of priority at most \<open>p\<close>, written after \<open>g\<close>: it reads as the term, does not
  begin with a bracket that opens arguments when a blank was due, and begins with a number or a name
  only as its leftmost subterm allows.
\<close>

definition head_ok :: "'f trm \<Rightarrow> 'f wglbs \<Rightarrow> scan_state \<Rightarrow> 'f tokens \<Rightarrow> bool" where
  "head_ok t g s ts \<longleftrightarrow> ts \<noteq> []
     \<and> (lw g \<noteq> separator \<longrightarrow> solo s \<longrightarrow> hd ts \<noteq> Ponctuation_tok ''l'')
     \<and> (is_number (hd ts) \<longrightarrow> \<not> IsAtom_trm t \<and> (lw g = symbol \<longrightarrow> last_minus g \<longrightarrow> positive_big (lead R ign t)))
     \<and> (\<forall>a. hd ts = Name_tok a \<longrightarrow> a = ''-'' \<or> a = name_of (lead R ign t))"

definition reads_as :: "bool \<Rightarrow> 'f trm \<Rightarrow> nat \<Rightarrow> 'f wglbs \<Rightarrow> 'f piece list \<Rightarrow> bool" where
  "reads_as any t p g xs \<longleftrightarrow> (\<forall>s. flag_ok s \<longrightarrow>
     (\<exists>c \<le> p. readable E R any (toks vc s xs) (rename ren t) c)
     \<and> head_ok t g s (toks vc s xs) \<and> flag_ok (scan_end s xs))"

definition reads :: "bool \<Rightarrow> 'f trm \<Rightarrow> nat \<Rightarrow> 'f wglbs \<Rightarrow> 'f wglbs \<Rightarrow> bool" where
  "reads any t p g g' \<longleftrightarrow> (\<exists>xs. written g xs g' \<and> reads_as any t p g xs)"

lemma reads_asD:
  assumes "reads_as any t p g xs" and "flag_ok s"
  obtains c where "c \<le> p" "readable E R any (toks vc s xs) (rename ren t) c"
    "head_ok t g s (toks vc s xs)" "flag_ok (scan_end s xs)"
  using assms unfolding reads_as_def by blast

lemma readsI:
  assumes "written g xs g'" and "c \<le> p"
    and "\<And>s. flag_ok s \<Longrightarrow> readable E R any (toks vc s xs) (rename ren t) c
      \<and> head_ok t g s (toks vc s xs) \<and> flag_ok (scan_end s xs)"
  shows "reads any t p g g'"
  using assms unfolding reads_def reads_as_def by blast

lemma reads_written: "reads any t p g g' \<Longrightarrow> opts g \<Longrightarrow> opts g'"
  by (auto simp: reads_def written_def opts_def)

lemma opts_simps [simp]:
  "opts (wropen_bracket b g) = opts g" "opts (wrclose_bracket g) = opts g" "opts (wrmark c g) = opts g"
  "opts (set_lw w g) = opts g" "opts (putAtom q a g) = opts g" "opts (wrputs c g) = opts g"
  "opts (open_if b g) = opts g" "opts (close_if b g) = opts g" "opts (space_if b g) = opts g"
  "opts (g\<lparr>last_minus := m\<rparr>) = opts g" "opts (write_infix_name a g) = opts g"
  by (simp_all add: opts_def wropen_bracket_def wrclose_bracket_def wrmark_def set_lw_def putAtom_def wrput_def
      wrputs_def open_if_def close_if_def space_if_def write_infix_name_def Let_def)

lemma reads_weaken: "reads True t p g g' \<Longrightarrow> reads any t p g g'"
  unfolding reads_def reads_as_def using readable_weaken by blast

lemma reads_mono: "reads any t p g g' \<Longrightarrow> p \<le> q \<Longrightarrow> reads any t q g g'"
  unfolding reads_def reads_as_def by (meson order_trans)

lemma flag_ok_bracket [simp]: "flag_ok \<lparr>solo = True, adj = b\<rparr>" "flag_ok (s\<lparr>adj := b\<rparr>) = flag_ok s"
  by (simp_all add: flag_ok_def)

section \<open>Brackets\<close>

lemma bracket_tok_cases: "bracket_tok s = Ponctuation_tok ''('' \<or> bracket_tok s = Ponctuation_tok ''l''"
  by (simp add: bracket_tok_def)

lemma reads_brackets:
  assumes "reads False t q (wropen_bracket True g) g1" and "q \<le> 1200"
  shows "reads any t p g (wrclose_bracket g1)"
proof -
  from assms(1) obtain xs where w: "written (wropen_bracket True g) xs g1"
    and r: "reads_as False t q (wropen_bracket True g) xs" by (auto simp: reads_def)
  let ?b = "blank (lw g \<noteq> separator) :: 'f piece list"
  let ?xs = "(?b @ [Chars ''('']) @ xs @ [Chars '')'']"
  have "written g ?xs (wrclose_bracket g1)"
    by (rule written_trans [OF written_open written_trans [OF w written_close]])
  then show ?thesis
  proof (rule readsI [OF _ le0])
    fix s assume s: "flag_ok s"
    let ?s = "\<lparr>solo = True, adj = False\<rparr>"
    obtain c where c: "c \<le> q" "readable E R False (toks vc ?s xs) (rename ren t) c" "flag_ok (scan_end ?s xs)"
      using reads_asD [OF r, of ?s] by auto
    have ts: "toks vc s ?xs = bracket_tok (scan_end s ?b) # toks vc ?s xs @ [Ponctuation_tok '')'']" by simp
    obtain b where b: "bracket_tok (scan_end s ?b) = (Ponctuation_tok b :: 'f token)" "b = ''('' \<or> b = ''l''"
      using bracket_tok_cases by metis
    have "readable E R any (Ponctuation_tok b # toks vc ?s xs @ [Ponctuation_tok '')'']) (rename ren t) 0"
      using readable_brackets [OF c(2) _ b(2)] c(1) assms(2) by simp
    then have "readable E R any (toks vc s ?xs) (rename ren t) 0" by (simp only: ts b(1))
    moreover have "head_ok t g s (toks vc s ?xs)"
      using b by (auto simp: ts head_ok_def bracket_tok_def split: if_splits)
    moreover have "flag_ok (scan_end s ?xs)" using c(3) by simp
    ultimately show "readable E R any (toks vc s ?xs) (rename ren t) 0 \<and> head_ok t g s (toks vc s ?xs)
      \<and> flag_ok (scan_end s ?xs)" by blast
  qed
qed

lemma reads_operand:
  assumes "reads (\<not> bracket_operand R t) t p (open_if (bracket_operand R t) g) g1" and "p \<le> 1200"
  shows "reads True t p g (close_if (bracket_operand R t) g1)"
  using assms reads_brackets [of t p g g1 True p] by (auto simp: open_if_def close_if_def)

lemma reads_paren:
  assumes "reads True t q (open_if (q > p) g) g1" and "q \<le> 1200"
  shows "reads True t p g (close_if (q > p) g1)"
  using assms reads_brackets [OF reads_weaken] reads_mono [of True t q g g1 p]
  by (auto simp: open_if_def close_if_def not_less)

section \<open>Atoms, variables and numbers\<close>

lemma flag_ok_atom: "flag_ok s \<Longrightarrow> (ne \<longrightarrow> \<not> empty_name a) \<Longrightarrow> flag_ok (piece_after s (Atom_piece q a))"
  by (simp add: flag_ok_def)

lemma reads_atom:
  assumes "good_atom a" and "ne \<longrightarrow> \<not> empty_name a"
  shows "reads (\<not> bracket_operand R (AtmT a :: 'f trm)) (AtmT a) p g (putAtom q a g)"
proof (rule readsI [OF written_atom le0])
  show "a \<noteq> []" using assms(1) by (simp add: good_atom_def)
  fix s assume s: "flag_ok s"
  let ?xs = "blank (lw g = AtomIsSymbols a \<and> AtomIsSymbols a \<noteq> separator) @ [Atom_piece q a]"
  have "readable E R (\<not> bracket_operand R (AtmT a :: 'f trm)) [Name_tok a] (AtmT a) 0"
  proof (cases "bracket_operand R (AtmT a :: 'f trm)")
    case True
    then show ?thesis using readable_atom [of E a] by simp
  next
    case False
    then have "pre_op R a = None" using pre_has [of a] by (cases "pre_op R a") (auto simp: bracket_operand_def Yap_IsOp_def)
    then show ?thesis by (rule readable_plain_atom)
  qed
  then show "readable E R (\<not> bracket_operand R (AtmT a :: 'f trm)) (toks vc s ?xs) (rename ren (AtmT a)) 0
    \<and> head_ok (AtmT a) g s (toks vc s ?xs) \<and> flag_ok (scan_end s ?xs)"
    using flag_ok_atom [OF _ assms(2)] s by (simp add: head_ok_def)
qed

lemma reads_var: "reads any (VarT v) p g (write_var W v g)"
proof (rule readsI [OF _ le0])
  let ?n = "signed_drop_bit 3 (v - H0 W)"
  show "written g (blank (lw g = alphanum) @ [Var_piece ?n]) (write_var W v g)"
    by (simp add: written_def write_var_def space_if_def wrput_def wrputs_def blank_def)
  fix s assume "flag_ok s"
  then show "readable E R any (toks vc s (blank (lw g = alphanum) @ [Var_piece ?n])) (rename ren (VarT v)) 0
    \<and> head_ok (VarT v) g s (toks vc s (blank (lw g = alphanum) @ [Var_piece ?n]))
    \<and> flag_ok (scan_end s (blank (lw g = alphanum) @ [Var_piece ?n]))"
    by (simp add: ren_def readable_var head_ok_def)
qed

text \<open>The parser reads the tokens of a number as its canonical term.\<close>

lemma neg_number_int:
  assumes "readable_int E z" and "z < 0"
  shows "neg_number E (int_term (- z)) = Inr (int_term z)"
proof -
  have z: "z < - (2 ^ 59) \<or> - (2 ^ 57) < z"
    using assms(1) by (auto simp: readable_int_def tag_gap_def)
  have w: "- word_of_int (- z) = (word_of_int z :: cint)" by simp
  consider "- (2 ^ 57) < z" | "z < - (2 ^ 59)" "fits_Int (- z)" | "\<not> fits_Int (- z)" using z by blast
  then show ?thesis
  proof cases
    case 1
    then have f: "fits_Int z" "fits_Int (- z)" using assms(2) by (simp_all add: fits_Int_def)
    have s: "sint (word_of_int (- z) :: cint) = - z" "sint (word_of_int z :: cint) = z"
      using sint_of_int_fits [OF f(1)] sint_of_int_fits [OF f(2)] by simp_all
    have "IntOfTerm (MkIntTerm (word_of_int (- z))) = word_of_int (- z)"
      using 1 assms(2) s by (intro IntOfTerm_MkIntTerm) simp_all
    then show ?thesis
      using 1 assms(2) f s w
      by (simp add: int_term_def MkIntegerTerm_def mkInt_def IntInBnd_iff neg_number_def)
  next
    case 2
    then have f: "fits_Int z" using assms(2) by (simp add: fits_Int_def)
    have s: "sint (word_of_int (- z) :: cint) = - z" "sint (word_of_int z :: cint) = z"
      using sint_of_int_fits [OF f] sint_of_int_fits [OF 2(2)] by simp_all
    show ?thesis
      using 2 f s w by (simp add: int_term_def MkIntegerTerm_def IntInBnd_iff neg_number_def)
  next
    case 3
    then have "neg_number E (int_term (- z)) = Yap_gmp_neg_big E (BigT (- z))"
      by (simp add: int_term_def neg_number_def)
    also have "\<dots> = box_rat E (- of_int (- z))" by (rule neg_big) (simp add: big_num_def)
    also have "\<dots> = box_int E z" using box_rat_of_int [of E z] by simp
    finally show ?thesis using assms(1) by (simp add: box_int_def readable_int_def)
  qed
qed

lemma readable_number_toks:
  assumes "readable_int E z"
  shows "readable E R any (number_toks z) (int_term z) 0"
  using readable_minus [OF neg_number_int [OF assms]] readable_number [of E any "int_term z"]
  by (simp add: number_toks_def)

text \<open>A number, with a bracket around it after a prefix minus; \<open>neg\<close> is what the code takes for its sign.\<close>

lemma reads_number:
  assumes z: "readable_int E z" and t: "rename ren t = int_term z" "lead R ign t = t"
    and x: "\<And>s. piece_toks vc s x = number_toks z"
      "\<And>s. piece_after s x = \<lparr>solo = (z < 0 \<or> solo s), adj = False\<rparr>"
    and neg: "neg \<Longrightarrow> 0 \<le> z \<Longrightarrow> positive_big t" "\<not> neg \<Longrightarrow> 0 \<le> z"
    and g': "g' = (let (ob, g) = protect_open_number (last_minus g) neg g in protect_close_number ob (wrput x g))"
  shows "reads any t p g g'"
proof -
  let ?paren = "lw g = symbol \<and> last_minus g \<and> \<not> neg"
  let ?xs = "if ?paren then (blank (lw g \<noteq> separator) @ [Chars ''('']) @ [x] @ [Chars '')'']
    else blank (lw g = alphanum \<or> lw g = symbol \<and> neg) @ [x]"
  have "written g ?xs g'"
    using g' by (simp add: protect_open_number_def protect_close_number_def written_def wropen_bracket_def
      wrclose_bracket_def space_if_def wrput_def wrputs_def set_lw_def blank_def)
  then show ?thesis
  proof (rule readsI [OF _ le0])
    fix s assume s: "flag_ok s"
    note num = readable_number_toks [OF z]
    obtain b where b: "bracket_tok (s\<lparr>adj := False\<rparr>) = (Ponctuation_tok b :: 'f token)" "b = ''('' \<or> b = ''l''"
      using bracket_tok_cases by metis
    have na: "\<not> IsAtom_trm t" using t(1) by (cases t) (auto simp: int_term_def MkIntegerTerm_def mkInt_def split: if_splits)
    have hd: "hd (number_toks z) = (Name_tok ''-'' :: 'f token)
        \<or> 0 \<le> z \<and> hd (number_toks z) = (Number_tok (int_term z) :: 'f token)"
      "number_toks z \<noteq> ([] :: 'f tokens)"
      by (auto simp: number_toks_def)
    show "readable E R any (toks vc s ?xs) (rename ren t) 0 \<and> head_ok t g s (toks vc s ?xs)
      \<and> flag_ok (scan_end s ?xs)"
    proof (cases ?paren)
      case True
      then have sym: "lw g \<noteq> separator" by simp
      have ts: "toks vc s ?xs = Ponctuation_tok b # number_toks z @ [Ponctuation_tok '')'']"
        using True b(1) x(1) by (simp add: sym)
      have "readable E R any (toks vc s ?xs) (rename ren t) 0"
        unfolding ts t(1) by (rule readable_brackets [OF num _ b(2)]) simp
      moreover have "head_ok t g s (toks vc s ?xs)"
        unfolding ts using b by (auto simp: head_ok_def bracket_tok_def split: if_splits)
      moreover have "flag_ok (scan_end s ?xs)" using True x(2) by (simp add: flag_ok_def)
      ultimately show ?thesis by blast
    next
      case False
      then have ts: "toks vc s ?xs = number_toks z" using x(1) by simp
      have "flag_ok (scan_end s ?xs)" using False x(2) s by (auto simp: flag_ok_def)
      moreover have "head_ok t g s (number_toks z)"
        using False hd neg t(2) na by (auto simp: head_ok_def)
      ultimately show ?thesis unfolding ts t(1) using num by blast
    qed
  qed
qed

lemma c_less_0: "c_less n 0 \<longleftrightarrow> sint n < 0"
  by (simp add: c_less_def)

lemma reads_wrputn:
  assumes "canonical t" and "int_val t = Some (sint n)" and "readable_int E (sint n)" and "\<And>z. t \<noteq> BigT z"
  shows "reads any t p g (wrputn n g)"
proof (rule reads_number [where z = "sint n" and x = "Int_piece n" and neg = "c_less n 0"])
  have "rename ren t = t" "lead R ign t = t" using assms(2) by (cases t; simp)+
  moreover have "t = int_term (sint n)"
  proof (rule canonical_unique [OF assms(1) canonical_int_term])
    show "rat_val t = Some (of_int (sint n))" by (rule rat_val_of_int_val [OF assms(2)])
    show "rat_val (int_term (sint n) :: 'f trm) = Some (of_int (sint n))"
      using assms(3) by (intro rat_val_of_int_val int_val_int_term) (simp add: readable_int_def)
  qed
  ultimately show "rename ren t = int_term (sint n)" "lead R ign t = t" by simp_all
qed (use assms(3) in \<open>simp_all add: wrputn_def c_less_0\<close>)

lemma reads_mpint:
  assumes "canonical (BigT z :: 'f trm)" and "readable_int E z"
  shows "reads any (BigT z) p g (write_mpint E z g)"
proof (rule reads_number [where z = z and x = "Big_piece z" and neg = "mpz_sgn E z \<noteq> 0"])
  have "\<not> fits_Int z" using assms(1) by simp
  then have nz: "z \<noteq> 0" by (auto simp: fits_Int_def)
  then show "mpz_sgn E z \<noteq> 0 \<Longrightarrow> 0 \<le> z \<Longrightarrow> positive_big (BigT z)" by simp
  show "\<not> mpz_sgn E z \<noteq> 0 \<Longrightarrow> 0 \<le> z" using nz by (simp add: sgn_z sgn_if split: if_splits)
  show "rename ren (BigT z) = int_term z" using \<open>\<not> fits_Int z\<close> by (simp add: int_term_def)
qed (use assms in \<open>simp_all add: write_mpint_def\<close>)

section \<open>Operators\<close>

text \<open>A prefix operator before an operand that is written after it.\<close>

lemma reads_prefix:
  assumes op: "pre_op R f = Some (opp, rp)" and f: "f \<noteq> []" "symbol_name f \<or> ne \<and> AtomIsSymbols f = alphanum"
    and e: "ne \<longrightarrow> \<not> empty_name f" and sgn: "sign_ok f (lead R ign t)"
    and minus: "f = ''-'' \<longrightarrow> last_minus g1 \<or> IsAtom_trm t"
    and g1: "stream g1 = stream (putAtom True f g)" "opts (putAtom True f g) \<longleftrightarrow> opts g1" "opts g"
      "lw g1 = AtomIsSymbols f"
    and t: "reads True t rp g1 g2"
  shows "reads any (ApplT f [t]) opp g g2"
proof -
  from t obtain xs where w: "written g1 xs g2" and r: "reads_as True t rp g1 xs" by (auto simp: reads_def)
  let ?b = "blank (lw g = AtomIsSymbols f \<and> AtomIsSymbols f \<noteq> separator) :: 'f piece list"
  let ?xs = "(?b @ [Atom_piece True f]) @ xs"
  have "written g ?xs g2"
    using written_atom [OF f(1), of g True] w g1 by (simp add: written_def opts_def)
  then show ?thesis
  proof (rule readsI [OF _ order_refl])
    fix s assume s: "flag_ok s"
    define s' where "s' = piece_after (scan_end s ?b) (Atom_piece True f :: 'f piece)"
    have s': "flag_ok s'" unfolding s'_def using flag_ok_atom [OF _ e] s by simp
    obtain c where c: "c \<le> rp" "readable E R True (toks vc s' xs) (rename ren t) c"
      "head_ok t g1 s' (toks vc s' xs)" "flag_ok (scan_end s' xs)" by (rule reads_asD [OF r s'])
    have ts: "toks vc s ?xs = Name_tok f # toks vc s' xs" by (simp add: s'_def)
    have sep: "lw g1 \<noteq> separator" "solo s'"
      using f(2) s s' g1(4) by (auto simp: symbol_name_def flag_ok_def s'_def)
    then have "hd (toks vc s' xs) \<noteq> Ponctuation_tok ''l''" using c(3) by (simp add: head_ok_def)
    moreover have "\<not> (f = ''-'' \<and> is_number (hd (toks vc s' xs)))"
    proof
      assume *: "f = ''-'' \<and> is_number (hd (toks vc s' xs))"
      then have "lw g1 = symbol" using g1(4) by (simp add: AtomIsSymbols_def chtype_def Yap_chtype0_def)
      with * minus c(3) have "positive_big (lead R ign t)" by (auto simp: head_ok_def)
      then show False using * sgn by (simp add: sign_ok_def)
    qed
    moreover have "signed_constant E f (hd (toks vc s' xs)) = None"
      using c(3) sgn by (auto simp: signed_constant_def head_ok_def sign_ok_def)
    ultimately have "readable E R any (toks vc s ?xs) (rename ren (ApplT f [t])) opp"
      unfolding ts using readable_prefix [OF op c(2,1)] by simp
    moreover have "head_ok (ApplT f [t]) g s (toks vc s ?xs)" unfolding ts by (simp add: head_ok_def)
    moreover have "flag_ok (scan_end s ?xs)" using c(4) by (simp add: s'_def)
    ultimately show "readable E R any (toks vc s ?xs) (rename ren (ApplT f [t])) opp
      \<and> head_ok (ApplT f [t]) g s (toks vc s ?xs) \<and> flag_ok (scan_end s ?xs)" by blast
  qed
qed

definition infix_tok :: "string \<Rightarrow> 'f token" where
  "infix_tok f = (if f = '','' \<or> f = ''|'' then Ponctuation_tok f else Name_tok f)"

lemma written_infix_name:
  assumes "f \<noteq> []" and "ne \<longrightarrow> \<not> empty_name f"
  shows "\<exists>ys. written g ys (write_infix_name f g) \<and> (\<forall>s. toks vc s ys = [infix_tok f]
    \<and> (flag_ok s \<longrightarrow> flag_ok (scan_end s ys)))"
proof -
  consider "f = '',''" | "f = ''|''" | "f \<noteq> '',''" "f \<noteq> ''|''" by blast
  then show ?thesis
  proof cases
    case 1
    then have "written g [Chars '','' :: 'f piece] (write_infix_name f g)"
      by (simp add: write_infix_name_def written_def set_lw_def wrputs_def)
    then show ?thesis using 1 by (intro exI [of _ "[Chars '','']"]) (simp add: infix_tok_def)
  next
    case 2
    let ?b = "blank (lw g = symbol \<or> lw g = separator) :: 'f piece list"
    have "written g (?b @ [Chars ''|'']) (write_infix_name f g)"
      using 2 by (simp add: write_infix_name_def written_def set_lw_def wrputs_def space_if_def blank_def)
    then show ?thesis using 2 by (intro exI [of _ "?b @ [Chars ''|'']"]) (simp add: infix_tok_def)
  next
    case 3
    let ?xs = "blank (lw g = AtomIsSymbols f \<and> AtomIsSymbols f \<noteq> separator) @ [Atom_piece (Quote_illegal g) f :: 'f piece]"
    have "written g ?xs (write_infix_name f g)"
      using 3 written_atom [OF assms(1)] by (simp add: write_infix_name_def)
    then show ?thesis
      using 3 flag_ok_atom [OF _ assms(2)]
      by (intro exI [of _ ?xs]) (auto simp add: infix_tok_def simp del: piece_after.simps)
  qed
qed

lemma readable_infix:
  assumes "in_op R f = Some (opp, lp, rp)" and "f \<noteq> ''.''"
    and "readable E R True ts1 t1 c1" and "c1 \<le> lp" and "readable E R True ts2 t2 c2" and "c2 \<le> rp"
  shows "readable E R any (ts1 @ infix_tok f # ts2) (ApplT f [t1, t2]) opp"
proof (cases "f = '',''")
  case True
  then have "opp = 1000" "lp = 999" "rp = 1000" using assms(1) comma by auto
  then show ?thesis using readable_comma [OF assms(3) _ assms(5), of any] assms(4,6) True by (simp add: infix_tok_def)
next
  case False
  then show ?thesis
    using readable_bar [OF _ assms(3,4,5,6), of opp any] readable_between [OF assms(1,3,4,5,6,2), of any] assms(1)
    by (auto simp: infix_tok_def)
qed

lemma reads_infix:
  assumes op: "in_op R f = Some (opp, lp, rp)" and f: "f \<noteq> []" "f \<noteq> ''.''" "ne \<longrightarrow> \<not> empty_name f" and "\<not> ign"
    and t1: "reads True t1 lp g g1" and t2: "reads True t2 rp (write_infix_name f g1) g2"
  shows "reads any (ApplT f [t1, t2]) opp g g2"
proof -
  from t1 obtain xs where w1: "written g xs g1" and r1: "reads_as True t1 lp g xs" by (auto simp: reads_def)
  from t2 obtain zs where w2: "written (write_infix_name f g1) zs g2"
    and r2: "reads_as True t2 rp (write_infix_name f g1) zs" by (auto simp: reads_def)
  obtain ys where wy: "written g1 ys (write_infix_name f g1)"
    and y: "\<And>s. toks vc s ys = [infix_tok f]" "\<And>s. flag_ok s \<Longrightarrow> flag_ok (scan_end s ys)"
    using written_infix_name [OF f(1,3), of g1] by blast
  let ?xs = "xs @ ys @ zs"
  have "written g ?xs g2" by (rule written_trans [OF w1 written_trans [OF wy w2]])
  then show ?thesis
  proof (rule readsI [OF _ order_refl])
    fix s assume s: "flag_ok s"
    obtain c1 where c1: "c1 \<le> lp" "readable E R True (toks vc s xs) (rename ren t1) c1"
      "head_ok t1 g s (toks vc s xs)" "flag_ok (scan_end s xs)" by (rule reads_asD [OF r1 s])
    obtain c2 where c2: "c2 \<le> rp"
      "readable E R True (toks vc (scan_end (scan_end s xs) ys) zs) (rename ren t2) c2"
      "flag_ok (scan_end (scan_end (scan_end s xs) ys) zs)"
      by (rule reads_asD [OF r2 y(2) [OF c1(4)]])
    have ts: "toks vc s ?xs = toks vc s xs @ infix_tok f # toks vc (scan_end (scan_end s xs) ys) zs"
      by (simp add: y(1))
    have "readable E R any (toks vc s ?xs) (rename ren (ApplT f [t1, t2])) opp"
      unfolding ts using readable_infix [OF op f(2) c1(2,1) c2(2,1), of any] by simp
    moreover have "head_ok (ApplT f [t1, t2]) g s (toks vc s ?xs)"
      unfolding ts head_ok_def using c1(3) [unfolded head_ok_def] op assms(5) by auto
    moreover have "flag_ok (scan_end s ?xs)" using c2(3) by simp
    ultimately show "readable E R any (toks vc s ?xs) (rename ren (ApplT f [t1, t2])) opp
      \<and> head_ok (ApplT f [t1, t2]) g s (toks vc s ?xs) \<and> flag_ok (scan_end s ?xs)" by blast
  qed
qed

section \<open>Arguments and lists\<close>

definition reads_args :: "'f trm list \<Rightarrow> 'f wglbs \<Rightarrow> 'f wglbs \<Rightarrow> bool" where
  "reads_args ts g g' \<longleftrightarrow> (\<exists>xs. written g xs g' \<and> (\<forall>s. flag_ok s \<longrightarrow>
     (\<exists>tss. toks vc s xs = join tss \<and> list_all2 (arg_text E) tss (map (rename ren) ts))
     \<and> flag_ok (scan_end s xs)))"

lemma arg_text_readable: "readable E R any ts t c \<Longrightarrow> c \<le> 999 \<Longrightarrow> arg_text E ts t"
  using readable_weaken [of E R ts t c False] by (cases any) (auto simp: arg_text_def)

lemma reads_args_last:
  assumes "reads any t 999 g g'"
  shows "reads_args [t] g g'"
proof -
  from assms obtain xs where w: "written g xs g'" and r: "reads_as any t 999 g xs" by (auto simp: reads_def)
  have "\<exists>tss. toks vc s xs = join tss \<and> list_all2 (arg_text E) tss (map (rename ren) [t])"
    and "flag_ok (scan_end s xs)" if s: "flag_ok s" for s
  proof -
    obtain c where c: "c \<le> 999" "readable E R any (toks vc s xs) (rename ren t) c" "flag_ok (scan_end s xs)"
      by (rule reads_asD [OF r s])
    then show "\<exists>tss. toks vc s xs = join tss \<and> list_all2 (arg_text E) tss (map (rename ren) [t])"
      by (intro exI [of _ "[toks vc s xs]"]) (simp add: arg_text_readable)
    show "flag_ok (scan_end s xs)" by (rule c(3))
  qed
  with w show ?thesis unfolding reads_args_def by blast
qed

lemma written_comma: "written g [Chars '',''] (set_lw separator (wrputs '','' g))"
  by (simp add: written_def set_lw_def wrputs_def)

lemma reads_args_more:
  assumes t: "reads any t 999 g g1" and ts: "reads_args ts (set_lw separator (wrputs '','' g1)) g2" and "ts \<noteq> []"
  shows "reads_args (t # ts) g g2"
proof -
  from t obtain xs where w: "written g xs g1" and r: "reads_as any t 999 g xs" by (auto simp: reads_def)
  from ts obtain ys where wy: "written (set_lw separator (wrputs '','' g1)) ys g2"
    and y: "\<And>s. flag_ok s \<Longrightarrow> (\<exists>tss. toks vc s ys = join tss \<and> list_all2 (arg_text E) tss (map (rename ren) ts))
      \<and> flag_ok (scan_end s ys)"
    by (auto simp: reads_args_def)
  let ?xs = "xs @ [Chars '',''] @ ys"
  have "written g ?xs g2" by (rule written_trans [OF w written_trans [OF written_comma wy]])
  moreover have "(\<exists>tss. toks vc s ?xs = join tss \<and> list_all2 (arg_text E) tss (map (rename ren) (t # ts)))
    \<and> flag_ok (scan_end s ?xs)" if s: "flag_ok s" for s
  proof -
    obtain c where c: "c \<le> 999" "readable E R any (toks vc s xs) (rename ren t) c" "flag_ok (scan_end s xs)"
      by (rule reads_asD [OF r s])
    let ?s = "scan_end s xs\<lparr>adj := False\<rparr>"
    obtain tss where tss: "toks vc ?s ys = join tss" "list_all2 (arg_text E) tss (map (rename ren) ts)"
      "flag_ok (scan_end ?s ys)"
      using y [of ?s] c(3) by auto
    from tss(2) \<open>ts \<noteq> []\<close> obtain us uss where "tss = us # uss" by (cases tss) auto
    then have "toks vc s ?xs = join (toks vc s xs # tss)" using tss(1) by simp
    moreover have "list_all2 (arg_text E) (toks vc s xs # tss) (map (rename ren) (t # ts))"
      using arg_text_readable [OF c(2,1)] tss(2) by simp
    ultimately show ?thesis using tss(3) by auto
  qed
  ultimately show ?thesis unfolding reads_args_def by blast
qed

definition reads_list :: "'f trm \<Rightarrow> 'f wglbs \<Rightarrow> 'f wglbs \<Rightarrow> bool" where
  "reads_list t g g' \<longleftrightarrow> (\<exists>xs. written g xs g' \<and> (\<forall>s. flag_ok s \<longrightarrow>
     list_text E (toks vc s xs) (rename ren t) \<and> flag_ok (scan_end s xs)))"

lemma reads_listE:
  assumes "reads any t 999 g g1"
  obtains xs where "written g xs g1" "\<And>s. flag_ok s \<Longrightarrow> arg_text E (toks vc s xs) (rename ren t) \<and> flag_ok (scan_end s xs)"
proof -
  from assms obtain xs where "written g xs g1" and r: "reads_as any t 999 g xs" by (auto simp: reads_def)
  moreover have "arg_text E (toks vc s xs) (rename ren t) \<and> flag_ok (scan_end s xs)" if "flag_ok s" for s
    by (rule reads_asD [OF r that]) (blast intro: arg_text_readable)
  ultimately show ?thesis using that by blast
qed

lemma reads_list_last: "reads any t 999 g g1 \<Longrightarrow> reads_list (PairT t TermNil) g g1"
  unfolding reads_list_def by (erule reads_listE) (fastforce simp: TermNil_def intro: list_text_last [unfolded TermNil_def])

lemma written_bar: "written g (blank (lw g = symbol \<or> lw g = separator) @ [Chars ''|''])
    (set_lw separator (list_tail_start g))"
  by (simp add: written_def set_lw_def wrputs_def space_if_def blank_def list_tail_start_def)

lemma reads_list_tail:
  assumes "reads any1 t 999 g g1" and "reads any2 u 999 (set_lw separator (list_tail_start g1)) g2"
  shows "reads_list (PairT t u) g g2"
proof -
  obtain xs where x: "written g xs g1"
    "\<And>s. flag_ok s \<Longrightarrow> arg_text E (toks vc s xs) (rename ren t) \<and> flag_ok (scan_end s xs)"
    by (rule reads_listE [OF assms(1)]) blast
  obtain ys where y: "written (set_lw separator (list_tail_start g1)) ys g2"
    "\<And>s. flag_ok s \<Longrightarrow> arg_text E (toks vc s ys) (rename ren u) \<and> flag_ok (scan_end s ys)"
    by (rule reads_listE [OF assms(2)]) blast
  let ?b = "blank (lw g1 = symbol \<or> lw g1 = separator) @ [Chars ''|''] :: 'f piece list"
  have "written g (xs @ ?b @ ys) g2"
    by (rule written_trans [OF x(1) written_trans [OF written_bar y(1)]])
  moreover have "list_text E (toks vc s (xs @ ?b @ ys)) (rename ren (PairT t u)) \<and> flag_ok (scan_end s (xs @ ?b @ ys))"
    if "flag_ok s" for s
    using x(2) [OF that] y(2) [of "scan_end s xs\<lparr>adj := False\<rparr>"] by (simp add: list_text_tail)
  ultimately show ?thesis unfolding reads_list_def by blast
qed

lemma written_comma_list: "written g [Chars '',''] (wrputs '','' (set_lw separator g))"
  by (simp add: written_def set_lw_def wrputs_def)

lemma reads_list_more:
  assumes "reads any t 999 g g1" and "reads_list u (wrputs '','' (set_lw separator g1)) g2"
  shows "reads_list (PairT t u) g g2"
proof -
  obtain xs where x: "written g xs g1"
    "\<And>s. flag_ok s \<Longrightarrow> arg_text E (toks vc s xs) (rename ren t) \<and> flag_ok (scan_end s xs)"
    by (rule reads_listE [OF assms(1)]) blast
  from assms(2) obtain ys where y: "written (wrputs '','' (set_lw separator g1)) ys g2"
    "\<And>s. flag_ok s \<Longrightarrow> list_text E (toks vc s ys) (rename ren u) \<and> flag_ok (scan_end s ys)"
    by (auto simp: reads_list_def)
  have "written g (xs @ [Chars '',''] @ ys) g2"
    by (rule written_trans [OF x(1) written_trans [OF written_comma_list y(1)]])
  moreover have "list_text E (toks vc s (xs @ [Chars '',''] @ ys)) (rename ren (PairT t u))
    \<and> flag_ok (scan_end s (xs @ [Chars '',''] @ ys))" if "flag_ok s" for s
    using x(2) [OF that] y(2) [of "scan_end s xs\<lparr>adj := False\<rparr>"] by (simp add: list_text_more)
  ultimately show ?thesis unfolding reads_list_def by blast
qed

text \<open>A list, a term in braces and a compound term around what has been written between their brackets.\<close>

lemma reads_list_term:
  assumes "reads_list t (wrmark ''['' g) g1" and "IsPair_trm t"
  shows "reads any t p g (wrmark '']'' g1)"
proof -
  from assms obtain xs where x: "written (wrmark ''['' g) xs g1"
    "\<And>s. flag_ok s \<Longrightarrow> list_text E (toks vc s xs) (rename ren t) \<and> flag_ok (scan_end s xs)"
    by (auto simp: reads_list_def)
  let ?xs = "[Chars ''['' ] @ xs @ [Chars '']'']"
  have "written g ?xs (wrmark '']'' g1)"
    by (rule written_trans [OF written_mark written_trans [OF x(1) written_mark]])
  then show ?thesis
  proof (rule readsI [OF _ le0])
    fix s assume s: "flag_ok s"
    let ?s = "s\<lparr>adj := False\<rparr>"
    have y: "list_text E (toks vc ?s xs) (rename ren t)" "flag_ok (scan_end ?s xs)" using x(2) [of ?s] s by simp_all
    have ts: "toks vc s ?xs = Ponctuation_tok ''['' # toks vc ?s xs @ [Ponctuation_tok '']'']" by simp
    show "readable E R any (toks vc s ?xs) (rename ren t) 0 \<and> head_ok t g s (toks vc s ?xs) \<and> flag_ok (scan_end s ?xs)"
      unfolding ts using readable_list [OF y(1)] y(2) by (simp add: head_ok_def)
  qed
qed

lemma reads_braces:
  assumes "reads any1 t 1200 (wrmark ''{'' g) g1"
  shows "reads any (ApplT ''{}'' [t]) p g (wrmark ''}'' g1)"
proof -
  from assms obtain xs where w: "written (wrmark ''{'' g) xs g1"
    and r: "reads_as any1 t 1200 (wrmark ''{'' g) xs" by (auto simp: reads_def)
  let ?xs = "[Chars ''{'' ] @ xs @ [Chars ''}'']"
  have "written g ?xs (wrmark ''}'' g1)"
    by (rule written_trans [OF written_mark written_trans [OF w written_mark]])
  then show ?thesis
  proof (rule readsI [OF _ le0])
    fix s assume s: "flag_ok s"
    let ?s = "s\<lparr>adj := False\<rparr>"
    have "flag_ok ?s" using s by simp
    then obtain c where c: "c \<le> 1200" "readable E R any1 (toks vc ?s xs) (rename ren t) c" "flag_ok (scan_end ?s xs)"
      by (rule reads_asD [OF r])
    then have "readable E R False (toks vc ?s xs) (rename ren t) c" using readable_weaken by (cases any1) auto
    note readable_braces [OF this c(1), of any]
    moreover have ts: "toks vc s ?xs = Ponctuation_tok ''{'' # toks vc ?s xs @ [Ponctuation_tok ''}'']" by simp
    ultimately show "readable E R any (toks vc s ?xs) (rename ren (ApplT ''{}'' [t])) 0
      \<and> head_ok (ApplT ''{}'' [t]) g s (toks vc s ?xs) \<and> flag_ok (scan_end s ?xs)"
      unfolding ts using c(3) by (simp add: head_ok_def)
  qed
qed

text \<open>The name and the opening bracket are written by \<open>us\<close>.\<close>

lemma reads_compound:
  assumes us: "written g us g0" "\<And>s. toks vc s us = [Name_tok f, Ponctuation_tok ''l'']"
      "\<And>s. scan_end s us = \<lparr>solo = True, adj = False\<rparr>"
    and ts: "reads_args ts g0 g1" "ts \<noteq> []" and f: "f \<noteq> AtomDBref" "f = ''.'' \<longrightarrow> length ts \<noteq> 2"
    and lead: "name_of (lead R ign (ApplT f ts)) = f"
  shows "reads any (ApplT f ts) p g (wrclose_bracket g1)"
proof -
  from ts(1) obtain xs where w: "written g0 xs g1"
    and x: "\<And>s. flag_ok s \<Longrightarrow> (\<exists>tss. toks vc s xs = join tss \<and> list_all2 (arg_text E) tss (map (rename ren) ts))
      \<and> flag_ok (scan_end s xs)"
    by (auto simp: reads_args_def)
  let ?xs = "us @ xs @ [Chars '')'']" and ?s = "\<lparr>solo = True, adj = False\<rparr>"
  have "written g ?xs (wrclose_bracket g1)"
    by (rule written_trans [OF us(1) written_trans [OF w written_close]])
  then show ?thesis
  proof (rule readsI [OF _ le0])
    fix s assume "flag_ok s"
    obtain tss where tss: "toks vc ?s xs = join tss" "list_all2 (arg_text E) tss (map (rename ren) ts)"
      "flag_ok (scan_end ?s xs)"
      using x [of ?s] by auto
    then have "tss \<noteq> []" using ts(2) by auto
    have tk: "toks vc s ?xs = Name_tok f # Ponctuation_tok ''l'' # join tss @ [Ponctuation_tok '')'']"
      by (simp add: us(2,3) tss(1))
    show "readable E R any (toks vc s ?xs) (rename ren (ApplT f ts)) 0
      \<and> head_ok (ApplT f ts) g s (toks vc s ?xs) \<and> flag_ok (scan_end s ?xs)"
      unfolding tk using readable_compound [OF tss(2) \<open>tss \<noteq> []\<close> f(1), of any] f(2) lead tss(3)
      by (simp add: head_ok_def us(3))
  qed
qed

section \<open>The writer\<close>

lemma form_ofD:
  "form_of R i f args = Prefix_form opp rp \<Longrightarrow> \<not> i \<and> (\<exists>t. args = [t]) \<and> pre_op R f = Some (opp, rp)"
  "form_of R i f args = Infix_form opp lp rp \<Longrightarrow> \<not> i \<and> (\<exists>t u. args = [t, u]) \<and> in_op R f = Some (opp, lp, rp)"
  "form_of R i f args = Var_form \<Longrightarrow> f = ''$VAR'' \<and> (\<exists>t. args = [t])"
  "form_of R i f args = Braces_form \<Longrightarrow> f = ''{}'' \<and> (\<exists>t. args = [t])"
  by (auto simp: form_of_def length_Suc_conv numeral_2_eq_2 split: option.splits if_splits prod.splits)

lemma form_of_Plain_lead:
  assumes "form_of R i f args = Plain_form \<or> form_of R i f args = Var_form"
  shows "name_of (lead R i (ApplT f args)) = f"
proof -
  have "i \<or> length args \<noteq> 2 \<or> in_op R f = None"
    using assms by (auto simp: form_of_def split: option.splits if_splits prod.splits)
  then show ?thesis
    by (cases "(R, i, ApplT f args)" rule: lead.cases) auto
qed

lemma ArgOfTerm_simps [simp]: "ArgOfTerm (Suc 0) (t # ts) = t" "ArgOfTerm 2 (t # u # ts) = u"
  by (simp_all add: ArgOfTerm_def)

definition fits :: "nat \<Rightarrow> 'f trm \<Rightarrow> bool" where
  "fits d t \<longleftrightarrow> d = 0 \<or> need t \<le> d"

lemma need_ge2: "2 \<le> need t"
proof (cases t)
  case (ApplT f ts)
  have "1 \<le> foldr (\<lambda>t n. max (need t) n) ts 1" by (induction ts) auto
  then show ?thesis by (simp add: ApplT)
qed auto

lemma need_arg: "t \<in> set ts \<Longrightarrow> need t < need (ApplT f ts)"
  by (induction ts) (auto simp: less_Suc_eq_le)

lemma fits_arg: "fits d (ApplT f ts) \<Longrightarrow> t \<in> set ts \<Longrightarrow> fits (d - 1) t"
  using need_arg [of t ts f] by (auto simp: fits_def simp del: need.simps)

lemma fits_not_1: "fits d t \<Longrightarrow> d \<noteq> 1"
  using need_ge2 [of t] by (auto simp: fits_def)

definition writes :: "'f trm \<Rightarrow> bool" where
  "writes t \<longleftrightarrow> (\<forall>p d g. p \<le> 1200 \<longrightarrow> fits d t \<longrightarrow> opts g \<longrightarrow>
    reads (\<not> bracket_operand R t) t p g (writeTerm E R W t p d g))"

lemma writesD: "writes t \<Longrightarrow> p \<le> 1200 \<Longrightarrow> fits d t \<Longrightarrow> opts g \<Longrightarrow>
    reads (\<not> bracket_operand R t) t p g (writeTerm E R W t p d g)"
  by (simp add: writes_def)

lemma writes_operand:
  assumes "writes t" and "p \<le> 1200" and "fits d t" and "opts g"
  shows "reads True t p g (close_if (bracket_operand R t) (writeTerm E R W t p d (open_if (bracket_operand R t) g)))"
  by (rule reads_operand [OF writesD assms(2)]) (use assms in simp_all)

lemma write_args_reads:
  assumes "\<forall>t \<in> set ts. writes t \<and> fits d t" and "ts \<noteq> []" and "opts g" and "0 < i"
  shows "reads_args ts g (write_args E R W False i ts d g)"
  using assms
proof (induction ts arbitrary: g i)
  case (Cons t ts)
  have t: "reads (\<not> bracket_operand R t) t 999 g (writeTerm E R W t 999 d g)"
    using Cons.prems by (intro writesD) simp_all
  show ?case
  proof (cases "ts = []")
    case True
    then show ?thesis using reads_args_last [OF t] by (simp add: write_args.simps)
  next
    case False
    have o: "opts (set_lw separator (wrputs '','' (writeTerm E R W t 999 d g)))"
      using reads_written [OF t] Cons.prems(3) by simp
    have "i \<noteq> MaxArgs g" using Cons.prems(3,4) by (simp add: opts_def)
    then show ?thesis
      using False reads_args_more [OF t Cons.IH [OF _ False o, of "i + 1"] False] Cons.prems(1)
      by (simp add: write_args.simps)
  qed
qed simp

lemma write_list_reads:
  assumes "\<forall>u. wsize u < wsize t \<longrightarrow> writable E R ign hv ne u \<longrightarrow> writes u" and "writable E R ign hv ne t"
    and "IsPair_trm t" and "d = 0 \<or> need t - 1 \<le> d" and "opts g"
  shows "reads_list t g (write_list E R W t d g)"
  using assms
proof (induction t arbitrary: d g)
  case (PairT t u)
  have d: "d \<noteq> 1" "fits (d - 1) t" using PairT.prems(4) need_ge2 [of t] by (auto simp: fits_def)
  have t: "reads (\<not> bracket_operand R t) t 999 g (writeTerm E R W t 999 (d - 1) g)"
    using PairT.prems d by (intro writesD) simp_all
  have o: "opts (writeTerm E R W t 999 (d - 1) g)" using reads_written [OF t] PairT.prems(5) by simp
  consider "IsPair_trm u" | "u = TermNil" | "\<not> IsPair_trm u" "u \<noteq> TermNil" by blast
  then show ?case
  proof cases
    case 1
    then have "reads_list u (wrputs '','' (set_lw separator (writeTerm E R W t 999 (d - 1) g)))
      (write_list E R W u (d - 1) (wrputs '','' (set_lw separator (writeTerm E R W t 999 (d - 1) g))))"
      using PairT.prems o by (intro PairT.IH(2)) (auto simp: TermNil_def)
    from reads_list_more [OF t this] show ?thesis using 1 d by (simp add: write_list.simps)
  next
    case 2
    then show ?thesis using reads_list_last [OF t] d by (simp add: write_list.simps TermNil_def)
  next
    case 3
    then have "reads (\<not> bracket_operand R u) u 999 (set_lw separator (list_tail_start (writeTerm E R W t 999 (d - 1) g)))
      (writeTerm E R W u 999 (d - 1) (set_lw separator (list_tail_start (writeTerm E R W t 999 (d - 1) g))))"
      using PairT.prems o by (intro writesD) (auto simp: fits_def list_tail_start_def)
    from reads_list_tail [OF t this] show ?thesis using 3 d by (simp add: write_list.simps)
  qed
qed simp_all

section \<open>Compound terms\<close>

lemma symbol_or_alnum_not_separator:
  "symbol_name f \<or> ne \<and> AtomIsSymbols f = alphanum \<Longrightarrow> AtomIsSymbols f \<noteq> separator"
  by (auto simp: symbol_name_def)

lemma written_function_name:
  assumes "f \<noteq> []"
  shows "written g (blank (lw g = AtomIsSymbols f \<and> AtomIsSymbols f \<noteq> separator) @ [Atom_piece (Quote_illegal g) f, Chars ''(''])
    (wropen_bracket False (set_lw separator (putAtom (Quote_illegal g) f g)))"
  using written_atom [OF assms, of g "Quote_illegal g"]
  by (simp add: written_def wropen_bracket_def set_lw_def wrputs_def space_if_def)

lemma bracket_operand_compound [simp]: "\<not> bracket_operand R (ApplT f ts)"
  by (simp add: bracket_operand_def)

lemma write_prefix_reads:
  assumes "form_of R ign f [t] = Prefix_form opp rp" and "good_form R ign hv ne f [t]" and "good_atom f"
    and t: "writes t" "fits d t" and g: "opts g"
  shows "reads True (ApplT f [t]) p g (operand_end R t (opp > p) (writeTerm E R W t rp d (prefix_start R f t (opp > p) g)))"
proof -
  have op: "pre_op R f = Some (opp, rp)" using form_ofD(1) [OF assms(1)] by blast
  have f: "f \<noteq> []" "symbol_name f \<or> ne \<and> AtomIsSymbols f = alphanum" "ne \<longrightarrow> \<not> empty_name f"
    "sign_ok f (lead R ign t)"
    using assms(1-3) by (simp_all add: good_form_def good_atom_def)
  have rp: "rp \<le> 1200" "opp \<le> 1200" using pre_bounds [OF op] by simp_all
  define g0 where "g0 = open_if (opp > p) g"
  define g1 where "g1 = (if \<not> bracket_operand R t \<and> f = ''-'' then (putAtom True f g0)\<lparr>last_minus := True\<rparr> else putAtom True f g0)"
  have "opts g0" using g by (simp add: g0_def)
  then have g0: "opts g0" "Quote_illegal g0" by (simp_all add: opts_def)
  then have o1: "opts g1" by (simp add: g1_def)
  have start: "prefix_start R f t (opp > p) g = open_if (bracket_operand R t) g1"
    using g by (simp add: prefix_start_def g0_def g1_def open_if_def Let_def opts_def)
  have t1: "reads True t rp g1 (close_if (bracket_operand R t) (writeTerm E R W t rp d (open_if (bracket_operand R t) g1)))"
    by (rule writes_operand [OF t(1) rp(1) t(2) o1])
  have "reads True (ApplT f [t]) opp g0 (close_if (bracket_operand R t) (writeTerm E R W t rp d (open_if (bracket_operand R t) g1)))"
  proof (rule reads_prefix [OF op f(1,2,3,4)])
    show "f = ''-'' \<longrightarrow> last_minus g1 \<or> IsAtom_trm t"
      by (cases t) (auto simp: g1_def bracket_operand_def)
    show "lw g1 = AtomIsSymbols f" using f(1) by (simp add: g1_def)
  qed (use g0 g o1 t1 in \<open>simp_all add: g1_def\<close>)
  then have "reads True (ApplT f [t]) p g (close_if (opp > p)
    (close_if (bracket_operand R t) (writeTerm E R W t rp d (open_if (bracket_operand R t) g1))))"
    unfolding g0_def by (rule reads_paren [OF _ rp(2)])
  then show ?thesis by (simp add: operand_end_def start)
qed

lemma write_infix_reads:
  assumes "form_of R ign f [t, u] = Infix_form opp lp rp" and "good_form R ign hv ne f [t, u]" and "good_atom f"
    and "f \<noteq> ''.''" and t: "writes t" "fits d t" and u: "writes u" "fits d u" and g: "opts g"
  shows "reads True (ApplT f [t, u]) p g (operand_end R u (opp > p) (writeTerm E R W u rp d (right_start R f t u
    (writeTerm E R W t lp d (left_start R t (opp > p) g)))))"
proof -
  have op: "in_op R f = Some (opp, lp, rp)" "\<not> ign" using form_ofD(2) [OF assms(1)] by blast+
  have f: "f \<noteq> []" "ne \<longrightarrow> \<not> empty_name f" using assms(1-3) by (simp_all add: good_form_def good_atom_def)
  have p: "lp \<le> 1200" "rp \<le> 1200" "opp \<le> 1200" using in_bounds [OF op(1)] by simp_all
  define g0 where "g0 = open_if (opp > p) g"
  define g1 where "g1 = close_if (bracket_operand R t) (writeTerm E R W t lp d (open_if (bracket_operand R t) g0))"
  have o0: "opts g0" using g by (simp add: g0_def)
  have 1: "reads True t lp g0 g1" unfolding g1_def by (rule writes_operand [OF t(1) p(1) t(2) o0])
  have o1: "opts (write_infix_name f g1)" using reads_written [OF 1 o0] by simp
  have 2: "reads True u rp (write_infix_name f g1) (close_if (bracket_operand R u)
    (writeTerm E R W u rp d (open_if (bracket_operand R u) (write_infix_name f g1))))"
    by (rule writes_operand [OF u(1) p(2) u(2) o1])
  have "reads True (ApplT f [t, u]) p g (close_if (opp > p) (close_if (bracket_operand R u)
    (writeTerm E R W u rp d (open_if (bracket_operand R u) (write_infix_name f g1)))))"
    by (rule reads_paren [OF _ p(3)])
      (use reads_infix [OF op(1) f(1) assms(4) f(2) op(2) 1 2] in \<open>simp add: g0_def\<close>)
  then show ?thesis by (simp add: operand_end_def right_start_def left_start_def g0_def g1_def)
qed

lemma write_plain_reads:
  assumes "form_of R ign f ts = Plain_form" and "good_atom f" and "f \<noteq> ''__YAP_heap__''" and "f \<noteq> AtomDBref"
    and "f = ''.'' \<longrightarrow> length ts \<noteq> 2" and "ts \<noteq> []" and "\<forall>t \<in> set ts. writes t \<and> fits d t" and g: "opts g"
  shows "reads any (ApplT f ts) p g (wrclose_bracket (write_args E R W False 1 ts d
    (wropen_bracket False (set_lw separator (putAtom (Quote_illegal g) f g)))))"
proof (rule reads_compound [OF written_function_name])
  show "f \<noteq> []" using assms(2) by (simp add: good_atom_def)
  let ?g = "wropen_bracket False (set_lw separator (putAtom (Quote_illegal g) f g))"
  show "reads_args ts ?g (write_args E R W False 1 ts d ?g)"
    using assms(6,7) g by (intro write_args_reads) simp_all
qed (use assms form_of_Plain_lead [OF disjI1 [OF assms(1)]] in \<open>simp_all add: bracket_tok_def\<close>)

lemma write_dollar_reads:
  assumes t: "writes t" "fits d t" and g: "opts g" and lead: "name_of (lead R ign (ApplT ''$VAR'' [t])) = ''$VAR''"
  shows "reads any (ApplT ''$VAR'' [t]) p g (wrclose_bracket (writeTerm E R W t 999 d
    (wrmark (CHR 0x27 # ''$VAR'' @ CHR 0x27 # ''('') (space_if (lw g = alphanum) g))))"
proof (rule reads_compound)
  let ?q = "CHR 0x27 # ''$VAR'' @ CHR 0x27 # ''(''"
  show "written g (blank (lw g = alphanum) @ [Chars ?q]) (wrmark ?q (space_if (lw g = alphanum) g))"
    by (simp add: written_def wrmark_def set_lw_def wrputs_def space_if_def blank_def)
  show "reads_args [t] (wrmark ?q (space_if (lw g = alphanum) g)) (writeTerm E R W t 999 d
    (wrmark ?q (space_if (lw g = alphanum) g)))"
    by (rule reads_args_last [OF writesD [OF t(1) _ t(2)]]) (use g in simp_all)
qed (use lead in \<open>simp_all add: AtomDBref_def\<close>)

lemma write_compound_reads:
  assumes ok: "writable E R ign hv ne (ApplT f args)" and ts: "\<forall>t \<in> set args. writes t \<and> fits d t" and g: "opts g"
  shows "reads True (ApplT f args) p g (write_compound E R W f args p d g)"
proof -
  have i: "Ignore_ops g = ign" "Handle_vars g = hv" using g by (simp_all add: opts_def)
  have form: "good_form R ign hv ne f args" and f: "good_atom f" and ne: "args \<noteq> []" using ok by simp_all
  show ?thesis
  proof (cases "form_of R ign f args")
    case (Prefix_form opp rp)
    then obtain t where "args = [t]" using form_ofD(1) by blast
    then show ?thesis
      using write_prefix_reads [of f t opp rp d g p] Prefix_form form f ts g i by (simp add: write_compound.simps)
  next
    case (Infix_form opp lp rp)
    then obtain t u where "args = [t, u]" using form_ofD(2) by blast
    then show ?thesis
      using write_infix_reads [of f t u opp lp rp d g p] Infix_form form f ts g i ok by (simp add: write_compound.simps)
  next
    case Var_form
    then obtain t where t: "args = [t]" "f = ''$VAR''" using form_ofD(3) by blast
    then show ?thesis
      using write_dollar_reads [of t d g True p] form_of_Plain_lead [OF disjI2 [OF Var_form]] Var_form form f ts g i
      by (auto simp: write_compound.simps good_form_def opts_def)
  next
    case Braces_form
    then obtain t where t: "args = [t]" "f = ''{}''" using form_ofD(4) by blast
    have "reads (\<not> bracket_operand R t) t 1200 (wrmark ''{'' g) (writeTerm E R W t GLOBAL_MaxPriority d (wrmark ''{'' g))"
      using writesD [of t 1200 d "wrmark ''{'' g"] t ts g by (simp add: GLOBAL_MaxPriority_def)
    from reads_braces [OF this] show ?thesis using Braces_form t i by (simp add: write_compound.simps)
  next
    case Plain_form
    then show ?thesis
      using write_plain_reads [OF Plain_form f _ _ _ ne ts g, of True p] ok i
      by (simp add: write_compound.simps args_written_def)
  qed (use form in \<open>simp_all add: good_form_def\<close>)
qed

section \<open>The round trip\<close>

lemma write_reads: "writable E R ign hv ne t \<Longrightarrow> writes t"
proof (induction t rule: measure_induct_rule [where f = wsize])
  case (less t)
  show ?case
    unfolding writes_def
  proof (intro allI impI)
    fix p d :: nat and g :: "'f wglbs"
    assume p: "p \<le> 1200" and fits: "fits d t" and g: "opts g"
    have d: "d \<noteq> 1" using fits_not_1 [OF fits] .
    have q: "Quote_illegal g" using g by (simp add: opts_def)
    show "reads (\<not> bracket_operand R t) t p g (writeTerm E R W t p d g)"
    proof (cases t)
      case (VarT v)
      then show ?thesis using reads_var d by (simp add: writeTerm.simps)
    next
      case (AtmT a)
      then show ?thesis using reads_atom [of a p g True] less.prems d q by (simp add: writeTerm.simps)
    next
      case (IntT n)
      then show ?thesis using reads_wrputn [of t n] less.prems d by (simp add: writeTerm.simps)
    next
      case (LongT n)
      then show ?thesis using reads_wrputn [of t n] less.prems d by (simp add: writeTerm.simps)
    next
      case (BigT z)
      then show ?thesis using reads_mpint [of z] less.prems d by (simp add: writeTerm.simps)
    next
      case (PairT a b)
      have "reads_list t (wrmark ''['' g) (write_list E R W t (d - 1) (wrmark ''['' g))"
      proof (rule write_list_reads)
        show "d - 1 = 0 \<or> need t - 1 \<le> d - 1" using fits by (auto simp: fits_def)
      qed (use less g PairT in simp_all)
      from reads_list_term [OF this] show ?thesis using PairT d no_strings by (simp add: writeTerm.simps)
    next
      case (ApplT f args)
      have "\<forall>u \<in> set args. writes u \<and> fits (d - 1) u"
      proof
        fix u assume u: "u \<in> set args"
        then have "wsize u \<le> sum_list (map wsize args)" by (intro member_le_sum_list) auto
        then show "writes u \<and> fits (d - 1) u"
          using less ApplT u fits_arg [of d f args u] fits by (auto simp: list_all_iff)
      qed
      then have "reads True (ApplT f args) p g (write_compound E R W f args p (d - 1) g)"
        using less.prems ApplT g by (intro write_compound_reads) simp_all
      then show ?thesis using ApplT d by (simp add: writeTerm.simps)
    qed (use less.prems in simp_all)
  qed
qed

text \<open>The parser reads the tokens of a written term, up to the end of the text.\<close>

lemma Yap_Parse_readable:
  assumes "readable E R any ts t c" and "c \<le> q" and "length ts < 4095"
  shows "Yap_Parse E R q (ts @ [eot_tok]) = Term_read t"
proof -
  let ?st = "\<lparr>tokptr = ts @ [eot_tok], aux_sp = 0, shrunk = False\<rparr>"
  have "parse_term E R q ?st = parse_rest E R q c t (?st\<lparr>tokptr := [eot_tok]\<rparr>)"
    using readableD [OF assms(1,2), of "[eot_tok]" ?st] assms(3) by (simp add: follows_def closing_def)
  also have "\<dots> = Parsed t (?st\<lparr>tokptr := [eot_tok]\<rparr>)" by (rule rest_closing) (simp add: closing_def)
  finally show ?thesis by (simp add: Yap_Parse_def parse_term_def after_parse_def)
qed

text \<open>A written term, read back.\<close>

lemma written_term_parses:
  assumes "writable E R ign hv ne t" and "need t \<le> d" and "opts g" and "stream g = []"
    and "flag_ok s" and "length (toks vc s (stream (writeTerm E R W t 1200 d g))) < 4095"
  shows "Yap_Parse E R 1200 (toks vc s (stream (writeTerm E R W t 1200 d g)) @ [eot_tok]) = Term_read (rename ren t)"
proof -
  have "reads (\<not> bracket_operand R t) t 1200 g (writeTerm E R W t 1200 d g)"
    using write_reads [OF assms(1)] assms(2,3) by (simp add: writes_def fits_def)
  then obtain xs where xs: "written g xs (writeTerm E R W t 1200 d g)"
    "reads_as (\<not> bracket_operand R t) t 1200 g xs" by (auto simp: reads_def)
  then have st: "stream (writeTerm E R W t 1200 d g) = xs" using assms(4) by (simp add: written_def)
  obtain c where "c \<le> 1200" "readable E R (\<not> bracket_operand R t) (toks vc s xs) (rename ren t) c"
    by (rule reads_asD [OF xs(2) assms(5)])
  then show ?thesis
    using Yap_Parse_readable assms(6) by (simp add: st)
qed

end

end
