(* ===== verification/YapVars.thy ===== *)
theory YapVars
  imports YapCompareCorrect
begin

text \<open>
  The variables of a clause while it is read (C/parser.c): \<open>Yap_LookupVar\<close> keeps a search tree on hash and name
  for the named ones, a list of the anonymous ones, and all of them in the order they were met. An entry is
  known by its place in this order; the tree holds the places.
\<close>

section \<open>Entries and tree\<close>

record var_entry =
  VarRep :: string
  VarHash :: cell
  VarRefs :: nat

datatype var_tree = VarLeaf | VarNode var_tree nat var_tree

record var_table =
  VarTable :: var_tree
  AnonVarTable :: "nat list"
  VarList :: "var_entry list"

definition HashFunction :: "string \<Rightarrow> cell" where
  "HashFunction s = foldl (\<lambda>hash c. hash * 33 + of_nat (of_char c)) 5381 s"

text \<open>The size of the table of atoms when the system starts.\<close>

definition AtomHashTableSize :: cell where
  "AtomHashTableSize = 3333"

text \<open>Which way the search goes at an entry: the sign, zero when it is the one.\<close>

definition var_cmp :: "cell \<Rightarrow> string \<Rightarrow> var_entry \<Rightarrow> int" where
  "var_cmp hv var p = (if hv = VarHash p then strcmp var (VarRep p) else if hv < VarHash p then - 1 else 1)"

fun find_var :: "var_entry list \<Rightarrow> cell \<Rightarrow> string \<Rightarrow> var_tree \<Rightarrow> nat option" where
  "find_var es hv var VarLeaf = None"
| "find_var es hv var (VarNode l p r) =
    (let s = var_cmp hv var (es ! p) in
     if s = 0 then Some p else if s < 0 then find_var es hv var l else find_var es hv var r)"

text \<open>The place of the new entry is where the search ended.\<close>

fun add_var :: "var_entry list \<Rightarrow> cell \<Rightarrow> string \<Rightarrow> nat \<Rightarrow> var_tree \<Rightarrow> var_tree" where
  "add_var es hv var new VarLeaf = VarNode VarLeaf new VarLeaf"
| "add_var es hv var new (VarNode l p r) =
    (let s = var_cmp hv var (es ! p) in
     if s = 0 then VarNode l p r
     else if s < 0 then VarNode (add_var es hv var new l) p r
     else VarNode l p (add_var es hv var new r))"

definition Yap_LookupVar :: "string \<Rightarrow> var_table \<Rightarrow> nat \<times> var_table" where
  "Yap_LookupVar var vt =
    (let es = VarList vt; new = length es in
     if var \<noteq> ''_'' then
       let hv = HashFunction var mod AtomHashTableSize in
       (case find_var es hv var (VarTable vt) of
          Some p \<Rightarrow> (p, vt\<lparr>VarList := es[p := (es ! p)\<lparr>VarRefs := VarRefs (es ! p) + 1\<rparr>]\<rparr>)
        | None \<Rightarrow> (new, vt\<lparr>VarTable := add_var es hv var new (VarTable vt),
            VarList := es @ [\<lparr>VarRep = var, VarHash = hv, VarRefs = 1\<rparr>]\<rparr>))
     else (new, vt\<lparr>AnonVarTable := new # AnonVarTable vt,
       VarList := es @ [\<lparr>VarRep = var, VarHash = 1, VarRefs = 0\<rparr>]\<rparr>))"

definition no_vars :: var_table where
  "no_vars = \<lparr>VarTable = VarLeaf, AnonVarTable = [], VarList = []\<rparr>"

section \<open>The lists for the reader's options\<close>

text \<open>\<open>adr i\<close> is the term in the entry at place \<open>i\<close>; the entries are numbered from \<open>i\<close> on.\<close>

fun VarNames :: "(nat \<Rightarrow> 'f trm) \<Rightarrow> nat \<Rightarrow> var_entry list \<Rightarrow> 'f trm \<Rightarrow> 'f trm" where
  "VarNames adr i [] l = l"
| "VarNames adr i (p # ps) l =
    (if VarRep p = ''_'' then VarNames adr (i + 1) ps l
     else PairT (ApplT ''='' [AtmT (VarRep p), adr i]) (VarNames adr (i + 1) ps l))"

fun Singletons :: "(nat \<Rightarrow> 'f trm) \<Rightarrow> nat \<Rightarrow> var_entry list \<Rightarrow> 'f trm \<Rightarrow> 'f trm" where
  "Singletons adr i [] l = l"
| "Singletons adr i (p # ps) l =
    (if take 1 (VarRep p) \<noteq> ''_'' \<and> VarRefs p = 1
     then PairT (ApplT ''='' [AtmT (VarRep p), adr i]) (Singletons adr (i + 1) ps l)
     else Singletons adr (i + 1) ps l)"

fun Variables :: "(nat \<Rightarrow> 'f trm) \<Rightarrow> nat \<Rightarrow> var_entry list \<Rightarrow> 'f trm \<Rightarrow> 'f trm" where
  "Variables adr i [] l = l"
| "Variables adr i (p # ps) l = PairT (adr i) (Variables adr (i + 1) ps l)"

text \<open>The list is put before itself.\<close>

definition Yap_Variables :: "(nat \<Rightarrow> 'f trm) \<Rightarrow> var_entry list \<Rightarrow> 'f trm \<Rightarrow> 'f trm" where
  "Yap_Variables adr ps l = Variables adr 0 ps (Variables adr 0 ps l)"

section \<open>The invariant\<close>

definition var_key :: "var_entry \<Rightarrow> cell \<times> string" where
  "var_key p = (VarHash p, VarRep p)"

lemma var_cmp_sg: "var_cmp hv var p = sg (hv, var) (var_key p)"
  by (auto simp: var_cmp_def strcmp_sg var_key_def sg_def)

fun places :: "var_tree \<Rightarrow> nat set" where
  "places VarLeaf = {}"
| "places (VarNode l p r) = places l \<union> {p} \<union> places r"

fun sorted_vars :: "var_entry list \<Rightarrow> var_tree \<Rightarrow> bool" where
  "sorted_vars es VarLeaf \<longleftrightarrow> True"
| "sorted_vars es (VarNode l p r) \<longleftrightarrow> sorted_vars es l \<and> sorted_vars es r
    \<and> (\<forall>i \<in> places l. var_key (es ! i) < var_key (es ! p)) \<and> (\<forall>i \<in> places r. var_key (es ! p) < var_key (es ! i))"

definition named :: "var_entry \<Rightarrow> bool" where
  "named p \<longleftrightarrow> VarRep p \<noteq> ''_''"

text \<open>The tree is sorted, holds the named entries and no others, and hashes are those of the names.\<close>

definition vars_ok :: "var_table \<Rightarrow> bool" where
  "vars_ok vt \<longleftrightarrow> sorted_vars (VarList vt) (VarTable vt)
    \<and> places (VarTable vt) = {i. i < length (VarList vt) \<and> named (VarList vt ! i)}
    \<and> (\<forall>p \<in> set (VarList vt). named p \<longrightarrow> VarHash p = HashFunction (VarRep p) mod AtomHashTableSize)"

lemma find_var_iff:
  assumes "sorted_vars es t"
  shows "find_var es hv var t = Some i \<longleftrightarrow> i \<in> places t \<and> var_key (es ! i) = (hv, var)"
  using assms
proof (induction t)
  case (VarNode l p r)
  have out: "j \<in> places l \<Longrightarrow> var_key (es ! j) < var_key (es ! p)"
    "j \<in> places r \<Longrightarrow> var_key (es ! p) < var_key (es ! j)" for j
    using VarNode.prems by auto
  have IH: "find_var es hv var l = Some i \<longleftrightarrow> i \<in> places l \<and> var_key (es ! i) = (hv, var)"
    "find_var es hv var r = Some i \<longleftrightarrow> i \<in> places r \<and> var_key (es ! i) = (hv, var)"
    using VarNode by simp_all
  consider "(hv, var) < var_key (es ! p)" | "(hv, var) = var_key (es ! p)" | "var_key (es ! p) < (hv, var)"
    by (metis linorder_cases)
  then show ?case
  proof cases
    case 1
    then have "find_var es hv var (VarNode l p r) = find_var es hv var l"
      by (simp add: Let_def var_cmp_sg sg_def)
    moreover have "i = p \<or> i \<in> places r \<Longrightarrow> var_key (es ! i) \<noteq> (hv, var)" using 1 out(2) [of i] by auto
    ultimately show ?thesis using IH(1) by auto
  next
    case 2
    then show ?thesis using out [of i] by (auto simp: Let_def var_cmp_sg)
  next
    case 3
    then have "find_var es hv var (VarNode l p r) = find_var es hv var r"
      by (auto simp add: Let_def var_cmp_sg sg_def dest: order.asym)
    moreover have "i = p \<or> i \<in> places l \<Longrightarrow> var_key (es ! i) \<noteq> (hv, var)" using 3 out(1) [of i] by auto
    ultimately show ?thesis using IH(2) by auto
  qed
qed simp

lemma places_add_var:
  assumes "find_var es hv var t = None"
  shows "places (add_var es hv var new t) = insert new (places t)"
  using assms by (induction t) (auto simp: Let_def split: if_splits)

lemma sorted_add_var:
  assumes "sorted_vars es t" and "find_var es hv var t = None" and "var_key (es ! new) = (hv, var)"
  shows "sorted_vars es (add_var es hv var new t)"
  using assms
proof (induction t)
  case (VarNode l p r)
  have ne: "sg (hv, var) (var_key (es ! p)) \<noteq> 0"
    using VarNode.prems(2) by (auto simp: Let_def var_cmp_sg split: if_splits)
  show ?case
  proof (cases "(hv, var) < var_key (es ! p)")
    case True
    then have *: "add_var es hv var new (VarNode l p r) = VarNode (add_var es hv var new l) p r"
      "find_var es hv var l = None"
      using VarNode.prems(2) by (simp_all add: Let_def var_cmp_sg sg_def)
    show ?thesis using VarNode True * by (auto simp: places_add_var)
  next
    case False
    then have *: "add_var es hv var new (VarNode l p r) = VarNode l p (add_var es hv var new r)"
      "find_var es hv var r = None" "var_key (es ! p) < (hv, var)"
      using VarNode.prems(2) ne by (auto simp add: Let_def var_cmp_sg sg_def split: if_splits)
    show ?thesis using VarNode * by (auto simp: places_add_var)
  qed
qed simp

lemma sorted_vars_cong:
  assumes "\<And>i. i \<in> places t \<Longrightarrow> var_key (es ! i) = var_key (es' ! i)"
  shows "sorted_vars es t = sorted_vars es' t"
  using assms by (induction t) auto

lemma add_var_cong:
  assumes "\<And>i. i \<in> places t \<Longrightarrow> var_key (es ! i) = var_key (es' ! i)"
  shows "add_var es hv var new t = add_var es' hv var new t"
  using assms by (induction t) (auto simp: Let_def var_cmp_sg)

lemma find_var_cong:
  assumes "\<And>i. i \<in> places t \<Longrightarrow> var_key (es ! i) = var_key (es' ! i)"
  shows "find_var es hv var t = find_var es' hv var t"
  using assms by (induction t) (auto simp: Let_def var_cmp_sg)

section \<open>Looking a variable up\<close>

text \<open>The entries as names with the number of times they were read, and how a name changes them.\<close>

definition entries :: "var_table \<Rightarrow> (string \<times> nat) list" where
  "entries vt = map (\<lambda>p. (VarRep p, VarRefs p)) (VarList vt)"

definition enter_name :: "string \<Rightarrow> (string \<times> nat) list \<Rightarrow> (string \<times> nat) list" where
  "enter_name n es =
    (if n = ''_'' then es @ [(n, 0)]
     else if n \<in> fst ` set es then map (\<lambda>(m, k). if m = n then (m, k + 1) else (m, k)) es
     else es @ [(n, 1)])"

lemma find_var_place:
  assumes "vars_ok vt" and "n \<noteq> ''_''"
  shows "find_var (VarList vt) (HashFunction n mod AtomHashTableSize) n (VarTable vt) = Some i
    \<longleftrightarrow> i < length (VarList vt) \<and> VarRep (VarList vt ! i) = n"
  using assms by (auto simp: vars_ok_def find_var_iff var_key_def named_def)

lemma same_name_same_place:
  assumes "vars_ok vt" and "i < length (VarList vt)" and "j < length (VarList vt)"
    and "VarRep (VarList vt ! i) = VarRep (VarList vt ! j)" and "named (VarList vt ! i)"
  shows "i = j"
proof -
  let ?n = "VarRep (VarList vt ! i)"
  have "?n \<noteq> ''_''" using assms(5) by (simp add: named_def)
  from find_var_place [OF assms(1) this, of i] find_var_place [OF assms(1) this, of j] assms(2-4)
  show ?thesis by simp
qed

lemma LookupVar_new:
  assumes "vars_ok vt" and "n = ''_'' \<or> n \<notin> VarRep ` set (VarList vt)"
  shows "fst (Yap_LookupVar n vt) = length (VarList vt) \<and> vars_ok (snd (Yap_LookupVar n vt))
    \<and> entries (snd (Yap_LookupVar n vt)) = entries vt @ [(n, if n = ''_'' then 0 else 1)]"
proof (cases "n = ''_''")
  case True
  let ?es = "VarList vt @ [\<lparr>VarRep = n, VarHash = 1, VarRefs = 0\<rparr>]"
  have "sorted_vars ?es (VarTable vt)"
    using assms(1) sorted_vars_cong [of "VarTable vt" "VarList vt" ?es] by (auto simp: vars_ok_def nth_append)
  then show ?thesis
    using assms(1) True
    by (auto simp: Yap_LookupVar_def Let_def vars_ok_def entries_def named_def nth_append less_Suc_eq)
next
  case False
  let ?hv = "HashFunction n mod AtomHashTableSize"
  let ?es = "VarList vt @ [\<lparr>VarRep = n, VarHash = ?hv, VarRefs = 1\<rparr>]"
  have none: "find_var (VarList vt) ?hv n (VarTable vt) = None"
    using find_var_place [OF assms(1) False] assms(2) False
    by (cases "find_var (VarList vt) ?hv n (VarTable vt)") (metis image_eqI nth_mem option.exhaust)+
  have same: "var_key (VarList vt ! i) = var_key (?es ! i)" if "i \<in> places (VarTable vt)" for i
    using that assms(1) by (auto simp: vars_ok_def nth_append)
  let ?t = "VarTable vt" and ?new = "length (VarList vt)"
  have "sorted_vars ?es (add_var ?es ?hv n ?new ?t)"
  proof (rule sorted_add_var)
    show "sorted_vars ?es ?t"
      using assms(1) sorted_vars_cong [of ?t "VarList vt" ?es] same by (simp add: vars_ok_def)
    show "find_var ?es ?hv n ?t = None" using find_var_cong [OF same] none by simp
    show "var_key (?es ! ?new) = (?hv, n)" by (simp add: var_key_def)
  qed
  then have "sorted_vars ?es (add_var (VarList vt) ?hv n ?new ?t)" using add_var_cong [OF same] by simp
  moreover have "places (add_var (VarList vt) ?hv n ?new ?t) = {i. i < length ?es \<and> named (?es ! i)}"
    using assms(1) False by (auto simp: places_add_var [OF none] vars_ok_def named_def nth_append less_Suc_eq)
  moreover have "\<forall>p \<in> set ?es. named p \<longrightarrow> VarHash p = HashFunction (VarRep p) mod AtomHashTableSize"
    using assms(1) by (auto simp: vars_ok_def)
  ultimately have "vars_ok (vt\<lparr>VarTable := add_var (VarList vt) ?hv n ?new ?t, VarList := ?es\<rparr>)"
    by (simp add: vars_ok_def)
  with none False show ?thesis by (simp add: Yap_LookupVar_def Let_def entries_def)
qed

lemma LookupVar_old:
  assumes "vars_ok vt" and "n \<noteq> ''_''" and "i < length (VarList vt)" and "VarRep (VarList vt ! i) = n"
  shows "fst (Yap_LookupVar n vt) = i \<and> vars_ok (snd (Yap_LookupVar n vt))
    \<and> entries (snd (Yap_LookupVar n vt)) = map (\<lambda>(m, k). if m = n then (m, k + 1) else (m, k)) (entries vt)"
proof -
  let ?es = "(VarList vt)[i := (VarList vt ! i)\<lparr>VarRefs := VarRefs (VarList vt ! i) + 1\<rparr>]"
  have "find_var (VarList vt) (HashFunction n mod AtomHashTableSize) n (VarTable vt) = Some i"
    using find_var_place [OF assms(1,2)] assms(3,4) by simp
  then have vt': "Yap_LookupVar n vt = (i, vt\<lparr>VarList := ?es\<rparr>)"
    using assms(2) by (simp add: Yap_LookupVar_def Let_def)
  have same: "var_key (VarList vt ! j) = var_key (?es ! j)" "named (?es ! j) = named (VarList vt ! j)" for j
    by (cases "j = i"; simp add: var_key_def named_def nth_list_update assms(3))+
  have "sorted_vars ?es (VarTable vt)"
    using assms(1) sorted_vars_cong [of "VarTable vt" "VarList vt" ?es] same by (simp add: vars_ok_def)
  moreover have "\<forall>p \<in> set ?es. named p \<longrightarrow> VarHash p = HashFunction (VarRep p) mod AtomHashTableSize"
    using assms(1) set_update_subset_insert [of "VarList vt" i] nth_mem [OF assms(3)]
    by (fastforce simp: vars_ok_def named_def)
  ultimately have ok: "vars_ok (vt\<lparr>VarList := ?es\<rparr>)"
    using assms(1) same(2) by (simp add: vars_ok_def)
  have only: "j = i" if "j < length (VarList vt)" "VarRep (VarList vt ! j) = n" for j
    using same_name_same_place [OF assms(1) that(1) assms(3)] that(2) assms(2,4) by (simp add: named_def)
  have "entries (vt\<lparr>VarList := ?es\<rparr>) = map (\<lambda>(m, k). if m = n then (m, k + 1) else (m, k)) (entries vt)"
  proof (rule nth_equalityI)
    fix j assume "j < length (entries (vt\<lparr>VarList := ?es\<rparr>))"
    then have "j < length (VarList vt)" by (simp add: entries_def)
    then show "entries (vt\<lparr>VarList := ?es\<rparr>) ! j =
        map (\<lambda>(m, k). if m = n then (m, k + 1) else (m, k)) (entries vt) ! j"
      using only [of j] assms(4) by (cases "j = i") (auto simp: entries_def)
  qed (simp add: entries_def)
  with ok vt' show ?thesis by simp
qed

text \<open>The table does to its entries what \<open>enter_name\<close> does, and stays as it should be.\<close>

lemma LookupVar_enters:
  assumes "vars_ok vt"
  shows "vars_ok (snd (Yap_LookupVar n vt)) \<and> entries (snd (Yap_LookupVar n vt)) = enter_name n (entries vt)"
proof (cases "n = ''_'' \<or> n \<notin> VarRep ` set (VarList vt)")
  case True
  then show ?thesis
    using LookupVar_new [OF assms True] by (auto simp: enter_name_def entries_def image_image)
next
  case False
  then obtain i where i: "i < length (VarList vt)" "VarRep (VarList vt ! i) = n" by (auto simp: in_set_conv_nth)
  have "n \<in> fst ` set (entries vt)" using False by (auto simp: entries_def image_image)
  then show ?thesis
    using LookupVar_old [OF assms _ i] False by (auto simp: enter_name_def)
qed

lemma vars_ok_no_vars: "vars_ok no_vars"
  by (simp add: vars_ok_def no_vars_def)

section \<open>Places\<close>

text \<open>The entry of a name: places of earlier entries stay.\<close>

lemma length_entries [simp]: "length (entries vt) = length (VarList vt)"
  by (simp add: entries_def)

lemma LookupVar_place:
  assumes "vars_ok vt"
  shows "fst (Yap_LookupVar n vt) < length (entries (snd (Yap_LookupVar n vt)))
    \<and> fst (entries (snd (Yap_LookupVar n vt)) ! fst (Yap_LookupVar n vt)) = n
    \<and> (\<exists>ms. map fst (entries (snd (Yap_LookupVar n vt))) = map fst (entries vt) @ ms)"
proof (cases "n = ''_'' \<or> n \<notin> VarRep ` set (VarList vt)")
  case True
  note new = LookupVar_new [OF assms True]
  then show ?thesis
    by (auto simp flip: length_entries simp: nth_append)
next
  case False
  then obtain i where i: "i < length (VarList vt)" "VarRep (VarList vt ! i) = n" by (auto simp: in_set_conv_nth)
  note old = LookupVar_old [OF assms _ i]
  have e: "fst (entries vt ! i) = n" "i < length (entries vt)" using i by (simp_all add: entries_def)
  have m: "map fst (map (\<lambda>(m, k). if m = n then (m, k + 1) else (m, k)) es) = map fst es"
    for es :: "(string \<times> nat) list" by (induction es) auto
  have l: "length (entries (snd (Yap_LookupVar n vt))) = length (entries vt)" using old False by simp
  show ?thesis
  proof (intro conjI)
    show "\<exists>ms. map fst (entries (snd (Yap_LookupVar n vt))) = map fst (entries vt) @ ms"
    proof (intro exI [of _ "[]"])
      have "entries (snd (Yap_LookupVar n vt)) = map (\<lambda>(m, k). if m = n then (m, k + 1) else (m, k)) (entries vt)"
        using old False by blast
      then show "map fst (entries (snd (Yap_LookupVar n vt))) = map fst (entries vt) @ []" by (simp only: m append_Nil2)
    qed
    show "fst (Yap_LookupVar n vt) < length (entries (snd (Yap_LookupVar n vt)))" using old False l e(2) by simp
    show "fst (entries (snd (Yap_LookupVar n vt)) ! fst (Yap_LookupVar n vt)) = n"
      using old False e by (simp add: split_def del: length_entries)
  qed
qed

definition look_up_all :: "string list \<Rightarrow> var_table \<Rightarrow> var_table" where
  "look_up_all ns vt = fold (\<lambda>n vt. snd (Yap_LookupVar n vt)) ns vt"

lemma look_up_all_simps [simp]:
  "look_up_all [] vt = vt" "look_up_all (n # ns) vt = look_up_all ns (snd (Yap_LookupVar n vt))"
  by (simp_all add: look_up_all_def)

lemma look_up_all_names:
  "vars_ok vt \<Longrightarrow> \<exists>ms. map fst (entries (look_up_all ns vt)) = map fst (entries vt) @ ms"
proof (induction ns arbitrary: vt)
  case (Cons n ns)
  then show ?case
    using Cons.IH [of "snd (Yap_LookupVar n vt)"] LookupVar_enters [OF Cons.prems, of n]
      LookupVar_place [OF Cons.prems, of n] by auto
qed simp

lemma look_up_all_ok: "vars_ok vt \<Longrightarrow> vars_ok (look_up_all ns vt)"
  by (induction ns arbitrary: vt) (simp_all add: LookupVar_enters)

lemma LookupVar_at:
  assumes "vars_ok vt" and "n \<noteq> ''_''" and "i < length (entries vt)" and "fst (entries vt ! i) = n"
  shows "fst (Yap_LookupVar n vt) = i"
  using LookupVar_old [OF assms(1,2), of i] assms(3,4) by (simp add: entries_def)

lemma place_stays:
  assumes "vars_ok vt" and "n \<noteq> ''_''"
  shows "fst (Yap_LookupVar n (look_up_all ns (snd (Yap_LookupVar n vt)))) = fst (Yap_LookupVar n vt)"
proof -
  let ?v = "snd (Yap_LookupVar n vt)" and ?i = "fst (Yap_LookupVar n vt)"
  have ok: "vars_ok ?v" using LookupVar_enters [OF assms(1)] by simp
  note p = LookupVar_place [OF assms(1), of n]
  obtain ms where ms: "map fst (entries (look_up_all ns ?v)) = map fst (entries ?v) @ ms"
    using look_up_all_names [OF ok] by blast
  have i: "?i < length (map fst (entries ?v))" using p by simp
  then have l: "?i < length (entries (look_up_all ns ?v))" using ms by (metis length_append length_map trans_less_add1)
  have "fst (entries (look_up_all ns ?v) ! ?i) = map fst (entries (look_up_all ns ?v)) ! ?i" using l by simp
  also have "\<dots> = fst (entries ?v ! ?i)" using ms i by (simp add: nth_append)
  also have "\<dots> = n" using p by simp
  finally show ?thesis by (intro LookupVar_at look_up_all_ok ok assms(2) l)
qed

text \<open>Different names have different places.\<close>

lemma places_differ:
  assumes "vars_ok vt" and "m \<noteq> n" and "m \<in> fst ` set (entries vt)" and "n \<in> fst ` set (entries vt)" and "m \<noteq> ''_''" "n \<noteq> ''_''"
  shows "fst (Yap_LookupVar m vt) \<noteq> fst (Yap_LookupVar n vt)"
proof -
  have "\<exists>i < length (entries vt). fst (entries vt ! i) = k \<and> fst (Yap_LookupVar k vt) = i"
    if k: "k \<in> fst ` set (entries vt)" "k \<noteq> ''_''" for k
  proof -
    obtain e where "e \<in> set (entries vt)" "fst e = k" using k(1) by blast
    then obtain i where i: "i < length (entries vt)" "fst (entries vt ! i) = k" by (metis in_set_conv_nth)
    with LookupVar_at [OF assms(1) k(2) i] show ?thesis by blast
  qed
  from this [OF assms(3,5)] this [OF assms(4,6)] assms(2) show ?thesis by auto
qed

lemma names_entered: "vars_ok vt \<Longrightarrow> n \<in> set ns \<Longrightarrow> n \<in> fst ` set (entries (look_up_all ns vt))"
proof (induction ns arbitrary: vt)
  case (Cons m ns)
  have ok: "vars_ok (snd (Yap_LookupVar m vt))" using LookupVar_enters [OF Cons.prems(1)] by simp
  show ?case
  proof (cases "n = m")
    case True
    let ?v = "snd (Yap_LookupVar m vt)"
    obtain ms where ms: "map fst (entries (look_up_all ns ?v)) = map fst (entries ?v) @ ms"
      using look_up_all_names [OF ok] by blast
    have "n \<in> set (map fst (entries ?v))"
      using LookupVar_place [OF Cons.prems(1), of m] True by (metis length_map nth_map nth_mem)
    then have "n \<in> set (map fst (entries (look_up_all ns ?v)))" by (simp add: ms)
    then show ?thesis by simp
  next
    case False
    then show ?thesis using Cons.IH [OF ok] Cons.prems(2) by simp
  qed
qed simp

section \<open>Reading many variables\<close>

definition read_vars :: "string list \<Rightarrow> var_table" where
  "read_vars ns = fold (\<lambda>n vt. snd (Yap_LookupVar n vt)) ns no_vars"

lemma read_vars_snoc: "read_vars (ns @ [n]) = snd (Yap_LookupVar n (read_vars ns))"
  by (simp add: read_vars_def)

lemma read_vars_ok: "vars_ok (read_vars ns)"
  by (induction ns rule: rev_induct) (simp_all add: read_vars_snoc LookupVar_enters, simp add: read_vars_def vars_ok_no_vars)

text \<open>The names in the order in which they first occur.\<close>

definition first_occurrences :: "'a list \<Rightarrow> 'a list" where
  "first_occurrences xs = rev (remdups (rev xs))"

lemma first_occurrences_snoc:
  "first_occurrences (xs @ [x]) = (if x \<in> set xs then first_occurrences xs else first_occurrences xs @ [x])"
  by (simp add: first_occurrences_def)

lemma set_first_occurrences [simp]: "set (first_occurrences xs) = set xs"
  by (simp add: first_occurrences_def)

lemma entries_read_vars:
  "filter (\<lambda>e. fst e \<noteq> ''_'') (entries (read_vars ns)) =
    map (\<lambda>n. (n, count_list ns n)) (first_occurrences (filter (\<lambda>n. n \<noteq> ''_'') ns))"
proof (induction ns rule: rev_induct)
  case Nil
  then show ?case by (simp add: read_vars_def no_vars_def entries_def first_occurrences_def)
next
  case (snoc n ns)
  let ?es = "entries (read_vars ns)"
  have es: "entries (read_vars (ns @ [n])) = enter_name n ?es"
    using LookupVar_enters [OF read_vars_ok] by (simp add: read_vars_snoc)
  show ?case
  proof (cases "n = ''_''")
    case True
    have "filter (\<lambda>e. fst e \<noteq> ''_'') (enter_name n ?es) = filter (\<lambda>e. fst e \<noteq> ''_'') ?es"
      using True by (simp add: enter_name_def)
    also note snoc
    finally show ?thesis unfolding es using True by (auto intro!: map_cong)
  next
    case False
    have mem: "n \<in> fst ` set ?es \<longleftrightarrow> n \<in> set ns"
    proof -
      have "n \<in> fst ` set ?es \<longleftrightarrow> n \<in> fst ` set (filter (\<lambda>e. fst e \<noteq> ''_'') ?es)" using False by auto
      then show ?thesis unfolding snoc using False by (auto simp: image_image)
    qed
    show ?thesis
    proof (cases "n \<in> set ns")
      case True
      have "filter (\<lambda>e. fst e \<noteq> ''_'') (map (\<lambda>(m, k). if m = n then (m, k + 1) else (m, k)) es) =
          map (\<lambda>(m, k). if m = n then (m, k + 1) else (m, k)) (filter (\<lambda>e. fst e \<noteq> ''_'') es)"
        for es :: "(string \<times> nat) list"
        by (induction es) (auto split: if_splits)
      then show ?thesis
        using True False mem by (simp add: es enter_name_def snoc first_occurrences_snoc)
    next
      case notin: False
      then show ?thesis
        using False mem snoc by (auto simp: es enter_name_def first_occurrences_snoc intro!: map_cong)
    qed
  qed
qed

end
