(* ===== verification/YapScanner.thy ===== *)
theory YapScanner
  imports YapChars YapParser YapVars
begin

text \<open>
  The tokenizer (C/scanner.c): from the characters of a stream to the tokens of a clause. The input is the
  current character followed by the rest, and empty at the end of the file. Comments and positions leave
  no trace in the tokens; quasi quotations are left out. Characters are those of the table, below 256.
\<close>

section \<open>Characters\<close>

text \<open>The code of the current character, \<open>EOFCHAR\<close> being \<open>-1\<close>, and its kind.\<close>

definition ch_code :: "string \<Rightarrow> int" where
  "ch_code s = (case s of [] \<Rightarrow> - 1 | c # _ \<Rightarrow> int (of_char c))"

definition ch_kind :: "string \<Rightarrow> char_kind" where
  "ch_kind s = (case s of [] \<Rightarrow> EF | c # _ \<Rightarrow> chtype c)"

definition ch_is :: "char \<Rightarrow> string \<Rightarrow> bool" where
  "ch_is c s \<longleftrightarrow> take 1 s = [c]"

text \<open>The encoding of a code, as utf8proc does it; \<open>None\<close>: it is none, and a byte of the buffer is left as it was.\<close>

definition put_utf8 :: "int \<Rightarrow> string option" where
  "put_utf8 uc =
    (let byte = (\<lambda>n. char_of (nat n)) in
     if uc < 0 then None
     else if uc < 0x80 then Some [byte uc]
     else if uc < 0x800 then Some [byte (0xC0 + uc div 64), byte (0x80 + uc mod 64)]
     else if uc < 0x10000 then Some [byte (0xE0 + uc div 4096), byte (0x80 + uc div 64 mod 64), byte (0x80 + uc mod 64)]
     else if uc < 0x110000 then Some [byte (0xF0 + uc div 262144), byte (0x80 + uc div 4096 mod 64),
       byte (0x80 + uc div 64 mod 64), byte (0x80 + uc mod 64)]
     else None)"

definition is_digit :: "int \<Rightarrow> bool" where
  "is_digit ch \<longleftrightarrow> 48 \<le> ch \<and> ch \<le> 57"

text \<open>\<open>my_isxdigit(C, SU, SL)\<close>: letters from A to \<open>SU\<close> and from a to \<open>SL\<close>; and the value of such a digit.\<close>

definition my_isxdigit :: "int \<Rightarrow> int \<Rightarrow> int \<Rightarrow> bool" where
  "my_isxdigit ch su sl \<longleftrightarrow> is_digit ch \<or> 65 \<le> ch \<and> ch \<le> su \<or> 97 \<le> ch \<and> ch \<le> sl"

definition digit_value :: "int \<Rightarrow> int" where
  "digit_value ch = (if is_digit ch then ch - 48 else if 65 \<le> ch \<and> ch \<le> 90 then ch - 65 + 10 else ch - 97 + 10)"

section \<open>Escapes in quoted text\<close>

text \<open>What is read: the code (0 for nothing), the error message if one is set, and the input behind it.\<close>

type_synonym escaped = "int \<times> string option \<times> string"

definition bad_escape :: "string \<Rightarrow> string \<Rightarrow> escaped" where
  "bad_escape msg s = (0, Some msg, s)"

text \<open>\<open>n\<close> hexadecimal digits of \<open>\u\<close> and \<open>\U\<close>; a \<open>wchar_t\<close> has 32 bits.\<close>

fun unicode_escape :: "nat \<Rightarrow> 32 word \<Rightarrow> string \<Rightarrow> escaped" where
  "unicode_escape 0 wc s = (sint wc, None, s)"
| "unicode_escape (Suc i) wc s =
    (let ch = ch_code s in
     if is_digit ch \<or> 97 \<le> ch \<and> ch \<le> 102 \<or> 65 \<le> ch \<and> ch \<le> 70
     then unicode_escape i (wc + push_bit (i * 4) (word_of_int (digit_value ch))) (tl s)
     else bad_escape ''invalid escape sequence'' (tl s))"

definition is_octal :: "int \<Rightarrow> bool" where
  "is_octal ch \<longleftrightarrow> 48 \<le> ch \<and> ch < 56"

text \<open>At most three digits, in an \<open>unsigned char\<close>, up to a backslash.\<close>

definition octal_chars :: "int \<Rightarrow> string \<Rightarrow> escaped" where
  "octal_chars d s =
    (let bad = bad_escape ''invalid octal escape sequence''; ch = ch_code s in
     if is_octal ch then
       let d = (d * 8 + (ch - 48)) mod 256; s = tl s; ch = ch_code s in
       if is_octal ch then
         let d = (d * 8 + (ch - 48)) mod 256; s = tl s in
         if ch_is (CHR 0x5C) s then (d, None, tl s) else bad (tl s)
       else if ch_is (CHR 0x5C) s then (d, None, tl s) else bad (tl s)
     else if ch_is (CHR 0x5C) s then (d, None, tl s) else bad (tl s))"

text \<open>
  The bounds of the digits are given in the wrong order: every character from A to f counts, the
  backslash among them.
\<close>

definition hexa_chars :: "string \<Rightarrow> escaped" where
  "hexa_chars s =
    (let bad = bad_escape ''invalid hexadecimal escape sequence''; ch = ch_code s in
     if my_isxdigit ch 102 70 then
       let d = digit_value ch mod 256; s = tl s; ch = ch_code s in
       if my_isxdigit ch 102 70 then
         let d = (d * 16 + digit_value ch) mod 256; s = tl s in
         if ch_is (CHR 0x5C) s then (d, None, tl s) else bad (tl s)
       else if ch_is (CHR 0x5C) s then (d, None, tl s) else bad (tl s)
     else if ch_is (CHR 0x5C) s then (0, None, tl s) else bad (tl s))"

definition caret_escape :: "bool \<Rightarrow> string \<Rightarrow> escaped" where
  "caret_escape iso_mode s =
    (if iso_mode then bad_escape ''invalid escape sequence'' s
     else let ch = ch_code s in
       (if ch = 63 then 127 else if 97 \<le> ch \<and> ch < 122 then ch - 97
        else if 65 \<le> ch \<and> ch < 90 then ch - 65 else 94, None, tl s))"

text \<open>The input starts behind the backslash.\<close>

function read_quoted_char :: "bool \<Rightarrow> string \<Rightarrow> escaped" where
  "read_quoted_char iso_mode s = (case s of
      [] \<Rightarrow> bad_escape ''invalid escape sequence'' []
    | c # s \<Rightarrow>
        if c = CHR 0x0A then (0, None, s)
        else if c = CHR 0x5C then (0x5C, None, s)
        else if c = CHR ''a'' then (7, None, s)
        else if c = CHR ''b'' then (8, None, s)
        else if c = CHR ''c'' then
          let s = dropWhile (\<lambda>c. chtype c = BS) s in
          if ch_is (CHR 0x5C) s then read_quoted_char iso_mode (tl s) else (ch_code s, None, tl s)
        else if c = CHR ''d'' then (127, None, s)
        else if c = CHR ''e'' then (0x1B, None, s)
        else if c = CHR ''f'' then (12, None, s)
        else if c = CHR ''n'' then (10, None, s)
        else if c = CHR ''r'' then (13, None, s)
        else if c = CHR ''s'' then (32, None, s)
        else if c = CHR ''t'' then (9, None, s)
        else if c = CHR ''u'' then unicode_escape 4 0 s
        else if c = CHR ''U'' then unicode_escape 8 0 s
        else if c = CHR ''v'' then (11, None, s)
        else if c = CHR ''z'' then bad_escape (''invalid escape sequence '' @ [CHR 0x5C, CHR ''z'']) s
        else if c = CHR 0x27 \<or> c = CHR 0x22 \<or> c = CHR 0x60 then (int (of_char c), None, s)
        else if c = CHR ''^'' then caret_escape iso_mode s
        else if is_octal (int (of_char c)) then octal_chars (int (of_char c) - 48) s
        else if c = CHR ''x'' then hexa_chars s
        else bad_escape ''invalid escape sequence'' s)"
  by pat_completeness auto

termination
proof (relation "measure (\<lambda>(iso_mode, s). length s)")
  fix iso_mode :: bool and s c r x
  assume "s = c # r" and "x = dropWhile (\<lambda>c. chtype c = BS) r"
  then show "((iso_mode, tl x), (iso_mode, s)) \<in> measure (\<lambda>(iso_mode, s). length s)"
    using length_dropWhile_le [of "\<lambda>c. chtype c = BS" r] by (cases x) auto
qed simp

declare read_quoted_char.simps [simp del]

section \<open>Numbers\<close>

text \<open>What the scanner takes from its parameters, from flags and from outside.\<close>

record 'f scanner =
  iso_flag :: bool
  multiline_quoted :: bool
  char_escapes :: bool
  ce_param :: bool
  vn_asfl :: bool
  vprefix :: bool
  new_var :: "nat \<Rightarrow> cell"
  TDQ :: "string \<Rightarrow> 'f trm"
  TBQ :: "string \<Rightarrow> 'f trm"
  atof :: "string \<Rightarrow> 'f"

text \<open>
  A number read: its term, an error message, the character \<open>chbuff\<close> that was read too much, and the input
  that the caller goes on with. When the code returns without setting \<open>*chp\<close>, this begins with the first
  digit again, and the current character is lost.
\<close>

datatype 'f number =
    Number "'f trm" "string option" bool string
  | Syntax_thrown
  | Undefined_number

definition read_int_overflow :: "'f env \<Rightarrow> string \<Rightarrow> nat \<Rightarrow> bool \<Rightarrow> 'f trm" where
  "read_int_overflow E s base neg =
    Yap_MkBigIntTerm E (let new = mpz_set_str E s base in if neg then mpz_neg E new else new)"

text \<open>The term of a double, and the error message that the ISO flag sets for one that is not finite.\<close>

definition float_send :: "'f env \<Rightarrow> 'f scanner \<Rightarrow> string \<Rightarrow> bool \<Rightarrow> 'f trm \<times> string option" where
  "float_send E S s neg =
    (let f = (if neg then f_neg E (atof S s) else atof S s)
     in (FltT f, if iso_flag S \<and> (f_isnan E f \<or> f_isinf E f) then Some ''Float overflow while scanning'' else None))"

definition signed_int :: "bool \<Rightarrow> cint \<Rightarrow> 'f trm" where
  "signed_int neg val = MkIntegerTerm (if neg then - val else val)"

text \<open>Digits beyond 9: the text, the value, the overflow so far, and the rest of the input.\<close>

fun xdigits :: "int \<Rightarrow> int \<Rightarrow> cint \<Rightarrow> string \<Rightarrow> cint \<Rightarrow> bool \<Rightarrow> string \<Rightarrow> string \<times> cint \<times> bool \<times> string" where
  "xdigits su sl base buf val ov [] = (buf, val, ov, [])"
| "xdigits su sl base buf val ov (c # s) =
    (if my_isxdigit (int (of_char c)) su sl then
       let chval = word_of_int (digit_value (int (of_char c))); val' = val * base + chval
       in xdigits su sl base (buf @ [c]) val' (ov \<or> val \<noteq> c_div (val' - chval) base) s
     else (buf, val, ov, c # s))"

text \<open>Decimal digits; the last component tells that a digit too large for the base ended the loop.\<close>

fun digits :: "int \<Rightarrow> string \<Rightarrow> cint \<Rightarrow> bool \<Rightarrow> string \<Rightarrow> (string \<times> cint \<times> bool \<times> string) \<times> bool" where
  "digits base buf val ov [] = ((buf, val, ov, []), False)"
| "digits base buf val ov (c # s) =
    (if chtype c = NU then
       let d = int (of_char c) - 48; buf = (if \<not> (val = 0 \<and> c = CHR ''0'') \<or> ov then buf @ [c] else buf) in
       if base \<le> d then ((buf, val, ov, c # s), True)
       else if c_less (c_div Int_MAX 10 - word_of_int d) val then digits base buf val True s
       else digits base buf (val * word_of_int base + word_of_int d) ov s
     else ((buf, val, ov, c # s), False))"

definition span_digits :: "string \<Rightarrow> string \<times> string" where
  "span_digits s = (takeWhile (\<lambda>c. chtype c = NU) s, dropWhile (\<lambda>c. chtype c = NU) s)"

text \<open>
  The buffer has \<open>imgsz\<close> bytes and is not enlarged: \<open>number_overflow\<close> asks for
  the size it has, and the code goes on to write beyond its end. \<open>n\<close> is the number of bytes written,
  with the terminator where the branch at hand writes one.
\<close>

definition in_buffer :: "nat \<Rightarrow> nat \<Rightarrow> 'f number \<Rightarrow> 'f number" where
  "in_buffer imgsz n r = (if imgsz < n then Undefined_number else r)"

definition float_number :: "'f env \<Rightarrow> 'f scanner \<Rightarrow> bool \<Rightarrow> nat \<Rightarrow> string \<Rightarrow> string \<Rightarrow> 'f number" where
  "float_number E S neg imgsz buf s =
    (let (t, err) = float_send E S buf neg in in_buffer imgsz (length buf + 1) (Number t err False s))"

text \<open>The exponent, from the letter on; \<open>again\<close> is the input when \<open>*chp\<close> is left alone.\<close>

definition exponent :: "'f env \<Rightarrow> 'f scanner \<Rightarrow> bool \<Rightarrow> nat \<Rightarrow> bool \<Rightarrow> cint \<Rightarrow> (string \<Rightarrow> string) \<Rightarrow> string \<Rightarrow> string \<Rightarrow> 'f number" where
  "exponent E S neg imgsz has_dot val again buf s =
    (if ch_is (CHR ''e'') s \<or> ch_is (CHR ''E'') s then
       let buf = buf @ [hd s]; s = tl s;
           (buf, s) = (if ch_is (CHR ''-'') s then (buf @ ''-'', tl s) else if ch_is (CHR ''+'') s then (buf, tl s) else (buf, s))
       in if ch_kind s \<noteq> NU then
            (if has_dot then Undefined_number
             else in_buffer imgsz (length buf) (Number (signed_int neg val) None False (again s)))
          else let (ds, s) = span_digits s in float_number E S neg imgsz (buf @ ds) s
     else float_number E S neg imgsz buf s)"

definition after_digits :: "'f env \<Rightarrow> 'f scanner \<Rightarrow> bool \<Rightarrow> nat \<Rightarrow> nat \<Rightarrow> bool \<Rightarrow> (string \<Rightarrow> string)
    \<Rightarrow> string \<times> cint \<times> bool \<times> string \<Rightarrow> 'f number" where
  "after_digits E S neg imgsz base might_be_float again = (\<lambda>(buf, val, ov, s).
    let int_of = (\<lambda>buf base. if ov then read_int_overflow E buf base neg else signed_int neg val) in
    if might_be_float \<and> ch_is (CHR ''.'') s then
      (if ch_kind (tl s) \<noteq> NU then
         if ch_is (CHR ''e'') (tl s) \<or> ch_is (CHR ''E'') (tl s) then
           (if iso_flag S then in_buffer imgsz (length buf) (Number (StrT ''Float format not allowed in ISO mode'')
              (Some ''Float format not allowed in ISO mode'') False (again (tl s)))
            else exponent E S neg imgsz True val again (buf @ ''.'') (tl s))
         else in_buffer imgsz (length buf + 1) (Number (int_of buf base) None True (tl s))
       else let (ds, s) = span_digits (tl s) in exponent E S neg imgsz True val again (buf @ ''.'' @ ds) s)
    else if might_be_float \<and> (ch_is (CHR ''e'') s \<or> ch_is (CHR ''E'') s) then
      exponent E S neg imgsz False val again buf s
    else in_buffer imgsz (if ov then length buf + 1 else length buf) (Number
      (if take 2 buf = ''0x'' then int_of (drop 2 buf) 16
       else if take 2 buf = ''0o'' then int_of (drop 2 buf) 8
       else if take 2 buf = ''0b'' then int_of (drop 2 buf) 2
       else if take 1 (drop 1 buf) = [CHR 0x27] then int_of (drop 2 buf) base
       else if take 1 (drop 2 buf) = [CHR 0x27] then int_of (drop 3 buf) base
       else int_of buf base) None False s))"

definition decimal :: "'f env \<Rightarrow> 'f scanner \<Rightarrow> bool \<Rightarrow> nat \<Rightarrow> nat \<Rightarrow> bool \<Rightarrow> (string \<Rightarrow> string)
    \<Rightarrow> string \<Rightarrow> cint \<Rightarrow> bool \<Rightarrow> string \<Rightarrow> 'f number" where
  "decimal E S neg imgsz base might_be_float again buf val ov s =
    (let (r, too_large) = digits (int base) buf val ov s in
     if too_large
     then in_buffer imgsz (length (fst r)) (Number (signed_int neg (fst (snd r))) None False (again (snd (snd (snd r)))))
     else after_digits E S neg imgsz base might_be_float again r)"

definition quoted_char :: "'f scanner \<Rightarrow> bool \<Rightarrow> string \<Rightarrow> 'f number" where
  "quoted_char S neg s =
    (let (ascii, err, s) = (if ch_is (CHR 0x5C) s \<and> char_escapes S then read_quoted_char (iso_flag S) (tl s)
       else (ch_code s, None, tl s))
     in Number (signed_int neg (word_of_int ascii)) err False s)"

text \<open>The input starts with a digit.\<close>

definition get_num :: "'f env \<Rightarrow> 'f scanner \<Rightarrow> bool \<Rightarrow> nat \<Rightarrow> string \<Rightarrow> 'f number" where
  "get_num E S neg imgsz inp =
    (let c = hd inp; s = tl inp; again = (\<lambda>s. c # tl s); base = of_char c - 48;
         (buf, base, s) = (if ch_kind s = NU then ([c, hd s], 10 * base + (of_char (hd s) - 48), tl s) else ([c], base, s))
     in
     if ch_is (CHR 0x27) s then
       if 36 < base then Syntax_thrown
       else if base = 0 then quoted_char S neg (tl s)
       else if 10 \<le> base then
         let (buf, val, ov, s) = xdigits (int base + 54) (int base + 86) (of_nat base) (buf @ [CHR 0x27]) 0 False (tl s)
         in decimal E S neg imgsz base False again buf val ov s
       else decimal E S neg imgsz base False again (buf @ [CHR 0x27]) 0 False (tl s)
     else if ch_is (CHR ''x'') s \<and> base = 0 then
       if \<not> my_isxdigit (ch_code (tl s)) 70 102 then Syntax_thrown
       else let (buf, val, ov, s) = xdigits 70 102 16 (buf @ ''x'') 0 False (tl s)
         in decimal E S neg imgsz base False again buf val ov s
     else if ch_is (CHR ''o'') s \<and> base = 0 then
       if ch_code (tl s) < 48 \<or> 55 < ch_code (tl s) then Syntax_thrown
       else decimal E S neg imgsz 8 False again buf 0 False (tl s)
     else if ch_is (CHR ''b'') s \<and> base = 0 then
       if ch_code (tl s) < 48 \<or> 49 < ch_code (tl s) then Syntax_thrown
       else decimal E S neg imgsz 2 False again buf 0 False (tl s)
     else decimal E S neg imgsz 10 True again buf (of_nat base) False s)"

text \<open>
  A number alone in a stream, as for converting text; \<open>None\<close> is the null term. The character that
  ended the number is skipped before the rest is looked at.
\<close>

definition isspace :: "char \<Rightarrow> bool" where
  "isspace c \<longleftrightarrow> c = CHR 0x20 \<or> 9 \<le> (of_char c :: nat) \<and> (of_char c :: nat) \<le> 13"

definition Yap_scan_num :: "'f env \<Rightarrow> 'f scanner \<Rightarrow> string \<Rightarrow> 'f number option" where
  "Yap_scan_num E S inp =
    (let s = dropWhile isspace inp;
         (neg, s) = (if ch_is (CHR ''-'') s then (True, tl s) else if ch_is (CHR ''+'') s then (False, tl s) else (False, s));
         out = (if ch_kind s = NU then Some (get_num E S neg 1024 s) else None)
     in case out of
        None \<Rightarrow> None
      | Some (Number t err dot s) \<Rightarrow> if dropWhile isspace (tl s) = [] then out else None
      | Some _ \<Rightarrow> out)"

section \<open>Blanks and comments\<close>

text \<open>The input behind the end of a block comment; \<open>och\<close> is the character before the current one.\<close>

fun block_comment :: "char \<Rightarrow> string \<Rightarrow> string" where
  "block_comment och [] = []"
| "block_comment och (c # s) = (if och = CHR ''*'' \<and> c = CHR ''/'' then s else block_comment c s)"

lemma block_comment_length: "length (block_comment och s) \<le> length s"
  by (induction s arbitrary: och) (auto simp: le_SucI)

function skip_layout :: "string \<Rightarrow> string" where
  "skip_layout s = (case dropWhile (\<lambda>c. chtype c = BS) s of
      [] \<Rightarrow> []
    | c # r \<Rightarrow>
        if chtype c = CC then skip_layout (dropWhile (\<lambda>c. c \<noteq> CHR 0x0A) r)
        else if c = CHR ''/'' \<and> ch_is (CHR ''*'') r then skip_layout (block_comment c r)
        else c # r)"
  by pat_completeness auto

termination
proof (relation "measure length")
  fix s c r assume *: "dropWhile (\<lambda>c. chtype c = BS) s = c # r"
  then have "length r < length s" using length_dropWhile_le [of "\<lambda>c. chtype c = BS" s] by simp
  then show "(dropWhile (\<lambda>c. c \<noteq> CHR 0x0A) r, s) \<in> measure length"
    and "(block_comment c r, s) \<in> measure length"
    using length_dropWhile_le [of "\<lambda>c. c \<noteq> CHR 0x0A" r] block_comment_length [of c r]
    by (simp_all add: le_less_trans)
qed simp

declare skip_layout.simps [simp del]

section \<open>Quoted text\<close>

text \<open>
  The text read, the size of the buffer, the error message and the input behind it. When the buffer is
  full the code enlarges it and leaves the loop: the text ends there.
\<close>

record quoted_text =
  q_buf :: string
  q_imgsz :: nat
  q_err :: "string option"
  q_inp :: string

definition grow :: "nat \<Rightarrow> nat" where
  "grow imgsz = min (imgsz * 2) (imgsz + 1048576)"

fun later :: "string option \<Rightarrow> string option \<Rightarrow> string option" where
  "later err None = err"
| "later err (Some e) = Some e"

lemma unicode_escape_length: "length (snd (snd (unicode_escape i wc s))) \<le> length s"
proof (induction i wc s rule: unicode_escape.induct)
  case (2 i wc s)
  then show ?case
    by (auto simp: Let_def bad_escape_def intro: order_trans)
qed simp

lemma escape_lengths:
  "length (snd (snd (octal_chars d s))) \<le> length s"
  "length (snd (snd (hexa_chars s))) \<le> length s"
  "length (snd (snd (caret_escape b s))) \<le> length s"
  by (auto simp: octal_chars_def hexa_chars_def caret_escape_def bad_escape_def Let_def)

lemma read_quoted_char_length: "length (snd (snd (read_quoted_char b s))) \<le> length s"
proof (induction b s rule: read_quoted_char.induct)
  case (1 b s)
  show ?case
  proof (cases s)
    case Nil
    then show ?thesis by (simp add: read_quoted_char.simps bad_escape_def)
  next
    case (Cons c r)
    let ?r = "dropWhile (\<lambda>c. chtype c = BS) r"
    have d: "length ?r \<le> length r" by (rule length_dropWhile_le)
    show ?thesis
    proof (cases "c = CHR ''c'' \<and> ch_is (CHR 0x5C) ?r")
      case True
      then have eq: "read_quoted_char b s = read_quoted_char b (tl ?r)"
        by (simp add: Cons read_quoted_char.simps [of b "CHR ''c'' # r"])
      have "length (snd (snd (read_quoted_char b (tl ?r)))) \<le> length (tl ?r)"
        by (rule "1.IH" [OF Cons]) (use True in simp_all)
      with eq d show ?thesis by (simp add: Cons)
    next
      case False
      then show ?thesis
        using d le_SucI [OF unicode_escape_length] le_SucI [OF escape_lengths(1)] le_SucI [OF escape_lengths(2)]
          le_SucI [OF escape_lengths(3)]
        by (auto simp: Cons read_quoted_char.simps [of b "c # r"] bad_escape_def Let_def le_SucI)
    qed
  qed
qed

lemma read_quoted_char_shorter:
  "(ch, y) = read_quoted_char b s \<Longrightarrow> (e, s') = y \<Longrightarrow> length s' < Suc (length s)"
  using read_quoted_char_length [of b s] by (cases "read_quoted_char b s") auto

function read_quoted :: "'f scanner \<Rightarrow> char \<Rightarrow> nat \<Rightarrow> string \<Rightarrow> string option \<Rightarrow> string \<Rightarrow> quoted_text option" where
  "read_quoted S quote imgsz buf err s =
    (if imgsz \<le> length buf then Some \<lparr>q_buf = buf, q_imgsz = grow imgsz, q_err = err, q_inp = s\<rparr>
     else if ch_is (CHR 0x0A) s \<and> (iso_flag S \<or> \<not> multiline_quoted S) then
       Some \<lparr>q_buf = buf, q_imgsz = imgsz, q_err = Some (''layout character '' @ [CHR 0x0A] @ '' inside quotes''), q_inp = s\<rparr>
     else case s of
        [] \<Rightarrow> Some \<lparr>q_buf = buf, q_imgsz = imgsz, q_err = err, q_inp = []\<rparr>
      | c # r \<Rightarrow>
          if c = quote then
            if ch_is quote r then
              (case put_utf8 (int (of_char quote)) of None \<Rightarrow> None
               | Some bs \<Rightarrow> read_quoted S quote imgsz (buf @ bs) err (tl r))
            else Some \<lparr>q_buf = buf, q_imgsz = imgsz, q_err = err, q_inp = r\<rparr>
          else if c = CHR 0x5C \<and> char_escapes S then
            (case read_quoted_char (iso_flag S) r of (ch, e, r') \<Rightarrow>
               if ch = 0 then read_quoted S quote imgsz buf (later err e) r'
               else (case put_utf8 ch of None \<Rightarrow> None
                 | Some bs \<Rightarrow> read_quoted S quote imgsz (buf @ bs) (later err e) r'))
          else (case put_utf8 (int (of_char c)) of None \<Rightarrow> None
            | Some bs \<Rightarrow> read_quoted S quote imgsz (buf @ bs) err r))"
  by pat_completeness auto

termination
  by (relation "measure (\<lambda>(S, quote, imgsz, buf, err, s). length s)")
    (auto dest!: read_quoted_char_shorter)

declare read_quoted.simps [simp del]

section \<open>Tokens\<close>

record lexer =
  inp :: string
  solo_flag :: bool
  imgsz :: nat
  vars :: var_table

text \<open>
  The tokens of one round of the loop, the last ones, an error thrown, memory corrupted, or a quasi
  quotation, which is not followed.
\<close>

datatype 'f lexed =
    Tokens "'f tokens" lexer
  | End "'f tokens"
  | Lex_thrown
  | Lex_undefined
  | Quasi_quotation

definition utf8_text :: "string \<Rightarrow> string" where
  "utf8_text s = concat (map (\<lambda>c. the (put_utf8 (int (of_char c)))) s)"

text \<open>The buffer of a name is doubled until it has more than \<open>n\<close> bytes.\<close>

function grow_past :: "nat \<Rightarrow> nat \<Rightarrow> nat" where
  "grow_past n sz = (if sz \<le> n \<and> 0 < sz then grow_past n (grow sz) else sz)"
  by pat_completeness auto

termination
  by (relation "measure (\<lambda>(n, sz). Suc n - sz)") (auto simp: grow_def)

declare grow_past.simps [simp del]

definition err_toks :: "string option \<Rightarrow> 'f tokens" where
  "err_toks err = (case err of None \<Rightarrow> [] | Some e \<Rightarrow> [Error_tok e])"

definition before_bracket :: "string \<Rightarrow> lexer \<Rightarrow> lexer" where
  "before_bracket s lx = lx\<lparr>inp := s, solo_flag := (if ch_is (CHR ''('') s then False else solo_flag lx)\<rparr>"

definition scan_name :: "'f scanner \<Rightarrow> char \<Rightarrow> string \<Rightarrow> lexer \<Rightarrow> 'f lexed" where
  "scan_name S och s lx =
    (let isvar = (chtype och \<noteq> LC); cs = takeWhile alnum s; s = dropWhile alnum s;
         qs = (if isvar \<and> ce_param S then takeWhile (\<lambda>c. c = CHR 0x27) s else []); s = drop (length qs) s;
         image = utf8_text (och # cs @ qs); lx = lx\<lparr>imgsz := grow_past (length cs + 1) (imgsz lx)\<rparr>
     in if \<not> isvar \<or> ch_is (CHR ''('') s \<and> vn_asfl S \<or> \<not> ch_is (CHR ''_'') image \<and> vprefix S
        then Tokens [Name_tok image] (before_bracket s lx)
        else let (i, vt) = Yap_LookupVar image (vars lx) in Tokens [Var_tok (new_var S i)] (lx\<lparr>inp := s, vars := vt\<rparr>))"

definition ends_clause :: "string \<Rightarrow> bool" where
  "ends_clause s \<longleftrightarrow> ch_kind s = BS \<or> ch_kind s = EF \<or> ch_is (CHR ''%'') s"

definition enter_symbol :: "'f tokens \<Rightarrow> char \<Rightarrow> string \<Rightarrow> lexer \<Rightarrow> 'f lexed" where
  "enter_symbol ts och s lx =
    (if och = CHR ''.'' \<and> ends_clause s then End (ts @ [eot_tok])
     else let cs = takeWhile (\<lambda>c. chtype c = SY) s; s = dropWhile (\<lambda>c. chtype c = SY) s in
       Tokens (ts @ [Name_tok (utf8_text (och # cs))])
         (lx\<lparr>inp := s, solo_flag := \<not> ch_is (CHR ''('') s,
            imgsz := (if cs = [] then imgsz lx else grow_past (length cs + 10) (imgsz lx))\<rparr>))"

definition scan_number :: "'f env \<Rightarrow> 'f scanner \<Rightarrow> string \<Rightarrow> lexer \<Rightarrow> 'f lexed" where
  "scan_number E S s lx = (case get_num E S False (imgsz lx) s of
      Number t err dot s \<Rightarrow>
        if dot then enter_symbol [Number_tok t] (CHR ''.'') s lx
        else Tokens (Number_tok t # err_toks err) (lx\<lparr>inp := s\<rparr>)
    | Syntax_thrown \<Rightarrow> Lex_thrown
    | Undefined_number \<Rightarrow> Lex_undefined)"

definition quoted_string :: "'f scanner \<Rightarrow> char \<Rightarrow> string \<Rightarrow> lexer \<Rightarrow> 'f lexed" where
  "quoted_string S quote s lx = (case read_quoted S quote (imgsz lx) [] None s of
      None \<Rightarrow> Lex_undefined
    | Some q \<Rightarrow>
        let lx = lx\<lparr>imgsz := q_imgsz q\<rparr> in
        if quote = CHR 0x22 then Tokens (String_tok (TDQ S (q_buf q)) # err_toks (q_err q)) (lx\<lparr>inp := q_inp q\<rparr>)
        else if quote = CHR 0x60 then Tokens (String_tok (TBQ S (q_buf q)) # err_toks (q_err q)) (lx\<lparr>inp := q_inp q\<rparr>)
        else Tokens (Name_tok (q_buf q) # err_toks (q_err q)) (before_bracket (q_inp q) lx))"

text \<open>A bracket, comma or bar; the empty pairs of brackets are atoms.\<close>

definition scan_bracket :: "char \<Rightarrow> string \<Rightarrow> lexer \<Rightarrow> 'f lexed" where
  "scan_bracket c r lx =
    (let s = dropWhile (\<lambda>c. chtype c = BS) r in
     if c = CHR ''('' then
       if ch_is (CHR '')'') s then Tokens [Name_tok ''()''] (lx\<lparr>inp := tl s, solo_flag := False\<rparr>)
       else if \<not> solo_flag lx then Tokens [Ponctuation_tok ''l''] (lx\<lparr>inp := s, solo_flag := True\<rparr>)
       else Tokens [Ponctuation_tok ''(''] (lx\<lparr>inp := s\<rparr>)
     else if c = CHR ''['' then
       if ch_is (CHR '']'') s then Tokens [Name_tok ''[]''] (lx\<lparr>inp := tl s, solo_flag := False\<rparr>)
       else Tokens [Ponctuation_tok ''[''] (lx\<lparr>inp := s\<rparr>)
     else if c = CHR ''{'' then
       if ch_is (CHR ''|'') r then Quasi_quotation
       else if ch_is (CHR ''}'') s then Tokens [Name_tok ''{}''] (lx\<lparr>inp := tl s, solo_flag := False\<rparr>)
       else Tokens [Ponctuation_tok ''{''] (lx\<lparr>inp := s\<rparr>)
     else if c = CHR ''|'' \<and> ch_is (CHR ''|'') r then End [eot_tok]
     else Tokens [Ponctuation_tok [c]] (lx\<lparr>inp := r\<rparr>))"

definition lex_step :: "'f env \<Rightarrow> 'f scanner \<Rightarrow> lexer \<Rightarrow> 'f lexed" where
  "lex_step E S lx = (case skip_layout (inp lx) of
      [] \<Rightarrow> End [eot_tok]
    | c # r \<Rightarrow> (case chtype c of
          UC \<Rightarrow> scan_name S c r lx
        | UL \<Rightarrow> scan_name S c r lx
        | LC \<Rightarrow> scan_name S c r lx
        | NU \<Rightarrow> scan_number E S (c # r) lx
        | QT \<Rightarrow> quoted_string S c r lx
        | DC \<Rightarrow> quoted_string S c r lx
        | SY \<Rightarrow>
            if c = CHR 0x60 then quoted_string S c r lx
            else enter_symbol [] c r lx
        | SL \<Rightarrow> Tokens [Name_tok [c]] (before_bracket r lx)
        | BK \<Rightarrow> scan_bracket c r lx
        | _ \<Rightarrow> End [eot_tok]))"

datatype 'f scanned =
    Scanned "'f tokens" var_table
  | Scan_thrown
  | Scan_undefined
  | Quasi_quoted
  | Scan_unfinished

fun with_tokens :: "'f tokens \<Rightarrow> 'f scanned \<Rightarrow> 'f scanned" where
  "with_tokens ts (Scanned us vt) = Scanned (ts @ us) vt"
| "with_tokens ts r = r"

fun scan_tokens :: "'f env \<Rightarrow> 'f scanner \<Rightarrow> nat \<Rightarrow> lexer \<Rightarrow> 'f scanned" where
  "scan_tokens E S 0 lx = Scan_unfinished"
| "scan_tokens E S (Suc n) lx = (case lex_step E S lx of
      Tokens ts lx' \<Rightarrow> with_tokens ts (scan_tokens E S n lx')
    | End ts \<Rightarrow> Scanned ts (vars lx)
    | Lex_thrown \<Rightarrow> Scan_thrown
    | Lex_undefined \<Rightarrow> Scan_undefined
    | Quasi_quotation \<Rightarrow> Quasi_quoted)"

definition lexer_start :: "string \<Rightarrow> lexer" where
  "lexer_start s = \<lparr>inp = s, solo_flag = True, imgsz = 1024, vars = no_vars\<rparr>"

text \<open>Every round consumes a character, so the length of the input is enough.\<close>

definition Yap_tokenizer :: "'f env \<Rightarrow> 'f scanner \<Rightarrow> string \<Rightarrow> 'f scanned" where
  "Yap_tokenizer E S s = scan_tokens E S (length s + 1) (lexer_start s)"

end
