(* ===== verification/YapScannerEnds.thy ===== *)
theory YapScannerEnds
  imports YapScanner
begin

text \<open>
  The tokenizer ends: every round of its loop takes at least one character from the input, also where the
  scanner of numbers gives back the first digit. So the fuel that \<open>Yap_tokenizer\<close> supplies is enough.
\<close>

section \<open>Numbers\<close>

text \<open>The number read leaves at most \<open>n\<close> characters.\<close>

fun number_leaves :: "nat \<Rightarrow> 'f number \<Rightarrow> bool" where
  "number_leaves n (Number t err dot s) \<longleftrightarrow> length s \<le> n"
| "number_leaves n _ \<longleftrightarrow> True"

lemma length_tl_le: "length s \<le> n \<Longrightarrow> length (tl s) \<le> n"
  by (cases s) auto

lemma length_dropWhile_le': "length s \<le> n \<Longrightarrow> length (dropWhile P s) \<le> n"
  using length_dropWhile_le [of P s] by simp

lemma length_drop_le: "length s \<le> n \<Longrightarrow> length (drop k s) \<le> n"
  by simp

lemma again_le: "length s \<le> Suc n \<Longrightarrow> length (tl s) \<le> n"
  by (cases s) auto

lemma ch_kind_NU: "ch_kind s = NU \<Longrightarrow> s \<noteq> []"
  by (auto simp: ch_kind_def)

lemma ch_is_Cons: "ch_is c s \<longleftrightarrow> (\<exists>r. s = c # r)"
  by (cases s) (auto simp: ch_is_def)

lemma xdigits_length: "length (snd (snd (snd (xdigits su sl base buf val ov s)))) \<le> length s"
  by (induction s arbitrary: buf val ov) (auto simp: Let_def le_SucI)

lemma digits_length: "length (snd (snd (snd (fst (digits base buf val ov s))))) \<le> length s"
  by (induction s arbitrary: buf val ov) (auto simp: Let_def le_SucI)

lemma number_leaves_in_buffer [simp]: "number_leaves n r \<Longrightarrow> number_leaves n (in_buffer sz buf r)"
  by (simp add: in_buffer_def)

lemma float_number_leaves: "length s \<le> n \<Longrightarrow> number_leaves n (float_number E S neg sz buf s)"
  by (simp add: float_number_def float_send_def Let_def)

lemma digits_stop: "snd (digits base buf val ov s) \<Longrightarrow> snd (snd (snd (fst (digits base buf val ov s)))) \<noteq> []"
  by (induction s arbitrary: buf val ov) (auto simp: Let_def split: if_splits)

text \<open>What is given back is the first digit in place of a character, so nothing is gained.\<close>

lemma exponent_leaves:
  assumes "length s \<le> n" and "\<And>s. length (again s) \<le> Suc (length (tl s))"
  shows "number_leaves n (exponent E S neg sz has_dot val again buf s)"
proof -
  have again: "length (again u) \<le> n" if "Suc (length u) \<le> n" for u
    using assms(2) [of u] that by (cases u) auto
  show ?thesis
    using assms(1) again
    by (auto simp: exponent_def Let_def ch_is_Cons span_digits_def intro!: float_number_leaves length_dropWhile_le')
qed

lemma after_digits_leaves:
  assumes "length (snd (snd (snd r))) \<le> n" and "\<And>s. length (again s) \<le> Suc (length (tl s))"
  shows "number_leaves n (after_digits E S neg sz base fl again r)"
proof -
  obtain buf val ov s where r: "r = (buf, val, ov, s)" by (cases r)
  have again: "length (again u) \<le> n" if "Suc (length u) \<le> n" for u
    using assms(2) [of u] that by (cases u) auto
  have e: "number_leaves n (exponent E S neg sz d val again b u)" if "length u \<le> n" for d b u
    by (rule exponent_leaves [OF that assms(2)])
  have e': "number_leaves n (exponent E S neg sz d val again b (dropWhile P u))" if "length u \<le> n" for d b P u
    by (rule e) (rule length_dropWhile_le' [OF that])
  show ?thesis
    using assms(1) again e e'
    by (auto simp: r after_digits_def Let_def ch_is_Cons span_digits_def)
qed

lemma decimal_leaves:
  assumes "length s \<le> n" and "\<And>s. length (again s) \<le> Suc (length (tl s))"
  shows "number_leaves n (decimal E S neg sz base fl again buf val ov s)"
proof -
  let ?r = "digits (int base) buf val ov s"
  have l: "length (snd (snd (snd (fst ?r)))) \<le> n" using digits_length [of "int base" buf val ov s] assms(1) by simp
  have "length (again (snd (snd (snd (fst ?r))))) \<le> n" if "snd ?r"
    using digits_stop [OF that] l assms(2) [of "snd (snd (snd (fst ?r)))"]
    by (cases "snd (snd (snd (fst ?r)))") auto
  then show ?thesis
    using after_digits_leaves [OF l assms(2), of E S neg sz base fl] by (auto simp: decimal_def Let_def split: prod.split)
qed

lemma quoted_char_leaves: "length s \<le> n \<Longrightarrow> number_leaves n (quoted_char S neg s)"
  using read_quoted_char_length [of "iso_flag S" "tl s"]
  by (auto simp: quoted_char_def Let_def intro: length_tl_le split: prod.split)

lemma if_leaves:
  "(b \<Longrightarrow> number_leaves n x) \<Longrightarrow> (\<not> b \<Longrightarrow> number_leaves n y) \<Longrightarrow> number_leaves n (if b then x else y)"
  by simp

text \<open>A number takes a character.\<close>

lemma get_num_leaves:
  assumes "u \<noteq> []"
  shows "number_leaves (length u - 1) (get_num E S neg sz u)"
proof -
  let ?n = "length u - 1" and ?b = "of_char (hd u) - 48 :: nat"
  obtain buf base s where eq: "(if ch_kind (tl u) = NU
      then ([hd u, hd (tl u)], 10 * ?b + (of_char (hd (tl u)) - 48), tl (tl u)) else ([hd u], ?b, tl u)) = (buf, base, s)"
    by (rule prod_cases3)
  have s: "length (tl s) \<le> ?n" "length s \<le> ?n" "length (tl (tl s)) \<le> ?n" using eq by (auto split: if_splits)
  have again: "length (hd u # tl v) \<le> Suc (length (tl v))" for v by simp
  note d = decimal_leaves [OF _ again, where n = ?n and E = E and S = S and neg = neg and sz = sz]
  have x: "number_leaves ?n (case xdigits su sl b buf 0 False v of (buf, val, ov, s) \<Rightarrow>
      decimal E S neg sz k False (\<lambda>s. hd u # tl s) buf val ov s)" if "length v \<le> ?n" for su sl b buf v k
  proof -
    obtain buf' val ov w where w: "xdigits su sl b buf 0 False v = (buf', val, ov, w)" by (rule prod_cases4)
    then have "length w \<le> ?n" using xdigits_length [of su sl b buf 0 False v] that by simp
    then show ?thesis unfolding w prod.case by (rule d)
  qed
  show ?thesis
    unfolding get_num_def eq Let_def prod.case
    by (intro if_leaves x d quoted_char_leaves s) simp_all
qed

section \<open>Rounds\<close>

lemma block_comment_le: "length (skip_layout s) \<le> length s"
proof (induction s rule: skip_layout.induct)
  case (1 s)
  show ?case
  proof (cases "dropWhile (\<lambda>c. chtype c = BS) s")
    case Nil
    then show ?thesis by (subst skip_layout.simps) (simp del: dropWhile_eq_Nil_conv)
  next
    case (Cons c r)
    have l: "length (c # r) \<le> length s"
      using length_dropWhile_le [of "\<lambda>c. chtype c = BS" s] unfolding Cons .
    have a: "length (skip_layout (dropWhile (\<lambda>c. c \<noteq> CHR 0x0A) r)) \<le> length s" if "chtype c = CC"
      using "1.IH"(1) [OF Cons that] length_dropWhile_le [of "\<lambda>c. c \<noteq> CHR 0x0A" r] l by simp
    have b: "length (skip_layout (block_comment c r)) \<le> length s" if "chtype c \<noteq> CC" "c = CHR ''/'' \<and> ch_is (CHR ''*'') r"
      using "1.IH"(2) [OF Cons that] block_comment_length [of c r] l by simp
    show ?thesis using a b l by (simp add: skip_layout.simps [of s] Cons)
  qed
qed

lemma read_quoted_leaves:
  "read_quoted S quote sz buf err s = Some q \<Longrightarrow> length (q_inp q) \<le> length s"
proof (induction s arbitrary: buf err rule: measure_induct_rule [where f = length])
  case (less s)
  show ?case
  proof (cases s)
    case Nil
    then show ?thesis
      using less.prems unfolding read_quoted.simps [of S quote sz buf err s] by (auto simp: ch_is_Cons split: if_splits)
  next
    case (Cons c r)
    have ih: "length (q_inp q) \<le> Suc (length r)"
      if "read_quoted S quote sz b e v = Some q" "length v \<le> length r" for b e v
      using less.IH [of v b e] that Cons by simp
    have esc: "length v \<le> length r" if "read_quoted_char (iso_flag S) r = (ch, e, v)" for ch e v
      using read_quoted_char_length [of "iso_flag S" r] that by simp
    from less.prems show ?thesis
      unfolding read_quoted.simps [of S quote sz buf err s] unfolding Cons list.case
      by (auto simp: ch_is_Cons split: if_splits option.splits prod.splits dest: ih [OF _ esc] intro: ih [THEN le_trans] ih)
  qed
qed

text \<open>Every round takes a character.\<close>

definition takes :: "nat \<Rightarrow> 'f lexed \<Rightarrow> bool" where
  "takes n r \<longleftrightarrow> (\<forall>ts lx. r = Tokens ts lx \<longrightarrow> length (inp lx) \<le> n)"

lemma takes_simps [simp]:
  "takes n (Tokens ts lx) \<longleftrightarrow> length (inp lx) \<le> n" "takes n (End ts)" "takes n Lex_thrown" "takes n Lex_undefined"
  "takes n Quasi_quotation" "takes n (if b then x else y) \<longleftrightarrow> (b \<longrightarrow> takes n x) \<and> (\<not> b \<longrightarrow> takes n y)"
  by (simp_all add: takes_def)

lemma enter_symbol_takes: "length s \<le> n \<Longrightarrow> takes n (enter_symbol ts och s lx)"
  by (auto simp: takes_def enter_symbol_def Let_def length_dropWhile_le')

lemma lex_step_takes:
  assumes "lex_step E S lx = Tokens ts lx'"
  shows "length (inp lx') < length (inp lx)"
proof (cases "skip_layout (inp lx)")
  case Nil
  then show ?thesis using assms by (simp add: lex_step_def)
next
  case (Cons c r)
  have l: "length r < length (inp lx)" using block_comment_le [of "inp lx"] Cons by simp
  have name: "takes (length r) (scan_name S c r lx)"
    using length_dropWhile_le [of alnum r]
    by (auto simp: takes_def scan_name_def before_bracket_def Let_def diff_le_mono le_diff_conv trans_le_add1 split: prod.splits)
  have num: "takes (length r) (scan_number E S (c # r) lx)"
    using get_num_leaves [of "c # r" E S False "imgsz lx"]
    by (auto simp: takes_def scan_number_def split: number.splits dest: enter_symbol_takes [unfolded takes_def, rule_format])
  have quoted: "takes (length r) (quoted_string S c r lx)"
    by (auto simp: takes_def quoted_string_def before_bracket_def Let_def split: option.splits dest: read_quoted_leaves)
  have sym: "takes (length r) (enter_symbol [] c r lx)"
    by (rule enter_symbol_takes) simp
  have solo: "takes (length r) (Tokens [Name_tok [c]] (before_bracket r lx))"
    by (simp add: takes_def before_bracket_def)
  have brk: "takes (length r) (scan_bracket c r lx)"
    using length_dropWhile_le [of "\<lambda>c. chtype c = BS" r]
    unfolding scan_bracket_def Let_def takes_simps by (simp add: le_diff_conv le_SucI)
  have "takes (length r) (lex_step E S lx)"
    using name num quoted sym solo brk
    unfolding lex_step_def Cons list.case by (cases "chtype c") auto
  then show ?thesis using assms l by (auto simp: takes_def)
qed

lemma with_tokens_unfinished [simp]: "with_tokens ts r = Scan_unfinished \<longleftrightarrow> r = Scan_unfinished"
  by (cases r) auto

lemma scan_tokens_ends: "length (inp lx) < n \<Longrightarrow> scan_tokens E S n lx \<noteq> Scan_unfinished"
proof (induction n arbitrary: lx)
  case (Suc n)
  have "scan_tokens E S n lx' \<noteq> Scan_unfinished" if "lex_step E S lx = Tokens ts lx'" for ts lx'
    using lex_step_takes [OF that] Suc by simp
  then show ?case by (auto split: lexed.split)
qed simp

text \<open>More fuel changes nothing.\<close>

lemma scan_tokens_more:
  "scan_tokens E S n lx \<noteq> Scan_unfinished \<Longrightarrow> scan_tokens E S (n + k) lx = scan_tokens E S n lx"
  by (induction n arbitrary: lx) (auto split: lexed.splits)

lemma with_tokens_Scanned:
  "with_tokens ts r = Scanned us vt \<longleftrightarrow> (\<exists>vs. r = Scanned vs vt \<and> us = ts @ vs)"
  by (cases r) auto

text \<open>The last token is the end of the text.\<close>

definition ends_ok :: "'f lexed \<Rightarrow> bool" where
  "ends_ok r \<longleftrightarrow> (\<forall>ts. r = End ts \<longrightarrow> ts \<noteq> [] \<and> last ts = eot_tok)"

lemma ends_ok_simps [simp]:
  "ends_ok (Tokens ts lx)" "ends_ok (End ts) \<longleftrightarrow> ts \<noteq> [] \<and> last ts = eot_tok" "ends_ok Lex_thrown"
  "ends_ok Lex_undefined" "ends_ok Quasi_quotation"
  by (simp_all add: ends_ok_def)

lemma lex_step_End: "ends_ok (lex_step (E :: 'f env) S lx)"
proof (cases "skip_layout (inp lx)")
  case Nil
  then show ?thesis by (simp add: lex_step_def)
next
  case (Cons c r)
  have "ends_ok (enter_symbol ts och s lx)" for ts :: "'f tokens" and och s by (simp add: enter_symbol_def Let_def)
  moreover from this have "ends_ok (scan_number E S (c # r) lx)" by (simp add: scan_number_def split: number.split)
  moreover have "ends_ok (scan_name S c r lx)" by (simp add: scan_name_def Let_def split: prod.split)
  moreover have "ends_ok (quoted_string S c r lx)" by (simp add: quoted_string_def Let_def split: option.split)
  moreover have "ends_ok (scan_bracket c r lx)" by (simp add: scan_bracket_def Let_def)
  ultimately show ?thesis
    unfolding lex_step_def Cons list.case by (cases "chtype c") auto
qed

lemma scan_tokens_last: "scan_tokens E S n lx = Scanned ts vt \<Longrightarrow> ts \<noteq> [] \<and> last ts = eot_tok"
  by (induction n arbitrary: lx ts)
    (auto simp: with_tokens_Scanned split: lexed.splits dest: lex_step_End [unfolded ends_ok_def, rule_format])

end
