(* ===== verification/YapLexing.thy ===== *)
theory YapLexing
  imports YapWriteRead YapScannerEnds
begin

text \<open>
  The tokenizer on a text that the writer has put together: when each piece may stand before the next one, the
  tokens of the text are those of the pieces. Each piece takes one or two rounds of the loop.
\<close>

section \<open>Characters\<close>

lemma ch_simps [simp]:
  "ch_is d [] = False" "ch_is d (c # s) = (c = d)" "ch_kind [] = EF" "ch_kind (c # s) = chtype c"
  "ch_code [] = - 1" "ch_code (c # s) = int (of_char c)"
  by (simp_all add: ch_is_def ch_kind_def ch_code_def)

lemma ascii_put_utf8: "ascii c \<Longrightarrow> put_utf8 (int (of_char c)) = Some [c]"
  by (simp add: put_utf8_def ascii_def)

lemma utf8_text_ascii: "list_all ascii s \<Longrightarrow> utf8_text s = s"
  by (induction s) (simp_all add: utf8_text_def ascii_put_utf8 del: of_nat_of_char)

lemma alnum_not_first [simp]:
  "alnum c \<Longrightarrow> chtype c \<noteq> BS" "alnum c \<Longrightarrow> chtype c \<noteq> CC" "alnum c \<Longrightarrow> chtype c \<noteq> SY"
  "chtype c = NU \<Longrightarrow> alnum c" "chtype c = LC \<Longrightarrow> alnum c"
  by (auto simp: alnum_def)

lemma chtype_simps [simp]:
  "chtype CHR ''('' = BK" "chtype CHR '')'' = BK" "chtype CHR ''['' = BK" "chtype CHR '']'' = BK"
  "chtype CHR ''{'' = BK" "chtype CHR ''}'' = BK" "chtype CHR '','' = BK" "chtype CHR ''|'' = BK"
  "chtype CHR '' '' = BS" "chtype CHR 0x27 = QT" "chtype CHR ''-'' = SY" "chtype CHR ''_'' = UL" "chtype CHR ''.'' = SY"
  "chtype CHR ''/'' = SY" "chtype CHR ''*'' = SY" "chtype CHR ''e'' = LC" "chtype CHR ''E'' = UC" "chtype CHR ''x'' = LC"
  "chtype CHR ''o'' = LC" "chtype CHR ''b'' = LC" "chtype CHR 0x5C = SY" "chtype CHR 0x60 = SY" "chtype CHR 0x0A = BS"
  by (simp_all add: chtype_def Yap_chtype0_def)

text \<open>A character that begins a token by itself.\<close>

lemma skip_layout_first:
  "chtype c \<noteq> BS \<Longrightarrow> chtype c \<noteq> CC \<Longrightarrow> c = CHR ''/'' \<longrightarrow> \<not> ch_is (CHR ''*'') r \<Longrightarrow> skip_layout (c # r) = c # r"
  by (auto simp: skip_layout.simps [of "c # r"])

lemma skip_layout_blank: "skip_layout (dropWhile (\<lambda>c. chtype c = BS) s) = skip_layout s"
  by (simp add: skip_layout.simps [of s] skip_layout.simps [of "dropWhile _ s"] dropWhile_idem)

lemma skip_layout_space: "skip_layout (CHR '' '' # s) = skip_layout s"
  using skip_layout_blank [of "CHR '' '' # s"] skip_layout_blank [of s] by simp

section \<open>Quoted text\<close>

text \<open>What is written for a character between quotes is read as the character.\<close>

definition escape_of :: "char \<Rightarrow> string" where
  "escape_of c = tl (write_quoted True CHR 0x27 c)"

lemma read_escape:
  "read_quoted_char im (CHR 0x5C # r) = (0x5C, None, r)" "read_quoted_char im (CHR 0x27 # r) = (39, None, r)"
  "read_quoted_char im (CHR ''a'' # r) = (7, None, r)" "read_quoted_char im (CHR ''b'' # r) = (8, None, r)"
  "read_quoted_char im (CHR ''t'' # r) = (9, None, r)" "read_quoted_char im (CHR ''n'' # r) = (10, None, r)"
  "read_quoted_char im (CHR ''v'' # r) = (11, None, r)" "read_quoted_char im (CHR ''f'' # r) = (12, None, r)"
  "read_quoted_char im (CHR ''r'' # r) = (13, None, r)"
  by (simp_all add: read_quoted_char.simps [of im "_ # _"])

lemma read_octal:
  assumes "is_octal (int (of_char c))"
  shows "read_quoted_char im (c # r) = octal_chars (int (of_char c) - 48) r"
proof -
  have "c \<notin> {CHR 0x0A, CHR 0x5C, CHR ''a'', CHR ''b'', CHR ''c'', CHR ''d'', CHR ''e'', CHR ''f'', CHR ''n'', CHR ''r'',
      CHR ''s'', CHR ''t'', CHR ''u'', CHR ''U'', CHR ''v'', CHR ''z'', CHR 0x27, CHR 0x22, CHR 0x60, CHR ''^''}"
    using assms by (auto simp: is_octal_def)
  then show ?thesis using assms by (simp add: read_quoted_char.simps [of im "_ # _"])
qed

lemma octal_digit_code: "int (of_char (octal_digit n)) = 48 + int (n mod 8)"
  by (simp add: octal_digit_def of_char_of take_bit_nat_eq_self del: of_nat_of_char)

lemma read_octal_escape:
  "read_quoted_char im (tl (octal_escape c) @ r) = (int (of_char c), None, r)"
proof -
  define n :: nat where "n = of_char c"
  define x y z where "x = octal_digit (n div 64)" and "y = octal_digit (n div 8)" and "z = octal_digit n"
  have n: "n < 256" by (simp add: n_def)
  have codes: "int (of_char x) = 48 + int (n div 64 mod 8)" "int (of_char y) = 48 + int (n div 8 mod 8)"
    "int (of_char z) = 48 + int (n mod 8)" by (simp_all only: x_def y_def z_def octal_digit_code)
  have oct: "is_octal (int (of_char x))" "is_octal (int (of_char y))" "is_octal (int (of_char z))"
    unfolding codes is_octal_def by simp_all
  define i j k where "i = n div 64 mod 8" and "j = n div 8 mod 8" and "k = n mod 8"
  have ijk: "(i * 8 + j) * 8 + k = n \<and> i * 8 + j < 256"
  proof -
    have "n div 64 = n div 8 div 8" by (simp add: div_mult2_eq [symmetric])
    moreover have "n div 64 < 8" using n by simp
    ultimately have "n div 8 = 8 * i + j" by (simp add: i_def j_def)
    moreover have "n = 8 * (n div 8) + k" by (simp add: k_def)
    ultimately show ?thesis using n by simp
  qed
  have val: "(((int (of_char x) - 48) * 8 + (int (of_char y) - 48)) mod 256 * 8 + (int (of_char z) - 48)) mod 256 = int n"
  proof -
    have "int (((i * 8 + j) mod 256 * 8 + k) mod 256) = int n" using n ijk by simp
    then show ?thesis unfolding codes i_def [symmetric] j_def [symmetric] k_def [symmetric] by (simp add: zmod_int)
  qed
  have shape: "tl (octal_escape c) @ r = x # y # z # CHR 0x5C # r"
    by (simp add: octal_escape_def Let_def x_def y_def z_def n_def)
  have "read_quoted_char im (tl (octal_escape c) @ r) = octal_chars (int (of_char x) - 48) (y # z # CHR 0x5C # r)"
    unfolding shape by (rule read_octal [OF oct(1)])
  also have "\<dots> = (int n, None, r)"
    using oct(2,3) val by (simp add: octal_chars_def Let_def del: of_nat_of_char)
  finally show ?thesis by (simp add: n_def)
qed

lemma escape_read_back:
  assumes "ascii c" and "chtype c = BS \<or> c = CHR 0x27 \<or> c = CHR 0x5C" and "c \<noteq> CHR '' ''"
  shows "write_quoted True CHR 0x27 c = CHR 0x5C # escape_of c
    \<and> read_quoted_char im (escape_of c @ r) = (int (of_char c), None, r)"
proof -
  show ?thesis
  proof (cases "c \<in> {CHR 0x5C, CHR 0x27, CHR 0x07, CHR 0x08, CHR 0x09, CHR 0x0A, CHR 0x0B, CHR 0x0D, CHR 0x0C}")
    case True
    then show ?thesis
      unfolding escape_of_def by (elim insertE emptyE; simp add: write_quoted_def chtype_def Yap_chtype0_def read_escape)
  next
    case False
    have "c \<noteq> CHR 0xA0" using assms(1) by (auto simp: ascii_def)
    moreover have "c \<noteq> CHR 0x22" "c \<noteq> CHR 0x60" using assms(2) by (auto simp: chtype_def Yap_chtype0_def)
    ultimately have "write_quoted True CHR 0x27 c = octal_escape c"
      using False assms by (simp add: write_quoted_def ascii_def)
    then show ?thesis using read_octal_escape [of im c r] by (simp add: escape_of_def octal_escape_def Let_def)
  qed
qed

lemma read_quoted_piece:
  assumes "ascii c" and "char_escapes S" and "length buf < sz"
  shows "read_quoted S CHR 0x27 sz buf err (write_quoted True CHR 0x27 c @ r) =
    read_quoted S CHR 0x27 sz (buf @ [c]) err r"
proof (cases "(chtype c = BS \<or> c = CHR 0x27 \<or> c = CHR 0x5C) \<and> c \<noteq> CHR '' ''")
  case True
  note e = escape_read_back [OF assms(1), of "iso_flag S" r]
  have "ascii c" "int (of_char c) \<noteq> 0" using assms(1) by (auto simp: ascii_def)
  then show ?thesis
    using True e assms ascii_put_utf8 [OF assms(1)]
    by (subst read_quoted.simps) (simp add: ascii_def)
next
  case False
  then have "write_quoted True CHR 0x27 c = [c]" "c \<noteq> CHR 0x0A" "c \<noteq> CHR 0x27" "c \<noteq> CHR 0x5C"
    by (auto simp: write_quoted_def)
  then show ?thesis
    using assms ascii_put_utf8 [OF assms(1)] by (subst read_quoted.simps) simp
qed

lemma read_quoted_text:
  assumes "list_all ascii a" and "char_escapes S" and "length buf + length a < sz" and "\<not> ch_is CHR 0x27 rest"
  shows "read_quoted S CHR 0x27 sz buf None (concat (map (write_quoted True CHR 0x27) a) @ CHR 0x27 # rest) =
    Some \<lparr>q_buf = buf @ a, q_imgsz = sz, q_err = None, q_inp = rest\<rparr>"
  using assms(1,3)
proof (induction a arbitrary: buf)
  case Nil
  then show ?case using assms(4) by (simp add: read_quoted.simps)
next
  case (Cons c a)
  then show ?case using Cons.IH [of "buf @ [c]"] assms(2) by (simp add: read_quoted_piece)
qed

section \<open>Numbers\<close>

declare dec_digits.simps [simp del]

lemma kind_NU: "list_all (\<lambda>n. (kind_at Yap_chtype0 n = NU) = (48 \<le> n \<and> n \<le> 57)) [0..<256]"
  by code_simp

lemma NU_iff: "chtype c = NU \<longleftrightarrow> 48 \<le> (of_char c :: nat) \<and> (of_char c :: nat) \<le> 57"
  using kind_NU by (simp add: list_all_iff chtype_def)

lemma NU_code: "chtype c = NU \<Longrightarrow> 48 \<le> (of_char c :: nat) \<and> (of_char c :: nat) \<le> 57"
  by (simp add: NU_iff)

lemma digit_NU: "n < 10 \<Longrightarrow> chtype (char_of (48 + n :: nat)) = NU"
  by (simp add: NU_iff of_char_of take_bit_nat_eq_self)

lemma dec_digits_not_Nil [simp]: "dec_digits n \<noteq> []"
  by (simp add: dec_digits.simps [of n])

lemma dec_digits_NU: "list_all (\<lambda>c. chtype c = NU) (dec_digits n)"
proof (induction n rule: dec_digits.induct)
  case (1 n)
  then show ?case by (cases "n < 10") (simp_all add: dec_digits.simps [of n] digit_NU)
qed

lemma dec_digits_first: "0 < n \<Longrightarrow> hd (dec_digits n) \<noteq> CHR ''0''"
proof (induction n rule: dec_digits.induct)
  case (1 n)
  have "dec_digits (n div 10) \<noteq> []" by (simp add: dec_digits.simps [of "n div 10"])
  moreover have "char_of (48 + n) \<noteq> CHR ''0''" if "n < 10"
  proof
    assume "char_of (48 + n) = CHR ''0''"
    then have "(of_char (char_of (48 + n :: nat)) :: nat) = of_char (CHR ''0'')" by simp
    with that 1(2) show False by (simp add: of_char_of take_bit_nat_eq_self)
  qed
  ultimately show ?case using 1 by (cases "n < 10") (simp_all add: dec_digits.simps [of n])
qed

lemma c_div_MAX: "sint (c_div Int_MAX 10 - word_of_int d) = 922337203685477580 - d" if "0 \<le> d" "d < 10"
proof -
  have q: "sint (c_div Int_MAX 10) = 922337203685477580"
    by (simp add: sint_c_div signed_divide_int_def)
  have d: "sint (word_of_int d :: cint) = d" using that by (intro sint_of_int_fits) (simp add: fits_Int_def)
  show ?thesis
    using that by (subst sint_diff_fits) (simp_all add: q d fits_Int_def)
qed

lemma digits_run:
  assumes "list_all (\<lambda>c. chtype c = NU) ds" and "val \<noteq> 0 \<or> ov \<or> ds = []" and "\<not> ov \<Longrightarrow> sint val = v \<and> 0 \<le> v"
    and "ch_kind rest \<noteq> NU"
  shows "\<exists>val' ov'. digits 10 buf val ov (ds @ rest) = ((buf @ ds, val', ov', rest), False)
    \<and> (\<not> ov' \<longrightarrow> sint val' = foldl dec_step v ds)"
  using assms(1-3)
proof (induction ds arbitrary: buf val ov v)
  case Nil
  then show ?case using assms(4) by (cases rest) auto
next
  case (Cons c ds)
  define d where "d = int (of_char c) - 48"
  have c: "chtype c = NU" using Cons.prems(1) by simp
  then have d: "0 \<le> d" "d < 10" using NU_code [of c] by (simp_all add: d_def)
  have keep: "\<not> (val = 0 \<and> c = CHR ''0'') \<or> ov" using Cons.prems(2) by auto
  show ?case
  proof (cases "c_less (c_div Int_MAX 10 - word_of_int d) val")
    case True
    have "digits 10 buf val ov ((c # ds) @ rest) = digits 10 (buf @ [c]) val True (ds @ rest)"
      using c d True keep by (simp add: d_def [symmetric] Let_def)
    moreover obtain val' ov' where "digits 10 (buf @ [c]) val True (ds @ rest) = (((buf @ [c]) @ ds, val', ov', rest), False)"
      "\<not> ov' \<longrightarrow> sint val' = foldl dec_step (dec_step v c) ds"
      using Cons.IH [of val True "dec_step v c" "buf @ [c]"] Cons.prems(1) by auto
    ultimately show ?thesis by (intro exI [of _ val'] exI [of _ ov']) simp
  next
    case False
    let ?val = "val * word_of_int 10 + word_of_int d"
    have step: "digits 10 buf val ov ((c # ds) @ rest) = digits 10 (buf @ [c]) ?val ov (ds @ rest)"
      using c d False keep by (simp add: d_def [symmetric] Let_def)
    have "sint ?val = dec_step v c \<and> 0 \<le> dec_step v c \<and> ?val \<noteq> 0" if "\<not> ov"
    proof -
      have v: "sint val = v" "0 \<le> v" "val \<noteq> 0" using Cons.prems(2,3) that by auto
      have "v \<noteq> 0" using v by (simp add: eq_zero_iff_sint)
      have b: "v \<le> 922337203685477580 - d" using False c_div_MAX [OF d] v(1) by (simp add: c_less_def)
      have w: "sint (word_of_int d :: cint) = d" "sint (word_of_int 10 :: cint) = 10"
        using d by (simp_all add: sint_of_int_fits fits_Int_def)
      have m: "sint (val * word_of_int 10) = 10 * v"
        using b v d by (subst sint_mult_fits) (simp_all only: w v(1), simp_all add: fits_Int_def)
      have "sint ?val = 10 * v + d"
        using b v d by (subst sint_add_fits) (simp_all only: w m, simp_all add: fits_Int_def)
      then have "sint ?val = dec_step v c" by (simp add: dec_step_def d_def of_nat_of_char)
      moreover have "0 < dec_step v c" using \<open>v \<noteq> 0\<close> v(2) d(1) by (simp add: dec_step_def d_def of_nat_of_char)
      ultimately show ?thesis by auto
    qed
    then obtain val' ov' where "digits 10 (buf @ [c]) ?val ov (ds @ rest) = (((buf @ [c]) @ ds, val', ov', rest), False)"
      "\<not> ov' \<longrightarrow> sint val' = foldl dec_step (dec_step v c) ds"
      using Cons.IH [of ?val ov "dec_step v c" "buf @ [c]"] Cons.prems(1) by auto
    with step show ?thesis by (intro exI [of _ val'] exI [of _ ov']) simp
  qed
qed

lemma no_base_prefix:
  assumes "list_all (\<lambda>c. chtype c = NU) s"
  shows "take 2 s \<noteq> ''0x''" "take 2 s \<noteq> ''0o''" "take 2 s \<noteq> ''0b''" "take 1 (drop 1 s) \<noteq> [CHR 0x27]"
    "take 1 (drop 2 s) \<noteq> [CHR 0x27]"
  using assms by (cases s; cases "tl s"; cases "tl (tl s)"; auto)+

definition number_ends :: "string \<Rightarrow> bool" where
  "number_ends rest \<longleftrightarrow> rest = [] \<or> \<not> alnum (hd rest) \<and> hd rest \<noteq> CHR 0x27 \<and> hd rest \<noteq> CHR ''.''"

lemma number_ends_simps [simp]:
  assumes "number_ends rest"
  shows "ch_kind rest \<noteq> NU" "\<not> ch_is CHR 0x27 rest" "\<not> ch_is CHR ''.'' rest" "\<not> ch_is CHR ''e'' rest" "\<not> ch_is CHR ''E'' rest"
    "\<not> ch_is CHR ''x'' rest" "\<not> ch_is CHR ''o'' rest" "\<not> ch_is CHR ''b'' rest"
  using assms by (cases rest; auto simp: number_ends_def alnum_def)+

lemma decimal_dec:
  assumes "gmp E" and "fits_Int (int n) \<or> limbs_fit E (int n)" and "number_ends rest" and "length (dec_digits n) < sz"
    and ds: "dec_digits n = buf @ ds" and "val \<noteq> 0 \<or> ds = []" and "sint val = foldl dec_step 0 buf"
  shows "decimal E S False sz 10 True again buf val False (ds @ rest) = Number (int_term (int n)) None False rest"
proof -
  have nu: "list_all (\<lambda>c. chtype c = NU) (buf @ ds)" using dec_digits_NU [of n] by (simp only: ds)
  have "0 \<le> foldl dec_step v b" if "list_all (\<lambda>c. chtype c = NU) b" "0 \<le> v" for b v
    using that
  proof (induction b arbitrary: v)
    case (Cons c b)
    have "0 \<le> int (of_char c) - 48" using NU_code [of c] Cons.prems(1) by simp
    then have "0 \<le> dec_step v c" using Cons.prems(2) by (simp add: dec_step_def of_nat_of_char)
    then show ?case using Cons.IH [of "dec_step v c"] Cons.prems(1) by simp
  qed simp
  then have "0 \<le> sint val" using nu assms(7) by simp
  then obtain val' ov' where run: "digits 10 buf val False (ds @ rest) = ((buf @ ds, val', ov', rest), False)"
    "\<not> ov' \<Longrightarrow> sint val' = foldl dec_step (sint val) ds"
    using digits_run [of ds val False "sint val" rest buf] nu assms(3,6) by auto
  have "foldl dec_step (sint val) ds = foldl dec_step 0 (dec_digits n)" using assms(7) by (simp add: ds)
  also have "\<dots> = int n" using dec_digits_val [of 0 n] by simp
  finally have val': "\<not> ov' \<Longrightarrow> sint val' = int n" using run(2) by simp
  have "(if ov' then read_int_overflow E (buf @ ds) 10 False else signed_int False val') = int_term (int n)"
  proof (cases ov')
    case True
    then show ?thesis
      using gmp.MkBigIntTerm [OF assms(1)] gmp.set_str [OF assms(1)] assms(2)
      by (simp add: read_int_overflow_def ds [symmetric] dec_val_digits)
  next
    case False
    moreover have "fits_Int (int n)" using val' [OF False] fits_sint [of val'] by simp
    moreover have "val' = word_of_int (int n)" using val' [OF False] word_of_int_sint [of val'] by (simp only:)
    ultimately show ?thesis by (simp add: signed_int_def int_term_def)
  qed
  then show ?thesis
    using run(1) assms(3,4) no_base_prefix [OF nu] by (simp add: decimal_def after_digits_def in_buffer_def ds Let_def)
qed

lemma sint_of_nat_less: "k < 2 ^ 63 \<Longrightarrow> sint (of_nat k :: cint) = int k"
  using sint_of_int_fits [of "int k"] by (simp add: fits_Int_def)

lemma get_num_dec:
  assumes "gmp E" and "fits_Int (int n) \<or> limbs_fit E (int n)" and "number_ends rest" and "length (dec_digits n) < sz"
  shows "get_num E S False sz (dec_digits n @ rest) = Number (int_term (int n)) None False rest"
proof -
  note dec = decimal_dec [OF assms]
  have nu: "list_all (\<lambda>c. chtype c = NU) (dec_digits n)" by (rule dec_digits_NU)
  have val: "sint (of_nat (of_char c - 48) :: cint) = foldl dec_step 0 [c]" if "chtype c = NU" for c
  proof -
    have c: "48 \<le> (of_char c :: nat)" "(of_char c :: nat) \<le> 57" using NU_code [OF that] by simp_all
    then have "sint (of_nat (of_char c - 48) :: cint) = int (of_char c - 48)" by (intro sint_of_nat_less) simp
    also have "\<dots> = int (of_char c) - 48" using c(1) by (simp add: of_nat_diff del: of_nat_of_char)
    finally show ?thesis by (simp add: dec_step_def of_nat_of_char)
  qed
  show ?thesis
  proof (cases "tl (dec_digits n)")
    case Nil
    then obtain c where c: "dec_digits n = [c]" using dec_digits_head [of n] by auto
    have "decimal E S False sz 10 True again [c] (of_nat (of_char c - 48)) False ([] @ rest)
        = Number (int_term (int n)) None False rest" for again
      by (rule dec) (use c nu val [of c] in simp_all)
    then show ?thesis using c assms(3) by (simp add: get_num_def Let_def)
  next
    case (Cons d ds)
    then obtain c where c: "dec_digits n = c # d # ds" using dec_digits_head [of n] by auto
    let ?base = "10 * (of_char c - 48) + (of_char d - 48) :: nat"
    have cd: "chtype c = NU" "chtype d = NU" using nu by (simp_all add: c)
    then have code: "48 \<le> (of_char c :: nat)" "(of_char c :: nat) \<le> 57" "48 \<le> (of_char d :: nat)" "(of_char d :: nat) \<le> 57"
      by (simp_all add: NU_iff)
    have "0 < n" using c by (cases n) (simp_all add: dec_digits.simps [of 0])
    then have "c \<noteq> CHR ''0''" using dec_digits_first [of n] c by simp
    then have "(of_char c :: nat) \<noteq> of_char CHR ''0''" by (simp only: of_char_eq_iff) simp
    then have pos: "48 < (of_char c :: nat)" using code(1) by simp
    have s: "sint (of_nat ?base :: cint) = int ?base" using code by (intro sint_of_nat_less) simp
    have "int ?base = 10 * (int (of_char c) - 48) + (int (of_char d) - 48)" using code by (simp add: of_nat_diff)
    then have v: "sint (of_nat ?base :: cint) = foldl dec_step 0 [c, d]" unfolding s by (simp add: dec_step_def of_nat_of_char)
    have "int ?base \<noteq> 0" using pos by simp
    then have "(of_nat ?base :: cint) \<noteq> 0" using s by (simp only: eq_zero_iff_sint not_False_eq_True)
    then have run: "decimal E S False sz 10 True again [c, d] (of_nat ?base) False (ds @ rest)
        = Number (int_term (int n)) None False rest" for again
      by (intro dec) (use c v in simp_all)
    have skip: "\<not> ch_is e (ds @ rest)" if "e = CHR 0x27 \<or> e = CHR ''x'' \<or> e = CHR ''o'' \<or> e = CHR ''b''" for e
      using that assms(3) nu by (cases ds) (auto simp: c)
    show ?thesis
      using run c cd skip by (simp add: get_num_def Let_def)
  qed
qed

section \<open>What may follow a piece\<close>

fun follow :: "'f piece \<Rightarrow> char \<Rightarrow> bool" where
  "follow (Chars s) c \<longleftrightarrow>
    (s \<in> {''('', ''['', ''{'', ''|'', CHR 0x27 # ''$VAR'' @ CHR 0x27 # ''(''} \<longrightarrow> chtype c \<noteq> BS \<and> c \<notin> set '')]}|'')"
| "follow (Atom_piece q a) c \<longleftrightarrow>
    (if legalAtom a then (chtype (hd a) = LC \<longrightarrow> \<not> alnum c) \<and> (symbol_name a \<longrightarrow> chtype c \<noteq> SY) else c \<noteq> CHR 0x27)"
| "follow (Var_piece n) c \<longleftrightarrow> \<not> alnum c \<and> c \<noteq> CHR 0x27 \<and> c \<noteq> CHR ''(''"
| "follow _ c \<longleftrightarrow> \<not> alnum c \<and> c \<noteq> CHR 0x27 \<and> c \<noteq> CHR ''.''"

definition fits_before :: "'f piece \<Rightarrow> string \<Rightarrow> bool" where
  "fits_before x u \<longleftrightarrow> u = [] \<or> follow x (hd u)"

lemma legalAtom_cases:
  assumes "legalAtom a"
  obtains (Name) c r where "a = c # r" "chtype c = LC" "list_all alnum r"
    | (Empty) "a = ''[]'' \<or> a = ''{}''"
    | (Solo) c where "a = [c]" "chtype c = SL"
    | (Symbol) c r where "a = c # r" "list_all (\<lambda>c. chtype c = SY) a" "c \<noteq> CHR 0x60" "c = CHR ''/'' \<longrightarrow> take 1 r \<noteq> ''*''"
proof -
  obtain c r where a: "a = c # r" using assms by (cases a) (auto simp: legalAtom_def)
  show ?thesis
    using assms that a by (auto simp: legalAtom_def split: if_splits)
qed

section \<open>One round\<close>

text \<open>The tokenizer stands before the text \<open>u\<close>, in the state \<open>s\<close>.\<close>

definition stands :: "scan_state \<Rightarrow> string \<Rightarrow> lexer \<Rightarrow> bool" where
  "stands s u lx \<longleftrightarrow> skip_layout (inp lx) = skip_layout u
    \<and> solo_flag lx = (solo s \<and> \<not> (adj s \<and> ch_is (CHR ''('') u)) \<and> 1024 \<le> imgsz lx"

lemma grow_past_ge: "k \<le> sz \<Longrightarrow> k \<le> grow_past n sz"
proof (induction n sz rule: grow_past.induct)
  case (1 n sz)
  then show ?case by (subst grow_past.simps) (auto simp: grow_def)
qed

lemma round_tokens:
  "lex_step E S lx = Tokens ts lx' \<Longrightarrow> scan_tokens E S (Suc n) lx = with_tokens ts (scan_tokens E S n lx')"
  by simp

text \<open>A bracket, comma or bar.\<close>

lemma dropWhile_opener: "fits_before (Chars [c]) u \<Longrightarrow> c \<in> set ''([{|'' \<Longrightarrow> dropWhile (\<lambda>c. chtype c = BS) u = u"
  by (cases u) (auto simp: fits_before_def)

lemma step_open:
  assumes "stands s (CHR ''('' # u) lx" and "fits_before (Chars ''('' :: 'f piece) u"
  shows "\<exists>lx'. lex_step (E :: 'f env) S lx = Tokens [bracket_tok s] lx' \<and> stands \<lparr>solo = True, adj = False\<rparr> u lx' \<and> vars lx' = vars lx"
proof -
  have "skip_layout (inp lx) = CHR ''('' # u" using assms(1) by (simp add: stands_def skip_layout_first)
  then show ?thesis
    using assms dropWhile_opener [OF assms(2)]
    by (cases u) (auto simp: lex_step_def scan_bracket_def stands_def bracket_tok_def fits_before_def Let_def)
qed

lemma step_bracket:
  assumes "stands s (c # u) lx" and "c \<in> set ''[{)]},|''" and "fits_before (Chars [c] :: 'f piece) u"
  shows "\<exists>lx'. lex_step (E :: 'f env) S lx = Tokens [Ponctuation_tok [c]] lx' \<and> stands (s\<lparr>adj := False\<rparr>) u lx' \<and> vars lx' = vars lx"
proof -
  have "skip_layout (inp lx) = c # u" using assms(1,2) by (auto simp: stands_def skip_layout_first)
  moreover have "scan_bracket c u lx = Tokens [Ponctuation_tok [c] :: 'f token] (lx\<lparr>inp := u\<rparr>)"
  proof (cases "c \<in> set ''[{|''")
    case True
    then have "dropWhile (\<lambda>c. chtype c = BS) u = u" by (intro dropWhile_opener [OF assms(3)]) auto
    moreover have "\<not> ch_is d u" if "d \<in> set '')]}|''" for d
      using assms(3) that True by (cases u) (auto simp: fits_before_def)
    ultimately show ?thesis using True by (auto simp: scan_bracket_def Let_def)
  next
    case False
    then show ?thesis using assms(2) by (auto simp: scan_bracket_def Let_def)
  qed
  moreover have "chtype c = BK" "c \<noteq> CHR ''(''" using assms(2) by auto
  ultimately show ?thesis using assms(1) by (simp add: lex_step_def stands_def)
qed

text \<open>A name: the tokenizer is in the state after an atom.\<close>

lemma stands_before_bracket:
  assumes "solo_flag lx = solo s" and "1024 \<le> imgsz lx"
  shows "stands \<lparr>solo = solo s, adj = True\<rparr> u (before_bracket u lx)"
  using assms by (simp add: stands_def before_bracket_def)

lemma step_name:
  assumes "stands s (c # r @ u) lx" and "chtype c = LC" and "list_all alnum r" and "list_all ascii (c # r)"
    and "u = [] \<or> \<not> alnum (hd u)"
  shows "\<exists>lx'. lex_step (E :: 'f env) S lx = Tokens [Name_tok (c # r)] lx' \<and> stands \<lparr>solo = solo s, adj = True\<rparr> u lx' \<and> vars lx' = vars lx"
proof -
  have c: "c \<noteq> CHR ''/''" "c \<noteq> CHR ''(''" using assms(2) by auto
  have "skip_layout (inp lx) = c # r @ u" using assms(1,2) c by (simp add: stands_def skip_layout_first)
  moreover have "takeWhile alnum (r @ u) = r" "dropWhile alnum (r @ u) = u"
    using assms(3,5) by (cases u; auto simp: list_all_iff takeWhile_eq_all_conv dropWhile_eq_Nil_conv)+
  ultimately show ?thesis
    using assms(1,2) c utf8_text_ascii [OF assms(4)] grow_past_ge [of 1024 "imgsz lx" "length r + 1"]
    by (auto simp: lex_step_def scan_name_def Let_def stands_def intro!: stands_before_bracket [unfolded stands_def]
      simp: before_bracket_def)
qed

lemma step_solo:
  assumes "stands s (c # u) lx" and "chtype c = SL"
  shows "\<exists>lx'. lex_step (E :: 'f env) S lx = Tokens [Name_tok [c]] lx' \<and> stands \<lparr>solo = solo s, adj = True\<rparr> u lx' \<and> vars lx' = vars lx"
proof -
  have c: "c \<noteq> CHR ''/''" "c \<noteq> CHR ''(''" using assms(2) by auto
  then have "skip_layout (inp lx) = c # u" using assms by (simp add: stands_def skip_layout_first)
  then show ?thesis
    using assms c by (auto simp: lex_step_def stands_def before_bracket_def)
qed

lemma step_empty:
  assumes "stands s (a @ u) lx" and "a = ''[]'' \<or> a = ''{}''"
  shows "\<exists>lx'. lex_step (E :: 'f env) S lx = Tokens [Name_tok a] lx' \<and> stands \<lparr>solo = False, adj = True\<rparr> u lx' \<and> vars lx' = vars lx"
proof -
  have "skip_layout (inp lx) = a @ u" using assms by (auto simp: stands_def skip_layout_first)
  then show ?thesis
    using assms by (auto simp: lex_step_def scan_bracket_def stands_def)
qed

lemma step_symbol:
  assumes "stands s (c # r @ u) lx" and "list_all (\<lambda>c. chtype c = SY) (c # r)" and "list_all ascii (c # r)"
    and "c \<noteq> CHR 0x60" "c \<noteq> CHR ''.''" and "c = CHR ''/'' \<longrightarrow> take 1 r \<noteq> ''*''"
    and "u = [] \<or> chtype (hd u) \<noteq> SY"
  shows "\<exists>lx'. lex_step (E :: 'f env) S lx = Tokens [Name_tok (c # r)] lx' \<and> stands \<lparr>solo = True, adj = True\<rparr> u lx' \<and> vars lx' = vars lx"
proof -
  have "c = CHR ''/'' \<longrightarrow> \<not> ch_is (CHR ''*'') (r @ u)" using assms(6,7) by (cases r; cases u) auto
  then have "skip_layout (inp lx) = c # r @ u" using assms(1,2) by (simp add: stands_def skip_layout_first)
  moreover have "takeWhile (\<lambda>c. chtype c = SY) (r @ u) = r" "dropWhile (\<lambda>c. chtype c = SY) (r @ u) = u"
    using assms(2,7) by (cases u; auto simp: list_all_iff takeWhile_eq_all_conv dropWhile_eq_Nil_conv)+
  ultimately show ?thesis
    using assms(1,2,4,5) utf8_text_ascii [OF assms(3)] grow_past_ge [of 1024 "imgsz lx" "length r + 10"]
    by (simp add: lex_step_def enter_symbol_def Let_def stands_def)
qed

lemma step_quoted:
  assumes "stands s (quoted True CHR 0x27 a @ u) lx" and "list_all ascii a" and "char_escapes S" and "length a < 1024"
    and "\<not> ch_is CHR 0x27 u"
  shows "\<exists>lx'. lex_step (E :: 'f env) S lx = Tokens [Name_tok a] lx' \<and> stands \<lparr>solo = solo s, adj = True\<rparr> u lx' \<and> vars lx' = vars lx"
proof -
  let ?r = "concat (map (write_quoted True CHR 0x27) a) @ CHR 0x27 # u"
  have i: "skip_layout (inp lx) = CHR 0x27 # ?r" using assms(1) by (simp add: stands_def quoted_def skip_layout_first)
  have "read_quoted S CHR 0x27 (imgsz lx) [] None ?r =
      Some \<lparr>q_buf = a, q_imgsz = imgsz lx, q_err = None, q_inp = u\<rparr>"
    using read_quoted_text [OF assms(2,3) _ assms(5), of "[]" "imgsz lx"] assms(1,4) by (simp add: stands_def)
  then show ?thesis
    using i assms(1) by (auto simp: lex_step_def quoted_string_def stands_def err_toks_def before_bracket_def quoted_def)
qed

text \<open>Numbers and variables.\<close>

lemma dec_digits_Cons: "\<exists>c r. dec_digits n = c # r \<and> chtype c = NU"
  using dec_digits_head [of n] dec_digits_NU [of n] by auto

lemma step_number:
  assumes "stands s (dec_digits n @ u) lx" and "gmp E" and "fits_Int (int n) \<or> limbs_fit E (int n)" and "number_ends u"
    and "length (dec_digits n) < 1000"
  shows "\<exists>lx'. lex_step E S lx = Tokens [Number_tok (int_term (int n))] lx' \<and> stands (s\<lparr>adj := False\<rparr>) u lx' \<and> vars lx' = vars lx"
proof -
  obtain c r where c: "dec_digits n = c # r" "chtype c = NU" using dec_digits_Cons by blast
  then have "c \<noteq> CHR ''/''" "c \<noteq> CHR ''(''" by auto
  with c assms(1) have i: "skip_layout (inp lx) = c # r @ u" "solo_flag lx = solo s"
    by (simp_all add: stands_def skip_layout_first)
  have "get_num E S False (imgsz lx) (c # r @ u) = Number (int_term (int n)) None False u"
    using get_num_dec [OF assms(2-4), of "imgsz lx" S] assms(1,5) c by (simp add: stands_def)
  then show ?thesis
    using i c assms(1) by (auto simp: lex_step_def scan_number_def err_toks_def stands_def)
qed

definition var_name :: "cint \<Rightarrow> string" where
  "var_name n = CHR ''_'' # sprintf_lld n"

lemma NU_ascii: "chtype c = NU \<Longrightarrow> ascii c"
  using NU_code [of c] by (simp add: ascii_def)

lemma digits_ascii: "list_all (\<lambda>c. chtype c = NU) s \<Longrightarrow> list_all ascii s"
  by (simp add: list_all_iff NU_ascii)

lemma digits_alnum: "list_all (\<lambda>c. chtype c = NU) s \<Longrightarrow> list_all alnum s"
  by (auto simp: list_all_iff)

lemma step_var:
  assumes "stands s (var_name n @ u) lx" and "0 \<le> sint n"
    and "u = [] \<or> \<not> alnum (hd u) \<and> hd u \<noteq> CHR 0x27 \<and> hd u \<noteq> CHR ''(''"
  shows "\<exists>lx'. lex_step (E :: 'f env) S lx = Tokens [Var_tok (new_var S (fst (Yap_LookupVar (var_name n) (vars lx))))] lx'
    \<and> stands (s\<lparr>adj := False\<rparr>) u lx' \<and> vars lx' = snd (Yap_LookupVar (var_name n) (vars lx))"
proof -
  let ?r = "dec_digits (nat (sint n))"
  have name: "var_name n = CHR ''_'' # ?r" using assms(2) by (simp add: var_name_def sprintf_lld_def c_less_def)
  have r: "list_all alnum ?r" "list_all ascii (CHR ''_'' # ?r)"
    using digits_alnum digits_ascii dec_digits_NU by (simp_all add: ascii_def)
  have i: "skip_layout (inp lx) = CHR ''_'' # ?r @ u" "solo_flag lx = solo s"
    using assms(1) by (simp_all add: stands_def skip_layout_first name)
  have "takeWhile alnum (?r @ u) = ?r" "dropWhile alnum (?r @ u) = u"
    using r(1) assms(3) by (cases u; auto simp: list_all_iff takeWhile_eq_all_conv dropWhile_eq_Nil_conv)+
  moreover have "takeWhile (\<lambda>c. c = CHR 0x27) u = []" "\<not> ch_is (CHR ''('') u" using assms(3) by (cases u; auto)+
  ultimately show ?thesis
    using i assms(1) utf8_text_ascii [OF r(2)] grow_past_ge [of 1024 "imgsz lx" "length ?r + 1"]
    by (simp add: lex_step_def scan_name_def Let_def stands_def name split_def)
qed

section \<open>The rounds of a piece\<close>

fun vars_after :: "'f piece \<Rightarrow> var_table \<Rightarrow> var_table" where
  "vars_after (Var_piece n) vt = snd (Yap_LookupVar (var_name n) vt)"
| "vars_after _ vt = vt"

definition cell_of :: "'f scanner \<Rightarrow> var_table \<Rightarrow> cint \<Rightarrow> cell" where
  "cell_of S vt n = new_var S (fst (Yap_LookupVar (var_name n) vt))"

definition scanned_as :: "'f env \<Rightarrow> 'f scanner \<Rightarrow> lexer \<Rightarrow> 'f tokens \<Rightarrow> lexer \<Rightarrow> bool" where
  "scanned_as E S lx ts lx' \<longleftrightarrow> (\<exists>k. \<forall>n. scan_tokens E S (k + n) lx = with_tokens ts (scan_tokens E S n lx'))"

lemma with_tokens_append: "with_tokens (ts @ us) r = with_tokens ts (with_tokens us r)"
  by (cases r) auto

lemma scanned_as_Nil: "scanned_as E S lx [] lx"
proof -
  have "with_tokens [] r = r" for r :: "'a scanned" by (cases r) auto
  then show ?thesis by (auto simp: scanned_as_def intro: exI [of _ 0])
qed

lemma scanned_as_step: "lex_step E S lx = Tokens ts lx' \<Longrightarrow> scanned_as E S lx ts lx'"
  by (auto simp: scanned_as_def intro: exI [of _ 1])

lemma scanned_as_trans:
  assumes "scanned_as E S lx ts lx'" and "scanned_as E S lx' us lx''"
  shows "scanned_as E S lx (ts @ us) lx''"
proof -
  obtain j k where "\<And>n. scan_tokens E S (j + n) lx = with_tokens ts (scan_tokens E S n lx')"
    "\<And>n. scan_tokens E S (k + n) lx' = with_tokens us (scan_tokens E S n lx'')"
    using assms by (auto simp: scanned_as_def)
  then have "scan_tokens E S (j + k + n) lx = with_tokens (ts @ us) (scan_tokens E S n lx'')" for n
    by (simp add: add.assoc with_tokens_append)
  then show ?thesis by (auto simp: scanned_as_def)
qed

definition piece_scanned :: "'f env \<Rightarrow> 'f scanner \<Rightarrow> scan_state \<Rightarrow> string \<Rightarrow> 'f piece \<Rightarrow> lexer \<Rightarrow> bool" where
  "piece_scanned E S s u x lx \<longleftrightarrow> (\<exists>lx'. scanned_as E S lx (piece_toks (cell_of S (vars lx)) s x) lx'
    \<and> stands (piece_after s x) u lx' \<and> vars lx' = vars_after x (vars lx))"

lemma piece_scannedI:
  assumes "lex_step E S lx = Tokens ts lx'" and "stands s' u lx'" and "vars lx' = vars_after x (vars lx)"
    and "ts = piece_toks (cell_of S (vars lx)) s x" and "s' = piece_after s x"
  shows "piece_scanned E S s u x lx"
  unfolding piece_scanned_def using assms scanned_as_step by blast

lemma atom_scanned:
  assumes "good_atom a" and "fits_before (Atom_piece q a :: 'f piece) u" and "stands s (atom_text True True a @ u) lx"
    and "char_escapes S"
  shows "piece_scanned (E :: 'f env) S s u (Atom_piece q a) lx"
proof -
  have a: "list_all ascii a" "length a < 1024" "hd a \<noteq> CHR ''.''" using assms(1) by (simp_all add: good_atom_def)
  show ?thesis
  proof (cases "legalAtom a")
    case True
    then have t: "stands s (a @ u) lx" using assms(3) by (simp add: atom_text_def)
    from True show ?thesis
    proof (cases rule: legalAtom_cases)
      case (Name c r)
      then have "u = [] \<or> \<not> alnum (hd u)" using assms(2) True by (auto simp: fits_before_def)
      moreover have "\<not> symbol_name a" "\<not> empty_name a"
        using Name by (auto simp: symbol_name_def empty_name_def AtomIsSymbols_def)
      ultimately show ?thesis
        using step_name [of s c r u lx E S] Name t a(1) by (auto intro: piece_scannedI)
    next
      case Empty
      then have "\<not> symbol_name a" by (auto simp: symbol_name_def AtomIsSymbols_def)
      then show ?thesis using step_empty [OF t Empty, of E S] Empty by (auto simp: empty_name_def intro: piece_scannedI)
    next
      case (Solo c)
      then have "\<not> symbol_name a" "\<not> empty_name a" by (auto simp: symbol_name_def empty_name_def AtomIsSymbols_def)
      then show ?thesis using step_solo [of s c u lx E S] Solo t by (auto intro: piece_scannedI)
    next
      case (Symbol c r)
      then have sy: "symbol_name a" using True by (auto simp: symbol_name_def AtomIsSymbols_def)
      then have "u = [] \<or> chtype (hd u) \<noteq> SY" using assms(2) True by (auto simp: fits_before_def)
      then show ?thesis
        using step_symbol [of s c r u lx E S] Symbol t a sy by (auto intro: piece_scannedI)
    qed
  next
    case False
    then have "\<not> symbol_name a" "\<not> empty_name a"
      by (auto simp: symbol_name_def empty_name_def legalAtom_def)
    moreover have "\<not> ch_is CHR 0x27 u" using assms(2) False by (cases u) (auto simp: fits_before_def)
    ultimately show ?thesis
      using step_quoted [of s a u lx S E] assms(3,4) a False by (auto simp: atom_text_def intro: piece_scannedI)
  qed
qed

definition int_text :: "int \<Rightarrow> string" where
  "int_text z = (if z < 0 then CHR ''-'' # dec_digits (nat (- z)) else dec_digits (nat z))"

lemma number_scanned:
  assumes "gmp E" and "readable_int E z" and "number_ends u" and "stands s (int_text z @ u) lx"
    and x: "\<And>vc s. piece_toks vc s x = number_toks z" "\<And>s. piece_after s x = \<lparr>solo = (z < 0 \<or> solo s), adj = False\<rparr>"
      "\<And>vt. vars_after x vt = vt"
  shows "piece_scanned E S s u x lx"
proof -
  have fits: "fits_Int (int (nat \<bar>z\<bar>)) \<or> limbs_fit E (int (nat \<bar>z\<bar>))" "length (dec_digits (nat \<bar>z\<bar>)) < 1000"
    using assms(2) by (auto simp: readable_int_def abs_if)
  note num = step_number [OF _ assms(1) fits(1) assms(3) fits(2)]
  show ?thesis
  proof (cases "z < 0")
    case True
    then have t: "stands s (CHR ''-'' # [] @ dec_digits (nat \<bar>z\<bar>) @ u) lx" using assms(4) by (simp add: int_text_def)
    have "chtype (hd (dec_digits (nat \<bar>z\<bar>) @ u)) \<noteq> SY" using dec_digits_Cons [of "nat \<bar>z\<bar>"] by auto
    then obtain lx1 where lx1: "lex_step E S lx = Tokens [Name_tok ''-''] lx1"
      "stands \<lparr>solo = True, adj = True\<rparr> (dec_digits (nat \<bar>z\<bar>) @ u) lx1" "vars lx1 = vars lx"
      using step_symbol [OF t, of E S] by (auto simp: ascii_def)
    obtain lx2 where lx2: "lex_step E S lx1 = Tokens [Number_tok (int_term (int (nat \<bar>z\<bar>)))] lx2"
      "stands \<lparr>solo = True, adj = False\<rparr> u lx2" "vars lx2 = vars lx1"
      using num [OF lx1(2), of S] by auto
    have "scanned_as E S lx ([Name_tok ''-''] @ [Number_tok (int_term (int (nat \<bar>z\<bar>)))]) lx2"
      using lx1 lx2 by (blast intro: scanned_as_trans scanned_as_step)
    then show ?thesis
      unfolding piece_scanned_def x using True lx1(3) lx2(2,3) by (intro exI [of _ lx2]) (simp add: number_toks_def)
  next
    case False
    then have "stands s (dec_digits (nat \<bar>z\<bar>) @ u) lx" using assms(4) by (simp add: int_text_def)
    from num [OF this, of S] show ?thesis
      using False x by (auto simp: number_toks_def intro: piece_scannedI)
  qed
qed

lemma dollar_scanned:
  assumes "stands s (CHR 0x27 # ''$VAR'' @ CHR 0x27 # ''('' @ u) lx" and "char_escapes S"
    and "fits_before (Chars (CHR 0x27 # ''$VAR'' @ CHR 0x27 # ''('') :: 'f piece) u"
  shows "piece_scanned (E :: 'f env) S s u (Chars (CHR 0x27 # ''$VAR'' @ CHR 0x27 # ''('')) lx"
proof -
  have "stands s (quoted True CHR 0x27 ''$VAR'' @ CHR ''('' # u) lx"
    using assms(1) by (simp add: quoted_def write_quoted_def chtype_def Yap_chtype0_def)
  then obtain lx1 where lx1: "lex_step E S lx = Tokens [Name_tok ''$VAR''] lx1"
    "stands \<lparr>solo = solo s, adj = True\<rparr> (CHR ''('' # u) lx1" "vars lx1 = vars lx"
    using step_quoted [of s "''$VAR''" "CHR ''('' # u" lx S E] assms(2) by (auto simp: ascii_def)
  have "fits_before (Chars ''('' :: 'f piece) u" using assms(3) by (simp add: fits_before_def)
  then obtain lx2 where lx2: "lex_step E S lx1 = Tokens [Ponctuation_tok ''l''] lx2"
    "stands \<lparr>solo = True, adj = False\<rparr> u lx2" "vars lx2 = vars lx1"
    using step_open [OF lx1(2), of E S] by (auto simp: bracket_tok_def)
  have "scanned_as E S lx ([Name_tok ''$VAR''] @ [Ponctuation_tok ''l'']) lx2"
    using lx1 lx2 by (blast intro: scanned_as_trans scanned_as_step)
  then show ?thesis
    unfolding piece_scanned_def using lx1(3) lx2(2,3) by (intro exI [of _ lx2]) simp
qed

lemma chars_scanned:
  assumes "good_piece E (Chars c :: 'f piece)" and "c \<noteq> '' ''" and "fits_before (Chars c :: 'f piece) u" and "stands s (c @ u) lx"
    and "char_escapes S"
  shows "piece_scanned (E :: 'f env) S s u (Chars c) lx"
proof -
  consider "c = ''(''" | b where "c = [b]" "b \<in> set ''[{)]},|''" | "c = CHR 0x27 # ''$VAR'' @ CHR 0x27 # ''(''"
    using assms(1,2) by auto
  then show ?thesis
  proof cases
    case 1
    then show ?thesis using step_open [of s u lx E S] assms(3,4) by (auto intro: piece_scannedI)
  next
    case (2 b)
    then have "b \<noteq> CHR ''(''" "b \<noteq> CHR '' ''" by auto
    then show ?thesis using step_bracket [of s b u lx E S] assms(3,4) 2 by (auto intro: piece_scannedI)
  next
    case 3
    then show ?thesis using dollar_scanned [of s u lx S E] assms(3,4,5) by simp
  qed
qed

lemma vars_after_ok: "vars_ok vt \<Longrightarrow> vars_ok (vars_after x vt)"
  by (cases x) (simp_all add: LookupVar_enters)

text \<open>The names that a list of pieces enters, and the table after it.\<close>

definition names_of :: "'f piece list \<Rightarrow> string list" where
  "names_of xs = concat (map (\<lambda>x. case x of Var_piece n \<Rightarrow> [var_name n] | _ \<Rightarrow> []) xs)"

lemma names_of_simps [simp]:
  "names_of [] = []" "names_of (x # xs) = (case x of Var_piece n \<Rightarrow> [var_name n] | _ \<Rightarrow> []) @ names_of xs"
  by (simp_all add: names_of_def)

lemma vars_after_names: "look_up_all (names_of (x # xs)) vt = look_up_all (names_of xs) (vars_after x vt)"
  by (cases x) simp_all

lemma var_name_not_anonymous: "var_name n \<noteq> ''_''"
  by (simp add: var_name_def sprintf_lld_def dec_digits_not_Nil)

lemma toks_piece_cong:
  "(\<And>n. x = Var_piece n \<Longrightarrow> vc n = vc' n) \<Longrightarrow> piece_toks vc s x = piece_toks vc' s x"
  by (cases x) auto

lemma stands_blank: "stands s (CHR '' '' # u) lx \<Longrightarrow> stands (s\<lparr>adj := False\<rparr>) u lx"
  by (simp add: stands_def skip_layout_space)

locale written_text = gmp_text E for E :: "'f env" +
  fixes W :: "'f writer" and S :: "'f scanner"
  assumes escapes: "charescape W" "char_escapes S"
begin

lemma piece_scanned_good:
  assumes "good_piece E x" and "x \<noteq> Chars '' ''" and "fits_before x u" and "stands s (piece_text E W x @ u) lx"
  shows "piece_scanned E S s u x lx"
proof (cases x)
  case (Chars c)
  then show ?thesis using chars_scanned [of E c u s lx S] assms escapes by simp
next
  case (Atom_piece q a)
  then show ?thesis using atom_scanned [of a q u s lx S E] assms escapes by simp
next
  case (Int_piece n)
  then show ?thesis
    using number_scanned [OF gmp_axioms, of "sint n" u s lx x S] assms
    by (simp add: fits_before_def number_ends_def int_text_def sprintf_lld_def c_less_def)
next
  case (Big_piece z)
  then show ?thesis
    using number_scanned [OF gmp_axioms, of z u s lx x S] assms
    by (simp add: fits_before_def number_ends_def int_text_def get_str)
next
  case (Var_piece n)
  then show ?thesis
    using step_var [of s n u lx E S] assms
    by (auto simp: fits_before_def var_name_def cell_of_def intro: piece_scannedI)
qed (use assms in simp_all)

fun fitting :: "'f piece list \<Rightarrow> string \<Rightarrow> bool" where
  "fitting [] u \<longleftrightarrow> True"
| "fitting (x # xs) u \<longleftrightarrow> fits_before x (pieces_text E W xs @ u) \<and> fitting xs u"

lemma pieces_scanned:
  assumes "list_all (good_piece E) xs" and "fitting xs u" and "stands s (pieces_text E W xs @ u) lx" and "vars_ok (vars lx)"
    and "vt = look_up_all (names_of xs) (vars lx)"
  shows "\<exists>lx'. scanned_as E S lx (toks (cell_of S vt) s xs) lx' \<and> stands (scan_end s xs) u lx' \<and> vars lx' = vt"
  using assms
proof (induction xs arbitrary: s lx)
  case Nil
  then show ?case using scanned_as_Nil [of E S lx] by auto
next
  case (Cons x xs)
  show ?case
  proof (cases "x = Chars '' ''")
    case True
    then have "stands (s\<lparr>adj := False\<rparr>) (pieces_text E W xs @ u) lx" using Cons.prems(3) stands_blank by simp
    from Cons.IH [OF _ _ this] Cons.prems True show ?thesis by auto
  next
    case False
    have "piece_scanned E S s (pieces_text E W xs @ u) x lx"
      using Cons.prems by (intro piece_scanned_good [OF _ False]) simp_all
    then obtain lx1 where lx1: "scanned_as E S lx (piece_toks (cell_of S (vars lx)) s x) lx1"
      "stands (piece_after s x) (pieces_text E W xs @ u) lx1" "vars lx1 = vars_after x (vars lx)"
      by (auto simp: piece_scanned_def)
    have vt: "vt = look_up_all (names_of xs) (vars lx1)" using Cons.prems(5) lx1(3) vars_after_names [of x xs] by simp
    have same: "piece_toks (cell_of S (vars lx)) s x = piece_toks (cell_of S vt) s x"
    proof (rule toks_piece_cong)
      fix n assume "x = Var_piece n"
      then show "cell_of S (vars lx) n = cell_of S vt n"
        using place_stays [OF Cons.prems(4) var_name_not_anonymous] vt lx1(3) by (simp add: cell_of_def)
    qed
    obtain lx2 where lx2: "scanned_as E S lx1 (toks (cell_of S vt) (piece_after s x) xs) lx2"
      "stands (scan_end (piece_after s x) xs) u lx2" "vars lx2 = vt"
      using Cons.IH [OF _ _ lx1(2) _ vt] Cons.prems vars_after_ok [of "vars lx" x] lx1(3) by auto
    then show ?thesis
      using scanned_as_trans [OF lx1(1) lx2(1)] same by (intro exI [of _ lx2]) simp
  qed
qed

text \<open>The tokens of a text of pieces; blanks may follow it.\<close>

lemma pieces_tokenized:
  assumes "list_all (good_piece E) xs" and "fitting xs u" and "list_all (\<lambda>c. chtype c = BS) u"
  defines "vt \<equiv> look_up_all (names_of xs) no_vars"
  shows "Yap_tokenizer E S (pieces_text E W xs @ u) = Scanned (toks (cell_of S vt) \<lparr>solo = True, adj = False\<rparr> xs @ [eot_tok]) vt"
proof -
  let ?t = "pieces_text E W xs @ u" and ?s = "\<lparr>solo = True, adj = False\<rparr>"
  let ?r = "Scanned (toks (cell_of S vt) ?s xs @ [eot_tok]) vt"
  have "stands ?s ?t (lexer_start ?t)" "vars (lexer_start ?t) = no_vars" by (simp_all add: stands_def lexer_start_def)
  then obtain lx where lx: "scanned_as E S (lexer_start ?t) (toks (cell_of S vt) ?s xs) lx"
    "stands (scan_end ?s xs) u lx" "vars lx = vt"
    using pieces_scanned [OF assms(1,2), of ?s "lexer_start ?t" vt] vars_ok_no_vars vt_def by auto
  have "dropWhile (\<lambda>c. chtype c = BS) u = []" using assms(3) by (simp add: list_all_iff)
  then have "skip_layout u = []" by (simp add: skip_layout.simps [of u] del: dropWhile_eq_Nil_conv)
  then have "skip_layout (inp lx) = []" using lx(2) by (simp add: stands_def)
  then have "scan_tokens E S (Suc n) lx = Scanned [eot_tok] vt" for n using lx(3) by (simp add: lex_step_def)
  then obtain k where k: "\<And>n. scan_tokens E S (k + Suc n) (lexer_start ?t) = ?r"
    using lx(1) unfolding scanned_as_def by (metis with_tokens.simps(1))
  have ends: "scan_tokens E S (length ?t + 1) (lexer_start ?t) \<noteq> Scan_unfinished"
    by (rule scan_tokens_ends) (simp add: lexer_start_def)
  have "Yap_tokenizer E S ?t = scan_tokens E S (length ?t + 1 + k) (lexer_start ?t)"
    using scan_tokens_more [OF ends, of k] by (simp add: Yap_tokenizer_def)
  also have "\<dots> = scan_tokens E S (k + Suc (length ?t)) (lexer_start ?t)" by (simp add: add.commute)
  finally show ?thesis using k by simp
qed

end

end
