(* ===== verification/YapSpacing.thy ===== *)
theory YapSpacing
  imports YapLexing
begin

text \<open>
  The writer keeps its pieces apart: the kind \<open>lw\<close> of the last piece tells it when a blank is due, and so
  each piece may stand before the next one. With this the text of a term is read back as the term.
\<close>

section \<open>Pieces that may follow one another\<close>

text \<open>The piece that a term may begin with in the state \<open>w\<close>, and the one it may end with.\<close>

fun starts :: "wtype \<Rightarrow> 'f piece \<Rightarrow> bool" where
  "starts w (Chars c) \<longleftrightarrow>
    (if c = '' '' then w \<noteq> separator
     else c = ''('' \<and> w = separator \<or> c = ''['' \<or> c = ''{''
       \<or> c = CHR 0x27 # ''$VAR'' @ CHR 0x27 # ''('' \<and> w \<noteq> alphanum)"
| "starts w (Atom_piece q a) \<longleftrightarrow> w \<noteq> AtomIsSymbols a \<or> w = separator"
| "starts w (Int_piece n) \<longleftrightarrow> w \<noteq> alphanum \<and> (sint n < 0 \<longrightarrow> w \<noteq> symbol)"
| "starts w (Big_piece z) \<longleftrightarrow> w \<noteq> alphanum \<and> (z < 0 \<longrightarrow> w \<noteq> symbol)"
| "starts w (Var_piece n) \<longleftrightarrow> w \<noteq> alphanum"
| "starts w _ \<longleftrightarrow> False"

fun ends :: "'f piece \<Rightarrow> wtype \<Rightarrow> bool" where
  "ends (Chars c) w \<longleftrightarrow> w = separator \<and> (c = '')'' \<or> c = '']'' \<or> c = ''}'')"
| "ends (Atom_piece q a) w \<longleftrightarrow> w = AtomIsSymbols a"
| "ends (Int_piece n) w \<longleftrightarrow> w = alphanum"
| "ends (Big_piece z) w \<longleftrightarrow> w = alphanum"
| "ends (Var_piece n) w \<longleftrightarrow> w = alphanum"
| "ends _ w \<longleftrightarrow> False"

lemma good_atom_kinds:
  assumes "good_atom a"
  shows "AtomIsSymbols a = symbol \<longleftrightarrow> symbol_name a"
    and "\<not> legalAtom a \<Longrightarrow> AtomIsSymbols a = alphanum"
    and "legalAtom a \<Longrightarrow> chtype (hd a) = LC \<Longrightarrow> AtomIsSymbols a = alphanum"
proof -
  show s: "AtomIsSymbols a = symbol \<longleftrightarrow> symbol_name a" using assms by (auto simp: good_atom_def symbol_name_def)
  show "AtomIsSymbols a = alphanum" if l: "\<not> legalAtom a"
  proof -
    have "\<not> (a \<noteq> [] \<and> chtype (hd a) = SL \<and> tl a = [])"
    proof
      assume "a \<noteq> [] \<and> chtype (hd a) = SL \<and> tl a = []"
      then obtain c where "a = [c]" "chtype c = SL" by (cases a) auto
      moreover from this have "c \<noteq> CHR ''[''" "c \<noteq> CHR ''{''" by auto
      ultimately show False using l by (simp add: legalAtom_def)
    qed
    then show ?thesis using l s by (auto simp: AtomIsSymbols_def symbol_name_def split: if_splits)
  qed
  show "AtomIsSymbols a = alphanum" if "legalAtom a" "chtype (hd a) = LC"
    using that by (cases a) (auto simp: AtomIsSymbols_def legalAtom_def)
qed

text \<open>The first character of an atom's text.\<close>

definition atom_first :: "string \<Rightarrow> char" where
  "atom_first a = (if legalAtom a then hd a else CHR 0x27)"

lemma hd_atom_text: "a \<noteq> [] \<Longrightarrow> hd (atom_text True True a) = atom_first a"
  by (simp add: atom_text_def quoted_def atom_first_def)

lemma atom_first_cases:
  assumes "good_atom a"
  shows "alnum (atom_first a) \<Longrightarrow> AtomIsSymbols a = alphanum" and "chtype (atom_first a) = SY \<Longrightarrow> AtomIsSymbols a = symbol"
    and "atom_first a = CHR 0x27 \<Longrightarrow> AtomIsSymbols a = alphanum" and "atom_first a \<noteq> CHR ''.''" "atom_first a \<noteq> CHR ''(''"
    and "chtype (atom_first a) \<noteq> BS" "atom_first a \<notin> set '')]}|''"
proof -
  show "alnum (atom_first a) \<Longrightarrow> AtomIsSymbols a = alphanum"
    using good_atom_kinds [OF assms]
    by (cases "legalAtom a") (auto simp: atom_first_def alnum_def elim!: legalAtom_cases)
  show "chtype (atom_first a) = SY \<Longrightarrow> AtomIsSymbols a = symbol"
    by (cases "legalAtom a") (auto simp: atom_first_def AtomIsSymbols_def elim!: legalAtom_cases)
  show "atom_first a = CHR 0x27 \<Longrightarrow> AtomIsSymbols a = alphanum"
    using good_atom_kinds(2) [OF assms] by (cases "legalAtom a") (auto simp: atom_first_def elim!: legalAtom_cases)
  show "atom_first a \<noteq> CHR ''.''" using assms by (auto simp: atom_first_def good_atom_def)
  show "atom_first a \<noteq> CHR ''(''" "chtype (atom_first a) \<noteq> BS" "atom_first a \<notin> set '')]}|''"
    by (cases "legalAtom a"; auto simp: atom_first_def elim!: legalAtom_cases)+
qed

context written_text
begin

definition joins :: "'f piece \<Rightarrow> 'f piece \<Rightarrow> bool" where
  "joins x y \<longleftrightarrow> follow x (hd (piece_text E W y))"

lemma hd_digits:
  "chtype (hd (dec_digits n)) = NU" "hd (dec_digits n @ r) = hd (dec_digits n)"
  using dec_digits_Cons [of n] by auto

lemma hd_number:
  "hd (sprintf_lld n) = (if sint n < 0 then CHR ''-'' else hd (dec_digits (nat (sint n))))"
  "hd (mpz_get_str E 10 z) = (if z < 0 then CHR ''-'' else hd (dec_digits (nat z)))"
  by (simp_all add: sprintf_lld_def c_less_def get_str)

lemma piece_text_not_Nil: "good_piece E x \<Longrightarrow> piece_text E W x \<noteq> []"
  by (cases x) (auto simp: good_atom_def atom_text_def quoted_def sprintf_lld_def get_str)

lemma NU_first: "chtype c = NU \<Longrightarrow> c \<noteq> CHR ''(''" "chtype c = NU \<Longrightarrow> c \<notin> set '')]}|''"
  by auto

lemma starts_after_opener:
  assumes "good_piece E y" and "starts separator y" and "b \<in> {''('', ''['', ''{'', ''|'', CHR 0x27 # ''$VAR'' @ CHR 0x27 # ''(''}"
  shows "joins (Chars b) y"
proof -
  have "chtype (hd (piece_text E W y)) \<noteq> BS \<and> hd (piece_text E W y) \<notin> set '')]}|''"
  proof (cases y)
    case (Atom_piece q a)
    then show ?thesis
      using assms(1) atom_first_cases(6,7) [of a] hd_atom_text [of a] escapes by (auto simp: good_atom_def)
  next
    case (Int_piece n)
    then show ?thesis using hd_digits(1) [of "nat (sint n)"] NU_first(2) by (auto simp: hd_number)
  next
    case (Big_piece z)
    then show ?thesis using hd_digits(1) [of "nat z"] NU_first(2) by (auto simp: hd_number)
  qed (use assms in auto)
  then show ?thesis by (simp add: joins_def)
qed

lemma ends_before:
  assumes "good_piece E x" and "ends x w" and "c \<in> set '' )]},|''"
  shows "follow x c"
  using assms by (cases x) (auto simp: alnum_def)

lemma first_in_state:
  assumes "good_piece E y" and "starts w y"
  shows "w = alphanum \<Longrightarrow> \<not> alnum (hd (piece_text E W y)) \<and> hd (piece_text E W y) \<notin> {CHR 0x27, CHR ''.'', CHR ''(''}"
    and "w = symbol \<Longrightarrow> chtype (hd (piece_text E W y)) \<noteq> SY"
proof -
  show "\<not> alnum (hd (piece_text E W y)) \<and> hd (piece_text E W y) \<notin> {CHR 0x27, CHR ''.'', CHR ''(''}" if w: "w = alphanum"
  proof (cases y)
    case (Chars c)
    then show ?thesis using assms w by (auto simp: alnum_def split: if_splits)
  next
    case (Atom_piece q a)
    then have a: "q" "good_atom a" "AtomIsSymbols a \<noteq> alphanum" using assms w by auto
    then have "a \<noteq> []" by (simp add: good_atom_def)
    then have "hd (piece_text E W y) = atom_first a" using Atom_piece a(1) hd_atom_text escapes by simp
    then show ?thesis using atom_first_cases [OF a(2)] a(3) by auto
  qed (use assms w in auto)
  show "chtype (hd (piece_text E W y)) \<noteq> SY" if w: "w = symbol"
  proof (cases y)
    case (Chars c)
    then show ?thesis using assms w by (auto split: if_splits)
  next
    case (Atom_piece q a)
    then have a: "q" "good_atom a" "AtomIsSymbols a \<noteq> symbol" using assms w by auto
    then have "a \<noteq> []" by (simp add: good_atom_def)
    then have "hd (piece_text E W y) = atom_first a" using Atom_piece a(1) hd_atom_text escapes by simp
    then show ?thesis using atom_first_cases(2) [OF a(2)] a(3) by auto
  next
    case (Int_piece n)
    then show ?thesis using assms w hd_digits(1) [of "nat (sint n)"] by (simp add: hd_number)
  next
    case (Big_piece z)
    then show ?thesis using assms w hd_digits(1) [of "nat z"] by (simp add: hd_number)
  qed (use assms w in auto)
qed

lemma ends_starts:
  assumes "good_piece E x" and "ends x w" and "good_piece E y" and "starts w y"
  shows "joins x y"
proof -
  note f = first_in_state [OF assms(3,4)]
  show ?thesis
  proof (cases x)
    case (Atom_piece q a)
    then show ?thesis
      using assms(1,2) f good_atom_kinds [of a] by (auto simp: joins_def)
  qed (use assms(1,2) f in \<open>auto simp: joins_def\<close>)
qed

lemma joins_fitting:
  assumes "list_all (good_piece E) xs" and "successively joins xs" and "xs \<noteq> [] \<Longrightarrow> fits_before (last xs) u"
  shows "fitting xs u"
  using assms
proof (induction xs)
  case (Cons x xs)
  show ?case
  proof (cases xs)
    case Nil
    then show ?thesis using Cons.prems(3) by simp
  next
    case (Cons y ys)
    then have "piece_text E W y \<noteq> []" using Cons.prems(1) piece_text_not_Nil by simp
    then show ?thesis
      using Cons.IH Cons.prems Cons by (simp add: successively_Cons joins_def fits_before_def)
  qed
qed simp

section \<open>What the writer appends\<close>

definition neat :: "'f wglbs \<Rightarrow> 'f wglbs \<Rightarrow> bool" where
  "neat g g' \<longleftrightarrow> (\<exists>xs. written g xs g' \<and> xs \<noteq> [] \<and> list_all (good_piece E) xs \<and> successively joins xs
    \<and> starts (lw g) (hd xs) \<and> ends (last xs) (lw g'))"

lemma neatI:
  "written g xs g' \<Longrightarrow> xs \<noteq> [] \<Longrightarrow> list_all (good_piece E) xs \<Longrightarrow> successively joins xs \<Longrightarrow>
    starts (lw g) (hd xs) \<Longrightarrow> ends (last xs) (lw g') \<Longrightarrow> neat g g'"
  unfolding neat_def by blast

lemma successively_app:
  "successively P xs \<Longrightarrow> successively P ys \<Longrightarrow> P (last xs) (hd ys) \<Longrightarrow> successively P (xs @ ys)"
  by (rule iffD2 [OF successively_append_iff]) blast

lemma good_last: "list_all P xs \<Longrightarrow> xs \<noteq> [] \<Longrightarrow> P (last xs) \<and> P (hd xs)"
  using last_in_set [of xs] hd_in_set [of xs] by (simp add: list_all_iff)

lemma neat_written: "neat g g' \<Longrightarrow> Quote_illegal g' = Quote_illegal g \<and> Ignore_ops g' = Ignore_ops g
    \<and> Handle_vars g' = Handle_vars g \<and> MaxArgs g' = MaxArgs g"
  by (auto simp: neat_def written_def)

lemma neat_trans:
  assumes "neat g g1" and "neat g1 g2"
  shows "neat g g2"
proof -
  from assms obtain xs ys where x: "written g xs g1" "xs \<noteq> []" "list_all (good_piece E) xs" "successively joins xs"
      "starts (lw g) (hd xs)" "ends (last xs) (lw g1)"
    and y: "written g1 ys g2" "ys \<noteq> []" "list_all (good_piece E) ys" "successively joins ys"
      "starts (lw g1) (hd ys)" "ends (last ys) (lw g2)"
    unfolding neat_def by blast
  have "joins (last xs) (hd ys)" using good_last [OF x(3,2)] good_last [OF y(3,2)] x(6) y(5) ends_starts by blast
  then show ?thesis
    using x y written_trans [OF x(1) y(1)] by (intro neatI [of g "xs @ ys"]) (simp_all add: successively_append_iff)
qed

text \<open>A text between an opening and a closing bracket; the pieces \<open>ys\<close> end in the opening one.\<close>

lemma neat_enclosed:
  assumes "neat g0 g1" and "lw g0 = separator"
    and y: "written g ys g0" "ys \<noteq> []" "list_all (good_piece E) ys" "successively joins ys" "starts (lw g) (hd ys)"
      "last ys = Chars b" "b \<in> {''('', ''['', ''{'', ''|'', CHR 0x27 # ''$VAR'' @ CHR 0x27 # ''(''}"
    and z: "written g1 [Chars c] g2" "c = '')'' \<or> c = '']'' \<or> c = ''}''" "lw g2 = separator"
  shows "neat g g2"
proof -
  from assms(1) obtain xs where x: "written g0 xs g1" "xs \<noteq> []" "list_all (good_piece E) xs" "successively joins xs"
      "starts separator (hd xs)" "ends (last xs) (lw g1)"
    unfolding neat_def using assms(2) by auto
  have "joins (last ys) (hd xs)" using starts_after_opener [OF _ x(5) y(7)] good_last [OF x(3,2)] y(6) by simp
  moreover have "joins (last xs) (Chars c)"
  proof -
    have "hd c \<in> set '' )]},|''" using z(2) by auto
    from ends_before [OF conjunct1 [OF good_last [OF x(3,2)]] x(6) this] show ?thesis by (simp only: joins_def piece_text.simps)
  qed
  ultimately have "successively joins (ys @ xs @ [Chars c])"
    using x(2,4) y(4) by (intro successively_app) (simp_all cong del: successively_cong)
  moreover have "written g (ys @ xs @ [Chars c]) g2" by (rule written_trans [OF y(1) written_trans [OF x(1) z(1)]])
  moreover have "list_all (good_piece E) (ys @ xs @ [Chars c])" using x(3) y(3) z(2) by auto
  moreover have "starts (lw g) (hd (ys @ xs @ [Chars c]))" using y(2,5) by simp
  moreover have "ends (last (ys @ xs @ [Chars c])) (lw g2)" using z(2,3) by auto
  ultimately show ?thesis by (intro neatI [of g "ys @ xs @ [Chars c]"]) simp_all
qed

text \<open>Two texts with a comma or a bar between them.\<close>

lemma neat_between:
  assumes "neat g g1" and "neat g2 g3" and "lw g2 = separator"
    and y: "written g1 ys g2" "ys = [Chars '',''] \<or> (\<exists>b. ys = blank b @ [Chars ''|''])"
  shows "neat g g3"
proof -
  from assms(1) obtain xs where x: "written g xs g1" "xs \<noteq> []" "list_all (good_piece E) xs" "successively joins xs"
      "starts (lw g) (hd xs)" "ends (last xs) (lw g1)"
    unfolding neat_def by blast
  from assms(2) obtain zs where z: "written g2 zs g3" "zs \<noteq> []" "list_all (good_piece E) zs" "successively joins zs"
      "starts separator (hd zs)" "ends (last zs) (lw g3)"
    unfolding neat_def using assms(3) by auto
  have "joins (last xs) (hd ys)"
  proof -
    have "hd (piece_text E W (hd ys)) \<in> set '' )]},|''"
      using y(2) by (elim disjE exE) (simp_all add: blank_def)
    from ends_before [OF conjunct1 [OF good_last [OF x(3,2)]] x(6) this] show ?thesis by (simp only: joins_def)
  qed
  moreover have "joins (last ys) (hd zs)"
    using y(2) starts_after_opener [OF _ z(5), of "''|''"] good_last [OF z(3,2)] by (auto simp: joins_def)
  moreover have ys: "successively joins ys" "list_all (good_piece E) ys" "ys \<noteq> []"
    using y(2) by (auto simp: blank_def joins_def)
  ultimately have "successively joins (xs @ ys @ zs)"
    using x(4) z(4) by (intro successively_app) (simp_all cong del: successively_cong)
  moreover have "written g (xs @ ys @ zs) g3" by (rule written_trans [OF x(1) written_trans [OF y(1) z(1)]])
  moreover have "list_all (good_piece E) (xs @ ys @ zs)" using x(3) ys(2) z(3) by simp
  moreover have "starts (lw g) (hd (xs @ ys @ zs))" using x(2,5) by simp
  moreover have "ends (last (xs @ ys @ zs)) (lw g3)" using z(2,6) by simp
  ultimately show ?thesis using x(2) by (intro neatI [of g "xs @ ys @ zs"]) simp_all
qed

lemma neat_paren:
  assumes "neat (open_if b g) g1"
  shows "neat g (close_if b g1)"
proof (cases b)
  case True
  have "neat g (wrclose_bracket g1)"
  proof (rule neat_enclosed [OF _ _ written_open _ _ _ _ _ _ written_close])
    show "neat (wropen_bracket True g) g1" using assms True by (simp add: open_if_def)
  qed (auto simp: blank_def joins_def)
  then show ?thesis using True by (simp add: close_if_def)
qed (use assms in \<open>simp add: open_if_def close_if_def\<close>)

section \<open>Atoms, variables and numbers\<close>

lemma neat_atom:
  assumes "good_atom a" and "q"
  shows "neat g (putAtom q a g)"
proof (rule neatI [OF written_atom])
  show "a \<noteq> []" using assms(1) by (simp add: good_atom_def)
qed (use assms in \<open>auto simp: blank_def joins_def good_atom_def\<close>)

lemma neat_var:
  assumes "0 \<le> sint (signed_drop_bit 3 (v - H0 W) :: cint)"
  shows "neat g (write_var W v g)"
proof (rule neatI)
  show "written g (blank (lw g = alphanum) @ [Var_piece (signed_drop_bit 3 (v - H0 W))]) (write_var W v g)"
    by (simp add: written_def write_var_def space_if_def wrput_def wrputs_def blank_def)
qed (use assms in \<open>auto simp: blank_def joins_def write_var_def\<close>)

lemma neat_number:
  fixes z :: int
  assumes "good_piece E x" and "\<And>w. starts w x \<longleftrightarrow> w \<noteq> alphanum \<and> (z < 0 \<longrightarrow> w \<noteq> symbol)" and "\<And>w. ends x w \<longleftrightarrow> w = alphanum"
    and "\<not> neg \<Longrightarrow> 0 \<le> z"
    and g': "g' = (let (ob, g) = protect_open_number (last_minus g) neg g in protect_close_number ob (wrput x g))"
  shows "neat g g'"
proof (cases "lw g = symbol \<and> last_minus g \<and> \<not> neg")
  case True
  let ?xs = "blank (lw g \<noteq> separator) @ [Chars ''('']"
  have o: "starts separator x" using assms(2) by simp
  have "joins (Chars ''('') x" by (rule starts_after_opener [OF assms(1) o]) simp
  moreover have "joins x (Chars '')'')" unfolding joins_def by (rule ends_before [OF assms(1)]) (simp_all add: assms(3))
  ultimately have "successively joins (?xs @ [x] @ [Chars '')''])"
    using True by (intro successively_app) (simp_all add: blank_def joins_def cong del: successively_cong)
  moreover have "written g (?xs @ [x] @ [Chars '')'']) g'" "lw g' = separator"
    using True g' by (simp_all add: protect_open_number_def protect_close_number_def written_def wropen_bracket_def
      wrclose_bracket_def space_if_def wrput_def wrputs_def set_lw_def blank_def)
  ultimately show ?thesis
    using True assms(1) by (intro neatI [of g "?xs @ [x] @ [Chars '')'']"]) (simp_all add: blank_def)
next
  case False
  let ?b = "lw g = alphanum \<or> lw g = symbol \<and> neg"
  have "protect_open_number (last_minus g) neg g = (False, space_if ?b g)"
    unfolding protect_open_number_def by (rule if_not_P [OF False])
  then have "g' = protect_close_number False (wrput x (space_if ?b g))" using g' by simp
  then have "written g (blank ?b @ [x]) g'" "lw g' = alphanum"
    by (simp_all add: protect_close_number_def written_def space_if_def wrput_def wrputs_def set_lw_def blank_def)
  moreover have "successively joins (blank ?b @ [x])" by (simp add: blank_def joins_def)
  moreover have "starts (lw g) (hd (blank ?b @ [x]))"
  proof (cases ?b)
    case True
    then show ?thesis by (auto simp: blank_def)
  next
    case False
    have "\<not> z < 0 \<or> neg" using assms(4) by fastforce
    with False have "starts (lw g) x" unfolding assms(2) by auto
    then show ?thesis using False by (simp only: blank_def if_False append_Nil list.sel)
  qed
  moreover have "list_all (good_piece E) (blank ?b @ [x])" using assms(1) by (simp add: blank_def)
  ultimately show ?thesis using assms(3) by (intro neatI [of g "blank ?b @ [x]"]) simp_all
qed

lemma neat_last_minus [simp]:
  "neat (g\<lparr>last_minus := m\<rparr>) g' = neat g g'" "neat g (g'\<lparr>last_minus := m\<rparr>) = neat g g'"
  by (simp_all add: neat_def written_def)

end

section \<open>The writer\<close>

text \<open>The cells of a term's variables.\<close>

fun cells_of :: "'f trm \<Rightarrow> cell set" where
  "cells_of (VarT p) = {p}"
| "cells_of (PairT t u) = cells_of t \<union> cells_of u"
| "cells_of (ApplT f ts) = \<Union> (set (map cells_of ts))"
| "cells_of t = {}"

text \<open>The variables are cells of the global stack, which begins at \<open>H0\<close>.\<close>

definition global_cell :: "'f writer \<Rightarrow> cell \<Rightarrow> bool" where
  "global_cell W p \<longleftrightarrow> 0 \<le> sint (p - H0 W) \<and> (p - H0 W) AND 7 = 0"

locale printing_text = printing R E W vc ign hv ne + written_text E W S
  for R :: reader and E :: "'f env" and W :: "'f writer" and vc ign hv ne and S :: "'f scanner"
begin

definition global_cells :: "'f trm \<Rightarrow> bool" where
  "global_cells t \<longleftrightarrow> (\<forall>p \<in> cells_of t. global_cell W p)"

lemma global_cells_simps [simp]:
  "global_cells (PairT t u) \<longleftrightarrow> global_cells t \<and> global_cells u"
  "global_cells (ApplT f ts) \<longleftrightarrow> (\<forall>t \<in> set ts. global_cells t)"
  by (auto simp: global_cells_def)

definition neat_writes :: "'f trm \<Rightarrow> bool" where
  "neat_writes t \<longleftrightarrow> (\<forall>p d g. fits d t \<longrightarrow> opts g \<longrightarrow> neat g (writeTerm E R W t p d g))"

lemma neat_writesD: "neat_writes t \<Longrightarrow> fits d t \<Longrightarrow> opts g \<Longrightarrow> neat g (writeTerm E R W t p d g)"
  by (simp add: neat_writes_def)

lemma neat_opts: "neat g g' \<Longrightarrow> opts g \<Longrightarrow> opts g'"
  using neat_written [of g g'] by (simp add: opts_def)

lemma neat_operand:
  "neat_writes t \<Longrightarrow> fits d t \<Longrightarrow> opts g \<Longrightarrow> neat g (close_if b (writeTerm E R W t p d (open_if b g)))"
  by (rule neat_paren) (simp add: neat_writesD)

lemma neat_args:
  assumes "\<forall>t \<in> set ts. neat_writes t \<and> fits d t" and "ts \<noteq> []" and "opts g" and "0 < i"
  shows "neat g (write_args E R W False i ts d g)"
  using assms
proof (induction ts arbitrary: g i)
  case (Cons t ts)
  have t: "neat g (writeTerm E R W t 999 d g)" using Cons.prems by (simp add: neat_writesD)
  show ?case
  proof (cases "ts = []")
    case True
    then show ?thesis using t by (simp add: write_args.simps)
  next
    case False
    let ?g = "set_lw separator (wrputs '','' (writeTerm E R W t 999 d g))"
    have "opts ?g" using neat_opts [OF t] Cons.prems(3) by simp
    then have "neat ?g (write_args E R W False (i + 1) ts d ?g)" using Cons.IH Cons.prems(1) False by simp
    then have "neat g (write_args E R W False (i + 1) ts d ?g)"
      by (rule neat_between [OF t _ _ written_comma]) simp_all
    moreover have "i \<noteq> MaxArgs g" using Cons.prems(3,4) by (simp add: opts_def)
    ultimately show ?thesis using False by (simp add: write_args.simps)
  qed
qed simp

lemma neat_list:
  assumes "\<forall>u. wsize u < wsize t \<longrightarrow> writable E R ign hv ne u \<and> global_cells u \<longrightarrow> neat_writes u"
    and "writable E R ign hv ne t" and "global_cells t" and "IsPair_trm t" and "d = 0 \<or> need t - 1 \<le> d" and "opts g"
  shows "neat g (write_list E R W t d g)"
  using assms
proof (induction t arbitrary: d g)
  case (PairT t u)
  have d: "d \<noteq> 1" "fits (d - 1) t" using PairT.prems(5) need_ge2 [of t] by (auto simp: fits_def)
  have t: "neat g (writeTerm E R W t 999 (d - 1) g)"
    using PairT.prems d by (intro neat_writesD) auto
  have opt: "opts (writeTerm E R W t 999 (d - 1) g)" using neat_opts [OF t] PairT.prems(6) by simp
  consider "IsPair_trm u" | "u = TermNil" | "\<not> IsPair_trm u" "u \<noteq> TermNil" by blast
  then show ?case
  proof cases
    case 1
    let ?g = "wrputs '','' (set_lw separator (writeTerm E R W t 999 (d - 1) g))"
    have "neat ?g (write_list E R W u (d - 1) ?g)"
      using 1 PairT.prems opt by (intro PairT.IH(2)) (auto simp: TermNil_def)
    then have "neat g (write_list E R W u (d - 1) ?g)"
      by (rule neat_between [OF t _ _ written_comma_list]) (simp_all add: wrputs_def set_lw_def)
    then show ?thesis using 1 d by (simp add: write_list.simps)
  next
    case 2
    then show ?thesis using t d by (simp add: write_list.simps TermNil_def)
  next
    case 3
    let ?g = "set_lw separator (list_tail_start (writeTerm E R W t 999 (d - 1) g))"
    have "neat ?g (writeTerm E R W u 999 (d - 1) ?g)"
      using 3 PairT.prems opt by (intro neat_writesD) (auto simp: fits_def list_tail_start_def)
    then have "neat g (writeTerm E R W u 999 (d - 1) ?g)"
      by (rule neat_between [OF t _ _ written_bar]) auto
    then show ?thesis using 3 d by (simp add: write_list.simps)
  qed
qed simp_all

lemma neat_prefix:
  assumes "form_of R ign f [t] = Prefix_form opp rp" and "good_atom f" and t: "neat_writes t" "fits d t" and g: "opts g"
  shows "neat g (operand_end R t (opp > p) (writeTerm E R W t rp d (prefix_start R f t (opp > p) g)))"
proof -
  define g0 where "g0 = open_if (opp > p) g"
  define g1 where "g1 = (if \<not> bracket_operand R t \<and> f = ''-'' then (putAtom True f g0)\<lparr>last_minus := True\<rparr> else putAtom True f g0)"
  have "opts g0" using g by (simp add: g0_def)
  then have o1: "opts g1" by (simp add: g1_def)
  have start: "prefix_start R f t (opp > p) g = open_if (bracket_operand R t) g1"
    using g by (simp add: prefix_start_def g0_def g1_def open_if_def Let_def opts_def)
  have "neat g0 g1" using neat_atom [OF assms(2), of True g0] by (auto simp: g1_def)
  then have "neat g0 (close_if (bracket_operand R t) (writeTerm E R W t rp d (open_if (bracket_operand R t) g1)))"
    by (rule neat_trans [OF _ neat_operand [OF t o1]])
  then show ?thesis unfolding g0_def operand_end_def start by (rule neat_paren)
qed

lemma neat_infix_name:
  assumes "good_atom f" and "opts g" and g: "neat g0 g" and h: "neat (write_infix_name f g) g2"
  shows "neat g0 g2"
proof -
  consider "f = '',''" | "f = ''|''" | "f \<noteq> '',''" "f \<noteq> ''|''" by blast
  then show ?thesis
  proof cases
    case 1
    show ?thesis
      by (rule neat_between [OF g _ _ written_comma]) (use h 1 in \<open>simp_all add: write_infix_name_def\<close>)
  next
    case 2
    have "written g (blank (lw g = symbol \<or> lw g = separator) @ [Chars ''|'']) (write_infix_name f g)"
      using 2 by (simp add: write_infix_name_def written_def set_lw_def wrputs_def space_if_def blank_def)
    from neat_between [OF g h _ this] show ?thesis using 2 by (auto simp: write_infix_name_def)
  next
    case 3
    then have "write_infix_name f g = putAtom True f g" using assms(2) by (simp add: write_infix_name_def opts_def)
    then show ?thesis using neat_trans [OF g neat_trans [OF neat_atom [OF assms(1)]]] h by simp
  qed
qed

lemma neat_infix:
  assumes "good_atom f"
    and t: "neat_writes t" "fits d t" and u: "neat_writes u" "fits d u" and g: "opts g"
  shows "neat g (operand_end R u (opp > p) (writeTerm E R W u rp d (right_start R f t u
    (writeTerm E R W t lp d (left_start R t (opp > p) g)))))"
proof -
  define g0 where "g0 = open_if (opp > p) g"
  define g1 where "g1 = close_if (bracket_operand R t) (writeTerm E R W t lp d (open_if (bracket_operand R t) g0))"
  have o0: "opts g0" using g by (simp add: g0_def)
  have 1: "neat g0 g1" unfolding g1_def by (rule neat_operand [OF t o0])
  have opt: "opts g1" "opts (write_infix_name f g1)" using neat_opts [OF 1 o0] by simp_all
  have "neat g0 (close_if (bracket_operand R u) (writeTerm E R W u rp d (open_if (bracket_operand R u) (write_infix_name f g1))))"
    by (rule neat_infix_name [OF assms(1) opt(1) 1 neat_operand [OF u opt(2)]])
  then have "neat g (close_if (opp > p) (close_if (bracket_operand R u)
      (writeTerm E R W u rp d (open_if (bracket_operand R u) (write_infix_name f g1)))))"
    unfolding g0_def by (rule neat_paren)
  then show ?thesis by (simp add: operand_end_def right_start_def left_start_def g0_def g1_def)
qed

lemma neat_plain:
  assumes "good_atom f" and "ts \<noteq> []" and "\<forall>t \<in> set ts. neat_writes t \<and> fits d t" and g: "opts g"
  shows "neat g (wrclose_bracket (write_args E R W False 1 ts d
    (wropen_bracket False (set_lw separator (putAtom (Quote_illegal g) f g)))))"
proof -
  let ?g = "wropen_bracket False (set_lw separator (putAtom (Quote_illegal g) f g))"
  let ?b = "lw g = AtomIsSymbols f \<and> AtomIsSymbols f \<noteq> separator"
  let ?ys = "blank ?b @ [Atom_piece (Quote_illegal g) f, Chars ''('']"
  have f: "f \<noteq> []" using assms(1) by (simp add: good_atom_def)
  have "follow (Atom_piece q f) CHR ''(''" for q by (simp add: alnum_def)
  then have "successively joins ?ys" by (simp add: blank_def joins_def del: follow.simps) (simp add: joins_def)
  moreover have "starts (lw g) (hd ?ys)" by (auto simp: blank_def)
  moreover have "list_all (good_piece E) ?ys" using assms(1) g by (simp add: blank_def opts_def)
  moreover have "neat ?g (write_args E R W False 1 ts d ?g)" using assms by (intro neat_args) simp_all
  ultimately show ?thesis
    by (intro neat_enclosed [OF _ _ written_function_name [OF f] _ _ _ _ _ _ written_close, where b = "''(''"]) simp_all
qed

lemma neat_dollar:
  assumes t: "neat_writes t" "fits d t" and g: "opts g"
  shows "neat g (wrclose_bracket (writeTerm E R W t 999 d
    (wrmark (CHR 0x27 # ''$VAR'' @ CHR 0x27 # ''('') (space_if (lw g = alphanum) g))))"
proof -
  let ?q = "CHR 0x27 # ''$VAR'' @ CHR 0x27 # ''(''"
  let ?g = "wrmark ?q (space_if (lw g = alphanum) g)" and ?ys = "blank (lw g = alphanum) @ [Chars ?q]"
  have w: "written g ?ys ?g" by (simp add: written_def wrmark_def set_lw_def wrputs_def space_if_def blank_def)
  have "neat ?g (writeTerm E R W t 999 d ?g)" using t g by (intro neat_writesD) simp_all
  moreover have "successively joins ?ys" "starts (lw g) (hd ?ys)" "list_all (good_piece E) ?ys"
    by (simp_all add: blank_def joins_def)
  ultimately show ?thesis by (intro neat_enclosed [OF _ _ w _ _ _ _ _ _ written_close, where b = ?q]) simp_all
qed

lemma neat_marks:
  assumes "neat (wrmark [b] g) g1" and "b = CHR ''['' \<and> c = CHR '']'' \<or> b = CHR ''{'' \<and> c = CHR ''}''"
  shows "neat g (wrmark [c] g1)"
  by (rule neat_enclosed [OF assms(1) _ written_mark _ _ _ _ _ _ written_mark]) (use assms(2) in auto)

lemma neat_compound:
  assumes ok: "writable E R ign hv ne (ApplT f args)" and ts: "\<forall>t \<in> set args. neat_writes t \<and> fits d t" and g: "opts g"
  shows "neat g (write_compound E R W f args p d g)"
proof -
  have i: "Ignore_ops g = ign" "Handle_vars g = hv" using g by (simp_all add: opts_def)
  have form: "good_form R ign hv ne f args" and f: "good_atom f" and ne: "args \<noteq> []" using ok by simp_all
  show ?thesis
  proof (cases "form_of R ign f args")
    case (Prefix_form opp rp)
    then obtain t where "args = [t]" using form_ofD(1) by blast
    then show ?thesis using neat_prefix [of f t opp rp d g p] Prefix_form f ts g i by (simp add: write_compound.simps)
  next
    case (Infix_form opp lp rp)
    then obtain t u where "args = [t, u]" using form_ofD(2) by blast
    then show ?thesis using neat_infix [OF f, of t d u g p opp rp lp] Infix_form ts g i by (simp add: write_compound.simps)
  next
    case Var_form
    then obtain t where t: "args = [t]" using form_ofD(3) by blast
    then show ?thesis using neat_dollar [of t d g] Var_form form ts g i by (auto simp: write_compound.simps good_form_def)
  next
    case Braces_form
    then obtain t where t: "args = [t]" using form_ofD(4) by blast
    then have "neat (wrmark ''{'' g) (writeTerm E R W t GLOBAL_MaxPriority d (wrmark ''{'' g))"
      using ts g by (intro neat_writesD) simp_all
    then have "neat g (wrmark ''}'' (writeTerm E R W t GLOBAL_MaxPriority d (wrmark ''{'' g)))"
      by (rule neat_marks) simp
    then show ?thesis using Braces_form t i by (simp add: write_compound.simps)
  next
    case Plain_form
    then show ?thesis using neat_plain [OF f ne ts g] ok i by (simp add: write_compound.simps args_written_def)
  qed (use form in \<open>simp_all add: good_form_def\<close>)
qed

lemma write_neat: "writable E R ign hv ne t \<Longrightarrow> global_cells t \<Longrightarrow> neat_writes t"
proof (induction t rule: measure_induct_rule [where f = wsize])
  case (less t)
  show ?case
    unfolding neat_writes_def
  proof (intro allI impI)
    fix p d :: nat and g :: "'f wglbs"
    assume fits: "fits d t" and g: "opts g"
    have d: "d \<noteq> 1" using fits_not_1 [OF fits] .
    have q: "Quote_illegal g" using g by (simp add: opts_def)
    show "neat g (writeTerm E R W t p d g)"
    proof (cases t)
      case (VarT v)
      then show ?thesis using less.prems(2) neat_var [of v g] d
        by (simp add: writeTerm.simps global_cells_def global_cell_def sint_signed_drop_bit_eq)
    next
      case (AtmT a)
      then show ?thesis using neat_atom [of a True g] less.prems d q by (simp add: writeTerm.simps)
    next
      case (PairT a b)
      have "neat (wrmark ''['' g) (write_list E R W t (d - 1) (wrmark ''['' g))"
      proof (rule neat_list)
        show "d - 1 = 0 \<or> need t - 1 \<le> d - 1" using fits by (auto simp: fits_def)
      qed (use less g PairT in simp_all)
      then have "neat g (wrmark '']'' (write_list E R W t (d - 1) (wrmark ''['' g)))" by (rule neat_marks) simp
      then show ?thesis using PairT d no_strings by (simp add: writeTerm.simps)
    next
      case (ApplT f args)
      have "\<forall>u \<in> set args. neat_writes u \<and> fits (d - 1) u"
      proof
        fix u assume u: "u \<in> set args"
        then have "wsize u \<le> sum_list (map wsize args)" by (intro member_le_sum_list) auto
        then show "neat_writes u \<and> fits (d - 1) u"
          using less ApplT u fits_arg [of d f args u] fits by (auto simp: list_all_iff)
      qed
      then have "neat g (write_compound E R W f args p (d - 1) g)"
        using less.prems ApplT g by (intro neat_compound) simp_all
      then show ?thesis using ApplT d by (simp add: writeTerm.simps)
    next
      case (IntT n)
      have "neat g (wrputn n g)"
        by (rule neat_number [of "Int_piece n" "sint n" "c_less n 0"])
          (use less.prems IntT in \<open>simp_all add: wrputn_def c_less_0\<close>)
      then show ?thesis using IntT d by (simp add: writeTerm.simps)
    next
      case (LongT n)
      have "neat g (wrputn n g)"
        by (rule neat_number [of "Int_piece n" "sint n" "c_less n 0"])
          (use less.prems LongT in \<open>simp_all add: wrputn_def c_less_0\<close>)
      then show ?thesis using LongT d by (simp add: writeTerm.simps)
    next
      case (BigT z)
      have "neat g (write_mpint E z g)"
        by (rule neat_number [of "Big_piece z" z "mpz_sgn E z \<noteq> 0"])
          (use less.prems BigT in \<open>simp_all add: write_mpint_def sgn_z sgn_if split: if_splits\<close>)
      then show ?thesis using BigT d by (simp add: writeTerm.simps)
    qed (use less.prems in simp_all)
  qed
qed

section \<open>Reading the text\<close>

text \<open>The names of the variables of a term are among those the tokenizer has met.\<close>

lemma length_piece_toks:
  "good_piece E x \<Longrightarrow> length (piece_toks c s x) \<le> length (piece_text E W x)"
proof -
  have n: "length (number_toks z :: 'f tokens) \<le> length (int_text z)" for z
    using dec_digits_Cons [of "nat z"] dec_digits_Cons [of "nat (- z)"]
    by (auto simp: number_toks_def int_text_def)
  have t: "sprintf_lld n = int_text (sint n)" "mpz_get_str E 10 z = int_text z" for n z
    by (simp_all add: sprintf_lld_def int_text_def c_less_def get_str)
  have a: "a \<noteq> [] \<Longrightarrow> 0 < length (atom_text e q a)" for e q a by (simp add: atom_text_def quoted_def)
  assume "good_piece E x"
  then show ?thesis using n a by (cases x) (auto simp: t good_atom_def Suc_le_eq)
qed

lemma length_toks:
  "list_all (good_piece E) xs \<Longrightarrow> length (toks c s xs) \<le> length (pieces_text E W xs)"
  using length_piece_toks by (induction xs arbitrary: s) (auto intro: add_mono)

lemma written_text_tokenized:
  fixes p :: nat
  assumes "writable E R ign hv ne t" and "global_cells t" and "need t \<le> d" and "opts g" and "stream g = []"
    and "list_all (\<lambda>c. chtype c = BS) u"
  defines "xs \<equiv> stream (writeTerm E R W t p d g)"
  defines "vt \<equiv> look_up_all (names_of xs) no_vars"
  shows "Yap_tokenizer E S (pieces_text E W xs @ u) = Scanned (toks (cell_of S vt) \<lparr>solo = True, adj = False\<rparr> xs @ [eot_tok]) vt"
    and "\<And>c s. length (toks c s xs) \<le> length (pieces_text E W xs)"
proof -
  have "neat g (writeTerm E R W t p d g)"
    using write_neat [OF assms(1,2)] assms(3,4) by (simp add: neat_writes_def fits_def)
  then have x: "xs \<noteq> []" "list_all (good_piece E) xs" "successively joins xs" "ends (last xs) (lw (writeTerm E R W t p d g))"
    using assms(5) by (auto simp: neat_def written_def xs_def)
  have "fits_before (last xs) u"
  proof (cases u)
    case (Cons c u')
    then have "chtype c = BS" using assms(6) by simp
    then have "follow (last xs) c"
      using x(4) conjunct1 [OF good_last [OF x(2,1)]] by (cases "last xs") (auto simp: alnum_def)
    then show ?thesis using Cons by (simp add: fits_before_def)
  qed (simp add: fits_before_def)
  then have "fitting xs u" using joins_fitting [OF x(2,3)] by simp
  from pieces_tokenized [OF x(2) this assms(6)]
  show "Yap_tokenizer E S (pieces_text E W xs @ u) = Scanned (toks (cell_of S vt) \<lparr>solo = True, adj = False\<rparr> xs @ [eot_tok]) vt"
    by (simp add: vt_def)
  show "length (toks c s xs) \<le> length (pieces_text E W xs)" for c s by (rule length_toks [OF x(2)])
qed

end

section \<open>The variables read\<close>

fun tok_cells :: "'f token \<Rightarrow> cell set" where
  "tok_cells (Var_tok p) = {p}"
| "tok_cells (Number_tok t) = cells_of t"
| "tok_cells (String_tok t) = cells_of t"
| "tok_cells _ = {}"

lemma cells_of_number [simp]:
  "cells_of (int_term z) = {}" "cells_of (MkIntegerTerm i) = {}" "cells_of (Yap_MkBigIntTerm E z) = {}"
  by (simp_all add: int_term_def MkIntegerTerm_def mkInt_def Yap_MkBigIntTerm_def TermNil_def)

lemma cells_of_rename: "cells_of (rename r t) = r ` cells_of t"
  by (induction t) auto

lemma var_name_inj:
  assumes "var_name m = var_name n"
  shows "m = n"
proof -
  have "dec_val (sprintf_lld m) = dec_val (sprintf_lld n)" using assms by (simp add: var_name_def)
  then show ?thesis by (simp add: dec_val_sprintf)
qed

lemma word_of_cells:
  fixes a :: cell
  assumes "a AND 7 = 0"
  shows "push_bit 3 (signed_drop_bit 3 a) = a"
proof (rule bit_word_eqI)
  fix n assume "n < LENGTH(64)"
  then have n: "n < 64" by simp
  have "(7 :: cell) = mask 3" by (simp add: mask_eq_exp_minus_1)
  then have "take_bit 3 a = 0" using assms by (simp add: take_bit_eq_mask)
  then have "\<not> bit (take_bit 3 a) n" by simp
  then have low: "bit a n \<longrightarrow> 3 \<le> n" by (auto simp: bit_take_bit_iff)
  show "bit (push_bit 3 (signed_drop_bit 3 a)) n = bit a n"
    using n low by (auto simp: bit_push_bit_iff bit_signed_drop_bit_iff)
qed

lemma global_cell_place:
  assumes "global_cell W p" and "global_cell W q" and "signed_drop_bit 3 (p - H0 W) = signed_drop_bit 3 (q - H0 W)"
  shows "p = q"
proof -
  have "push_bit 3 (signed_drop_bit 3 (p - H0 W)) = p - H0 W" "push_bit 3 (signed_drop_bit 3 (q - H0 W)) = q - H0 W"
    using assms(1,2) by (simp_all only: global_cell_def word_of_cells)
  then have "p - H0 W = q - H0 W" using assms(3) by metis
  then show ?thesis by simp
qed

definition cells_toks :: "'f tokens \<Rightarrow> cell set" where
  "cells_toks ts = \<Union> (tok_cells ` set ts)"

lemma cells_toks_simps [simp]:
  "cells_toks [] = {}" "cells_toks (x # ts) = tok_cells x \<union> cells_toks ts" "cells_toks (ts @ us) = cells_toks ts \<union> cells_toks us"
  by (auto simp: cells_toks_def)

lemma cells_of_neg: "neg_number E t = Inr t' \<Longrightarrow> cells_of t' = {}"
  by (auto simp: neg_number_def mkInt_def Yap_gmp_neg_big_def MkBigAndClose_def MkRatAndClose_def Let_def
      Yap_MkBigRatTerm_def ArithError_def split: if_splits)

lemma cells_of_signed: "signed_constant E a x = Some t \<Longrightarrow> cells_of t = {}"
  by (auto simp: signed_constant_def split: if_splits)

lemma cells_of_appl:
  assumes "k \<le> length ts"
  shows "cells_of (Yap_MkApplTerm f k ts) \<subseteq> \<Union> (cells_of ` set ts)"
proof (cases "ts \<noteq> [] \<and> f = ''.'' \<and> k = 2")
  case True
  then have "ts ! 0 \<in> set ts" "ts ! 1 \<in> set ts" using assms by simp_all
  then have "cells_of (ts ! 0) \<union> cells_of (ts ! 1) \<subseteq> \<Union> (cells_of ` set ts)" by blast
  then show ?thesis using True by (simp add: Yap_MkApplTerm_def)
next
  case False
  then show ?thesis by (auto simp: Yap_MkApplTerm_def dest: in_set_takeD)
qed

lemma cells_of_args: "cells_of (args_term f ts) \<subseteq> \<Union> (cells_of ` set ts)"
  using cells_of_appl [of "length ts" ts f] by (simp add: args_term_def)

lemma cells_of_list: "cells_of (foldr PairT ts TermNil) = \<Union> (cells_of ` set ts)"
  by (induction ts) (auto simp: TermNil_def)

lemma cells_of_accessor:
  assumes "ts \<noteq> []" and "k \<le> 2"
  shows "cells_of (MakeAccessor ts f k) \<subseteq> \<Union> (cells_of ` set ts)"
proof -
  have "cells_of (MakeAccessor ts f k) \<subseteq> \<Union> (cells_of ` set [foldr PairT (tl ts) TermNil, hd ts])"
    unfolding MakeAccessor_def using assms(2) by (intro cells_of_appl) simp
  also have "\<dots> \<subseteq> \<Union> (cells_of ` set ts)" using assms(1) by (cases ts) (simp_all add: cells_of_list)
  finally show ?thesis .
qed

text \<open>The variables of a term that has been read stand in the tokens.\<close>

lemma phrase_cells:
  "phrase E R ts t p \<Longrightarrow> cells_of t \<subseteq> cells_toks ts"
  "arguments E R ts args \<Longrightarrow> \<Union> (cells_of ` set args) \<subseteq> cells_toks ts \<and> args \<noteq> []"
  "elements E R ts t \<Longrightarrow> cells_of t \<subseteq> cells_toks ts"
proof (induction rule: phrase_arguments_elements.inducts)
  case (prefix a opprio rprio ts t p)
  then show ?case using cells_of_appl [of 1 "[t]" a] by auto
next
  case (between a opprio lprio rprio ts1 t1 p1 ts2 t2 p2)
  then show ?case using cells_of_appl [of 2 "[t1, t2]" a] by auto
next
  case (postfix a opprio lprio ts t p)
  then show ?case using cells_of_appl [of 1 "[t]" a] by auto
next
  case (comma ts1 t1 p1 ts2 t2 p2)
  then show ?case using cells_of_appl [of 2 "[t1, t2]" "'',''"] by auto
next
  case (bar opprio lprio rprio ts1 t1 p1 ts2 t2 p2)
  then show ?case using cells_of_appl [of 2 "[t1, t2]" "''|''"] by auto
next
  case (braces c ts t p)
  then show ?case using cells_of_appl [of 1 "[t]" "''{}''"] by auto
next
  case (compound ts args a)
  then show ?case using cells_of_args [of a args] by auto
next
  case (applied opprio lprio ts t p ts2 args)
  then show ?case using cells_of_args [of "''()''" "t # args"] by auto
next
  case (indexed opprio lprio ts t p ts2 args)
  then show ?case using cells_of_accessor [of "t # args" 2 "''[]''"] by auto
next
  case (braced opprio lprio ts t p ts2 args)
  then show ?case using cells_of_accessor [of "t # args" 1 "''{}''"] by auto
qed (auto simp: TermNil_def dest: cells_of_neg cells_of_signed)

lemma Parse_cells:
  assumes "Yap_Parse E R q ws = Term_read t"
  shows "cells_of t \<subseteq> cells_toks ws"
proof -
  let ?st = "\<lparr>tokptr = ws, aux_sp = 0, shrunk = False\<rparr>"
  obtain st where "parse_term E R q ?st = Parsed t st"
    using assms by (auto simp: Yap_Parse_def parse_term_def after_parse_def split: parsed.splits if_splits)
  then obtain us p where "ws = us @ tokptr st" "phrase E R us t p"
    using parse_term_sound by (fastforce simp: reads_term_def)
  then show ?thesis using phrase_cells(1) [of E R us t p] by auto
qed

lemma cells_toks_pieces:
  assumes "list_all (good_piece E) xs"
  shows "cells_toks (toks c s xs) \<subseteq> c ` {n. Var_piece n \<in> set xs}"
  using assms
proof (induction xs arbitrary: s)
  case (Cons x xs)
  have "cells_toks (piece_toks c s x) \<subseteq> c ` {n. Var_piece n \<in> set (x # xs)}"
    using Cons.prems by (cases x) (auto simp: number_toks_def bracket_tok_def)
  then show ?case using Cons.IH [of "piece_after s x"] Cons.prems by auto
qed simp

context printing_text
begin

text \<open>The text of a term is read as the term; each of its variables becomes that of one entry of the table.\<close>

lemma written_text_reads:
  assumes t: "writable E R ign hv ne t" "global_cells t" "need t \<le> d" "opts g" "stream g = []"
    and u: "list_all (\<lambda>c. chtype c = BS) u"
    and len: "length (pieces_text E W (stream (writeTerm E R W t 1200 d g))) < 4095"
  shows "\<exists>ws vt ix. Yap_tokenizer E S (pieces_text E W (stream (writeTerm E R W t 1200 d g)) @ u) = Scanned ws vt
    \<and> Yap_Parse E R 1200 ws = Term_read (rename (\<lambda>p. new_var S (ix p)) t) \<and> inj_on ix (cells_of t)"
proof -
  let ?xs = "stream (writeTerm E R W t 1200 d g)" and ?s = "\<lparr>solo = True, adj = False\<rparr>"
  let ?n = "\<lambda>p. signed_drop_bit 3 (p - H0 W)"
  define vt where "vt = look_up_all (names_of ?xs) no_vars"
  note tok = written_text_tokenized [OF t u, where p = 1200, folded vt_def]
  have parse: "Yap_Parse E R 1200 (toks c ?s ?xs @ [eot_tok]) = Term_read (rename (\<lambda>p. c (?n p)) t)" for c
  proof -
    have "printing.ren W c = (\<lambda>p. c (?n p))"
      by (rule ext) (simp add: printing.ren_def [OF printing_axioms])
    then show ?thesis
      using printing.written_term_parses [OF printing_axioms t(1,3,4,5), of ?s c] tok(2) [of c ?s] len
      by (simp add: printing.flag_ok_def [OF printing_axioms])
  qed
  have "neat g (writeTerm E R W t 1200 d g)" using write_neat [OF t(1,2)] t(3,4) by (simp add: neat_writes_def fits_def)
  then have good: "list_all (good_piece E) ?xs" using t(5) by (auto simp: neat_def written_def)
  let ?ix = "\<lambda>p. fst (Yap_LookupVar (var_name (?n p)) vt)"
  have met: "var_name (?n p) \<in> fst ` set (entries vt)" if p: "p \<in> cells_of t" for p
  proof -
    have "?n p \<in> cells_of (rename (\<lambda>p. id (?n p)) t)" using p by (simp add: cells_of_rename)
    then have "?n p \<in> cells_toks (toks id ?s ?xs @ [eot_tok])" using Parse_cells [OF parse [of id]] by blast
    then have "Var_piece (?n p) \<in> set ?xs" using cells_toks_pieces [OF good, of id ?s] by auto
    then have "var_name (?n p) \<in> set (names_of ?xs)" by (force simp: names_of_def)
    then show ?thesis unfolding vt_def by (rule names_entered [OF vars_ok_no_vars])
  qed
  have ok: "vars_ok vt" unfolding vt_def by (rule look_up_all_ok [OF vars_ok_no_vars])
  have "inj_on ?ix (cells_of t)"
  proof (rule inj_onI)
    fix p q assume p: "p \<in> cells_of t" and q: "q \<in> cells_of t" and eq: "?ix p = ?ix q"
    then have "var_name (?n p) = var_name (?n q)"
      using places_differ [OF ok _ met [OF p] met [OF q] var_name_not_anonymous var_name_not_anonymous] by blast
    then have "?n p = ?n q" by (rule var_name_inj)
    have "global_cell W p" "global_cell W q" using t(2) p q by (simp_all add: global_cells_def)
    then show "p = q" using \<open>?n p = ?n q\<close> by (rule global_cell_place)
  qed
  moreover have "Yap_Parse E R 1200 (toks (cell_of S vt) ?s ?xs @ [eot_tok]) = Term_read (rename (\<lambda>p. new_var S (?ix p)) t)"
    using parse [of "cell_of S vt"] by (simp add: cell_of_def)
  ultimately show ?thesis
    using tok(1) by (intro exI [of _ "toks (cell_of S vt) ?s ?xs @ [eot_tok]"] exI [of _ vt] exI [of _ ?ix] conjI)
qed

end

end
