(* ===== verification/YapReaderProps.thy ===== *)
theory YapReaderProps
  imports YapSpacing
begin

text \<open>
  The properties of the reader and the writer: operators, tokenizer, variables, parser, and reading back
  what has been written.
\<close>

section \<open>Operators\<close>

lemma type_index_declared: "type_index type \<le> 7 \<Longrightarrow> type_index type \<in> {1, 2, 3, 4, 5, 6, 7}"
  by (auto simp: type_index_def upt_rec split: if_splits)

lemma op_word_declared:
  assumes "OpDec iso_mode p type a m tab = (Inr (), tab')" and "0 < p" and "p \<le> 1200"
  shows "op_word tab' (kind (type_index type)) (home m) a = flagged (type_index type) p"
    and "type_index type \<in> {1, 2, 3, 4, 5, 6, 7}" and "flagged (type_index type) p \<noteq> 0"
proof -
  have i: "type_index type \<le> 7"
    using assms(1) by (auto simp: OpDec_def Let_def split: if_splits)
  then show "type_index type \<in> {1, 2, 3, 4, 5, 6, 7}" by (rule type_index_declared)
  from prio_of_flagged [OF this assms(2)] assms(3) show nz: "flagged (type_index type) p \<noteq> 0"
    by (simp add: word_less_nat_alt word_le_nat_alt)
  show "op_word tab' (kind (type_index type)) (home m) a = flagged (type_index type) p"
    using OpDec_fields [OF i assms(1)] nz by (simp add: op_word_def Let_def)
qed

text \<open>
  C36: after op(P, Type, A) for an infix type, A is an infix operator of priority P, and takes P on the sides
  where the type says y, P - 1 where it says x. The entries of the table stay one per module.
\<close>

theorem infix_declared:
  assumes "entries_ok tab" and "OpDec iso_mode p type a m tab = (Inr (), tab')" and "0 < p" and "p \<le> 1200"
    and "type \<in> {''xfx'', ''xfy'', ''yfx''}"
  shows "IsInfixOp tab' (home m) a = Some (unat p, if type = ''yfx'' then unat p else unat p - 1,
    if type = ''xfy'' then unat p else unat p - 1)"
proof -
  have ok: "entries_ok tab'" using OpDec_entries_ok [OF assms(1), of iso_mode p type a m] assms(2) by simp
  note w = op_word_declared [OF assms(2-4)]
  have p: "p < 0x1000" using assms(4) by (simp add: word_less_nat_alt word_le_nat_alt)
  have "kind (type_index type) = INFIX_OP" using assms(5) by (auto simp: kind_def)
  then show ?thesis
    using w prio_of_flagged [OF w(2) assms(3) p] assms(5) by (auto simp: IsOp_word(2) [OF ok])
qed

theorem infix_declared_witness:
  "IsInfixOp (snd (OpDec True 700 ''xfx'' ''===>'' (Some ''lists'') InitOps)) (Some ''lists'') ''===>'' = Some (700, 699, 699)"
proof -
  have "fst (OpDec True 700 ''xfx'' ''===>'' (Some ''lists'') InitOps) = Inr ()"
  proof -
    have "InitOps ''===>'' = []"
    proof -
      have "fold declare_op ds (\<lambda>_. []) a = []" if "a \<notin> fst ` set ds" for ds a
        using that
        by (induction ds rule: rev_induct) (auto simp: declare_op_def OpDec_def Let_def split: sum.splits)
      moreover have "''===>'' \<notin> fst ` set Ops" by (simp add: Ops_def)
      ultimately show ?thesis by (simp add: InitOps_declare)
    qed
    then show ?thesis
      by (simp add: OpDec_def Let_def set_prio_def has_entry_def find_entry_def)
  qed
  then have "OpDec True 700 ''xfx'' ''===>'' (Some ''lists'') InitOps
      = (Inr (), snd (OpDec True 700 ''xfx'' ''===>'' (Some ''lists'') InitOps))" by (simp add: prod_eq_iff)
  from infix_declared [OF entries_ok_InitOps this] show ?thesis by (simp add: home_def)
qed

section \<open>Tokenizer\<close>

lemma no_eot_err [simp]: "eot_tok \<notin> set (err_toks e)"
  by (simp add: err_toks_def split: option.split)

definition eot_last :: "'f lexed \<Rightarrow> bool" where
  "eot_last r \<longleftrightarrow> (case r of Tokens ts lx \<Rightarrow> eot_tok \<notin> set ts
    | End ts \<Rightarrow> (\<exists>us. ts = us @ [eot_tok] \<and> eot_tok \<notin> set us) | _ \<Rightarrow> True)"

lemma eot_last_simps [simp]:
  "eot_last (Tokens ts lx) \<longleftrightarrow> eot_tok \<notin> set ts" "eot_last Lex_thrown" "eot_last Lex_undefined" "eot_last Quasi_quotation"
  "eot_last (End [eot_tok])" "eot_tok \<notin> set ts \<Longrightarrow> eot_last (End (ts @ [eot_tok]))"
  by (simp_all add: eot_last_def)

lemma lex_step_eot: "eot_last (lex_step (E :: 'f env) S lx)"
proof (cases "skip_layout (inp lx)")
  case Nil
  then show ?thesis by (simp add: lex_step_def)
next
  case (Cons c r)
  have sym: "eot_last (enter_symbol ts och s lx)" if "eot_tok \<notin> set ts" for ts :: "'f tokens" and och s
    using that by (simp add: enter_symbol_def Let_def)
  then have num: "eot_last (scan_number E S (c # r) lx)" by (simp add: scan_number_def split: number.split)
  have name: "eot_last (scan_name S c r lx)" by (simp add: scan_name_def Let_def split: prod.split)
  have quo: "eot_last (quoted_string S c r lx)" by (simp add: quoted_string_def Let_def split: option.split)
  have brk: "eot_last (scan_bracket c r lx)" by (simp add: scan_bracket_def Let_def)
  show ?thesis
    unfolding lex_step_def Cons list.case using sym num name quo brk by (cases "chtype c") auto
qed

lemma scan_tokens_eot:
  "scan_tokens E S n lx = Scanned ts vt \<Longrightarrow> \<exists>us. ts = us @ [eot_tok] \<and> eot_tok \<notin> set us"
proof (induction n arbitrary: lx ts)
  case (Suc n)
  show ?case
  proof (cases "lex_step E S lx")
    case (Tokens us lx')
    with Suc.prems obtain vs where vs: "scan_tokens E S n lx' = Scanned vs vt" "ts = us @ vs"
      by (auto simp: with_tokens_Scanned)
    from Suc.IH [OF vs(1)] obtain ws where "vs = ws @ [eot_tok]" "eot_tok \<notin> set ws" by blast
    with Tokens lex_step_eot [of E S lx] vs(2) show ?thesis by (intro exI [of _ "us @ ws"]) simp
  qed (use Suc.prems lex_step_eot [of E S lx] in \<open>simp_all add: eot_last_def\<close>)
qed simp

text \<open>
  C9: on every text of characters below 256 the loop of the tokenizer ends, after at most as many rounds
  as the text has characters and one, because every round that goes on takes a character. If no
  error is thrown, memory not overrun and no quasi quotation met, the tokens end with the token of the
  end of the text, which is nowhere else.
\<close>

theorem tokenizer_ends:
  "(case lex_step E S lx of Tokens ts lx' \<Rightarrow> length (inp lx') < length (inp lx) | _ \<Rightarrow> True)
    \<and> (\<forall>k. scan_tokens E S (length s + 1 + k) (lexer_start s) = Yap_tokenizer E S s)
    \<and> (case Yap_tokenizer E S s of Scan_unfinished \<Rightarrow> False
        | Scanned ts vt \<Rightarrow> (\<exists>us. ts = us @ [eot_tok] \<and> eot_tok \<notin> set us) | _ \<Rightarrow> True)"
proof (intro conjI allI)
  show "case lex_step E S lx of Tokens ts lx' \<Rightarrow> length (inp lx') < length (inp lx) | _ \<Rightarrow> True"
    by (cases "lex_step E S lx") (simp_all add: lex_step_takes)
  have ends: "scan_tokens E S (length s + 1) (lexer_start s) \<noteq> Scan_unfinished"
    by (rule scan_tokens_ends) (simp add: lexer_start_def)
  then show "scan_tokens E S (length s + 1 + k) (lexer_start s) = Yap_tokenizer E S s" for k
    using scan_tokens_more unfolding Yap_tokenizer_def by blast
  show "case Yap_tokenizer E S s of Scan_unfinished \<Rightarrow> False
      | Scanned ts vt \<Rightarrow> (\<exists>us. ts = us @ [eot_tok] \<and> eot_tok \<notin> set us) | _ \<Rightarrow> True"
    using ends scan_tokens_eot [of E S "length s + 1" "lexer_start s"] unfolding Yap_tokenizer_def
    by (cases "scan_tokens E S (length s + 1) (lexer_start s)") auto
qed

text \<open>
  The variable that the text begins with, behind blanks and comments: the run of letters, digits and
  underscores, and with \<open>ce\<close> the quotes behind it, if it starts with an upper case letter or an underscore
  and the options do not make it an atom.
\<close>

definition variable_at :: "'f scanner \<Rightarrow> string \<Rightarrow> string option" where
  "variable_at S s = (case skip_layout s of
      [] \<Rightarrow> None
    | c # r \<Rightarrow>
        let v = dropWhile alnum r; qs = (if ce_param S then takeWhile (\<lambda>c. c = CHR 0x27) v else []);
            w = utf8_text (c # takeWhile alnum r @ qs) in
        if chtype c \<in> {UC, UL} \<and> \<not> (vn_asfl S \<and> ch_is (CHR ''('') (drop (length qs) v)) \<and> (vprefix S \<longrightarrow> ch_is (CHR ''_'') w)
        then Some w else None)"

text \<open>The names of the variables, in the order of the rounds of the loop.\<close>

fun names_read :: "'f env \<Rightarrow> 'f scanner \<Rightarrow> nat \<Rightarrow> lexer \<Rightarrow> string list" where
  "names_read E S 0 lx = []"
| "names_read E S (Suc n) lx = (case lex_step E S lx of
      Tokens ts lx' \<Rightarrow> (case variable_at S (inp lx) of None \<Rightarrow> [] | Some w \<Rightarrow> [w]) @ names_read E S n lx'
    | _ \<Rightarrow> [])"

text \<open>The variables of a round: the one the text begins with, if any.\<close>

definition var_toks :: "'f tokens \<Rightarrow> 'f tokens" where
  "var_toks ts = filter (\<lambda>x. \<exists>p. x = Var_tok p) ts"

lemma var_toks_simps [simp]:
  "var_toks [] = []" "var_toks (x # ts) = (if \<exists>p. x = Var_tok p then x # var_toks ts else var_toks ts)"
  "var_toks (ts @ us) = var_toks ts @ var_toks us" "var_toks (err_toks e) = []"
  by (auto simp: var_toks_def err_toks_def split: option.split)

fun enters :: "'f scanner \<Rightarrow> lexer \<Rightarrow> string option \<Rightarrow> 'f lexed \<Rightarrow> bool" where
  "enters S lx v (Tokens ts lx') \<longleftrightarrow> (case v of
      None \<Rightarrow> var_toks ts = [] \<and> vars lx' = vars lx
    | Some n \<Rightarrow> var_toks ts = [Var_tok (new_var S (fst (Yap_LookupVar n (vars lx))))] \<and> vars lx' = snd (Yap_LookupVar n (vars lx)))"
| "enters S lx v (End ts) \<longleftrightarrow> var_toks ts = []"
| "enters S lx v r \<longleftrightarrow> True"

lemma vars_before_bracket [simp]: "vars (before_bracket s lx) = vars lx"
  by (simp add: before_bracket_def)

lemma lex_step_enters: "enters S lx (variable_at S (inp lx)) (lex_step (E :: 'f env) S lx)"
proof (cases "skip_layout (inp lx)")
  case Nil
  then show ?thesis by (simp add: lex_step_def)
next
  case (Cons c r)
  have sym: "enters S lx None (enter_symbol ts och s lx)" if "var_toks ts = []" for ts :: "'f tokens" and och s
    using that by (simp add: enter_symbol_def Let_def)
  then have num: "enters S lx None (scan_number E S (c # r) lx)" by (simp add: scan_number_def split: number.split)
  have quo: "enters S lx None (quoted_string S c r lx)" by (simp add: quoted_string_def Let_def split: option.split)
  have brk: "enters S lx None (scan_bracket c r lx)" by (simp add: scan_bracket_def Let_def)
  have name: "enters S lx (variable_at S (inp lx)) (scan_name S c r lx)" if "chtype c \<in> {UC, UL, LC}"
    using that by (auto simp: scan_name_def variable_at_def Cons Let_def split_def)
  have none: "variable_at S (inp lx) = None" if "chtype c \<notin> {UC, UL}"
    using that by (simp add: variable_at_def Cons Let_def)
  show ?thesis
    using sym num name quo brk none unfolding lex_step_def Cons list.case by (cases "chtype c") auto
qed

definition token_of :: "'f scanner \<Rightarrow> var_table \<Rightarrow> 'f token \<Rightarrow> string \<Rightarrow> bool" where
  "token_of S vt x n \<longleftrightarrow> (\<exists>i < length (entries vt). x = Var_tok (new_var S i) \<and> fst (entries vt ! i) = n)"

lemma token_of_later:
  assumes "token_of S vt x n" and "vars_ok vt"
  shows "token_of S (look_up_all ns vt) x n"
proof -
  obtain i where i: "i < length (entries vt)" "x = Var_tok (new_var S i)" "fst (entries vt ! i) = n"
    using assms(1) by (auto simp: token_of_def)
  obtain ms where ms: "map fst (entries (look_up_all ns vt)) = map fst (entries vt) @ ms"
    using look_up_all_names [OF assms(2)] by blast
  then have l: "i < length (entries (look_up_all ns vt))" using i(1) by (metis length_append length_map trans_less_add1)
  have "fst (entries (look_up_all ns vt) ! i) = map fst (entries (look_up_all ns vt)) ! i" using l by simp
  also have "\<dots> = fst (entries vt ! i)" using ms i(1) by (simp add: nth_append)
  finally show ?thesis using i(2,3) l unfolding token_of_def by blast
qed

lemma scan_tokens_vars:
  assumes "scan_tokens E S k lx = Scanned ts vt" and "vars_ok (vars lx)"
  shows "vt = look_up_all (names_read E S k lx) (vars lx) \<and> list_all2 (token_of S vt) (var_toks ts) (names_read E S k lx)"
  using assms
proof (induction k arbitrary: lx ts)
  case (Suc k)
  show ?case
  proof (cases "lex_step E S lx")
    case (Tokens us lx')
    with Suc.prems(1) obtain vs where vs: "scan_tokens E S k lx' = Scanned vs vt" "ts = us @ vs"
      by (auto simp: with_tokens_Scanned)
    note round = lex_step_enters [of S lx E, unfolded Tokens enters.simps]
    show ?thesis
    proof (cases "variable_at S (inp lx)")
      case None
      with round have r: "var_toks us = []" "vars lx' = vars lx" by simp_all
      have ok: "vars_ok (vars lx')" using Suc.prems(2) r(2) by simp
      have "vt = look_up_all (names_read E S k lx') (vars lx')"
        "list_all2 (token_of S vt) (var_toks vs) (names_read E S k lx')"
        using Suc.IH [OF vs(1) ok] by blast+
      moreover have "names_read E S (Suc k) lx = names_read E S k lx'" using Tokens None by simp
      ultimately show ?thesis using r vs(2) by (metis var_toks_simps(3) append_Nil)
    next
      case (Some n)
      with round have r: "var_toks us = [Var_tok (new_var S (fst (Yap_LookupVar n (vars lx))))]"
        "vars lx' = snd (Yap_LookupVar n (vars lx))" by simp_all
      have ok: "vars_ok (vars lx')" using LookupVar_enters [OF Suc.prems(2)] r(2) by simp
      let ?ns = "names_read E S k lx'"
      have ns: "vt = look_up_all ?ns (vars lx')" "list_all2 (token_of S vt) (var_toks vs) ?ns"
        using Suc.IH [OF vs(1) ok] by blast+
      have "token_of S (vars lx') (Var_tok (new_var S (fst (Yap_LookupVar n (vars lx))))) n"
        using LookupVar_place [OF Suc.prems(2), of n] r(2) by (auto simp: token_of_def)
      from token_of_later [OF this ok, of ?ns] ns r vs(2) Tokens Some show ?thesis by simp
    qed
  next
    case (End us)
    then show ?thesis
      using Suc.prems lex_step_enters [of S lx E] by simp
  qed (use Suc.prems in simp_all)
qed simp

text \<open>
  C12: the variable tokens of a text stand for the variables of the text, in their order: the token for
  a run of letters, digits and underscores that begins a round of the loop and is a variable (\<open>variable_at\<close>)
  is the cell of the entry with that name. Each name but \<open>_\<close> has one entry, in the order of the first
  occurrences, with the number of its occurrences, which the warning about singletons goes by.
\<close>

theorem tokenizer_variables:
  assumes "Yap_tokenizer E S s = Scanned ts vt"
  defines "ns \<equiv> names_read E S (length s + 1) (lexer_start s)"
  shows "list_all2 (token_of S vt) (var_toks ts) ns
    \<and> filter (\<lambda>e. fst e \<noteq> ''_'') (entries vt) =
      map (\<lambda>n. (n, count_list ns n)) (first_occurrences (filter (\<lambda>n. n \<noteq> ''_'') ns))"
proof -
  have "vars (lexer_start s) = no_vars" by (simp add: lexer_start_def)
  then have "vt = look_up_all ns no_vars" "list_all2 (token_of S vt) (var_toks ts) ns"
    using scan_tokens_vars [OF assms(1) [unfolded Yap_tokenizer_def]] vars_ok_no_vars unfolding ns_def by auto
  then show ?thesis
    using entries_read_vars [of ns] by (auto simp: read_vars_def look_up_all_def)
qed

text \<open>An environment for examples: one cell per entry, and texts as strings.\<close>

definition ex_scanner :: "rat scanner" where
  "ex_scanner = \<lparr>iso_flag = False, multiline_quoted = False, char_escapes = True, ce_param = False, vn_asfl = False,
     vprefix = False, new_var = (\<lambda>i. 8 * of_nat i), TDQ = StrT, TBQ = StrT, atof = (\<lambda>_. 0)\<rparr>"

theorem tokenizer_variables_witness:
  "\<exists>ts vt. Yap_tokenizer ref_env ex_scanner ''X+Y+X'' = Scanned ts vt
    \<and> list_all2 (token_of ex_scanner vt) (var_toks ts) [''X'', ''Y'', ''X'']
    \<and> filter (\<lambda>e. fst e \<noteq> ''_'') (entries vt) = [(''X'', 2), (''Y'', 1)]"
proof -
  have "case Yap_tokenizer ref_env ex_scanner ''X+Y+X'' of Scanned ts vt \<Rightarrow> True | _ \<Rightarrow> False" by code_simp
  then obtain ts vt where t: "Yap_tokenizer ref_env ex_scanner ''X+Y+X'' = Scanned ts vt"
    by (auto split: scanned.splits)
  have "names_read ref_env ex_scanner (length ''X+Y+X'' + 1) (lexer_start ''X+Y+X'') = [''X'', ''Y'', ''X'']" by code_simp
  with t tokenizer_variables [OF t] show ?thesis by (simp add: first_occurrences_def)
qed

section \<open>Parser\<close>

text \<open>
  C5: a term that the parser returns is the meaning of the tokens up to the end of the text by the grammar of
  operators, with a priority of at most the one asked for.
\<close>

theorem parser_follows_grammar:
  assumes "Yap_Parse E R q ws = Term_read t"
  shows "\<exists>ts rest p. ws = ts @ rest \<and> tok_of rest = eot_tok \<and> phrase E R ts t p \<and> p \<le> q"
proof -
  let ?st = "\<lparr>tokptr = ws, aux_sp = 0, shrunk = False\<rparr>"
  obtain st where st: "parse_term E R q ?st = Parsed t st" "tok st = eot_tok"
    using assms by (auto simp: Yap_Parse_def parse_term_def after_parse_def split: parsed.splits if_splits)
  then show ?thesis using parse_term_sound [OF st(1)] by (auto simp: reads_term_def)
qed

text \<open>A reader with four operators: \<open>:-\<close> of type xfx, the comma, \<open>not\<close> and \<open>-\<close> of type fy.\<close>

definition ex_reader :: reader where
  "ex_reader =
    \<lparr>ops = (\<lambda>a. if a = '':-'' then [\<lparr>OpModule = None, Prefix = 0, Infix = 0x34B0, Posfix = 0\<rparr>]
        else if a = '','' then [\<lparr>OpModule = None, Prefix = 0, Infix = 0x13E8, Posfix = 0\<rparr>]
        else if a = ''not'' then [\<lparr>OpModule = None, Prefix = 900, Infix = 0, Posfix = 0\<rparr>]
        else if a = ''-'' then [\<lparr>OpModule = None, Prefix = 200, Infix = 0, Posfix = 0\<rparr>] else []),
     cur_mod = Some ''user'', atom_addr = two_addresses, stray_prop = (\<lambda>_. False)\<rparr>"

theorem parser_follows_grammar_witness:
  "\<exists>ts rest p. [Name_tok ''a'', Name_tok '':-'', Name_tok ''not'', Name_tok ''b'', eot_tok] = ts @ rest
    \<and> tok_of rest = eot_tok
    \<and> phrase ref_env ex_reader ts (ApplT '':-'' [AtmT ''a'', ApplT ''not'' [AtmT ''b'']]) p \<and> p \<le> 1200"
proof (rule parser_follows_grammar)
  show "Yap_Parse ref_env ex_reader 1200 [Name_tok ''a'', Name_tok '':-'', Name_tok ''not'', Name_tok ''b'', eot_tok] =
      Term_read (ApplT '':-'' [AtmT ''a'', ApplT ''not'' [AtmT ''b'']])"
    by code_simp
qed

text \<open>
  C10: the parser always comes to an answer: the fuel it is given is enough for every list of
  tokens, and more gives the same result.
\<close>

theorem parser_answers:
  "Yap_Parse E R q ws \<noteq> Out_of_fuel
    \<and> (\<forall>k. ParseTerm E R (enough_fuel ws + k) q \<lparr>tokptr = ws, aux_sp = 0, shrunk = False\<rparr> =
      ParseTerm E R (enough_fuel ws) q \<lparr>tokptr = ws, aux_sp = 0, shrunk = False\<rparr>)"
proof
  let ?st = "\<lparr>tokptr = ws, aux_sp = 0, shrunk = False\<rparr>"
  have "parse_term E R q ?st \<noteq> Unfinished" by simp
  then show "Yap_Parse E R q ws \<noteq> Out_of_fuel"
    by (auto simp: Yap_Parse_def parse_term_def after_parse_def split: parsed.splits)
  show "\<forall>k. ParseTerm E R (enough_fuel ws + k) q ?st = ParseTerm E R (enough_fuel ws) q ?st"
    using parse_eq(1) [of ?st] by simp
qed

text \<open>Compound terms have arguments, and the functor of lists is a pair.\<close>

fun well_formed :: "'f trm \<Rightarrow> bool" where
  "well_formed (PairT t u) \<longleftrightarrow> well_formed t \<and> well_formed u"
| "well_formed (ApplT f ts) \<longleftrightarrow> ts \<noteq> [] \<and> (f = ''.'' \<longrightarrow> length ts \<noteq> 2) \<and> list_all well_formed ts"
| "well_formed t \<longleftrightarrow> True"

fun well_formed_tok :: "'f token \<Rightarrow> bool" where
  "well_formed_tok (Number_tok t) \<longleftrightarrow> well_formed t"
| "well_formed_tok (String_tok t) \<longleftrightarrow> well_formed t"
| "well_formed_tok x \<longleftrightarrow> True"

lemma well_formed_box [simp]: "well_formed (MkIntegerTerm i)" "well_formed (Yap_MkBigIntTerm E z)"
  by (simp_all add: MkIntegerTerm_def mkInt_def Yap_MkBigIntTerm_def TermNil_def)

lemma well_formed_args: "list_all well_formed ts \<Longrightarrow> well_formed (args_term f ts)"
  by (auto simp: args_term_def Yap_MkApplTerm_def list_all_length)

lemma well_formed_appl:
  "well_formed t \<Longrightarrow> well_formed (Yap_MkApplTerm f (Suc 0) [t])"
  "well_formed t \<Longrightarrow> well_formed u \<Longrightarrow> well_formed (Yap_MkApplTerm f 2 [t, u])"
  by (auto simp: Yap_MkApplTerm_def)

lemma well_formed_list: "list_all well_formed ts \<Longrightarrow> well_formed (foldr PairT ts TermNil)"
  by (induction ts) (auto simp: TermNil_def)

lemma well_formed_accessor:
  assumes "list_all well_formed ts" and "ts \<noteq> []" and "f \<noteq> ''.''" and "0 < k"
  shows "well_formed (MakeAccessor ts f k)"
proof -
  have "list_all well_formed [foldr PairT (tl ts) TermNil, hd ts]"
    using assms(1,2) by (cases ts) (auto intro: well_formed_list)
  then have "list_all well_formed (take k [foldr PairT (tl ts) TermNil, hd ts])"
    unfolding list_all_iff by (auto dest: in_set_takeD)
  then show ?thesis using assms(3,4) unfolding MakeAccessor_def Yap_MkApplTerm_def by simp
qed

lemma well_formed_neg: "neg_number E t = Inr t' \<Longrightarrow> well_formed t'"
  by (auto simp: neg_number_def mkInt_def Yap_gmp_neg_big_def MkBigAndClose_def MkRatAndClose_def Let_def
      Yap_MkBigRatTerm_def ArithError_def split: if_splits)

lemma well_formed_signed: "signed_constant E a x = Some t \<Longrightarrow> well_formed t"
  by (auto simp: signed_constant_def split: if_splits)

lemma phrase_well_formed:
  "phrase E R ts t p \<Longrightarrow> list_all well_formed_tok ts \<Longrightarrow> well_formed t"
  "arguments E R ts args \<Longrightarrow> list_all well_formed_tok ts \<Longrightarrow> list_all well_formed args \<and> args \<noteq> []"
  "elements E R ts t \<Longrightarrow> list_all well_formed_tok ts \<Longrightarrow> well_formed t"
  by (induction rule: phrase_arguments_elements.inducts)
    (auto simp: well_formed_appl well_formed_args well_formed_accessor TermNil_def dest: well_formed_neg well_formed_signed)

text \<open>
  C11: every term that the parser returns is well formed when the terms in the tokens are: no compound term without
  arguments, and none with the name of the list constructor and two arguments.
\<close>

theorem parser_makes_well_formed:
  assumes "Yap_Parse E R q ws = Term_read t" and "list_all well_formed_tok ws"
  shows "well_formed t"
proof -
  let ?st = "\<lparr>tokptr = ws, aux_sp = 0, shrunk = False\<rparr>"
  obtain st where "parse_term E R q ?st = Parsed t st"
    using assms by (auto simp: Yap_Parse_def parse_term_def after_parse_def split: parsed.splits if_splits)
  then obtain us p where "ws = us @ tokptr st" "phrase E R us t p"
    using parse_term_sound by (fastforce simp: reads_term_def)
  then show ?thesis using phrase_well_formed(1) [of E R us t p] assms(2) by simp
qed

theorem parser_makes_well_formed_witness:
  "\<exists>t. Yap_Parse ref_env ex_reader 1200 [Name_tok ''-'', Name_tok ''b'', eot_tok] = Term_read t \<and> well_formed t"
proof -
  have p: "Yap_Parse ref_env ex_reader 1200 [Name_tok ''-'', Name_tok ''b'', eot_tok] = Term_read (ApplT ''-'' [AtmT ''b''])"
    by code_simp
  show ?thesis using parser_makes_well_formed [OF p] p by simp
qed

lemma truncated_fails:
  "set bs \<subseteq> {Ponctuation_tok ''('', Ponctuation_tok ''[''} \<Longrightarrow> tokptr st = bs @ [eot_tok] \<Longrightarrow>
    parse_term E R q st = Failed (st\<lparr>tokptr := [eot_tok]\<rparr>)"
proof (induction bs arbitrary: q st)
  case Nil
  then have "st\<lparr>tokptr := [eot_tok]\<rparr> = st" by simp
  with Nil show ?case by (simp add: parse_term_eq primary_def)
next
  case (Cons b bs)
  let ?st = "st\<lparr>tokptr := bs @ [eot_tok]\<rparr>"
  have IH: "parse_term E R p ?st = Failed (st\<lparr>tokptr := [eot_tok]\<rparr>)" for p using Cons.IH [of ?st p] Cons.prems by simp
  have "tok_of (bs @ [eot_tok]) \<noteq> Ponctuation_tok '']''" using Cons.prems(1) by (cases bs) auto
  with Cons.prems IH show ?case
    by (auto simp: parse_term_eq [of E R q] primary_def ponctuation_primary_def bracketed_def GLOBAL_MaxPriority_def
        Let_def parse_list_eq list_round_def)
qed

text \<open>
  C37: on a text of nothing but opening round and square brackets, of any number, the parser returns
  the null term with no error set, although the text is no term.
\<close>

theorem truncated_text_is_silent:
  assumes "set bs \<subseteq> {Ponctuation_tok ''('', Ponctuation_tok ''[''}"
  shows "Yap_Parse E R q (bs @ [eot_tok]) = Null_term"
proof -
  have "parse_term E R q \<lparr>tokptr = bs @ [eot_tok], aux_sp = 0, shrunk = False\<rparr> =
      Failed \<lparr>tokptr = [eot_tok], aux_sp = 0, shrunk = False\<rparr>"
    using truncated_fails [OF assms, of "\<lparr>tokptr = bs @ [eot_tok], aux_sp = 0, shrunk = False\<rparr>"] by simp
  then show ?thesis by (simp add: Yap_Parse_def parse_term_def after_parse_def)
qed

theorem truncated_text_is_silent_witness:
  "Yap_Parse ref_env ex_reader 1200 [Ponctuation_tok ''('', Ponctuation_tok ''['', Ponctuation_tok ''('', eot_tok] = Null_term"
  using truncated_text_is_silent [of "[Ponctuation_tok ''('', Ponctuation_tok ''['', Ponctuation_tok ''('']"] by simp

text \<open>Arguments that are numbers, each followed by a comma; then one more.\<close>

lemma parse_number_argument:
  assumes "tokptr st = Number_tok t # Ponctuation_tok c # ws" and "c = '','' \<or> c = '')''"
  shows "parse_term E R 999 st = Parsed t (st\<lparr>tokptr := Ponctuation_tok c # ws\<rparr>)"
  using assms by (auto simp: parse_term_eq primary_def parse_rest_eq term_rest_def ponctuation_rest_def)

lemma arguments_overflow:
  assumes "c = '','' \<or> c = '')''"
  shows "tokptr st = concat (map (\<lambda>t. [Number_tok t, Ponctuation_tok '','']) ts) @ Number_tok u # Ponctuation_tok c # ws \<Longrightarrow>
    \<not> shrunk st \<Longrightarrow> aux_sp st + length ts = 4095 \<Longrightarrow> parse_args_loop E R cl p args st = Thrown UNDEFINED_BEHAVIOUR"
proof (induction ts arbitrary: args st)
  case Nil
  then have g: "grow_aux st = st\<lparr>shrunk := True\<rparr>" by (simp add: grow_aux_def ParserAuxMax_def)
  have "parse_term E R 999 (st\<lparr>shrunk := True\<rparr>) = Parsed u (st\<lparr>shrunk := True, tokptr := Ponctuation_tok c # ws\<rparr>)"
    using Nil by (subst parse_number_argument [OF _ assms]) auto
  then show ?case using Nil by (simp add: parse_args_loop_eq args_round_def g aux_lost_def)
next
  case (Cons t ts)
  let ?us = "concat (map (\<lambda>t. [Number_tok t, Ponctuation_tok '','']) ts) @ Number_tok u # Ponctuation_tok c # ws"
  have "parse_term E R 999 st = Parsed t (st\<lparr>tokptr := Ponctuation_tok '','' # ?us\<rparr>)"
    using Cons.prems by (subst parse_number_argument) auto
  moreover have "parse_args_loop E R cl p (args @ [t]) (st\<lparr>aux_sp := Suc (aux_sp st), tokptr := ?us\<rparr>) = Thrown UNDEFINED_BEHAVIOUR"
    by (rule Cons.IH) (use Cons.prems in simp_all)
  ultimately show ?case
    using Cons.prems by (simp add: parse_args_loop_eq [of E R cl p args st] args_round_def)
qed

text \<open>
  C38: of a compound term whose arguments are numbers the parser writes the 4096th beyond its stack of
  arguments, whatever its functor, the numbers, and the text after that argument are.
\<close>

theorem argument_stack_overflow:
  assumes "length ts = 4095" and "c = '','' \<or> c = '')''"
  shows "Yap_Parse E R q (Name_tok f # Ponctuation_tok ''l'' #
      concat (map (\<lambda>t. [Number_tok t, Ponctuation_tok '','']) ts) @ Number_tok u # Ponctuation_tok c # ws)
    = Stopped UNDEFINED_BEHAVIOUR"
proof -
  let ?us = "concat (map (\<lambda>t. [Number_tok t, Ponctuation_tok '','']) ts) @ Number_tok u # Ponctuation_tok c # ws"
  let ?st = "\<lparr>tokptr = Name_tok f # Ponctuation_tok ''l'' # ?us, aux_sp = 0, shrunk = False\<rparr>"
  have "parse_args E R '')'' None \<lparr>tokptr = Ponctuation_tok ''l'' # ?us, aux_sp = 0, shrunk = False\<rparr> = Thrown UNDEFINED_BEHAVIOUR"
    using arguments_overflow [OF assms(2), of "\<lparr>tokptr = ?us, aux_sp = 0, shrunk = False\<rparr>" ts u ws] assms(1)
    by (simp add: parse_args_eq args_start_def)
  then have "parse_term E R q ?st = Thrown UNDEFINED_BEHAVIOUR"
    by (simp add: parse_term_eq primary_def name_primary_def prefix_operator_def atom_or_compound_def)
  then show ?thesis by (simp add: Yap_Parse_def parse_term_def)
qed

theorem argument_stack_overflow_witness:
  "Yap_Parse ref_env ex_reader 1200 (Name_tok ''f'' # Ponctuation_tok ''l'' #
      concat (map (\<lambda>t. [Number_tok t, Ponctuation_tok '','']) (replicate 4095 (IntT 0))) @ [Number_tok (IntT 1), Ponctuation_tok '')'', eot_tok])
    = Stopped UNDEFINED_BEHAVIOUR"
  using argument_stack_overflow [of "replicate 4095 (IntT 0)" "'')''" ref_env ex_reader 1200 "''f''" "IntT 1" "[eot_tok]"] by simp

section \<open>Texts that are read as another term\<close>

definition ex_writer :: "rat writer" where
  "ex_writer = \<lparr>H0 = 0, write_strings_flag = False, charescape = True, printf_p = (\<lambda>_. []), printf_float = (\<lambda>_. []),
     OpaqueHandlers = (\<lambda>_. None)\<rparr>"

definition ex_flags :: write_flags where
  "ex_flags = \<lparr>Quote_illegal_f = True, Ignore_ops_f = False, Handle_vars_f = False, BackQuote_String_f = False,
     Fullstop_f = False, New_Line_f = False\<rparr>"

interpretation ref_gmp: gmp_text ref_env
  by unfold_locales (simp add: ref_env_def)

interpretation ref_text: written_text ref_env ex_writer ex_scanner
  by unfold_locales (simp_all add: ex_writer_def ex_scanner_def)

definition read_text :: "'f env \<Rightarrow> 'f scanner \<Rightarrow> reader \<Rightarrow> string \<Rightarrow> 'f answer option" where
  "read_text E S R s = (case Yap_tokenizer E S s of Scanned ws vt \<Rightarrow> Some (Yap_Parse E R 1200 ws) | _ \<Rightarrow> None)"

lemma read_text_Scanned: "Yap_tokenizer E S s = Scanned ws vt \<Longrightarrow> read_text E S R s = Some (Yap_Parse E R 1200 ws)"
  by (simp add: read_text_def)

lemma write_end_blank: "\<not> Fullstop_f flags \<Longrightarrow> list_all (\<lambda>c. chtype c = BS) (write_end flags)"
  by (simp add: write_end_def)

text \<open>
  C39: a bignum below a prefix minus is written without brackets, because the code takes every number that is not zero for a
  negative one, and so is read as the negative bignum.
\<close>

theorem minus_bignum_misread:
  assumes "written_text E W S" and "pre_op R ''-'' = Some (p, r)" and "p \<le> 1200" and "\<not> Ignore_ops_f flags"
    and "Quote_illegal_f flags" and "\<not> Fullstop_f flags"
    and "readable_int E z" and "0 < z" and "\<not> fits_Int z" and "\<not> fits_Int (- z)"
  shows "read_text E S R (Yap_plwrite E R W flags 0 m None (ApplT ''-'' [BigT z])) = Some (Term_read (BigT (- z)))"
proof -
  have G: "gmp E" using assms(1) by (simp add: written_text_def gmp_text_def)
  let ?g = "write_start flags 0 m :: 'a wglbs" and ?xs = "[Atom_piece True ''-'', Chars '' '', Big_piece z]"
  have form: "form_of R False ''-'' [BigT z :: 'a trm] = Prefix_form p r" using assms(2) by (simp add: form_of_def)
  have sgn: "mpz_sgn E z \<noteq> 0" using gmp.sgn_z [OF G] assms(8) by (simp add: sgn_if split: if_splits)
  have sym: "AtomIsSymbols ''-'' = symbol" "legalAtom ''-''"
    by (simp_all add: AtomIsSymbols_def legalAtom_def)
  have "stream (writeTerm E R W (ApplT ''-'' [BigT z]) 1200 LOCAL_max_depth ?g) = ?xs"
    using form assms(3,4,5) sgn sym
    by (simp add: writeTerm.simps write_compound.simps LOCAL_max_depth_def write_start_def ArgOfTerm_def prefix_start_def
        operand_end_def open_if_def close_if_def bracket_operand_def putAtom_def Let_def space_if_def set_lw_def wrput_def
        wrputs_def write_mpint_def protect_open_number_def protect_close_number_def)
  then have t: "Yap_plwrite E R W flags 0 m None (ApplT ''-'' [BigT z]) = pieces_text E W ?xs @ write_end flags"
    by (simp add: Yap_plwrite_def GLOBAL_MaxPriority_def Let_def)
  have "Yap_tokenizer E S (pieces_text E W ?xs @ write_end flags) =
      Scanned (toks (cell_of S no_vars) \<lparr>solo = True, adj = False\<rparr> ?xs @ [eot_tok]) no_vars"
  proof -
    have good: "list_all (good_piece E) ?xs" using assms(7) sym by (simp add: good_atom_def ascii_def)
    have fit: "written_text.fitting E W ?xs (write_end flags)"
      using assms(6) by (auto simp: written_text.fitting.simps [OF assms(1)] fits_before_def write_end_def alnum_def)
    show ?thesis using written_text.pieces_tokenized [OF assms(1) good fit write_end_blank [OF assms(6)]] by simp
  qed
  moreover have "toks c s ?xs = [Name_tok ''-'', Number_tok (BigT z :: 'a trm)]" for c s
    using assms(8,9) by (simp add: number_toks_def int_term_def)
  moreover have "Yap_Parse E R 1200 [Name_tok ''-'', Number_tok (BigT z), eot_tok] = Term_read (BigT (- z))"
  proof -
    have "neg_number E (BigT z) = Yap_gmp_neg_big E (BigT z)" by (simp add: neg_number_def)
    also have "\<dots> = box_rat E (- of_int z)" by (rule gmp.neg_big [OF G]) (simp add: big_num_def)
    also have "\<dots> = box_int E (- z)" using box_rat_of_int [of E "- z"] by simp
    also have "\<dots> = Inr (BigT (- z))" using assms(7,10) by (simp add: box_int_def int_term_def readable_int_def)
    finally have "parse_term E R 1200 \<lparr>tokptr = [Name_tok ''-'', Number_tok (BigT z), eot_tok], aux_sp = 0, shrunk = False\<rparr> =
        Parsed (BigT (- z)) \<lparr>tokptr = [eot_tok], aux_sp = 0, shrunk = False\<rparr>"
      by (simp add: parse_term_eq primary_def name_primary_def parse_rest_eq term_rest_def)
    then show ?thesis by (simp add: Yap_Parse_def parse_term_def after_parse_def)
  qed
  ultimately show ?thesis unfolding t by (simp add: read_text_Scanned)
qed

theorem minus_bignum_misread_witness:
  "read_text ref_env ex_scanner ex_reader (Yap_plwrite ref_env ex_reader ex_writer ex_flags 0 False None (ApplT ''-'' [BigT (2 ^ 70)]))
    = Some (Term_read (BigT (- (2 ^ 70))))"
proof (rule minus_bignum_misread [OF ref_text.written_text_axioms])
  show "pre_op ex_reader ''-'' = Some (200, 200)" by code_simp
  show "readable_int ref_env (2 ^ 70)"
    by (simp add: readable_int_def tag_gap_def ref_env_def fits_Int_def dec_digits.simps)
qed (simp_all add: ex_flags_def fits_Int_def)

text \<open>A name, a blank, and a bracket: which bracket it is goes by the flag before the name.\<close>

lemma name_blank_bracket:
  assumes "stands s (c # f @ '' ('' @ u) lx" and "chtype c = LC" and "list_all alnum f" and "list_all ascii (c # f)"
    and "\<not> ch_is (CHR '')'') (dropWhile (\<lambda>c. chtype c = BS) u)"
  shows "\<exists>lx'. scanned_as E S lx [Name_tok (c # f), Ponctuation_tok (if solo s then ''('' else ''l'')] lx'"
proof -
  obtain lx1 where lx1: "lex_step E S lx = Tokens [Name_tok (c # f)] lx1" "stands \<lparr>solo = solo s, adj = True\<rparr> ('' ('' @ u) lx1"
    using step_name [of s c f "'' ('' @ u" lx E S] assms by (auto simp: alnum_def)
  have "stands \<lparr>solo = solo s, adj = False\<rparr> (CHR ''('' # u) lx1" using stands_blank lx1(2) by fastforce
  then have "skip_layout (inp lx1) = CHR ''('' # u" "solo_flag lx1 = solo s" by (simp_all add: stands_def skip_layout_first)
  then obtain lx2 where "lex_step E S lx1 = Tokens [Ponctuation_tok (if solo s then ''('' else ''l'')] lx2"
    using assms(5) by (auto simp: lex_step_def scan_bracket_def Let_def)
  from scanned_as_trans [OF scanned_as_step [OF lx1(1)] scanned_as_step [OF this]] show ?thesis by auto
qed

lemma scanned_as_Scanned:
  assumes "scanned_as E S (lexer_start s) us lx'" and "Yap_tokenizer E S s = Scanned ts vt"
  shows "\<exists>vs. ts = us @ vs"
proof -
  obtain k where k: "\<And>n. scan_tokens E S (k + n) (lexer_start s) = with_tokens us (scan_tokens E S n lx')"
    using assms(1) by (auto simp: scanned_as_def)
  have "scan_tokens E S (length s + 1 + k) (lexer_start s) = Scanned ts vt"
    using scan_tokens_more [of E S "length s + 1" "lexer_start s" k] assms(2) by (simp add: Yap_tokenizer_def)
  with k [of "length s + 1"] show ?thesis by (auto simp: add.commute with_tokens_Scanned)
qed

text \<open>
  C40: in a text that begins with \<open>[],f (\<close> the token of the bracket behind the blank is \<open>l\<close>, that of a bracket that
  opens the arguments of \<open>f\<close>, whatever lower case name \<open>f\<close> is; with a lower case name \<open>g\<close> in place of the empty
  list it is \<open>(\<close>. The texts are ones on which the tokenizer returns, with no closing bracket behind the
  opening one.
\<close>

theorem bracket_after_nil_misread:
  assumes "chtype c = LC" and "list_all alnum f" and "list_all ascii (c # f)"
    and "chtype d = LC" and "list_all alnum g" and "list_all ascii (d # g)"
    and "\<not> ch_is (CHR '')'') (dropWhile (\<lambda>c. chtype c = BS) u)"
    and "Yap_tokenizer E S (''[],'' @ c # f @ '' ('' @ u) = Scanned ts vt"
    and "Yap_tokenizer E S (d # g @ '','' @ c # f @ '' ('' @ u) = Scanned ts' vt'"
  shows "(\<exists>us. ts = [Name_tok ''[]'', Ponctuation_tok '','', Name_tok (c # f), Ponctuation_tok ''l''] @ us)
    \<and> (\<exists>us. ts' = [Name_tok (d # g), Ponctuation_tok '','', Name_tok (c # f), Ponctuation_tok ''(''] @ us)"
proof -
  let ?v = "c # f @ '' ('' @ u" and ?s = "\<lparr>solo = True, adj = False\<rparr>"
  have start: "stands ?s t (lexer_start t)" for t by (simp add: stands_def lexer_start_def)
  have comma: "\<exists>lx'. lex_step E S lx = Tokens [Ponctuation_tok '','' :: 'a token] lx' \<and> stands (s\<lparr>adj := False\<rparr>) ?v lx'"
    if "stands s (CHR '','' # ?v) lx" for s lx
  proof -
    have "skip_layout (inp lx) = CHR '','' # ?v" "solo_flag lx = solo s" "1024 \<le> imgsz lx"
      using that by (simp_all add: stands_def skip_layout_first)
    then show ?thesis using assms(1) by (auto simp: lex_step_def scan_bracket_def Let_def stands_def)
  qed
  have nil: "\<exists>lx'. lex_step E S (lexer_start (''[],'' @ ?v)) = Tokens [Name_tok ''[]'' :: 'a token] lx'
      \<and> stands \<lparr>solo = False, adj = False\<rparr> (CHR '','' # ?v) lx'"
    by (simp add: lexer_start_def skip_layout_first lex_step_def scan_bracket_def Let_def stands_def)
  then obtain lx1 where lx1: "lex_step E S (lexer_start (''[],'' @ ?v)) = Tokens [Name_tok ''[]''] lx1"
    "stands \<lparr>solo = False, adj = False\<rparr> (CHR '','' # ?v) lx1" by blast
  from comma [OF lx1(2)] obtain lx2 where lx2: "lex_step E S lx1 = Tokens [Ponctuation_tok '',''] lx2"
    "stands \<lparr>solo = False, adj = False\<rparr> ?v lx2" by auto
  from name_blank_bracket [OF lx2(2) assms(1-3,7), of E S] obtain lx3
    where lx3: "scanned_as E S lx2 [Name_tok (c # f), Ponctuation_tok ''l''] lx3" by auto
  have 1: "\<exists>us. ts = [Name_tok ''[]'', Ponctuation_tok '','', Name_tok (c # f), Ponctuation_tok ''l''] @ us"
    using scanned_as_Scanned [OF scanned_as_trans [OF scanned_as_step [OF lx1(1)]
        scanned_as_trans [OF scanned_as_step [OF lx2(1)] lx3]] assms(8)] by simp
  obtain lx4 where lx4: "lex_step E S (lexer_start (d # g @ '','' @ ?v)) = Tokens [Name_tok (d # g)] lx4"
    "stands \<lparr>solo = True, adj = True\<rparr> (CHR '','' # ?v) lx4"
    using step_name [OF start [of "d # g @ '','' @ ?v"] assms(4-6), of E S] by (auto simp: alnum_def)
  from comma [OF lx4(2)] obtain lx5 where lx5: "lex_step E S lx4 = Tokens [Ponctuation_tok '',''] lx5"
    "stands \<lparr>solo = True, adj = False\<rparr> ?v lx5" by auto
  from name_blank_bracket [OF lx5(2) assms(1-3,7), of E S] obtain lx6
    where lx6: "scanned_as E S lx5 [Name_tok (c # f), Ponctuation_tok ''(''] lx6" by auto
  have "\<exists>us. ts' = [Name_tok (d # g), Ponctuation_tok '','', Name_tok (c # f), Ponctuation_tok ''(''] @ us"
    using scanned_as_Scanned [OF scanned_as_trans [OF scanned_as_step [OF lx4(1)]
        scanned_as_trans [OF scanned_as_step [OF lx5(1)] lx6]] assms(9)] by simp
  with 1 show ?thesis by blast
qed

theorem bracket_after_nil_misread_witness:
  "\<exists>ts vt us. Yap_tokenizer ref_env ex_scanner ''[],not (a,b)'' = Scanned ts vt
    \<and> ts = [Name_tok ''[]'', Ponctuation_tok '','', Name_tok ''not'', Ponctuation_tok ''l''] @ us"
proof -
  have "case Yap_tokenizer ref_env ex_scanner ''[],not (a,b)'' of Scanned ts vt \<Rightarrow> True | _ \<Rightarrow> False"
    "case Yap_tokenizer ref_env ex_scanner ''g,not (a,b)'' of Scanned ts vt \<Rightarrow> True | _ \<Rightarrow> False" by code_simp+
  then obtain ts vt ts' vt' where t: "Yap_tokenizer ref_env ex_scanner ''[],not (a,b)'' = Scanned ts vt"
    "Yap_tokenizer ref_env ex_scanner ''g,not (a,b)'' = Scanned ts' vt'" by (auto split: scanned.splits)
  have a: "chtype CHR ''n'' = LC" "list_all alnum ''ot''" "list_all ascii ''not''" "chtype CHR ''g'' = LC" "list_all alnum []"
    "list_all ascii ''g''" "\<not> ch_is (CHR '')'') (dropWhile (\<lambda>c. chtype c = BS) ''a,b)'')" by code_simp+
  show ?thesis
    using bracket_after_nil_misread [OF a, of ref_env ex_scanner ts vt ts' vt'] t by auto
qed

text \<open>A term that is misread for this reason, as \<open>not\<close> is an operator: the conjunction becomes two arguments.\<close>

lemma nil_conjunction_misread:
  "read_text ref_env ex_scanner ex_reader
      (Yap_plwrite ref_env ex_reader ex_writer ex_flags 0 False None
        (PairT TermNil (PairT (ApplT ''not'' [ApplT '','' [AtmT ''a'', AtmT ''b'']]) TermNil)))
    = Some (Term_read (PairT TermNil (PairT (ApplT ''not'' [AtmT ''a'', AtmT ''b'']) TermNil)))"
  by code_simp

section \<open>Reading back what has been written\<close>

interpretation print: printing "init_reader two_addresses" ref_env ex_writer vc ign hv ne
  for vc ign hv ne
  by unfold_locales (simp add: ex_writer_def)

interpretation print_text: printing_text "init_reader two_addresses" ref_env ex_writer vc ign hv ne ex_scanner
  for vc ign hv ne
  by unfold_locales

text \<open>
  C2: with the initial operators, the quoted text of a term is read as the same term: the tokenizer and
  the parser give it back with its variables replaced by those of the entries of their names, different
  ones by different ones. The term must be \<open>writable\<close>, that is, built from variables, lists, compound terms,
  atoms and integers as follows. Atoms are not empty, of less than 1024 characters between 1 and 127,
  do not begin with a full stop, and are legal if they are symbols; functors are not those of heaps and
  references. Integers are canonical, outside the gap of the tagged representation, not \<open>- 2 ^ 57\<close>, have less
  than 1000 digits, and fit on the stack with either sign. There are no postfix operators, accessors or \<open>$array\<close> terms, no
  \<open>$VAR\<close> term that the option would write as a name, no minus before a positive bignum and no sign before \<open>inf\<close>
  or \<open>nan\<close>; and either no atom \<open>[]\<close> or \<open>{}\<close> but for the ends of lists, or no prefix operator that is not a symbol.
  The term is no deeper than the limit of 200, its text has less than 4095 characters and is written without
  a full stop, its variables are on the global stack, both sides use escapes, the flag that writes lists of
  codes as strings is off, the addresses of atoms pass the test for a closing brace, and the field \<open>MaxArgs\<close>,
  which the code never sets, holds 0.
\<close>

theorem written_term_read_back:
  assumes "gmp_text E" and "low_addresses addr" and "\<not> write_strings_flag W" and "charescape W" and "char_escapes S"
    and "Quote_illegal_f flags" and "\<not> Fullstop_f flags"
    and "writable E (init_reader addr) (Ignore_ops_f flags) (Handle_vars_f flags) ne t" and "need t \<le> LOCAL_max_depth"
    and "\<forall>p \<in> cells_of t. global_cell W p"
    and "length (Yap_plwrite E (init_reader addr) W flags 0 m None t) < 4095"
  shows "\<exists>ix. inj_on ix (cells_of t)
    \<and> read_text E S (init_reader addr) (Yap_plwrite E (init_reader addr) W flags 0 m None t)
      = Some (Term_read (rename (\<lambda>p. new_var S (ix p)) t))"
proof -
  let ?R = "init_reader addr" and ?g = "write_start flags 0 m :: 'a wglbs"
  have P: "printing ?R E W"
    using assms(1,3) init_clear_ops [OF assms(2)] by (simp add: printing_def printing_axioms_def gmp_text_def)
  then have T: "printing_text ?R E W S"
    using assms(1,4,5) by (simp add: printing_text_def written_text_def written_text_axioms_def)
  have shape: "Yap_plwrite E ?R W flags 0 m None t = pieces_text E W (stream (writeTerm E ?R W t 1200 LOCAL_max_depth ?g)) @ write_end flags"
    by (simp add: Yap_plwrite_def GLOBAL_MaxPriority_def Let_def)
  have "printing.opts (Ignore_ops_f flags) (Handle_vars_f flags) ?g" "stream ?g = []"
    using assms(6) by (simp_all add: printing.opts_def [OF P] write_start_def)
  moreover have "length (pieces_text E W (stream (writeTerm E ?R W t 1200 LOCAL_max_depth ?g))) < 4095"
    using assms(11) by (simp add: shape)
  ultimately obtain ws vt ix where "Yap_tokenizer E S (Yap_plwrite E ?R W flags 0 m None t) = Scanned ws vt"
    "Yap_Parse E ?R 1200 ws = Term_read (rename (\<lambda>p. new_var S (ix p)) t)" "inj_on ix (cells_of t)"
    using printing_text.written_text_reads [OF T assms(8) _ assms(9) _ _ write_end_blank [OF assms(7)], of ?g] assms(10)
    unfolding shape by (auto simp: printing_text.global_cells_def [OF T])
  then show ?thesis by (auto simp: read_text_Scanned)
qed

text \<open>An instance: \<open>- ['Bar',_1|_2]\<close>.\<close>

lemma init_minus: "pre_op (init_reader addr) ''-'' = Some (200, 200)"
proof -
  have "decl_word PREFIX_OP ''-'' Ops 0 = flagged 7 200" by (simp add: decl_word_def Ops_def kind_def)
  then show ?thesis
    using prio_of_flagged [of 7 200]
    by (simp add: init_reader_def IsOp_word(1) [OF entries_ok_InitOps] op_word_InitOps Let_def)
qed

theorem written_term_read_back_witness:
  "\<exists>ix. ix (16 :: cell) \<noteq> ix 8
    \<and> read_text ref_env ex_scanner (init_reader two_addresses) (Yap_plwrite ref_env (init_reader two_addresses) ex_writer ex_flags 0
        False None (ApplT ''-'' [PairT (AtmT ''Bar'') (PairT (VarT 8) (VarT 16))]))
      = Some (Term_read (ApplT ''-'' [PairT (AtmT ''Bar'') (PairT (VarT (new_var ex_scanner (ix 8))) (VarT (new_var ex_scanner (ix 16))))]))"
proof -
  let ?R = "init_reader two_addresses" and ?t = "ApplT ''-'' [PairT (AtmT ''Bar'') (PairT (VarT 8) (VarT 16))] :: rat trm"
  have form: "form_of ?R False ''-'' [x :: rat trm] = Prefix_form 200 200" for x
    by (simp add: form_of_def init_minus)
  have addr: "low_addresses two_addresses"
    by (simp add: low_addresses_def two_addresses_def MkAtomTerm_def TAGGEDA_def AtomTag_def MKTAG_def)
  have w: "writable ref_env ?R False False False ?t"
    using form by (simp add: good_form_def good_atom_def ascii_def symbol_name_def AtomIsSymbols_def legalAtom_def chtype_def
        Yap_chtype0_def sign_ok_def ArgOfTerm_def AtomDBref_def)
  have "stream (writeTerm ref_env ?R ex_writer ?t 1200 LOCAL_max_depth (write_start ex_flags 0 False)) =
      [Atom_piece True ''-'', Chars ''['', Atom_piece True ''Bar'', Chars '','', Var_piece 1, Chars ''|'', Var_piece 2, Chars '']'']"
    using form
    by (simp add: writeTerm.simps write_compound.simps write_list.simps LOCAL_max_depth_def write_start_def ArgOfTerm_def
        prefix_start_def operand_end_def open_if_def close_if_def bracket_operand_def putAtom_def Let_def space_if_def
        set_lw_def wrput_def wrputs_def wrmark_def ex_flags_def ex_writer_def write_var_def list_tail_start_def TermNil_def
        AtomIsSymbols_def chtype_def Yap_chtype0_def)
  then have l: "length (Yap_plwrite ref_env ?R ex_writer ex_flags 0 False None ?t) < 4095"
    by (simp add: Yap_plwrite_def GLOBAL_MaxPriority_def Let_def atom_text_def legalAtom_def quoted_def write_quoted_def ex_writer_def
        chtype_def Yap_chtype0_def sprintf_lld_def c_less_def dec_digits.simps write_end_def ex_flags_def)
  have "\<exists>ix. inj_on ix (cells_of ?t) \<and> read_text ref_env ex_scanner ?R (Yap_plwrite ref_env ?R ex_writer ex_flags 0 False None ?t)
      = Some (Term_read (rename (\<lambda>p. new_var ex_scanner (ix p)) ?t))"
    by (rule written_term_read_back [OF ref_gmp.gmp_text_axioms addr, where ne = False])
      (use w l in \<open>simp_all add: ex_writer_def ex_flags_def ex_scanner_def LOCAL_max_depth_def global_cell_def\<close>)
  then show ?thesis by simp
qed

end
