(* ===== verification/Spec2Isabelle.thy ===== *)
theory Spec2Isabelle
  imports YapArithDeviations YapCompareProps YapSortProps YapUnifyProps YapReaderProps
begin

text \<open>
  YAP is a Prolog system written in C. This development models its terms, arithmetic, standard order and
  sorting, unification, and its reader and writer, and proves what they compute.

  \<^bold>\<open>Layers of the program and theories\<close>

  \<^item> \<open>YapPrelude\<close>: machine words. A C \<open>Int\<close> is a 64 bit word read with \<open>sint\<close>; \<open>+\<close>, \<open>-\<close>, \<open>*\<close> wrap;
    \<open>c_div\<close>, \<open>c_mod\<close> truncate as C does; \<open>fits_Int\<close> is the range of \<open>Int\<close>, which is what the overflow
    builtins of the compiler test. An error is the left side of a sum, sequenced by \<open>bindE\<close>.
  \<^item> \<open>YapTags\<close>: the tagged 64 bit cells of \<open>H/Tags_64bits.h\<close> and \<open>H/YapTags.h\<close>.
  \<^item> \<open>YapTerm\<close>: terms as a datatype with one constructor per representation, recognisers and
    accessors of \<open>H/TermExt.h\<close>, the error values, and the record \<open>env\<close> of everything the code takes
    from outside: GMP, the operations on C doubles, libm, the room on the stack.
  \<^item> \<open>YapGmp\<close>: \<open>C/bignum.c\<close> and \<open>C/gmp_support.c\<close>, one definition per function. The locale \<open>gmp\<close> states
    the documented laws of the GMP functions used; \<open>YapGmpCorrect\<close> proves inside it what the YAP
    functions return, and \<open>YapGmpRef\<close> interprets it on an executable reference.
  \<^item> \<open>YapBits\<close>: the bit searches of \<open>C/arith1.c\<close>. \<open>Yap_msb\<close> has the three branches of its \<open>#if\<close>; the build is read
    from the environment. \<open>no_ffsll\<close> is the build with the binary search; the lemma \<open>msb_ffsll\<close> says what the
    other builds return, the least significant bit.
  \<^item> \<open>YapArith2\<close>, \<open>YapArith1\<close>: the operators of \<open>C/arith2.c\<close>, \<open>H/arith2.h\<close>, \<open>C/arith1.c\<close>, \<open>C/arith0.c\<close>,
    with their dispatch and name tables; \<open>YapArith2Correct\<close> relates the binary ones to the
    mathematical functions \<open>math2\<close> on the domain \<open>exact2\<close>.
  \<^item> \<open>YapEval\<close>: the evaluator \<open>Eval\<close> of \<open>C/eval.c\<close> with the matrix subscripts; \<open>YapEvalCorrect\<close> the
    canonical form of results and the refinement of the evaluation \<open>ieval\<close> over the integers.
  \<^item> \<open>YapArithProps\<close>, \<open>YapArithDeviations\<close>: the properties of arithmetic.
  \<^item> \<open>YapCompare\<close>: the standard order of terms and the arithmetic comparisons of \<open>C/cmppreds.c\<close>; the
    locale \<open>cell_identity\<close> states what the identity test on cells guarantees. \<open>YapCompareCorrect\<close> maps a
    term to a key in a linear order of the library and proves that the comparison is that order,
    which is the contract \<open>keyed_cmp\<close> the sorts use; \<open>YapCompareProps\<close> has the properties.
  \<^item> \<open>YapSort\<close>: the merge sorts of \<open>C/sort.c\<close> on the two lanes of a heap vector. \<open>YapSortCorrect\<close> and
    \<open>YapSortVector\<close> prove that they refine sorts on lists, for any comparison, and inside \<open>keyed_cmp\<close>
    that these sort; \<open>YapSortProps\<close> has the builtins on lists and the properties.

  \<^item> \<open>YapStore\<close>: the cells of the stacks, dereferencing, binding, trail and timed variables of
    \<open>H/amiops.h\<close> and \<open>C/mavar.c\<close>. \<open>YapUnify\<close>: \<open>Yap_IUnify\<close> of \<open>C/unify.c\<close> and the loop of \<open>H/absmi.h\<close> with its
    stack and the overwriting of visited cells. \<open>YapTree\<close>: the infinite trees that cells stand for, the abstract
    view; \<open>YapUnifyCorrect\<close>, \<open>YapUnifyLoop\<close>, \<open>YapUnifyEnds\<close> and \<open>YapUnifyTop\<close> prove that the loop keeps the set
    of solutions and when it ends; \<open>YapUnifyProps\<close> has the properties.
  \<^item> \<open>YapOps\<close>: operators (\<open>C/init.c\<close>, \<open>C/adtdefs.c\<close>, \<open>C/parser.c\<close>); \<open>YapOpsCorrect\<close> what a table holds after a
    declaration, \<open>YapInitOps\<close> the table YAP starts with.
  \<^item> \<open>YapChars\<close>, \<open>YapScanner\<close>: characters and the tokenizer of \<open>C/scanner.c\<close>; \<open>YapVars\<close> the table of variables of
    \<open>C/parser.c\<close>; \<open>YapScannerEnds\<close> proves that every round takes a character.
  \<^item> \<open>YapParser\<close>: the parser of \<open>C/parser.c\<close>. \<open>YapParserEnds\<close>: it ends, and more fuel changes
    nothing. \<open>YapGrammar\<close>: the grammar as rules, and the parser's soundness for it (locale
    \<open>sound_parsers\<close>). \<open>YapReadable\<close>: which texts it reads back, for operators without clashes (locale
    \<open>clear_ops\<close>, which \<open>YapInitOps\<close> interprets on the initial table).
  \<^item> \<open>YapWriter\<close>: the writer of \<open>C/write.c\<close>; \<open>YapPieces\<close> the tokens of the pieces of text it puts out; \<open>YapWriteRead\<close>
    proves by induction on its calls that these are read back (locale \<open>printing\<close>). \<open>YapLexing\<close>: the tokenizer finds
    the tokens of the pieces in their text when each may stand before the next (locale \<open>written_text\<close>);
    \<open>YapSpacing\<close>: the blanks and brackets that the writer puts keep its pieces apart so (locale \<open>printing_text\<close>).
    \<open>YapReaderProps\<close> has the properties of reader and writer.

  \<^bold>\<open>How the parts interact\<close>

  A goal \<open>X is E\<close> calls \<open>Eval\<close>, which looks the functor up in the operator tables and calls
  \<open>Yap_eval_unary\<close> or \<open>Yap_eval_binary\<close>; these dispatch on the operator and then on the kinds of the
  operands (\<open>ETypeOfTerm\<close>). Machine integers are handled in line with an overflow test; bignums,
  rationals and every overflow go to the functions of \<open>C/gmp_support.c\<close>. Results are boxed by
  \<open>MkIntegerTerm\<close> or \<open>MkBigAndClose\<close>, which choose the representation.

  \<^bold>\<open>What the theorems show\<close>

  The operators and the evaluator refine exact integer and rational arithmetic, with results in
  canonical form, on explicitly stated domains; outside them the deviations of the code are
  theorems too. What a result is, is said by \<open>gives\<close> and \<open>gives_rat\<close> through the number that the cell reads
  as, not through the functions that box it, so the numbers in the gap between payload and bound
  (\<open>tag_gap\<close>, \<open>rat_gap\<close>), which lose bits, are excluded where they occur. An error of an expression that
  evaluation reaches is the error of the whole, and the zero divisor error is characterised by operand. Tagging
  round trips hold on the payload range, and fail on the gap. Sorting
  is the stable sort by the standard order, which is a linear order on the terms of \<open>order_dom\<close> only.
  Unification computes a most general unifier of terms that are not themselves bignums, rationals, NaNs
  or signed zeros (\<open>top_boxes\<close>), and undoing the trail restores the memory. The
  tokenizer and the parser return on every text of characters below 256, the variable tokens stand for the
  variables of the text, the parser follows the grammar, and the text that is
  written of a term is read as the same term up to the names of variables, for the terms that are \<open>writable\<close>; the
  misreadings that are left out are theorems.

  \<^bold>\<open>Choices\<close>

  The configuration modelled is the 64 bit one with GMP and a C compiler that has the overflow
  builtins, without threads. A tagged integer is \<open>IntT i\<close>, where \<open>i\<close> is what reading the cell returns, so a value
  in the gap is already the wrong one. \<open>UNDEFINED_BEHAVIOUR\<close> marks reads outside an object; a signed
  overflow is modelled as wrapping. The loops of \<open>gcd\<close> and \<open>ipow\<close> terminate by a measure;
  \<open>rationalize\<close>, \<open>Derefa\<close> and the loop of unification may not end and are partial functions.
  The parser has fuel, four times the number of tokens and four more, as every second call of its
  functions takes a token; the tokenizer has as much as the text has characters and one more, as every round
  takes one. That both are enough is proved. The writer recurses on the size of the term.
  The buffer of a number is not enlarged by \<open>number_overflow\<close>, so a number that writes more bytes than it has
  is \<open>Undefined_number\<close> (\<open>in_buffer\<close>). The stack of arguments of the parser shrinks when it is grown
  (\<open>grow_aux\<close>); an argument is lost, with undefined behaviour, only if it is read and then written beyond the
  end (\<open>aux_lost\<close>). \<open>stray_prop\<close> tells which atoms have a property that is no operator and stops the loop of \<open>NextOp\<close>.

  \<^bold>\<open>Not modelled\<close>

  The compiler, emulator, garbage collector, clause database, streams, tabling and the packages work on
  raw memory, generated code or the operating system. Of the reader: quasi quotations, characters above
  255, positions, comments kept for the caller, texts of messages. Of the writer: portraying,
  attributed variables, blobs. Of unification: the occurs check, \<open>unifiable/3\<close> and the
  wake-up of attributed variables. Doubles are an abstract type. Outside unification the marking of cyclic terms
  is left out, so terms are finite trees. Stacks and heap have room unless a definition says otherwise.
\<close>

end
